(* ===== verification/Prelude.thy ===== *)
theory Prelude
  imports Main "HOL-Library.Word" "HOL-Library.AList" "HOL-Library.Multiset"
begin

text \<open>
  Shared vocabulary of the QMux development.

  \<^item> names for Go's machine integers (\<open>byte\<close>, \<open>u8\<close>, \<open>u32\<close>, \<open>u64\<close>); Go's signed \<open>int\<close>
    and \<open>int64\<close> counters are HOL integers, and the invariants of the components bound them;
  \<^item> the parts of Go's standard library several components use: big-endian integers of
    \<^verbatim>\<open>encoding/binary\<close>, \<^verbatim>\<open>copy\<close> into a slice, compare-and-swap loops of \<^verbatim>\<open>sync/atomic\<close>,
    \<^verbatim>\<open>cmp.Or\<close>;
  \<^item> Go maps as association lists with distinct keys (\<open>map_of\<close>, \<open>AList.update\<close>,
    \<open>AList.delete\<close>), and the sums over their entries that the accounting lemmas need;
  \<^item> the collections \<open>qmux_defs\<close> (constants and small operations unfolded everywhere) and
    \<open>alist_simps\<close> (sums and lengths after a map update).
\<close>

named_theorems qmux_defs "constants and small operations of the program"
named_theorems alist_simps "sums, lengths and keys after a map update or delete"

section \<open>Machine integers and byte strings\<close>

type_synonym byte = "8 word"
type_synonym u8 = "8 word"
type_synonym u32 = "32 word"
type_synonym u64 = "64 word"

text \<open>
  Big-endian integers: \<open>be_bytes n x\<close> is what \<^verbatim>\<open>binary.BigEndian.PutUint\<close> stores for an
  \<open>n\<close>-byte integer, \<open>be_val\<close> what \<^verbatim>\<open>binary.BigEndian.Uint\<close> reads.
\<close>

fun be_bytes :: "nat \<Rightarrow> nat \<Rightarrow> byte list" where
  "be_bytes 0 x = []"
| "be_bytes (Suc n) x = be_bytes n (x div 256) @ [of_nat (x mod 256)]"

fun be_val :: "nat \<Rightarrow> byte list \<Rightarrow> nat" where
  "be_val acc [] = acc"
| "be_val acc (b # bs) = be_val (acc * 256 + unat b) bs"

definition PutUint32 :: "u32 \<Rightarrow> byte list" where
  "PutUint32 w = be_bytes 4 (unat w)"

definition PutUint64 :: "u64 \<Rightarrow> byte list" where
  "PutUint64 w = be_bytes 8 (unat w)"

definition Uint32 :: "byte list \<Rightarrow> u32" where
  "Uint32 bs = of_nat (be_val 0 bs)"

definition Uint64 :: "byte list \<Rightarrow> u64" where
  "Uint64 bs = of_nat (be_val 0 bs)"

text \<open>\<open>slice i j xs\<close> is Go's \<^verbatim>\<open>xs[i:j]\<close> (in range), \<open>write_at i src dst\<close> is
  \<^verbatim>\<open>copy(dst[i:], src)\<close>: the bytes that fit, the rest of \<open>dst\<close> untouched.\<close>

definition slice :: "nat \<Rightarrow> nat \<Rightarrow> 'a list \<Rightarrow> 'a list" where
  "slice i j xs = take (j - i) (drop i xs)"

definition write_at :: "nat \<Rightarrow> 'a list \<Rightarrow> 'a list \<Rightarrow> 'a list" where
  "write_at i src dst =
     take i dst @ take (length dst - i) src @ drop (i + length src) dst"

text \<open>\<^verbatim>\<open>cmp.Or(x, d)\<close>: the first argument unless it is the zero value.\<close>

definition cmp_Or :: "'a::zero \<Rightarrow> 'a \<Rightarrow> 'a" where
  "cmp_Or x d = (if x = 0 then d else x)"

text \<open>
  A compare-and-swap loop: load the value, decide, try to swap, start over when another
  goroutine changed the value in between. \<open>body v\<close> is the decision on the loaded value:
  \<open>Inl r\<close> returns \<open>r\<close> without writing, \<open>Inr (v', r)\<close> tries to write \<open>v'\<close> and then returns
  \<open>r\<close>. The list is the environment: the value the counter holds at the swap of each round
  in turn; once it is exhausted the other goroutines leave the counter alone. The result is
  the value returned and the final value of the counter.
\<close>

fun cas_loop :: "('v \<Rightarrow> 'r + 'v \<times> 'r) \<Rightarrow> 'v \<Rightarrow> 'v list \<Rightarrow> 'r \<times> 'v" where
  "cas_loop body v [] = (case body v of Inl r \<Rightarrow> (r, v) | Inr (v', r) \<Rightarrow> (r, v'))"
| "cas_loop body v (e # env) =
     (case body v of Inl r \<Rightarrow> (r, v)
      | Inr (v', r) \<Rightarrow> if e = v then (r, v') else cas_loop body e env)"

section \<open>Lemmas on machine integers and byte strings\<close>

lemma length_be_bytes [simp]: "length (be_bytes n x) = n"
  by (induction n arbitrary: x) auto

lemma be_val_append: "be_val acc (xs @ ys) = be_val (be_val acc xs) ys"
  by (induction xs arbitrary: acc) auto

lemma be_val_be_bytes: "be_val acc (be_bytes n x) = acc * 256 ^ n + x mod 256 ^ n"
proof (induction n arbitrary: x)
  case 0
  show ?case by simp
next
  case (Suc n)
  have "unat (of_nat (x mod 256) :: byte) = x mod 256"
    by (simp add: unat_of_nat)
  moreover have "x mod 256 ^ Suc n = (x div 256 mod 256 ^ n) * 256 + x mod 256"
    by (simp add: mod_mult2_eq [of x 256] mult.commute)
  ultimately show ?case
    by (simp add: be_val_append Suc.IH algebra_simps)
qed

lemma be_val_bound: "be_val acc bs < (acc + 1) * 256 ^ length bs"
proof (induction bs arbitrary: acc)
  case Nil
  show ?case by simp
next
  case (Cons b bs)
  have b: "unat b < 256"
    using unsigned_less [of b, where ?'a = nat] by simp
  have "be_val (acc * 256 + unat b) bs < (acc * 256 + unat b + 1) * 256 ^ length bs"
    by (rule Cons.IH)
  also have "\<dots> \<le> ((acc + 1) * 256) * 256 ^ length bs"
    using b by (intro mult_right_mono) auto
  finally show ?case by (simp add: algebra_simps)
qed

lemma be_bytes_be_val: "be_bytes (length bs) (be_val 0 bs) = bs"
proof (induction bs rule: rev_induct)
  case Nil
  show ?case by simp
next
  case (snoc b bs)
  have "unat b < 256"
    using unsigned_less [of b, where ?'a = nat] by simp
  with snoc.IH show ?case
    by (simp add: be_val_append)
qed

lemma length_PutUint32 [simp]: "length (PutUint32 w) = 4"
  by (simp add: PutUint32_def)

lemma length_PutUint64 [simp]: "length (PutUint64 w) = 8"
  by (simp add: PutUint64_def)

lemma Uint32_PutUint32 [simp]: "Uint32 (PutUint32 w) = w"
  using unsigned_less [of w, where ?'a = nat] by (simp add: Uint32_def PutUint32_def be_val_be_bytes)

lemma Uint64_PutUint64 [simp]: "Uint64 (PutUint64 w) = w"
  using unsigned_less [of w, where ?'a = nat] by (simp add: Uint64_def PutUint64_def be_val_be_bytes)

lemma PutUint32_Uint32: "length bs = 4 \<Longrightarrow> PutUint32 (Uint32 bs) = bs"
  using be_val_bound [of 0 bs] be_bytes_be_val [of bs]
  by (simp add: PutUint32_def Uint32_def unat_of_nat)

lemma PutUint64_Uint64: "length bs = 8 \<Longrightarrow> PutUint64 (Uint64 bs) = bs"
  using be_val_bound [of 0 bs] be_bytes_be_val [of bs]
  by (simp add: PutUint64_def Uint64_def unat_of_nat)

lemma unat_Uint32: "length bs = 4 \<Longrightarrow> unat (Uint32 bs) = be_val 0 bs"
  using be_val_bound [of 0 bs] by (simp add: Uint32_def unat_of_nat)

lemma PutUint32_inject [simp]: "PutUint32 v = PutUint32 w \<longleftrightarrow> v = w"
  by (metis Uint32_PutUint32)

lemma take_slice: "i \<le> j \<Longrightarrow> take i xs @ slice i j xs = take j xs"
  by (metis slice_def le_add_diff_inverse take_add)

lemma take_one: "n \<le> length g \<Longrightarrow> 0 < n \<Longrightarrow> take (Suc 0) g = [g ! 0]"
  by (cases g) auto

lemma length_slice [simp]: "length (slice i j xs) = min (j - i) (length xs - i)"
  by (simp add: slice_def min.commute)

lemma take_app_drop3: "take n xs @ take m (drop n xs) @ drop (n + m) xs = xs"
  by (metis append_take_drop_id drop_drop add.commute)

lemma length_write_at [simp]: "length (write_at i src dst) = length dst"
  by (auto simp: write_at_def)

lemma write_at_prefix: "length src \<le> length dst \<Longrightarrow>
    write_at 0 src dst = src @ drop (length src) dst"
  by (simp add: write_at_def)

lemma write_at_append: "i = length xs \<Longrightarrow> length src \<le> length ys \<Longrightarrow>
    write_at i src (xs @ ys) = xs @ src @ drop (length src) ys"
  by (simp add: write_at_def)

text \<open>The loop is atomic: it acts on some value the counter had during the call.\<close>

lemma cas_loop_linearizes:
  "\<exists>w \<in> set (v # env). cas_loop body v env =
     (case body w of Inl r \<Rightarrow> (r, w) | Inr (w', r) \<Rightarrow> (r, w'))"
proof (induction env arbitrary: v)
  case Nil
  show ?case by (simp split: sum.split)
next
  case (Cons e env)
  show ?case
  proof (cases "body v")
    case (Inl r)
    then show ?thesis by (intro bexI [of _ v]) simp_all
  next
    case (Inr p)
    with Cons.IH [of e] show ?thesis
      by (cases p) (auto intro: bexI [of _ v])
  qed
qed

section \<open>Lemmas on maps and sums\<close>

text \<open>The sum of a quantity over the entries of a map.\<close>

abbreviation sum_entries :: "('v \<Rightarrow> int) \<Rightarrow> ('k \<times> 'v) list \<Rightarrow> int" where
  "sum_entries f m \<equiv> sum_list (map (f \<circ> snd) m)"

abbreviation keys :: "('k \<times> 'v) list \<Rightarrow> 'k list" where
  "keys m \<equiv> map fst m"

lemma delete_absent: "map_of m k = None \<Longrightarrow> AList.delete k m = m"
  by (simp add: map_of_eq_None_iff delete_id)

lemma mset_delete: "distinct (keys m) \<Longrightarrow> map_of m k = Some v \<Longrightarrow>
    mset m = add_mset (k, v) (mset (AList.delete k m))"
proof (induction m)
  case (Cons e m)
  obtain a b where e: "e = (a, b)" by (cases e)
  show ?case
  proof (cases "a = k")
    case True
    with Cons.prems show ?thesis by (simp add: e delete_id)
  next
    case False
    with Cons.prems Cons.IH show ?thesis by (simp add: e)
  qed
qed simp

lemma mset_update: "distinct (keys m) \<Longrightarrow>
    mset (AList.update k v m) = add_mset (k, v) (mset (AList.delete k m))"
proof (induction m)
  case (Cons e m)
  obtain a b where e: "e = (a, b)" by (cases e)
  show ?case
  proof (cases "a = k")
    case True
    with Cons.prems show ?thesis by (simp add: e delete_id)
  next
    case False
    with Cons.prems Cons.IH show ?thesis by (simp add: e)
  qed
qed simp

lemma mset_concat_update: "i < length xss \<Longrightarrow>
    mset (concat (xss[i := ys])) + mset (xss ! i) = mset (concat xss) + mset ys"
proof (induction xss arbitrary: i)
  case (Cons xs xss)
  then show ?case
    by (cases i) (auto simp: ac_simps)
qed simp

lemma mset_concat_delete: "i < length ms \<Longrightarrow> distinct (keys (ms ! i)) \<Longrightarrow>
    map_of (ms ! i) k = Some v \<Longrightarrow>
    mset (concat ms) = add_mset (k, v) (mset (concat (ms[i := AList.delete k (ms ! i)])))"
  using mset_concat_update [of i ms "AList.delete k (ms ! i)"] mset_delete [of "ms ! i" k v]
  by simp

lemma mset_concat_put:
  assumes "i < length ms" and "distinct (keys (ms ! i))"
  shows "mset (concat (ms[i := AList.update k v (ms ! i)])) =
    add_mset (k, v) (mset (concat (ms[i := AList.delete k (ms ! i)])))" (is "?U = add_mset _ ?D")
proof -
  have "?U + mset (ms ! i) = mset (concat ms) + add_mset (k, v) (mset (AList.delete k (ms ! i)))"
    using assms by (simp add: mset_concat_update mset_update)
  also have "\<dots> = add_mset (k, v) ?D + mset (ms ! i)"
    using mset_concat_update [OF assms(1), of "AList.delete k (ms ! i)"] by simp
  finally show ?thesis by simp
qed

lemma distinct_keys_delete [simp]: "distinct (keys m) \<Longrightarrow> distinct (keys (AList.delete k m))"
  by (rule distinct_delete)

lemma distinct_keys_update [simp]: "distinct (keys m) \<Longrightarrow> distinct (keys (AList.update k v m))"
  by (rule distinct_update)

text \<open>What depends only on the multiset of the entries.\<close>

lemma mset_concat_map: "mset (concat (map f es)) = \<Sum>\<^sub># (image_mset (mset \<circ> f) (mset es))"
  by (induction es) auto

lemma sum_entries_mset: "sum_entries f es = \<Sum>\<^sub># (image_mset (f \<circ> snd) (mset es))"
  by (induction es) auto

text \<open>Counting after one element of a list changes.\<close>

lemma length_filter_update: "i < length xs \<Longrightarrow>
    int (length (filter P (xs[i := x]))) =
      int (length (filter P xs)) - (if P (xs ! i) then 1 else 0) + (if P x then 1 else 0)"
proof (induction xs arbitrary: i)
  case (Cons a xs)
  show ?case
  proof (cases i)
    case 0
    then show ?thesis by simp
  next
    case (Suc j)
    with Cons.IH [of j] Cons.prems show ?thesis by (auto split: if_splits)
  qed
qed simp

lemma length_update_new: "map_of m k = None \<Longrightarrow> length (AList.update k v m) = Suc (length m)"
  by (induction m) (auto split: if_splits)

lemma length_delete: "distinct (keys m) \<Longrightarrow> map_of m k = Some v \<Longrightarrow>
    Suc (length (AList.delete k m)) = length m"
  using mset_delete [of m k v] by (metis length_Cons mset.simps(2) mset_eq_length)

lemma mem_update: "distinct (keys m) \<Longrightarrow>
    (i, x) \<in> set (AList.update k v m) \<longleftrightarrow> (if i = k then x = v else (i, x) \<in> set m)"
  by (metis distinct_keys_update map_of_eq_Some_iff update_Some_unfold)

lemma mem_delete: "(i, x) \<in> set (AList.delete k m) \<longleftrightarrow> i \<noteq> k \<and> (i, x) \<in> set m"
  by (auto simp: AList.delete_eq)

lemma keys_delete: "set (keys (AList.delete k m)) = set (keys m) - {k}"
  by (auto simp: AList.delete_eq)

section \<open>Machines\<close>

text \<open>The state after a sequence of operations, and that each of them was allowed where it happened. A
  machine whose operations keep an invariant keeps it along every allowed sequence.\<close>

fun exec :: "('op \<Rightarrow> 's \<Rightarrow> 's) \<Rightarrow> 'op list \<Rightarrow> 's \<Rightarrow> 's" where
  "exec step [] s = s"
| "exec step (op # ops) s = exec step ops (step op s)"

fun exec_ok :: "('op \<Rightarrow> 's \<Rightarrow> bool) \<Rightarrow> ('op \<Rightarrow> 's \<Rightarrow> 's) \<Rightarrow> 'op list \<Rightarrow> 's \<Rightarrow> bool" where
  "exec_ok valid step [] s \<longleftrightarrow> True"
| "exec_ok valid step (op # ops) s \<longleftrightarrow> valid op s \<and> exec_ok valid step ops (step op s)"

lemma exec_append: "exec step (xs @ ys) s = exec step ys (exec step xs s)"
  by (induction xs arbitrary: s) simp_all

lemma exec_ok_append: "exec_ok valid step (xs @ ys) s \<longleftrightarrow> exec_ok valid step xs s \<and> exec_ok valid step ys (exec step xs s)"
  by (induction xs arbitrary: s) simp_all

locale machine =
  fixes valid :: "'op \<Rightarrow> 's \<Rightarrow> bool" and step :: "'op \<Rightarrow> 's \<Rightarrow> 's" and inv :: "'s \<Rightarrow> bool"
  assumes step_inv: "inv s \<Longrightarrow> valid op s \<Longrightarrow> inv (step op s)"
begin

lemma exec_inv: "inv s \<Longrightarrow> exec_ok valid step ops s \<Longrightarrow> inv (exec step ops s)"
  by (induction ops arbitrary: s) (simp_all add: step_inv)

end

end
