(* ===== verification/Udp_Buffer_Pool.thy ===== *)
theory Udp_Buffer_Pool
  imports Prelude
begin

text \<open>
  The pooled buffers of \<^verbatim>\<open>protocol/udp_buffer_pool.go\<close>. A buffer is the slice header the
  pool hands out: the address of its backing array, its length and its capacity. The pool is
  the process-wide \<^verbatim>\<open>udpPool\<close>; \<open>nextAddr\<close> is the allocator of fresh backing arrays.

  \<open>owned H p\<close> is the ownership discipline: \<open>H\<close> is the set of addresses checked out by the
  pool's clients; no free buffer is held, none is free twice, and every pooled buffer of the
  datagram and fragment tiers has its tier's size. The locale \<open>buffer_tier\<close> states what a
  client may rely on in one tier, and is interpreted on the three tiers of the code.
\<close>

record gbuf =
  gb_addr :: nat
  gb_len :: nat
  gb_cap :: nat

record UDPBufferPool =
  datagramPool :: "gbuf list"
  readPool :: "gbuf list"
  fragmentPool :: "gbuf list"
  nextAddr :: nat

definition MaxDatagramSize :: nat where [qmux_defs]: "MaxDatagramSize = 1200"
definition UDPHeaderSize :: nat where [qmux_defs]: "UDPHeaderSize = 5"
definition UDPFragHeaderSize :: nat where [qmux_defs]: "UDPFragHeaderSize = 15"
definition MaxUDPPayload :: nat where [qmux_defs]: "MaxUDPPayload = MaxDatagramSize - UDPHeaderSize"
definition MaxFragPayload :: nat where [qmux_defs]: "MaxFragPayload = MaxDatagramSize - UDPFragHeaderSize"
definition DatagramBufferSize :: nat where [qmux_defs]: "DatagramBufferSize = MaxDatagramSize"
definition ReadBufferSize :: nat where [qmux_defs]: "ReadBufferSize = 65535"
definition FragmentBufferSize :: nat where [qmux_defs]: "FragmentBufferSize = MaxFragPayload"

text \<open>\<^verbatim>\<open>sync.Pool.Get\<close>: a pooled buffer if there is one, else a new one of \<open>sz\<close> bytes.\<close>

definition newBuffer :: "nat \<Rightarrow> UDPBufferPool \<Rightarrow> gbuf \<times> UDPBufferPool" where
  "newBuffer sz p =
     (\<lparr>gb_addr = nextAddr p, gb_len = sz, gb_cap = sz\<rparr>, p\<lparr>nextAddr := Suc (nextAddr p)\<rparr>)"

definition GetDatagramBuffer :: "UDPBufferPool \<Rightarrow> gbuf \<times> UDPBufferPool" where
  "GetDatagramBuffer p = (case datagramPool p of
       [] \<Rightarrow> newBuffer DatagramBufferSize p
     | b # bs \<Rightarrow> (b, p\<lparr>datagramPool := bs\<rparr>))"

definition datagramBufferPoolable :: "gbuf option \<Rightarrow> bool" where
  "datagramBufferPoolable buf = (case buf of None \<Rightarrow> False
     | Some b \<Rightarrow> gb_len b = DatagramBufferSize \<and> gb_cap b = DatagramBufferSize)"

definition PutDatagramBuffer :: "gbuf option \<Rightarrow> UDPBufferPool \<Rightarrow> UDPBufferPool" where
  "PutDatagramBuffer buf p =
     (if \<not> datagramBufferPoolable buf then p
      else p\<lparr>datagramPool := the buf # datagramPool p\<rparr>)"

definition GetReadBuffer :: "UDPBufferPool \<Rightarrow> gbuf \<times> UDPBufferPool" where
  "GetReadBuffer p = (case readPool p of
       [] \<Rightarrow> newBuffer ReadBufferSize p
     | b # bs \<Rightarrow> (b, p\<lparr>readPool := bs\<rparr>))"

definition PutReadBuffer :: "gbuf option \<Rightarrow> UDPBufferPool \<Rightarrow> UDPBufferPool" where
  "PutReadBuffer buf p = (case buf of None \<Rightarrow> p
     | Some b \<Rightarrow> if gb_len b \<noteq> ReadBufferSize then p else p\<lparr>readPool := b # readPool p\<rparr>)"

definition GetFragmentBuffer :: "UDPBufferPool \<Rightarrow> gbuf \<times> UDPBufferPool" where
  "GetFragmentBuffer p = (case fragmentPool p of
       [] \<Rightarrow> newBuffer FragmentBufferSize p
     | b # bs \<Rightarrow> (b, p\<lparr>fragmentPool := bs\<rparr>))"

definition PutFragmentBuffer :: "gbuf option \<Rightarrow> UDPBufferPool \<Rightarrow> UDPBufferPool" where
  "PutFragmentBuffer buf p = (case buf of None \<Rightarrow> p
     | Some b \<Rightarrow> p\<lparr>fragmentPool := b # fragmentPool p\<rparr>)"

text \<open>The addresses that are free, and the ownership discipline.\<close>

definition free_addrs :: "UDPBufferPool \<Rightarrow> nat list" where
  "free_addrs p = map gb_addr (datagramPool p @ readPool p @ fragmentPool p)"

definition sized :: "nat \<Rightarrow> gbuf \<Rightarrow> bool" where
  "sized n b \<longleftrightarrow> gb_len b = n \<and> gb_cap b = n"

definition addr_ok :: "nat set \<Rightarrow> nat list \<Rightarrow> nat \<Rightarrow> bool" where
  "addr_ok H fs n \<longleftrightarrow> distinct fs \<and> set fs \<inter> H = {} \<and> (\<forall>a \<in> set fs \<union> H. a < n)"

definition owned :: "nat set \<Rightarrow> UDPBufferPool \<Rightarrow> bool" where
  "owned H p \<longleftrightarrow> addr_ok H (free_addrs p) (nextAddr p) \<and>
     list_all (sized DatagramBufferSize) (datagramPool p) \<and>
     list_all (sized ReadBufferSize) (readPool p) \<and>
     list_all (sized FragmentBufferSize) (fragmentPool p)"

section \<open>The contract of one tier\<close>

locale buffer_tier =
  fixes Get :: "UDPBufferPool \<Rightarrow> gbuf \<times> UDPBufferPool"
    and Put :: "gbuf option \<Rightarrow> UDPBufferPool \<Rightarrow> UDPBufferPool"
    and bufsize :: nat
  assumes get_sized: "owned H p \<Longrightarrow> Get p = (b, p') \<Longrightarrow> sized bufsize b"
    and get_owned: "owned H p \<Longrightarrow> Get p = (b, p') \<Longrightarrow>
      gb_addr b \<notin> H \<and> owned (insert (gb_addr b) H) p'"
    and put_owned: "owned H p \<Longrightarrow> sized bufsize b \<Longrightarrow> gb_addr b \<in> H \<Longrightarrow>
      owned (H - {gb_addr b}) (Put (Some b) p)"
    and put_nil: "Put None p = p"
begin

text \<open>Returning a list of distinct held buffers releases exactly those.\<close>

lemma put_all_owned:
  assumes "owned H p" and "list_all (sized bufsize) bs" and "distinct (map gb_addr bs)"
    and "gb_addr ` set bs \<subseteq> H"
  shows "owned (H - gb_addr ` set bs) (fold (\<lambda>b. Put (Some b)) bs p)"
  using assms
proof (induction bs arbitrary: H p)
  case Nil
  then show ?case by simp
next
  case (Cons b bs)
  let ?H = "H - {gb_addr b}"
  have "owned ?H (Put (Some b) p)"
    using Cons.prems by (intro put_owned) auto
  moreover have "gb_addr ` set bs \<subseteq> ?H"
    using Cons.prems(3,4) by (metis Diff_insert0 Diff_empty distinct.simps(2) insert_subset
        list.simps(9,15) image_insert list.set_map subset_Diff_insert)
  ultimately have "owned (?H - gb_addr ` set bs) (fold (\<lambda>b. Put (Some b)) bs (Put (Some b) p))"
    using Cons.prems by (intro Cons.IH) auto
  moreover have "?H - gb_addr ` set bs = H - gb_addr ` set (b # bs)"
    by auto
  ultimately show ?case by simp
qed

text \<open>Handing a freshly taken buffer straight back restores the holdings.\<close>

lemma get_put_owned:
  assumes "owned H p" and "Get p = (b, p')"
  shows "owned H (Put (Some b) p')"
proof -
  from get_owned [OF assms] have new: "gb_addr b \<notin> H" and own: "owned (insert (gb_addr b) H) p'"
    by auto
  have "owned (insert (gb_addr b) H - {gb_addr b}) (Put (Some b) p')"
    using own get_sized [OF assms] by (intro put_owned) auto
  with new show ?thesis by simp
qed

end

lemma owned_less: "owned H p \<Longrightarrow> a \<in> H \<Longrightarrow> a < nextAddr p"
  by (auto simp: owned_def addr_ok_def)

lemma owned_empty: "owned {} \<lparr>datagramPool = [], readPool = [], fragmentPool = [], nextAddr = 0\<rparr>"
  by (simp add: owned_def addr_ok_def free_addrs_def)

lemma addr_ok_take:
  assumes "addr_ok H (xs @ a # ys) n"
  shows "a \<notin> H" and "addr_ok (insert a H) (xs @ ys) n"
  using assms by (auto simp: addr_ok_def)

lemma addr_ok_give: "addr_ok H (xs @ ys) n \<Longrightarrow> a \<in> H \<Longrightarrow> addr_ok (H - {a}) (xs @ a # ys) n"
  by (auto simp: addr_ok_def)

lemma addr_ok_new: "addr_ok H fs n \<Longrightarrow> n \<notin> H \<and> addr_ok (insert n H) fs (Suc n)"
  by (auto simp: addr_ok_def less_Suc_eq)

lemma owned_new:
  assumes "owned H p" and "newBuffer n p = (b, p')"
  shows "sized n b \<and> gb_addr b \<notin> H \<and> owned (insert (gb_addr b) H) p'"
  using assms addr_ok_new [of H "free_addrs p" "nextAddr p"]
  by (auto simp: newBuffer_def owned_def free_addrs_def sized_def)

lemma owned_take_datagram:
  assumes "owned H p" and "datagramPool p = b # bs"
  shows "sized DatagramBufferSize b \<and> gb_addr b \<notin> H \<and>
      owned (insert (gb_addr b) H) (p\<lparr>datagramPool := bs\<rparr>)"
  using assms addr_ok_take [of H "[]" "gb_addr b"] by (auto simp: owned_def free_addrs_def)

lemma owned_take_read:
  assumes "owned H p" and "readPool p = b # bs"
  shows "sized ReadBufferSize b \<and> gb_addr b \<notin> H \<and>
      owned (insert (gb_addr b) H) (p\<lparr>readPool := bs\<rparr>)"
  using assms addr_ok_take [of H "map gb_addr (datagramPool p)" "gb_addr b"]
  by (auto simp: owned_def free_addrs_def)

lemma owned_take_fragment:
  assumes "owned H p" and "fragmentPool p = b # bs"
  shows "sized FragmentBufferSize b \<and> gb_addr b \<notin> H \<and>
      owned (insert (gb_addr b) H) (p\<lparr>fragmentPool := bs\<rparr>)"
  using assms addr_ok_take [of H "map gb_addr (datagramPool p @ readPool p)" "gb_addr b"]
  by (auto simp: owned_def free_addrs_def)

lemma owned_give_datagram:
  assumes "owned H p" and "gb_addr b \<in> H" and "sized DatagramBufferSize b"
  shows "owned (H - {gb_addr b}) (p\<lparr>datagramPool := b # datagramPool p\<rparr>)"
  using assms addr_ok_give [of H "[]"] by (simp add: owned_def free_addrs_def)

lemma owned_give_read:
  assumes "owned H p" and "gb_addr b \<in> H" and "sized ReadBufferSize b"
  shows "owned (H - {gb_addr b}) (p\<lparr>readPool := b # readPool p\<rparr>)"
  using assms addr_ok_give [of H "map gb_addr (datagramPool p)"]
  by (simp add: owned_def free_addrs_def)

lemma owned_give_fragment:
  assumes "owned H p" and "gb_addr b \<in> H" and "sized FragmentBufferSize b"
  shows "owned (H - {gb_addr b}) (p\<lparr>fragmentPool := b # fragmentPool p\<rparr>)"
  using assms addr_ok_give [of H "map gb_addr (datagramPool p @ readPool p)"]
  by (simp add: owned_def free_addrs_def)

lemma get_datagram:
  assumes "owned H p" and "GetDatagramBuffer p = (b, p')"
  shows "sized DatagramBufferSize b \<and> gb_addr b \<notin> H \<and> owned (insert (gb_addr b) H) p'"
  using assms owned_new owned_take_datagram
  by (cases "datagramPool p") (fastforce simp: GetDatagramBuffer_def)+

lemma get_read:
  assumes "owned H p" and "GetReadBuffer p = (b, p')"
  shows "sized ReadBufferSize b \<and> gb_addr b \<notin> H \<and> owned (insert (gb_addr b) H) p'"
  using assms owned_new owned_take_read
  by (cases "readPool p") (fastforce simp: GetReadBuffer_def)+

lemma get_fragment:
  assumes "owned H p" and "GetFragmentBuffer p = (b, p')"
  shows "sized FragmentBufferSize b \<and> gb_addr b \<notin> H \<and> owned (insert (gb_addr b) H) p'"
  using assms owned_new owned_take_fragment
  by (cases "fragmentPool p") (fastforce simp: GetFragmentBuffer_def)+

lemma put_datagram: "sized DatagramBufferSize b \<Longrightarrow>
    PutDatagramBuffer (Some b) p = p\<lparr>datagramPool := b # datagramPool p\<rparr>"
  by (simp add: PutDatagramBuffer_def datagramBufferPoolable_def sized_def)

lemma put_read: "sized ReadBufferSize b \<Longrightarrow>
    PutReadBuffer (Some b) p = p\<lparr>readPool := b # readPool p\<rparr>"
  by (simp add: PutReadBuffer_def sized_def)

lemma put_fragment: "PutFragmentBuffer (Some b) p = p\<lparr>fragmentPool := b # fragmentPool p\<rparr>"
  by (simp add: PutFragmentBuffer_def)

interpretation datagram_tier: buffer_tier GetDatagramBuffer PutDatagramBuffer DatagramBufferSize
  using get_datagram
  by unfold_locales (auto simp: put_datagram owned_give_datagram
      PutDatagramBuffer_def [of None] datagramBufferPoolable_def [of None])

interpretation read_tier: buffer_tier GetReadBuffer PutReadBuffer ReadBufferSize
  using get_read
  by unfold_locales (auto simp: put_read owned_give_read PutReadBuffer_def [of None])

interpretation fragment_tier: buffer_tier GetFragmentBuffer PutFragmentBuffer FragmentBufferSize
  using get_fragment
  by unfold_locales (auto simp: put_fragment owned_give_fragment PutFragmentBuffer_def [of None])

end
