(* ===== verification/Udp_Datagram.thy ===== *)
theory Udp_Datagram
  imports Udp_Buffer_Pool
begin

text \<open>
  The UDP wire format of \<^verbatim>\<open>protocol/udp_fragment.go\<close>: the two datagram headers, splitting a
  packet into datagrams over pooled buffers (\<open>FragmentUDPPooled\<close>), strict decoding
  (\<open>DecodeUDPDatagram\<close>), and the identifiers (\<open>fragmentIdentity\<close>, \<open>AllocateUDPEpoch\<close>).

  A pooled buffer keeps the bytes of its last use: \<open>mem a\<close> is what the backing array at
  address \<open>a\<close> holds when it is taken from the pool. The lemmas show that no such byte ever
  reaches a datagram, that every datagram fits the QUIC payload limit, and that decoding the
  datagrams of a packet gives back the packet.
\<close>

section \<open>Data and operations\<close>

definition UDPDatagramTypeNormal :: byte where [qmux_defs]: "UDPDatagramTypeNormal = 0x20"
definition UDPDatagramTypeFragment :: byte where [qmux_defs]: "UDPDatagramTypeFragment = 0x22"

datatype udp_error =
    ErrPacketTooLarge | ErrInvalidFragIndex | ErrFragmentTotalMismatch | ErrDatagramTooShort
  | ErrDatagramTooLarge | ErrUnknownDatagramType | ErrInvalidFragTotal | ErrEmptyFragmentPayload
  | ErrFragmentAssemblerNil | ErrFragmentAssemblerClosed | ErrFragmentAssemblerFull
  | ErrFragmentationDisabled

record UDPDatagram =
  ud_Type :: byte
  ud_SessionID :: u32
  ud_IsFragmented :: bool
  ud_FragmentID :: u64
  ud_FragmentIndex :: u8
  ud_FragmentTotal :: u8
  ud_Payload :: "byte list"

record DatagramResult =
  dr_Data :: "byte list"
  dr_Buffer :: "gbuf option"

definition writeUDPHeader :: "byte list \<Rightarrow> u32 \<Rightarrow> byte list" where
  "writeUDPHeader dst sessionID =
     write_at 1 (PutUint32 sessionID) (dst[0 := UDPDatagramTypeNormal])"

definition writeUDPFragmentHeader ::
    "byte list \<Rightarrow> u32 \<Rightarrow> u64 \<Rightarrow> u8 \<Rightarrow> u8 \<Rightarrow> byte list" where
  "writeUDPFragmentHeader dst sessionID fragID index ftotal =
     (let d1 = dst[0 := UDPDatagramTypeFragment];
          d2 = write_at 1 (PutUint32 sessionID) d1;
          d3 = write_at 5 (PutUint64 fragID) d2
      in d3[13 := index, 14 := ftotal])"

definition fragmentIdentity :: "u32 \<Rightarrow> u32 \<Rightarrow> u64" where
  "fragmentIdentity epoch sequence = or (push_bit 32 (ucast epoch)) (ucast sequence)"

text \<open>The retry loop of \<open>AllocateUDPEpoch\<close>; \<open>env\<close> is the interference of other goroutines.
  The result is the pair returned and the final counter.\<close>

definition AllocateUDPEpoch :: "u32 \<Rightarrow> u32 list \<Rightarrow> (u32 \<times> bool) \<times> u32" where
  "AllocateUDPEpoch counter env =
     cas_loop (\<lambda>current. if current = - 1 then Inl (0, False)
                         else Inr (current + 1, (current + 1, True))) counter env"

fun ReleaseDatagramResults ::
    "DatagramResult list \<Rightarrow> UDPBufferPool \<Rightarrow> DatagramResult list \<times> UDPBufferPool" where
  "ReleaseDatagramResults [] p = ([], p)"
| "ReleaseDatagramResults (r # rs) p =
     (let (r', p1) = (if dr_Buffer r \<noteq> None
                      then (r\<lparr>dr_Buffer := None\<rparr>, PutDatagramBuffer (dr_Buffer r) p)
                      else (r, p));
          (rs', p2) = ReleaseDatagramResults rs p1
      in (r' # rs', p2))"

text \<open>The loop over the fragments: \<open>k\<close> rounds are left, the current one is \<open>i\<close>.\<close>

fun fragmentLoop :: "(nat \<Rightarrow> byte list) \<Rightarrow> u32 \<Rightarrow> u64 \<Rightarrow> nat \<Rightarrow> byte list \<Rightarrow> nat \<Rightarrow> nat \<Rightarrow> nat \<Rightarrow>
    UDPBufferPool \<Rightarrow> DatagramResult list \<times> UDPBufferPool" where
  "fragmentLoop mem sessionID fragID numFragments data 0 i offset p = ([], p)"
| "fragmentLoop mem sessionID fragID numFragments data (Suc k) i offset p =
     (let end' = min (offset + MaxFragPayload) (length data);
          payloadLen = end' - offset;
          (bufPtr, p1) = GetDatagramBuffer p;
          buf = writeUDPFragmentHeader (mem (gb_addr bufPtr)) sessionID fragID
                  (of_nat i) (of_nat numFragments);
          buf' = write_at UDPFragHeaderSize (slice offset end' data) buf;
          (rest, p2) = fragmentLoop mem sessionID fragID numFragments data k (Suc i) end' p1
      in (\<lparr>dr_Data = take (UDPFragHeaderSize + payloadLen) buf', dr_Buffer = Some bufPtr\<rparr> # rest,
          p2))"

text \<open>The result, the fragment sequence counter after the call and the pool after it.\<close>

definition FragmentUDPPooled :: "(nat \<Rightarrow> byte list) \<Rightarrow> u32 \<Rightarrow> u32 \<Rightarrow> byte list \<Rightarrow> u32 \<Rightarrow> bool \<Rightarrow>
    UDPBufferPool \<Rightarrow> (udp_error + DatagramResult list) \<times> u32 \<times> UDPBufferPool" where
  "FragmentUDPPooled mem sessionID epoch data fragmentSequence enableFragmentation p =
     (if length data \<le> MaxUDPPayload then
        let (bufPtr, p1) = GetDatagramBuffer p;
            buf = writeUDPHeader (mem (gb_addr bufPtr)) sessionID;
            buf' = write_at UDPHeaderSize data buf
        in (Inr [\<lparr>dr_Data = take (UDPHeaderSize + length data) buf', dr_Buffer = Some bufPtr\<rparr>],
            fragmentSequence, p1)
      else if \<not> enableFragmentation then (Inl ErrFragmentationDisabled, fragmentSequence, p)
      else
        let numFragments = (length data + MaxFragPayload - 1) div MaxFragPayload
        in if 255 < numFragments then (Inl ErrPacketTooLarge, fragmentSequence, p)
           else
             let sequence = fragmentSequence + 1;
                 fragID = fragmentIdentity epoch sequence;
                 (results, p1) =
                   fragmentLoop mem sessionID fragID numFragments data numFragments 0 0 p
             in (Inr results, sequence, p1))"

definition DecodeUDPDatagram :: "byte list \<Rightarrow> udp_error + UDPDatagram" where
  "DecodeUDPDatagram dgram =
     (if length dgram < UDPHeaderSize then Inl ErrDatagramTooShort
      else if MaxDatagramSize < length dgram then Inl ErrDatagramTooLarge
      else if dgram ! 0 = UDPDatagramTypeNormal then
        Inr \<lparr>ud_Type = UDPDatagramTypeNormal, ud_SessionID = Uint32 (slice 1 5 dgram),
             ud_IsFragmented = False, ud_FragmentID = 0, ud_FragmentIndex = 0,
             ud_FragmentTotal = 0, ud_Payload = drop UDPHeaderSize dgram\<rparr>
      else if dgram ! 0 = UDPDatagramTypeFragment then
        (if length dgram < UDPFragHeaderSize then Inl ErrDatagramTooShort
         else if length dgram = UDPFragHeaderSize then Inl ErrEmptyFragmentPayload
         else
           let ftotal = dgram ! 14 in
           if ftotal < 2 then Inl ErrInvalidFragTotal
           else
             let index = dgram ! 13 in
             if ftotal \<le> index then Inl ErrInvalidFragIndex
             else Inr \<lparr>ud_Type = UDPDatagramTypeFragment,
                       ud_SessionID = Uint32 (slice 1 5 dgram), ud_IsFragmented = True,
                       ud_FragmentID = Uint64 (slice 5 13 dgram), ud_FragmentIndex = index,
                       ud_FragmentTotal = ftotal, ud_Payload = drop UDPFragHeaderSize dgram\<rparr>)
      else Inl ErrUnknownDatagramType)"

section \<open>Specification of the wire format\<close>

text \<open>The header bytes and the pieces of a packet, as the format's comment gives them.\<close>

definition normal_header :: "u32 \<Rightarrow> byte list" where
  "normal_header sid = UDPDatagramTypeNormal # PutUint32 sid"

definition fragment_header :: "u32 \<Rightarrow> u64 \<Rightarrow> u8 \<Rightarrow> u8 \<Rightarrow> byte list" where
  "fragment_header sid fid index ftotal =
     UDPDatagramTypeFragment # PutUint32 sid @ PutUint64 fid @ [index, ftotal]"

definition fragment_count :: "byte list \<Rightarrow> nat" where
  "fragment_count data = (length data + MaxFragPayload - 1) div MaxFragPayload"

definition piece :: "byte list \<Rightarrow> nat \<Rightarrow> byte list" where
  "piece data i = slice (i * MaxFragPayload) (min ((i + 1) * MaxFragPayload) (length data)) data"

definition encode_datagram :: "UDPDatagram \<Rightarrow> byte list" where
  "encode_datagram d =
     (if ud_IsFragmented d
      then fragment_header (ud_SessionID d) (ud_FragmentID d) (ud_FragmentIndex d)
             (ud_FragmentTotal d) @ ud_Payload d
      else normal_header (ud_SessionID d) @ ud_Payload d)"

definition fragment_datagram :: "u32 \<Rightarrow> u64 \<Rightarrow> byte list \<Rightarrow> nat \<Rightarrow> UDPDatagram" where
  "fragment_datagram sid fid data i =
     \<lparr>ud_Type = UDPDatagramTypeFragment, ud_SessionID = sid, ud_IsFragmented = True,
      ud_FragmentID = fid, ud_FragmentIndex = of_nat i,
      ud_FragmentTotal = of_nat (fragment_count data), ud_Payload = piece data i\<rparr>"

section \<open>Headers\<close>

lemma length_normal_header [simp]: "length (normal_header sid) = UDPHeaderSize"
  by (simp add: normal_header_def qmux_defs)

lemma length_fragment_header [simp]: "length (fragment_header sid fid i n) = UDPFragHeaderSize"
  by (simp add: fragment_header_def qmux_defs)

lemma writeUDPHeader_eq:
  "UDPHeaderSize \<le> length dst \<Longrightarrow>
     writeUDPHeader dst sid = normal_header sid @ drop UDPHeaderSize dst"
  by (cases dst) (simp_all add: writeUDPHeader_def normal_header_def write_at_def qmux_defs)

lemma write_at_Cons: "write_at (Suc i) src (x # xs) = x # write_at i src xs"
  by (simp add: write_at_def)

lemma writeUDPFragmentHeader_eq:
  assumes "UDPFragHeaderSize \<le> length dst"
  shows "writeUDPFragmentHeader dst sid fid i n =
    fragment_header sid fid i n @ drop UDPFragHeaderSize dst"
proof -
  from assms obtain x l where xl: "dst = x # l" and len: "14 \<le> length l"
    by (cases dst) (simp_all add: qmux_defs)
  define a b ys where "a = take 4 l" and "b = take 8 (drop 4 l)" and "ys = drop (4 + 8) l"
  have dst: "dst = x # a @ b @ ys"
    unfolding xl a_def b_def ys_def take_app_drop3 ..
  have a: "length a = 4" and b: "length b = 8" and ys: "2 \<le> length ys"
    using len by (simp_all add: a_def b_def ys_def)
  from ys obtain y z zs where "ys = y # z # zs"
    by (metis Suc_le_length_iff numeral_2_eq_2)
  with dst a b show ?thesis
    by (simp add: writeUDPFragmentHeader_def fragment_header_def write_at_def qmux_defs
        list_update_append nth_append Let_def)
qed

text \<open>A header followed by the payload: nothing of the old buffer is left in the datagram.\<close>

lemma framed_normal:
  assumes "length old = DatagramBufferSize" and "length data \<le> MaxUDPPayload"
  shows "take (UDPHeaderSize + length data)
           (write_at UDPHeaderSize data (writeUDPHeader old sid)) = normal_header sid @ data"
  using assms by (simp add: writeUDPHeader_eq write_at_append qmux_defs)

lemma framed_fragment:
  assumes "length old = DatagramBufferSize" and "length data \<le> MaxFragPayload"
  shows "take (UDPFragHeaderSize + length data)
           (write_at UDPFragHeaderSize data (writeUDPFragmentHeader old sid fid i n)) =
         fragment_header sid fid i n @ data"
  using assms by (simp add: writeUDPFragmentHeader_eq write_at_append qmux_defs)

section \<open>Decoding\<close>

lemma decode_normal:
  assumes "length data \<le> MaxUDPPayload"
  shows "DecodeUDPDatagram (normal_header sid @ data) =
    Inr \<lparr>ud_Type = UDPDatagramTypeNormal, ud_SessionID = sid, ud_IsFragmented = False,
         ud_FragmentID = 0, ud_FragmentIndex = 0, ud_FragmentTotal = 0, ud_Payload = data\<rparr>"
  using assms by (simp add: DecodeUDPDatagram_def normal_header_def slice_def qmux_defs)

lemma decode_fragment:
  assumes "0 < length data" and "length data \<le> MaxFragPayload" and "2 \<le> n" and "i < n"
  shows "DecodeUDPDatagram (fragment_header sid fid i n @ data) =
    Inr \<lparr>ud_Type = UDPDatagramTypeFragment, ud_SessionID = sid, ud_IsFragmented = True,
         ud_FragmentID = fid, ud_FragmentIndex = i, ud_FragmentTotal = n, ud_Payload = data\<rparr>"
  using assms
  by (simp add: DecodeUDPDatagram_def fragment_header_def slice_def qmux_defs nth_append Let_def
      not_less not_le)

lemma normal_header_split:
  assumes "UDPHeaderSize \<le> length g" and "g ! 0 = UDPDatagramTypeNormal"
  shows "normal_header (Uint32 (slice 1 5 g)) @ drop UDPHeaderSize g = g"
proof -
  have "take 1 g = [g ! 0]" "length (slice 1 5 g) = 4"
    using assms(1) by (auto simp: qmux_defs take_one)
  moreover have "take 1 g @ slice 1 5 g = take 5 g"
    by (simp add: take_slice)
  ultimately have "normal_header (Uint32 (slice 1 5 g)) = take 5 g"
    using assms(2) by (simp add: normal_header_def PutUint32_Uint32)
  then show ?thesis
    by (simp add: qmux_defs)
qed

lemma fragment_header_split:
  assumes "UDPFragHeaderSize \<le> length g" and "g ! 0 = UDPDatagramTypeFragment"
  shows "fragment_header (Uint32 (slice 1 5 g)) (Uint64 (slice 5 13 g)) (g ! 13) (g ! 14) @
    drop UDPFragHeaderSize g = g"
proof -
  have "take 1 g = [g ! 0]" "length (slice 1 5 g) = 4" "length (slice 5 13 g) = 8"
    using assms(1) by (auto simp: qmux_defs take_one)
  moreover have "take 1 g @ slice 1 5 g = take 5 g" "take 5 g @ slice 5 13 g = take 13 g"
    "take 13 g @ [g ! 13] = take 14 g" "take 14 g @ [g ! 14] = take 15 g"
    using assms(1) take_Suc_conv_app_nth [of 13 g] take_Suc_conv_app_nth [of 14 g]
    by (auto simp: take_slice qmux_defs)
  ultimately have "fragment_header (Uint32 (slice 1 5 g)) (Uint64 (slice 5 13 g)) (g ! 13) (g ! 14) =
      take 15 g"
    using assms(2) unfolding fragment_header_def
    by (simp add: PutUint32_Uint32 PutUint64_Uint64) (metis append.assoc append_Cons append_Nil)
  then show ?thesis
    by (simp add: qmux_defs)
qed

text \<open>The decoder accepts nothing but the two formats: what it accepts is what the encoder
  writes for the decoded fields, and those are in range.\<close>

lemma decode_sound:
  assumes "DecodeUDPDatagram g = Inr d"
  shows "encode_datagram d = g" and "length g \<le> MaxDatagramSize"
    and "ud_IsFragmented d \<longleftrightarrow> ud_Type d = UDPDatagramTypeFragment"
    and "ud_IsFragmented d \<Longrightarrow> ud_FragmentIndex d < ud_FragmentTotal d \<and>
           2 \<le> ud_FragmentTotal d \<and> ud_Payload d \<noteq> []"
    and "length (ud_Payload d) \<le> (if ud_IsFragmented d then MaxFragPayload else MaxUDPPayload)"
proof -
  have "UDPDatagramTypeNormal \<noteq> UDPDatagramTypeFragment"
    by (simp add: qmux_defs)
  then show "encode_datagram d = g" and "length g \<le> MaxDatagramSize"
    and "ud_IsFragmented d \<longleftrightarrow> ud_Type d = UDPDatagramTypeFragment"
    using assms normal_header_split [of g] fragment_header_split [of g]
    by (auto simp: DecodeUDPDatagram_def encode_datagram_def Let_def split: if_splits)
  show "ud_IsFragmented d \<Longrightarrow> ud_FragmentIndex d < ud_FragmentTotal d \<and>
      2 \<le> ud_FragmentTotal d \<and> ud_Payload d \<noteq> []"
    using assms by (auto simp: DecodeUDPDatagram_def Let_def split: if_splits)
  show "length (ud_Payload d) \<le> (if ud_IsFragmented d then MaxFragPayload else MaxUDPPayload)"
    using assms by (auto simp: DecodeUDPDatagram_def Let_def qmux_defs split: if_splits)
qed

section \<open>Splitting a packet\<close>

lemma piece_bounds:
  assumes "i < fragment_count data"
  shows "0 < length (piece data i)" and "length (piece data i) \<le> MaxFragPayload"
    and "i * MaxFragPayload < length data"
proof -
  show *: "i * MaxFragPayload < length data"
    using assms by (simp add: fragment_count_def qmux_defs less_eq_div_iff_mult_less_eq
        Suc_le_eq [symmetric] less_mult_imp_div_less)
  from * show "0 < length (piece data i)" and "length (piece data i) \<le> MaxFragPayload"
    by (auto simp: piece_def qmux_defs)
qed

lemma concat_pieces_take:
  "concat (map (piece data) [0..<n]) = take (min (n * MaxFragPayload) (length data)) data"
proof (induction n)
  case 0
  show ?case by simp
next
  case (Suc n)
  show ?case
  proof (cases "n * MaxFragPayload \<le> length data")
    case True
    then have "min (n * MaxFragPayload) (length data) \<le> min (Suc n * MaxFragPayload) (length data)"
      by simp
    from take_slice [OF this, of data] True Suc show ?thesis
      by (simp add: piece_def min_absorb1 add.commute)
  next
    case False
    with Suc show ?thesis
      by (simp add: piece_def slice_def)
  qed
qed

lemma fragment_count_covers: "length data \<le> fragment_count data * MaxFragPayload"
proof -
  have "(length data + 1184) mod 1185 < 1185"
    by simp
  moreover have "(length data + 1184) div 1185 * 1185 + (length data + 1184) mod 1185 =
      length data + 1184"
    by simp
  ultimately show ?thesis
    by (simp add: fragment_count_def qmux_defs)
qed

lemma concat_pieces: "concat (map (piece data) [0..<fragment_count data]) = data"
  using fragment_count_covers [of data] by (simp add: concat_pieces_take min_absorb2)

lemma fragmentLoop_data:
  assumes "\<forall>a. length (mem a) = DatagramBufferSize"
    and "i + k \<le> fragment_count data" and "k = 0 \<or> offset = i * MaxFragPayload"
  shows "map dr_Data (fst (fragmentLoop mem sid fid n data k i offset p)) =
    map (\<lambda>j. fragment_header sid fid (of_nat j) (of_nat n) @ piece data j) [i..<i + k]"
  using assms(2,3)
proof (induction k arbitrary: i offset p)
  case 0
  then show ?case by simp
next
  case (Suc k)
  obtain b p1 where get: "GetDatagramBuffer p = (b, p1)"
    by (cases "GetDatagramBuffer p")
  let ?stop = "min (offset + MaxFragPayload) (length data)"
  have off: "offset = i * MaxFragPayload" and i: "i < fragment_count data"
    using Suc.prems by auto
  have piece: "slice offset ?stop data = piece data i"
    by (simp add: piece_def off add.commute)
  have len: "?stop - offset = length (piece data i)"
    using piece_bounds(3) [OF i] by (simp add: piece_def off add.commute)
  have next_off: "k = 0 \<or> ?stop = Suc i * MaxFragPayload"
  proof (cases k)
    case (Suc k')
    with \<open>i + Suc k \<le> _\<close> piece_bounds(3) [of "Suc i" data] show ?thesis
      by (simp add: off)
  qed simp
  have "map dr_Data (fst (fragmentLoop mem sid fid n data k (Suc i) ?stop p1)) =
      map (\<lambda>j. fragment_header sid fid (of_nat j) (of_nat n) @ piece data j) [Suc i..<Suc i + k]"
    using Suc.prems(1) next_off by (intro Suc.IH) auto
  moreover have "take (UDPFragHeaderSize + length (piece data i))
      (write_at UDPFragHeaderSize (piece data i)
        (writeUDPFragmentHeader (mem (gb_addr b)) sid fid (of_nat i) (of_nat n))) =
      fragment_header sid fid (of_nat i) (of_nat n) @ piece data i"
    using assms(1) piece_bounds(2) [OF i] by (intro framed_fragment) auto
  ultimately show ?case
    using get by (simp add: Let_def piece len split_beta upt_rec [of i])
qed

lemma fragmentLoop_buffers:
  assumes "owned H p"
  shows "\<exists>bs. map dr_Buffer (fst (fragmentLoop mem sid fid n data k i offset p)) = map Some bs \<and>
      list_all (sized DatagramBufferSize) bs \<and> distinct (map gb_addr bs) \<and>
      gb_addr ` set bs \<inter> H = {} \<and>
      owned (H \<union> gb_addr ` set bs) (snd (fragmentLoop mem sid fid n data k i offset p))"
  using assms
proof (induction k arbitrary: i offset p H)
  case 0
  then show ?case by simp
next
  case (Suc k)
  obtain b p1 where get: "GetDatagramBuffer p = (b, p1)"
    by (cases "GetDatagramBuffer p")
  let ?stop = "min (offset + MaxFragPayload) (length data)"
  let ?r = "fragmentLoop mem sid fid n data k (Suc i) ?stop p1"
  have b: "sized DatagramBufferSize b" "gb_addr b \<notin> H" "owned (insert (gb_addr b) H) p1"
    using get_datagram [OF Suc.prems get] by auto
  from Suc.IH [OF b(3), of "Suc i" ?stop] obtain bs where
    bs: "map dr_Buffer (fst ?r) = map Some bs" "list_all (sized DatagramBufferSize) bs"
      "distinct (map gb_addr bs)" "gb_addr ` set bs \<inter> insert (gb_addr b) H = {}"
      "owned (insert (gb_addr b) H \<union> gb_addr ` set bs) (snd ?r)"
    by blast
  with b(1,2) get show ?case
    by (intro exI [of _ "b # bs"]) (auto simp: Let_def split_beta)
qed

text \<open>Releasing the results of a call hands back exactly the buffers it took.\<close>

lemma ReleaseDatagramResults_fold:
  assumes "map dr_Buffer rs = map Some bs"
  shows "snd (ReleaseDatagramResults rs p) = fold (\<lambda>b. PutDatagramBuffer (Some b)) bs p"
  using assms
  by (induction rs arbitrary: bs p) (auto simp: Let_def split_beta Cons_eq_map_conv)

lemma ReleaseDatagramResults_cleared:
  "map dr_Buffer (fst (ReleaseDatagramResults rs p)) = map (\<lambda>_. None) rs"
  by (induction rs arbitrary: p) (auto simp: Let_def split_beta)

lemma ReleaseDatagramResults_again:
  "map dr_Buffer rs = map (\<lambda>_. None) rs \<Longrightarrow> ReleaseDatagramResults rs p = (rs, p)"
  by (induction rs arbitrary: p) auto

section \<open>Identifiers\<close>

lemma fragmentIdentity_inject:
  "fragmentIdentity e s = fragmentIdentity e' s' \<longleftrightarrow> e = e' \<and> s = s'"
proof
  assume eq: "fragmentIdentity e s = fragmentIdentity e' s'"
  have bits: "bit (fragmentIdentity x y) n \<longleftrightarrow>
      (if n < 32 then bit y n else n < 64 \<and> bit x (n - 32))" for x y n
    by (auto simp: fragmentIdentity_def bit_simps dest: bit_imp_le_length)
  have "bit s n \<longleftrightarrow> bit s' n" if "n < 32" for n
    using eq bits [of e s n] bits [of e' s' n] that by simp
  moreover have "bit e n \<longleftrightarrow> bit e' n" if "n < 32" for n
    using eq bits [of e s "n + 32"] bits [of e' s' "n + 32"] that by simp
  ultimately show "e = e' \<and> s = s'"
    by (auto intro!: bit_word_eqI)
qed simp

lemma AllocateUDPEpoch_cases:
  assumes "AllocateUDPEpoch c env = ((e, ok), c')"
  shows "(ok \<and> e \<noteq> 0 \<and> c' = e \<and> (\<exists>w \<in> set (c # env). unat e = Suc (unat w))) \<or>
    (\<not> ok \<and> e = 0 \<and> c' = - 1 \<and> - 1 \<in> set (c # env))"
proof -
  let ?b = "\<lambda>w :: u32. if w = - 1 then Inl (0, False) else Inr (w + 1, (w + 1, True))"
  obtain w where w: "w \<in> set (c # env)" and
    cas: "cas_loop ?b c env = (case ?b w of Inl r \<Rightarrow> (r, w) | Inr (w', r) \<Rightarrow> (r, w'))"
    using cas_loop_linearizes [of c env ?b] by blast
  have r: "((e, ok), c') = (if w = - 1 then ((0, False), w) else ((w + 1, True), w + 1))"
    using assms unfolding AllocateUDPEpoch_def cas by (auto split: if_splits)
  have "w + 1 \<noteq> 0 \<and> unat (w + 1) = Suc (unat w)" if "w \<noteq> - 1"
    using that by (metis add.commute add_eq_0_iff unatSuc)
  with w r show ?thesis
    by (cases "w = - 1") auto
qed

section \<open>The wire format is exact\<close>

definition valid_datagram :: "UDPDatagram \<Rightarrow> bool" where
  "valid_datagram d =
     (if ud_IsFragmented d
      then ud_Type d = UDPDatagramTypeFragment \<and> ud_FragmentIndex d < ud_FragmentTotal d \<and>
        2 \<le> ud_FragmentTotal d \<and> ud_Payload d \<noteq> [] \<and> length (ud_Payload d) \<le> MaxFragPayload
      else ud_Type d = UDPDatagramTypeNormal \<and> ud_FragmentID d = 0 \<and> ud_FragmentIndex d = 0 \<and>
        ud_FragmentTotal d = 0 \<and> length (ud_Payload d) \<le> MaxUDPPayload)"

text \<open>C14: the decoder accepts a byte string exactly when it is the encoding of a valid
  datagram, and then returns that datagram: nothing malformed gets through, nothing
  well-formed is refused, and no two byte strings decode to the same datagram.\<close>

theorem decode_exact:
  "DecodeUDPDatagram g = Inr d \<longleftrightarrow> valid_datagram d \<and> encode_datagram d = g"
proof
  assume dec: "DecodeUDPDatagram g = Inr d"
  have "\<not> ud_IsFragmented d \<Longrightarrow> ud_Type d = UDPDatagramTypeNormal \<and> ud_FragmentID d = 0 \<and>
      ud_FragmentIndex d = 0 \<and> ud_FragmentTotal d = 0"
    using dec by (auto simp: DecodeUDPDatagram_def Let_def split: if_splits)
  with decode_sound [OF dec] show "valid_datagram d \<and> encode_datagram d = g"
    by (auto simp: valid_datagram_def split: if_splits)
next
  assume "valid_datagram d \<and> encode_datagram d = g"
  then show "DecodeUDPDatagram g = Inr d"
    using decode_normal [of "ud_Payload d" "ud_SessionID d"]
      decode_fragment [of "ud_Payload d" "ud_FragmentTotal d" "ud_FragmentIndex d" "ud_SessionID d"
        "ud_FragmentID d"]
    by (auto simp: valid_datagram_def encode_datagram_def split: if_splits)
qed

section \<open>Packets and buffers\<close>

lemma fragment_count_ge2: "MaxUDPPayload < length data \<Longrightarrow> 2 \<le> fragment_count data"
  by (simp add: fragment_count_def qmux_defs less_eq_div_iff_mult_less_eq)

lemma decode_piece:
  assumes "MaxUDPPayload < length data" and "fragment_count data \<le> 255"
    and "i < fragment_count data"
  shows "DecodeUDPDatagram (fragment_header sid fid (of_nat i) (of_nat (fragment_count data)) @
    piece data i) = Inr (fragment_datagram sid fid data i)"
proof -
  have "unat (of_nat i :: u8) = i" "unat (of_nat (fragment_count data) :: u8) = fragment_count data"
    using assms(2,3) by (simp_all add: unat_of_nat)
  moreover have "unat (2 :: u8) = 2"
    by simp
  ultimately have "(of_nat i :: u8) < of_nat (fragment_count data)"
    "(2 :: u8) \<le> of_nat (fragment_count data)"
    using assms(3) fragment_count_ge2 [OF assms(1)]
    unfolding word_less_nat_alt word_le_nat_alt by presburger+
  then show ?thesis
    using piece_bounds(1,2) [OF assms(3)] by (simp add: fragment_datagram_def decode_fragment)
qed

lemma fragment_results:
  assumes "\<forall>a. length (mem a) = DatagramBufferSize" and "MaxUDPPayload < length data"
    and "FragmentUDPPooled mem sid epoch data seq enable p = (Inr rs, seq', p')"
    and "fid = fragmentIdentity epoch (seq + 1)"
  shows "fragment_count data \<le> 255"
    and "map dr_Data rs = map (\<lambda>i. fragment_header sid fid (of_nat i) (of_nat (fragment_count data)) @
      piece data i) [0..<fragment_count data]"
    and "map (DecodeUDPDatagram \<circ> dr_Data) rs =
      map (\<lambda>i. Inr (fragment_datagram sid fid data i)) [0..<fragment_count data]"
proof -
  let ?n = "fragment_count data"
  from assms(2-) show n: "?n \<le> 255"
    by (auto simp: FragmentUDPPooled_def fragment_count_def Let_def split: if_splits prod.splits)
  from assms(2-) have rs: "rs = fst (fragmentLoop mem sid fid ?n data ?n 0 0 p)"
    by (auto simp: FragmentUDPPooled_def fragment_count_def Let_def split: if_splits prod.splits)
  let ?g = "\<lambda>i. fragment_header sid fid (of_nat i) (of_nat ?n) @ piece data i"
  show data: "map dr_Data rs = map ?g [0..<?n]"
    using assms(1) unfolding rs by (subst fragmentLoop_data) auto
  have "DecodeUDPDatagram (?g i) = Inr (fragment_datagram sid fid data i)" if "i < ?n" for i
    using assms(2) n that by (intro decode_piece) auto
  then show "map (DecodeUDPDatagram \<circ> dr_Data) rs =
      map (\<lambda>i. Inr (fragment_datagram sid fid data i)) [0..<?n]"
    unfolding map_map [symmetric] data by simp
qed

lemma fragment_results_decode:
  assumes "\<forall>a. length (mem a) = DatagramBufferSize" and "MaxUDPPayload < length data"
    and "FragmentUDPPooled mem sid epoch data seq enable p = (Inr rs, seq', p')"
    and "fid = fragmentIdentity epoch (seq + 1)"
  shows "g \<in> dr_Data ` set rs \<longleftrightarrow>
    (\<exists>i < fragment_count data. DecodeUDPDatagram g = Inr (fragment_datagram sid fid data i))"
proof -
  have dec: "DecodeUDPDatagram ` (dr_Data ` set rs) =
      (\<lambda>i. Inr (fragment_datagram sid fid data i)) ` {0..<fragment_count data}"
    using arg_cong [OF fragment_results(3) [OF assms], of set] by (simp add: image_comp)
  have inj: "g = h" if "DecodeUDPDatagram g = Inr d" "DecodeUDPDatagram h = Inr d" for h d
    using decode_sound(1) [OF that(1)] decode_sound(1) [OF that(2)] by simp
  show ?thesis
  proof
    assume "g \<in> dr_Data ` set rs"
    then have "DecodeUDPDatagram g \<in> DecodeUDPDatagram ` (dr_Data ` set rs)" by blast
    then show "\<exists>i < fragment_count data. DecodeUDPDatagram g = Inr (fragment_datagram sid fid data i)"
      unfolding dec by auto
  next
    assume "\<exists>i < fragment_count data. DecodeUDPDatagram g = Inr (fragment_datagram sid fid data i)"
    then obtain i where i: "i < fragment_count data"
      "DecodeUDPDatagram g = Inr (fragment_datagram sid fid data i)" by blast
    then have "Inr (fragment_datagram sid fid data i) \<in> DecodeUDPDatagram ` (dr_Data ` set rs)"
      unfolding dec by simp
    then obtain h where "h \<in> dr_Data ` set rs" "DecodeUDPDatagram h = Inr (fragment_datagram sid fid data i)"
      by (metis (no_types, lifting) imageE)
    with inj [OF i(2)] show "g \<in> dr_Data ` set rs" by simp
  qed
qed

text \<open>C2: what the receiver decodes from the datagrams of a packet. A packet of at most 1195
  bytes travels in one plain datagram; a larger one travels in fragments that carry the
  session, one common fragment identity, the indices in order and payloads whose
  concatenation is the packet. Every datagram fits \<open>MaxDatagramSize\<close>. The stale contents
  \<open>mem\<close> of the pooled buffers do not matter.\<close>

theorem fragment_decode_roundtrip:
  assumes "\<forall>a. length (mem a) = DatagramBufferSize"
    and "FragmentUDPPooled mem sid epoch data seq enable p = (Inr rs, seq', p')"
  shows "map (DecodeUDPDatagram \<circ> dr_Data) rs =
      (if length data \<le> MaxUDPPayload
       then [Inr \<lparr>ud_Type = UDPDatagramTypeNormal, ud_SessionID = sid, ud_IsFragmented = False,
               ud_FragmentID = 0, ud_FragmentIndex = 0, ud_FragmentTotal = 0, ud_Payload = data\<rparr>]
       else map (\<lambda>i. Inr (fragment_datagram sid (fragmentIdentity epoch (seq + 1)) data i))
              [0..<fragment_count data]) \<and>
    concat (map (ud_Payload \<circ> projr \<circ> DecodeUDPDatagram \<circ> dr_Data) rs) = data \<and>
    (\<forall>r \<in> set rs. length (dr_Data r) \<le> MaxDatagramSize)"
proof (cases "length data \<le> MaxUDPPayload")
  case True
  with assms have "map dr_Data rs = [normal_header sid @ data]"
    by (auto simp: FragmentUDPPooled_def framed_normal split: prod.splits)
  with True show ?thesis
    by (auto simp: decode_normal qmux_defs)
next
  case False
  then have "MaxUDPPayload < length data" by simp
  note res = fragment_results [OF assms(1) this assms(2) refl]
  have "map (ud_Payload \<circ> projr \<circ> DecodeUDPDatagram \<circ> dr_Data) rs =
      map (ud_Payload \<circ> projr) (map (DecodeUDPDatagram \<circ> dr_Data) rs)"
    by simp
  also have "\<dots> = map (piece data) [0..<fragment_count data]"
    unfolding res(3) by (simp add: fragment_datagram_def)
  finally have "concat (map (ud_Payload \<circ> projr \<circ> DecodeUDPDatagram \<circ> dr_Data) rs) = data"
    by (simp add: concat_pieces)
  moreover have "length g \<le> MaxDatagramSize" if "g \<in> set (map dr_Data rs)" for g
    using that piece_bounds(2) [of _ data] unfolding res(2) by (auto simp: qmux_defs)
  ultimately show ?thesis
    using False res(3) by auto
qed

theorem fragment_decode_roundtrip_witness:
  "\<exists>rs seq' p'. FragmentUDPPooled (\<lambda>_. replicate 1200 7) 9 1 (replicate 2000 5) 4 True
       \<lparr>datagramPool = [], readPool = [], fragmentPool = [], nextAddr = 0\<rparr> = (Inr rs, seq', p') \<and>
     map (DecodeUDPDatagram \<circ> dr_Data) rs =
       map (\<lambda>i. Inr (fragment_datagram 9 (fragmentIdentity 1 5) (replicate 2000 5) i)) [0..<2]"
proof -
  let ?f = "FragmentUDPPooled (\<lambda>_. replicate 1200 7) 9 1 (replicate 2000 5) 4 True
       \<lparr>datagramPool = [], readPool = [], fragmentPool = [], nextAddr = 0\<rparr>"
  obtain rs seq' p' where f: "?f = (Inr rs, seq', p')"
    by (simp add: FragmentUDPPooled_def qmux_defs split_beta Let_def)
  show ?thesis
    using fragment_decode_roundtrip [OF _ f] f by (simp add: fragment_count_def qmux_defs)
qed

text \<open>C10: when a packet can be sent, and what a refusal leaves behind. A packet goes out if
  it fits one datagram, or if fragmentation is enabled and it fits 255 fragments; otherwise the
  caller gets the matching error and neither a buffer nor a sequence number is used up.\<close>

theorem fragment_outcome:
  "case FragmentUDPPooled mem sid epoch data seq enable p of
     (Inr rs, seq', p') \<Rightarrow>
       (length data \<le> MaxUDPPayload \<or> enable \<and> length data \<le> 255 * MaxFragPayload) \<and>
       seq' = (if length data \<le> MaxUDPPayload then seq else seq + 1) \<and>
       length rs = (if length data \<le> MaxUDPPayload then 1 else fragment_count data)
   | (Inl e, seq', p') \<Rightarrow>
       e = (if enable then ErrPacketTooLarge else ErrFragmentationDisabled) \<and>
       length data > (if enable then 255 * MaxFragPayload else MaxUDPPayload) \<and>
       seq' = seq \<and> p' = p"
proof -
  have count: "255 < fragment_count data \<longleftrightarrow> 255 * MaxFragPayload < length data"
    by (simp add: fragment_count_def qmux_defs less_eq_div_iff_mult_less_eq Suc_le_eq [symmetric])
  have len: "length (fst (fragmentLoop mem sid fid n data k i off q)) = k" for fid n k i off q
    by (induction k arbitrary: i off q) (auto simp: Let_def split_beta)
  have ifs: "255 < (length data + MaxFragPayload - 1) div MaxFragPayload \<longleftrightarrow>
      255 * MaxFragPayload < length data"
    using count by (simp add: fragment_count_def)
  show ?thesis
    unfolding FragmentUDPPooled_def ifs Let_def
    using len by (auto simp: split_beta fragment_count_def qmux_defs)
qed



text \<open>C32: fragment identities never collide: the identity determines the epoch and the
  sequence number it was made of. An allocated epoch is the successor of a value the counter
  held during the call, is never zero and is left in the counter; after the last epoch the
  allocator refuses instead of wrapping around.\<close>

theorem fragment_identity_unique:
  "(fragmentIdentity e s = fragmentIdentity e' s' \<longleftrightarrow> e = e' \<and> s = s') \<and>
   (case AllocateUDPEpoch c env of ((epoch, ok), c') \<Rightarrow>
      if ok then epoch \<noteq> 0 \<and> c' = epoch \<and> (\<exists>w. w \<in> set (c # env) \<and> unat epoch = Suc (unat w))
      else epoch = 0 \<and> c' = - 1 \<and> - 1 \<in> set (c # env))"
proof -
  obtain epoch ok c' where r: "AllocateUDPEpoch c env = ((epoch, ok), c')"
    by (metis surj_pair)
  show ?thesis
    using AllocateUDPEpoch_cases [OF r] by (auto simp: fragmentIdentity_inject r)
qed

end
