(* ===== verification/Udp_Assembler.thy ===== *)
theory Udp_Assembler
  imports Udp_Datagram
begin

text \<open>
  \<open>ShardedFragmentAssembler\<close> of \<^verbatim>\<open>protocol/udp_fragment.go\<close>: fragments of a packet are kept in
  the shard their identity hashes to, in pooled buffers, within a global limit on groups and on
  backing bytes, until the packet is complete, expires or is contradicted.

  A shard is an association list. The bytes of a stored fragment are kept by value; that no
  two stored fragments share a backing array is part of the invariant \<open>sfa_inv\<close>. One call of
  \<open>AddFragment\<close> is one step (it holds the shard's lock); the capacity counters are reserved by
  the compare-and-swap loop \<open>reserveFragmentCapacity\<close>, whose bound is proved under
  interference as well. \<open>Comparable\<close> is the hash of \<^verbatim>\<open>hash/maphash\<close>, an arbitrary function.

  The locale \<open>fragment_assembler\<close> is the contract of the Go interface
  \<open>UDPFragmentAssembler\<close>: it refines the abstract table \<open>spec_add\<close>, which knows neither shards
  nor buffers nor limits. \<open>DecodeAndAssembleUDPDatagram\<close> relies on that contract only.
\<close>

section \<open>Data and operations\<close>

definition FragmentTimeout :: int where [qmux_defs]: "FragmentTimeout = 5 * 1000000000"
definition DefaultShardCount :: nat where [qmux_defs]: "DefaultShardCount = 64"
definition maxRetainedFragmentGroups :: int where [qmux_defs]: "maxRetainedFragmentGroups = 4096"
definition maxRetainedFragmentBytes :: int where
  [qmux_defs]: "maxRetainedFragmentBytes = 64 * 2 ^ 20"

record fragmentKey =
  fk_sessionID :: u32
  fk_fragID :: u64

record fragmentGroup =
  fg_total :: u8
  fg_received :: u8
  fg_data :: "byte list option list"
  fg_buffers :: "gbuf list"
  fg_createdAt :: int
  fg_retainedBytes :: int

type_synonym shard = "(fragmentKey \<times> fragmentGroup) list"

record ShardedFragmentAssembler =
  sa_shards :: "shard list"
  sa_seed :: nat
  sa_retainedGroups :: int
  sa_retainedBytes :: int
  sa_groupDrops :: u64
  sa_byteDrops :: u64
  sa_expiredGroups :: u64
  sa_maxGroups :: int
  sa_maxBytes :: int
  sa_closed :: bool

record FragmentSnapshot =
  RetainedGroups :: int
  RetainedBackingBytes :: int
  GroupCapacityDrops :: u64
  ByteCapacityDrops :: u64
  ExpiredGroups :: u64

definition validateFragmentInput :: "u8 \<Rightarrow> u8 \<Rightarrow> udp_error option" where
  "validateFragmentInput index ftotal =
     (if ftotal < 2 then Some ErrInvalidFragTotal
      else if ftotal \<le> index then Some ErrInvalidFragIndex else None)"

definition fragmentGroupLimit :: "int \<Rightarrow> int" where
  "fragmentGroupLimit limit = (if limit > 0 then limit else maxRetainedFragmentGroups)"

definition fragmentByteLimit :: "int \<Rightarrow> int" where
  "fragmentByteLimit limit = (if limit > 0 then limit else maxRetainedFragmentBytes)"

definition validateFragmentGroup :: "fragmentGroup \<Rightarrow> u8 \<Rightarrow> u8 \<Rightarrow> udp_error option" where
  "validateFragmentGroup grp index ftotal =
     (if fg_total grp \<noteq> ftotal then Some ErrFragmentTotalMismatch
      else if length (fg_data grp) \<le> unat index then Some ErrInvalidFragIndex else None)"

text \<open>A \<^verbatim>\<open>nil\<close> fragment contributes no bytes.\<close>

definition joinFragmentGroup :: "fragmentGroup \<Rightarrow> byte list" where
  "joinFragmentGroup grp = concat (map (\<lambda>d. case d of None \<Rightarrow> [] | Some f \<Rightarrow> f) (fg_data grp))"

text \<open>The released bytes, the cleared grp and the pool that got the buffers back.\<close>

definition releaseFragmentGroup ::
    "fragmentGroup \<Rightarrow> UDPBufferPool \<Rightarrow> int \<times> fragmentGroup \<times> UDPBufferPool" where
  "releaseFragmentGroup grp p =
     (fg_retainedBytes grp,
      grp\<lparr>fg_buffers := [], fg_data := [], fg_received := 0, fg_retainedBytes := 0\<rparr>,
      fold (\<lambda>bufPtr. PutFragmentBuffer (Some bufPtr)) (fg_buffers grp) p)"

fun cleanupExpiredFragmentGroups ::
    "shard \<Rightarrow> int \<Rightarrow> UDPBufferPool \<Rightarrow> (int \<times> int) \<times> shard \<times> UDPBufferPool" where
  "cleanupExpiredFragmentGroups [] now p = ((0, 0), [], p)"
| "cleanupExpiredFragmentGroups ((key, grp) # groups) now p =
     (if now - fg_createdAt grp > FragmentTimeout then
        let (released, _, p1) = releaseFragmentGroup grp p;
            ((releasedGroups, releasedBytes), groups', p2) =
              cleanupExpiredFragmentGroups groups now p1
        in ((releasedGroups + 1, releasedBytes + released), groups', p2)
      else
        let (counts, groups', p1) = cleanupExpiredFragmentGroups groups now p
        in (counts, (key, grp) # groups', p1))"

fun releaseAllFragmentGroups ::
    "shard \<Rightarrow> UDPBufferPool \<Rightarrow> (int \<times> int) \<times> shard \<times> UDPBufferPool" where
  "releaseAllFragmentGroups [] p = ((0, 0), [], p)"
| "releaseAllFragmentGroups ((key, grp) # groups) p =
     (let (released, _, p1) = releaseFragmentGroup grp p;
          ((releasedGroups, releasedBytes), groups', p2) = releaseAllFragmentGroups groups p1
      in ((releasedGroups + 1, releasedBytes + released), groups', p2))"

definition NewShardedFragmentAssembler ::
    "nat \<Rightarrow> int \<Rightarrow> int \<Rightarrow> int \<Rightarrow> ShardedFragmentAssembler" where
  "NewShardedFragmentAssembler MakeSeed shardCount maxGroups maxBackingBytes =
     (let count = (if shardCount \<le> 0 then DefaultShardCount else nat shardCount)
      in \<lparr>sa_shards = replicate count [], sa_seed = MakeSeed, sa_retainedGroups = 0,
          sa_retainedBytes = 0, sa_groupDrops = 0, sa_byteDrops = 0, sa_expiredGroups = 0,
          sa_maxGroups = maxGroups, sa_maxBytes = maxBackingBytes, sa_closed = False\<rparr>)"

type_synonym maphash = "nat \<Rightarrow> fragmentKey \<Rightarrow> u64"

definition shardIndex :: "maphash \<Rightarrow> ShardedFragmentAssembler \<Rightarrow> fragmentKey \<Rightarrow> nat" where
  "shardIndex Comparable sfa key =
     unat (Comparable (sa_seed sfa) key) mod length (sa_shards sfa)"

definition getShard :: "maphash \<Rightarrow> ShardedFragmentAssembler \<Rightarrow> fragmentKey \<Rightarrow> shard" where
  "getShard Comparable sfa key = sa_shards sfa ! shardIndex Comparable sfa key"

definition Snapshot :: "ShardedFragmentAssembler \<Rightarrow> FragmentSnapshot" where
  "Snapshot sfa =
     \<lparr>RetainedGroups = sa_retainedGroups sfa, RetainedBackingBytes = sa_retainedBytes sfa,
      GroupCapacityDrops = sa_groupDrops sfa, ByteCapacityDrops = sa_byteDrops sfa,
      ExpiredGroups = sa_expiredGroups sfa\<rparr>"

definition reserveFragmentCapacity :: "int \<Rightarrow> int \<Rightarrow> int \<Rightarrow> int list \<Rightarrow> bool \<times> int" where
  "reserveFragmentCapacity counter amount limit env =
     cas_loop (\<lambda>current. if amount > limit - current then Inl False
                         else Inr (current + amount, True)) counter env"

definition fragmentBufferRetainedBytes :: "gbuf \<Rightarrow> int" where
  "fragmentBufferRetainedBytes bufPtr = int (gb_cap bufPtr)"

text \<open>One tick of \<open>cleanupLoop\<close>: the shards from the \<open>i\<close>-th on.\<close>

fun cleanupShards :: "nat \<Rightarrow> shard list \<Rightarrow> int \<Rightarrow> ShardedFragmentAssembler \<Rightarrow> UDPBufferPool \<Rightarrow>
    ShardedFragmentAssembler \<times> UDPBufferPool" where
  "cleanupShards i [] now sfa p = (sfa, p)"
| "cleanupShards i (shard # rest) now sfa p =
     (let ((releasedGroups, releasedBytes), shard', p1) = cleanupExpiredFragmentGroups shard now p;
          sfa1 = (if releasedGroups > 0
                  then sfa\<lparr>sa_expiredGroups := sa_expiredGroups sfa + of_int releasedGroups\<rparr>
                  else sfa);
          sfa2 = sfa1\<lparr>sa_shards := (sa_shards sfa1)[i := shard'],
                      sa_retainedGroups := sa_retainedGroups sfa1 - releasedGroups,
                      sa_retainedBytes := sa_retainedBytes sfa1 - releasedBytes\<rparr>
      in cleanupShards (Suc i) rest now sfa2 p1)"

definition cleanupTick :: "int \<Rightarrow> ShardedFragmentAssembler \<Rightarrow> UDPBufferPool \<Rightarrow>
    ShardedFragmentAssembler \<times> UDPBufferPool" where
  "cleanupTick now sfa p = cleanupShards 0 (sa_shards sfa) now sfa p"

fun closeShards :: "nat \<Rightarrow> shard list \<Rightarrow> ShardedFragmentAssembler \<Rightarrow> UDPBufferPool \<Rightarrow>
    ShardedFragmentAssembler \<times> UDPBufferPool" where
  "closeShards i [] sfa p = (sfa, p)"
| "closeShards i (shard # rest) sfa p =
     (let ((releasedGroups, releasedBytes), shard', p1) = releaseAllFragmentGroups shard p
      in closeShards (Suc i) rest
           (sfa\<lparr>sa_shards := (sa_shards sfa)[i := shard'],
                sa_retainedGroups := sa_retainedGroups sfa - releasedGroups,
                sa_retainedBytes := sa_retainedBytes sfa - releasedBytes\<rparr>) p1)"

text \<open>\<open>Close\<close>: the body runs once (\<^verbatim>\<open>closeOnce\<close>), and \<open>closed\<close> records that it ran.\<close>

definition Close :: "ShardedFragmentAssembler \<Rightarrow> UDPBufferPool \<Rightarrow>
    ShardedFragmentAssembler \<times> UDPBufferPool" where
  "Close sfa p =
     (if sa_closed sfa then (sfa, p)
      else closeShards 0 (sa_shards sfa) (sfa\<lparr>sa_closed := True\<rparr>) p)"

text \<open>
  \<open>AddFragment\<close> after its checks on an existing group (lines 465 to 524): \<open>i\<close> is the index of
  the shard, \<open>found\<close> the group if there is one.
\<close>

definition storeFragment :: "int \<Rightarrow> nat \<Rightarrow> fragmentKey \<Rightarrow> fragmentGroup option \<Rightarrow> u8 \<Rightarrow> u8 \<Rightarrow>
    byte list \<Rightarrow> ShardedFragmentAssembler \<Rightarrow> UDPBufferPool \<Rightarrow>
    (udp_error + byte list option) \<times> ShardedFragmentAssembler \<times> UDPBufferPool" where
  "storeFragment now i key found index ftotal payload sfa p =
     (let shard = sa_shards sfa ! i;
          pooled = length payload \<le> FragmentBufferSize;
          (okGroup, groups1) =
            (if found = None
             then reserveFragmentCapacity (sa_retainedGroups sfa) 1
                    (fragmentGroupLimit (sa_maxGroups sfa)) []
             else (True, sa_retainedGroups sfa))
      in if \<not> okGroup
         then (Inl ErrFragmentAssemblerFull, sfa\<lparr>sa_groupDrops := sa_groupDrops sfa + 1\<rparr>, p)
         else
           let (bufPtr, retained, p1) =
                 (if pooled
                  then let (b, q) = GetFragmentBuffer p
                       in (Some b, fragmentBufferRetainedBytes b, q)
                  else (None, int (length payload), p));
               (okBytes, bytes1) = reserveFragmentCapacity (sa_retainedBytes sfa) retained
                                     (fragmentByteLimit (sa_maxBytes sfa)) []
           in if \<not> okBytes
              then (Inl ErrFragmentAssemblerFull,
                    sfa\<lparr>sa_byteDrops := sa_byteDrops sfa + 1,
                        sa_retainedGroups := (if found = None then groups1 - 1 else groups1)\<rparr>,
                    if bufPtr \<noteq> None then PutFragmentBuffer bufPtr p1 else p1)
              else
                let grp0 = (case found of Some g \<Rightarrow> g
                      | None \<Rightarrow> \<lparr>fg_total = ftotal, fg_received = 0,
                                 fg_data = replicate (unat ftotal) None, fg_buffers = [],
                                 fg_createdAt = now, fg_retainedBytes = 0\<rparr>);
                    grp = grp0\<lparr>fg_retainedBytes := fg_retainedBytes grp0 + retained,
                               fg_data := (fg_data grp0)[unat index := Some payload],
                               fg_buffers := fg_buffers grp0 @
                                 (case bufPtr of Some b \<Rightarrow> [b] | None \<Rightarrow> []),
                               fg_received := fg_received grp0 + 1\<rparr>
                in if fg_received grp = fg_total grp
                   then
                     let result = joinFragmentGroup grp;
                         (releasedBytes, _, p2) = releaseFragmentGroup grp p1
                     in (Inr (Some result),
                         sfa\<lparr>sa_shards := (sa_shards sfa)[i := AList.delete key shard],
                             sa_retainedGroups := groups1 - 1,
                             sa_retainedBytes := bytes1 - releasedBytes\<rparr>, p2)
                   else (Inr None,
                         sfa\<lparr>sa_shards := (sa_shards sfa)[i := AList.update key grp shard],
                             sa_retainedGroups := groups1, sa_retainedBytes := bytes1\<rparr>, p1))"

definition AddFragment :: "maphash \<Rightarrow> int \<Rightarrow> u32 \<Rightarrow> u64 \<Rightarrow> u8 \<Rightarrow> u8 \<Rightarrow> byte list \<Rightarrow>
    ShardedFragmentAssembler \<times> UDPBufferPool \<Rightarrow>
    (udp_error + byte list option) \<times> ShardedFragmentAssembler \<times> UDPBufferPool" where
  "AddFragment Comparable now sessionID fragID index ftotal payload = (\<lambda>(sfa, p).
     case validateFragmentInput index ftotal of Some err \<Rightarrow> (Inl err, sfa, p)
     | None \<Rightarrow>
       if sa_closed sfa then (Inl ErrFragmentAssemblerClosed, sfa, p)
       else
         let key = \<lparr>fk_sessionID = sessionID, fk_fragID = fragID\<rparr>;
             i = shardIndex Comparable sfa key;
             shard = getShard Comparable sfa key
         in case map_of shard key of
              None \<Rightarrow> storeFragment now i key None index ftotal payload sfa p
            | Some grp \<Rightarrow>
                (case validateFragmentGroup grp index ftotal of
                   Some err \<Rightarrow>
                     if err = ErrFragmentTotalMismatch
                     then let (releasedBytes, _, p1) = releaseFragmentGroup grp p
                          in (Inl err,
                              sfa\<lparr>sa_shards := (sa_shards sfa)[i := AList.delete key shard],
                                  sa_retainedGroups := sa_retainedGroups sfa - 1,
                                  sa_retainedBytes := sa_retainedBytes sfa - releasedBytes\<rparr>, p1)
                     else (Inl err, sfa, p)
                 | None \<Rightarrow>
                     if fg_data grp ! unat index \<noteq> None then (Inr None, sfa, p)
                     else storeFragment now i key (Some grp) index ftotal payload sfa p))"

text \<open>\<open>DecodeAndAssembleUDPDatagram\<close>: the assembler is an interface value, \<open>None\<close> for nil;
  \<open>'s\<close> is the state behind it. The result is the session, the payload and \<open>complete\<close>.\<close>

definition DecodeAndAssembleUDPDatagram :: "byte list \<Rightarrow>
    (u32 \<Rightarrow> u64 \<Rightarrow> u8 \<Rightarrow> u8 \<Rightarrow> byte list \<Rightarrow> 's \<Rightarrow> (udp_error + byte list option) \<times> 's) option \<Rightarrow>
    's \<Rightarrow> (udp_error + u32 \<times> byte list option \<times> bool) \<times> 's" where
  "DecodeAndAssembleUDPDatagram dgram assembler s =
     (case DecodeUDPDatagram dgram of Inl err \<Rightarrow> (Inl err, s)
      | Inr parsed \<Rightarrow>
          if \<not> ud_IsFragmented parsed
          then (Inr (ud_SessionID parsed, Some (ud_Payload parsed), True), s)
          else (case assembler of None \<Rightarrow> (Inl ErrFragmentAssemblerNil, s)
                | Some add \<Rightarrow>
                    let (r, s') = add (ud_SessionID parsed) (ud_FragmentID parsed)
                          (ud_FragmentIndex parsed) (ud_FragmentTotal parsed) (ud_Payload parsed) s
                    in (case r of Inl err \<Rightarrow> (Inl err, s')
                        | Inr payload \<Rightarrow>
                            (Inr (ud_SessionID parsed, payload, payload \<noteq> None), s'))))"

section \<open>The abstract table\<close>

text \<open>What an assembler promises: per identity the number of fragments and those received.\<close>

type_synonym reassembly = "fragmentKey \<rightharpoonup> nat \<times> byte list option list"

definition spec_fill :: "fragmentKey \<Rightarrow> nat \<Rightarrow> nat \<Rightarrow> byte list \<Rightarrow> byte list option list \<Rightarrow>
    reassembly \<Rightarrow> (udp_error + byte list option) \<times> reassembly" where
  "spec_fill k i n payload ds T =
     (let ds' = ds[i := Some payload]
      in if None \<in> set ds' then (Inr None, T(k \<mapsto> (n, ds')))
         else (Inr (Some (concat (map the ds'))), T(k := None)))"

definition spec_add :: "fragmentKey \<Rightarrow> nat \<Rightarrow> nat \<Rightarrow> byte list \<Rightarrow>
    reassembly \<Rightarrow> (udp_error + byte list option) \<times> reassembly" where
  "spec_add k i n payload T =
     (if n < 2 then (Inl ErrInvalidFragTotal, T)
      else if n \<le> i then (Inl ErrInvalidFragIndex, T)
      else case T k of
          None \<Rightarrow> spec_fill k i n payload (replicate n None) T
        | Some (m, ds) \<Rightarrow>
            if m \<noteq> n then (Inl ErrFragmentTotalMismatch, T(k := None))
            else if ds ! i \<noteq> None then (Inr None, T)
            else spec_fill k i n payload ds T)"

definition abs_group :: "fragmentGroup \<Rightarrow> nat \<times> byte list option list" where
  "abs_group g = (unat (fg_total g), fg_data g)"

definition abs_table :: "maphash \<Rightarrow> ShardedFragmentAssembler \<Rightarrow> reassembly" where
  "abs_table C sfa k = map_option abs_group (map_of (getShard C sfa k) k)"

section \<open>The invariant\<close>

definition stored :: "byte list option list \<Rightarrow> nat" where
  "stored ds = length (filter (\<lambda>d. d \<noteq> None) ds)"

definition cost :: "byte list option \<Rightarrow> int" where
  "cost d = (case d of None \<Rightarrow> 0
     | Some f \<Rightarrow> if length f \<le> FragmentBufferSize then int FragmentBufferSize else int (length f))"

text \<open>A group counts its fragments and the bytes that back them.\<close>

definition group_wf :: "fragmentGroup \<Rightarrow> bool" where
  "group_wf g \<longleftrightarrow> length (fg_data g) = unat (fg_total g) \<and>
     unat (fg_received g) = stored (fg_data g) \<and>
     fg_retainedBytes g = sum_list (map cost (fg_data g))"

definition bufs :: "shard \<Rightarrow> gbuf list" where
  "bufs es = concat (map (fg_buffers \<circ> snd) es)"

definition bufs_ok :: "nat set \<Rightarrow> gbuf list \<Rightarrow> UDPBufferPool \<Rightarrow> bool" where
  "bufs_ok H bs p \<longleftrightarrow> list_all (sized FragmentBufferSize) bs \<and> distinct (map gb_addr bs) \<and>
     gb_addr ` set bs \<inter> H = {} \<and> owned (H \<union> gb_addr ` set bs) p"

text \<open>The entries of all shards together: the counters are exact and the buffers are owned.\<close>

definition table_ok :: "nat set \<Rightarrow> shard \<Rightarrow> UDPBufferPool \<Rightarrow> int \<Rightarrow> int \<Rightarrow> bool" where
  "table_ok H es p G B \<longleftrightarrow> (\<forall>e \<in> set es. group_wf (snd e)) \<and> bufs_ok H (bufs es) p \<and>
     G = int (length es) \<and> B = sum_entries fg_retainedBytes es"

definition shards_ok :: "maphash \<Rightarrow> ShardedFragmentAssembler \<Rightarrow> bool" where
  "shards_ok C sfa \<longleftrightarrow> sa_shards sfa \<noteq> [] \<and>
     (\<forall>i < length (sa_shards sfa). distinct (keys (sa_shards sfa ! i)) \<and>
        (\<forall>k \<in> set (keys (sa_shards sfa ! i)). shardIndex C sfa k = i))"

definition incomplete :: "fragmentGroup \<Rightarrow> bool" where
  "incomplete g \<longleftrightarrow> None \<in> set (fg_data g)"

definition sfa_inv :: "maphash \<Rightarrow> nat set \<Rightarrow> ShardedFragmentAssembler \<times> UDPBufferPool \<Rightarrow> bool" where
  "sfa_inv C H = (\<lambda>(sfa, p). shards_ok C sfa \<and>
     table_ok H (concat (sa_shards sfa)) p (sa_retainedGroups sfa) (sa_retainedBytes sfa) \<and>
     (\<forall>e \<in> set (concat (sa_shards sfa)). incomplete (snd e)) \<and>
     sa_retainedGroups sfa \<le> fragmentGroupLimit (sa_maxGroups sfa) \<and>
     sa_retainedBytes sfa \<le> fragmentByteLimit (sa_maxBytes sfa) \<and>
     (sa_closed sfa \<longrightarrow> concat (sa_shards sfa) = []))"

lemma group_wf_bytes: "group_wf g \<Longrightarrow> 0 \<le> fg_retainedBytes g"
  by (auto simp: group_wf_def cost_def intro!: sum_list_nonneg split: option.splits)

lemma bufs_simps [simp]: "bufs [] = []" "bufs ((k, g) # es) = fg_buffers g @ bufs es"
  by (simp_all add: bufs_def)

lemma bufs_ok_mset:
  assumes "mset bs = mset bs'"
  shows "bufs_ok H bs p = bufs_ok H bs' p"
proof -
  have "distinct (map gb_addr bs) = distinct (map gb_addr bs')"
    using assms by (intro mset_eq_imp_distinct_iff) simp
  then show ?thesis
    using mset_eq_setD [OF assms] by (simp add: bufs_ok_def list_all_iff)
qed

lemma table_ok_mset:
  assumes "mset es = mset es'"
  shows "table_ok H es p G B = table_ok H es' p G B"
proof -
  have "bufs_ok H (bufs es) p = bufs_ok H (bufs es') p"
    unfolding bufs_def by (rule bufs_ok_mset) (simp only: mset_concat_map assms)
  moreover have "sum_entries fg_retainedBytes es = sum_entries fg_retainedBytes es'"
    by (simp only: sum_entries_mset assms)
  ultimately show ?thesis
    using mset_eq_setD [OF assms] mset_eq_length [OF assms] by (simp only: table_ok_def)
qed

lemma bufs_ok_append:
  assumes "bufs_ok H (as @ bs) p"
  shows "list_all (sized FragmentBufferSize) as" "distinct (map gb_addr as)"
    "gb_addr ` set as \<inter> H = {}" "gb_addr ` set as \<inter> gb_addr ` set bs = {}"
    "list_all (sized FragmentBufferSize) bs" "distinct (map gb_addr bs)"
    "gb_addr ` set bs \<inter> H = {}" "owned (H \<union> gb_addr ` set (as @ bs)) p"
  using assms by (simp_all add: bufs_ok_def image_Un Int_Un_distrib2)

lemma bufs_ok_put:
  assumes "bufs_ok H (as @ bs) p"
  shows "bufs_ok H bs (fold (\<lambda>b. PutFragmentBuffer (Some b)) as p)" (is "bufs_ok H bs ?q")
proof -
  note ok = bufs_ok_append [OF assms]
  have "gb_addr ` set as \<subseteq> H \<union> gb_addr ` set (as @ bs)"
    by (simp add: image_Un) blast
  note own = fragment_tier.put_all_owned [OF ok(8,1,2) this]
  have "H \<union> gb_addr ` set (as @ bs) - gb_addr ` set as = H \<union> gb_addr ` set bs"
    unfolding set_append image_Un using ok(3,4) by blast
  with own ok show ?thesis
    unfolding bufs_ok_def by simp
qed

lemma bufs_ok_get:
  assumes "bufs_ok H bs p" and "GetFragmentBuffer p = (b, p')"
  shows "bufs_ok H (b # bs) p'" and "gb_cap b = FragmentBufferSize"
    and "bufs_ok H bs (PutFragmentBuffer (Some b) p')"
proof -
  let ?H = "H \<union> gb_addr ` set bs"
  have "owned ?H p"
    using assms(1) by (simp add: bufs_ok_def)
  note get = get_fragment [OF this assms(2)]
  have own: "owned (H \<union> gb_addr ` set (b # bs)) p'"
    using get by simp
  have new: "gb_addr b \<notin> H" "gb_addr b \<notin> gb_addr ` set bs" "sized FragmentBufferSize b"
    using get by simp_all
  show b: "bufs_ok H (b # bs) p'"
    unfolding bufs_ok_def using own new assms(1) unfolding bufs_ok_def by simp
  show "gb_cap b = FragmentBufferSize"
    using new(3) by (simp add: sized_def)
  show "bufs_ok H bs (PutFragmentBuffer (Some b) p')"
    using bufs_ok_put [of H "[b]" bs p'] b by simp
qed

lemma table_ok_release:
  assumes "table_ok H ((k, g) # es) p G B" and "releaseFragmentGroup g p = (released, g', p')"
  shows "table_ok H es p' (G - 1) (B - released)"
  using assms bufs_ok_put [of H "fg_buffers g" "bufs es" p]
  by (auto simp: table_ok_def releaseFragmentGroup_def)

lemma stored_update: "i < length ds \<Longrightarrow> ds ! i = None \<Longrightarrow> stored (ds[i := Some f]) = Suc (stored ds)"
  unfolding stored_def
  by (induction ds arbitrary: i) (auto simp: nth_Cons split: nat.splits)

lemma cost_update: "i < length ds \<Longrightarrow> ds ! i = None \<Longrightarrow>
    sum_list (map cost (ds[i := Some f])) = sum_list (map cost ds) + cost (Some f)"
  by (induction ds arbitrary: i) (auto simp: nth_Cons cost_def split: nat.splits)

lemma stored_le: "stored ds \<le> length ds"
  by (simp add: stored_def)

lemma stored_full: "stored ds = length ds \<longleftrightarrow> None \<notin> set ds"
proof (induction ds)
  case (Cons d ds)
  moreover have "stored (d # ds) = (if d = None then stored ds else Suc (stored ds))"
    by (simp add: stored_def)
  ultimately show ?case
    using stored_le [of ds] by auto
qed (simp add: stored_def)

section \<open>Storing one fragment\<close>

lemma reserve_quiet:
  "reserveFragmentCapacity c a l [] = (if c + a \<le> l then (True, c + a) else (False, c))"
  by (simp add: reserveFragmentCapacity_def)

definition filled :: "u8 \<Rightarrow> byte list \<Rightarrow> gbuf option \<Rightarrow> int \<Rightarrow> fragmentGroup \<Rightarrow> fragmentGroup" where
  "filled index payload bufPtr retained g =
     g\<lparr>fg_retainedBytes := fg_retainedBytes g + retained,
       fg_data := (fg_data g)[unat index := Some payload],
       fg_buffers := fg_buffers g @ (case bufPtr of Some b \<Rightarrow> [b] | None \<Rightarrow> []),
       fg_received := fg_received g + 1\<rparr>"

definition fresh_group :: "int \<Rightarrow> u8 \<Rightarrow> fragmentGroup" where
  "fresh_group now ftotal =
     \<lparr>fg_total = ftotal, fg_received = 0, fg_data = replicate (unat ftotal) None, fg_buffers = [],
      fg_createdAt = now, fg_retainedBytes = 0\<rparr>"

definition take_buffer :: "byte list \<Rightarrow> UDPBufferPool \<Rightarrow> gbuf option \<times> int \<times> UDPBufferPool" where
  "take_buffer payload p =
     (if length payload \<le> FragmentBufferSize
      then let (b, q) = GetFragmentBuffer p in (Some b, fragmentBufferRetainedBytes b, q)
      else (None, int (length payload), p))"

lemma take_buffer_ok:
  assumes "bufs_ok H bs p" and "take_buffer payload p = (bufPtr, retained, p1)"
  shows "retained = cost (Some payload)"
    and "bufs_ok H ((case bufPtr of Some b \<Rightarrow> [b] | None \<Rightarrow> []) @ bs) p1"
    and "bufs_ok H bs (if bufPtr \<noteq> None then PutFragmentBuffer bufPtr p1 else p1)"
  using assms bufs_ok_get [OF assms(1)]
  by (auto simp: take_buffer_def cost_def fragmentBufferRetainedBytes_def
      split: if_splits prod.splits)

lemma group_wf_fresh [simp]: "group_wf (fresh_group now n)"
  by (simp add: group_wf_def fresh_group_def stored_def cost_def sum_list_replicate)

lemma group_wf_filled:
  assumes "group_wf g" and "unat index < length (fg_data g)" and "fg_data g ! unat index = None"
  shows "group_wf (filled index payload b (cost (Some payload)) g)"
    and "fg_received (filled index payload b c g) = fg_total (filled index payload b c g) \<longleftrightarrow>
      None \<notin> set (fg_data (filled index payload b c g))"
proof -
  let ?ds = "(fg_data g)[unat index := Some payload]"
  have st: "stored ?ds = Suc (unat (fg_received g))"
    using assms by (simp add: stored_update group_wf_def)
  have le: "Suc (unat (fg_received g)) \<le> unat (fg_total g)"
    using stored_le [of ?ds] st assms(1) by (simp add: group_wf_def)
  then have rec: "unat (fg_received g + 1) = Suc (unat (fg_received g))"
    using unsigned_less [of "fg_total g", where ?'a = nat]
    by (simp add: unat_word_ariths)
  show "group_wf (filled index payload b (cost (Some payload)) g)"
    using assms st rec by (simp add: group_wf_def filled_def cost_update)
  show "fg_received (filled index payload b c g) = fg_total (filled index payload b c g) \<longleftrightarrow>
      None \<notin> set (fg_data (filled index payload b c g))"
    using st rec assms(1) stored_full [of ?ds]
    by (simp add: filled_def group_wf_def word_unat_eq_iff)
qed

lemma table_ok_fresh:
  "table_ok H es p G B \<Longrightarrow> table_ok H ((k, fresh_group now n) # es) p (G + 1) B"
  by (simp add: table_ok_def) (simp add: fresh_group_def)

lemma table_ok_filled:
  assumes "table_ok H ((k, g) # es) p G B" and "unat index < length (fg_data g)"
    and "fg_data g ! unat index = None" and "take_buffer payload p = (bufPtr, retained, p1)"
  shows "table_ok H ((k, filled index payload bufPtr retained g) # es) p1 G (B + retained)"
    and "table_ok H ((k, g) # es) (if bufPtr \<noteq> None then PutFragmentBuffer bufPtr p1 else p1) G B"
proof -
  have ok: "bufs_ok H (bufs ((k, g) # es)) p"
    using assms(1) by (simp add: table_ok_def)
  note tb = take_buffer_ok [OF ok assms(4)]
  let ?g = "filled index payload bufPtr retained g" and ?b = "case bufPtr of Some b \<Rightarrow> [b] | None \<Rightarrow> []"
  have "bufs_ok H (bufs ((k, ?g) # es)) p1"
    using tb(2) by (subst bufs_ok_mset [of _ "?b @ bufs ((k, g) # es)"]) (simp_all add: filled_def)
  with assms tb(1) group_wf_filled(1) [of g index payload bufPtr]
  show "table_ok H ((k, ?g) # es) p1 G (B + retained)"
    by (simp add: table_ok_def) (simp add: filled_def)
  show "table_ok H ((k, g) # es) (if bufPtr \<noteq> None then PutFragmentBuffer bufPtr p1 else p1) G B"
    using assms(1) tb(3) by (simp add: table_ok_def)
qed

lemma join_complete:
  "None \<notin> set (fg_data g) \<Longrightarrow> joinFragmentGroup g = concat (map the (fg_data g))"
  unfolding joinFragmentGroup_def
  by (rule arg_cong [of _ _ concat]) (auto split: option.splits)

definition start_group :: "int \<Rightarrow> u8 \<Rightarrow> fragmentGroup option \<Rightarrow> fragmentGroup" where
  "start_group now ftotal found = (case found of Some g \<Rightarrow> g | None \<Rightarrow> fresh_group now ftotal)"

lemma storeFragment_eq:
  fixes sfa :: ShardedFragmentAssembler
  defines "G \<equiv> sa_retainedGroups sfa" and "B \<equiv> sa_retainedBytes sfa"
    and "GL \<equiv> fragmentGroupLimit (sa_maxGroups sfa)" and "BL \<equiv> fragmentByteLimit (sa_maxBytes sfa)"
  assumes tb: "take_buffer payload p = (bufPtr, retained, p1)"
    and g: "g = filled index payload bufPtr retained (start_group now ftotal found)"
    and G1: "G1 = (if found = None then G + 1 else G)"
  shows "storeFragment now i key found index ftotal payload sfa p =
     (if found = None \<and> \<not> G + 1 \<le> GL
      then (Inl ErrFragmentAssemblerFull, sfa\<lparr>sa_groupDrops := sa_groupDrops sfa + 1\<rparr>, p)
      else if \<not> B + retained \<le> BL
      then (Inl ErrFragmentAssemblerFull, sfa\<lparr>sa_byteDrops := sa_byteDrops sfa + 1\<rparr>,
            if bufPtr \<noteq> None then PutFragmentBuffer bufPtr p1 else p1)
      else if fg_received g = fg_total g
      then (Inr (Some (joinFragmentGroup g)),
            sfa\<lparr>sa_shards := (sa_shards sfa)[i := AList.delete key (sa_shards sfa ! i)],
                sa_retainedGroups := G1 - 1,
                sa_retainedBytes := B + retained - fst (releaseFragmentGroup g p1)\<rparr>,
            snd (snd (releaseFragmentGroup g p1)))
      else (Inr None,
            sfa\<lparr>sa_shards := (sa_shards sfa)[i := AList.update key g (sa_shards sfa ! i)],
                sa_retainedGroups := G1, sa_retainedBytes := B + retained\<rparr>, p1))"
proof -
  have keep: "sfa\<lparr>sa_byteDrops := x, sa_retainedGroups := sa_retainedGroups sfa\<rparr> =
      sfa\<lparr>sa_byteDrops := x\<rparr>" for x
    by simp
  show ?thesis
    unfolding storeFragment_def Let_def tb [unfolded take_buffer_def Let_def] reserve_quiet
      fresh_group_def [symmetric] start_group_def [symmetric]
      filled_def [symmetric] g G1 G_def B_def GL_def BL_def
    by (simp add: split_beta keep)
qed

text \<open>The three outcomes of \<open>storeFragment\<close>, over the entries \<open>R\<close> of the other identities.\<close>

lemma storeFragment_cases:
  fixes sfa :: ShardedFragmentAssembler and found :: "fragmentGroup option"
  defines "GL \<equiv> fragmentGroupLimit (sa_maxGroups sfa)" and "BL \<equiv> fragmentByteLimit (sa_maxBytes sfa)"
  assumes tab: "table_ok H (case found of Some g \<Rightarrow> (key, g) # R | None \<Rightarrow> R) p
      (sa_retainedGroups sfa) (sa_retainedBytes sfa)"
    and lim: "sa_retainedGroups sfa \<le> GL"
    and g0: "g0 = start_group now ftotal found"
    and idx: "unat index < length (fg_data g0)" "fg_data g0 ! unat index = None"
    and ds: "ds = (fg_data g0)[unat index := Some payload]"
    and run: "storeFragment now i key found index ftotal payload sfa p = (r, sfa', p')"
  obtains
    (full) gd bd where "r = Inl ErrFragmentAssemblerFull"
      "\<not> (sa_retainedGroups sfa + 1 \<le> GL \<and> sa_retainedBytes sfa + cost (Some payload) \<le> BL)"
      "sfa' = sfa\<lparr>sa_groupDrops := gd, sa_byteDrops := bd\<rparr>"
      "table_ok H (case found of Some g \<Rightarrow> (key, g) # R | None \<Rightarrow> R) p'
         (sa_retainedGroups sfa) (sa_retainedBytes sfa)"
  | (stored) g G B where "r = Inr None" "None \<in> set ds"
      "sfa' = sfa\<lparr>sa_shards := (sa_shards sfa)[i := AList.update key g (sa_shards sfa ! i)],
                  sa_retainedGroups := G, sa_retainedBytes := B\<rparr>"
      "table_ok H ((key, g) # R) p' G B" "G \<le> GL" "B \<le> BL"
      "G \<le> sa_retainedGroups sfa + 1" "B \<le> sa_retainedBytes sfa + cost (Some payload)"
      "fg_total g = fg_total g0" "fg_data g = ds"
  | (finished) G B where "r = Inr (Some (concat (map the ds)))" "None \<notin> set ds"
      "sfa' = sfa\<lparr>sa_shards := (sa_shards sfa)[i := AList.delete key (sa_shards sfa ! i)],
                  sa_retainedGroups := G, sa_retainedBytes := B\<rparr>"
      "table_ok H R p' G B" "G \<le> GL" "B \<le> BL"
      "G \<le> sa_retainedGroups sfa + 1" "B \<le> sa_retainedBytes sfa + cost (Some payload)"
proof -
  let ?G = "sa_retainedGroups sfa" and ?B = "sa_retainedBytes sfa"
  obtain bufPtr retained p1 where tb: "take_buffer payload p = (bufPtr, retained, p1)"
    by (metis surj_pair)
  define G1 where "G1 = (if found = None then ?G + 1 else ?G)"
  define g where "g = filled index payload bufPtr retained g0"
  have tab0: "table_ok H ((key, g0) # R) p G1 ?B"
    using tab table_ok_fresh [of H R p ?G ?B key now ftotal]
    by (cases found) (simp_all add: g0 start_group_def G1_def)
  note fill = table_ok_filled [OF tab0 idx tb, folded g_def]
  have ret: "retained = cost (Some payload)"
    using take_buffer_ok(1) [OF _ tb] tab0 by (auto simp: table_ok_def)
  have G1': "G1 \<le> ?G + 1"
    by (simp add: G1_def)
  have compl: "fg_received g = fg_total g \<longleftrightarrow> None \<notin> set (fg_data g)"
    unfolding g_def using tab0 by (intro group_wf_filled(2) idx) (simp add: table_ok_def)
  have data: "fg_data g = ds" "fg_total g = fg_total g0"
    by (simp_all add: g_def filled_def ds)
  note eq = storeFragment_eq [OF tb g_def [unfolded g0] G1_def, of i key, folded GL_def BL_def]
  obtain released g' p2 where rel: "releaseFragmentGroup g p1 = (released, g', p2)"
    by (metis surj_pair)
  note gone = table_ok_release [OF fill(1) rel]
  show thesis
  proof (cases "found = None \<and> \<not> ?G + 1 \<le> GL")
    case True
    with run eq tab show thesis
      by (intro full [of "sa_byteDrops sfa" "sa_groupDrops sfa + 1"]) auto
  next
    case nofull: False
    with lim have G1: "G1 \<le> GL"
      by (auto simp: G1_def)
    show thesis
    proof (cases "?B + retained \<le> BL")
      case False
      have "table_ok H (case found of Some g \<Rightarrow> (key, g) # R | None \<Rightarrow> R)
          (if bufPtr \<noteq> None then PutFragmentBuffer bufPtr p1 else p1) ?G ?B"
        using fill(2) tab by (cases found) (auto simp: g0 start_group_def G1_def table_ok_def fresh_group_def)
      with nofull False run eq ret show thesis
        by (intro full [of "sa_byteDrops sfa + 1" "sa_groupDrops sfa"]) auto
    next
      case B: True
      show thesis
      proof (cases "None \<in> set ds")
        case True
        with nofull B run eq compl data fill(1) G1 G1' ret show thesis
          by (intro stored [of "?B + retained" G1 g]) auto
      next
        case False
        have "released \<ge> 0"
          using fill(1) rel group_wf_bytes [of g]
          by (simp add: table_ok_def releaseFragmentGroup_def)
        with False nofull B run eq compl data gone G1 G1' ret rel join_complete [of g] show thesis
          by (intro finished [of "?B + retained - released" "G1 - 1"]) auto
      qed
    qed
  qed
qed

section \<open>Replacing the entry of one identity\<close>

lemma shardIndex_less: "shards_ok C sfa \<Longrightarrow> shardIndex C sfa key < length (sa_shards sfa)"
  by (simp add: shards_ok_def shardIndex_def)

lemma shardIndex_cong:
  "sa_seed sfa' = sa_seed sfa \<Longrightarrow> length (sa_shards sfa') = length (sa_shards sfa) \<Longrightarrow>
     shardIndex C sfa' = shardIndex C sfa"
  by (simp add: shardIndex_def fun_eq_iff)

text \<open>\<open>m\<close> is the new shard of \<open>key\<close>: it differs from the old one at \<open>key\<close> only.\<close>

lemma shard_change:
  assumes old: "shards_ok C sfa"
    and seed: "sa_seed sfa' = sa_seed sfa"
    and shards: "sa_shards sfa' = (sa_shards sfa)[shardIndex C sfa key := m]"
    and keys_m: "distinct (keys m)"
    and lookup: "map_of m = (map_of (getShard C sfa key))(key := x)"
  shows "shards_ok C sfa'" and "abs_table C sfa' = (abs_table C sfa)(key := map_option abs_group x)"
proof -
  have index: "shardIndex C sfa' = shardIndex C sfa"
    using seed shards by (intro shardIndex_cong) auto
  have "dom (map_of m) \<subseteq> insert key (dom (map_of (getShard C sfa key)))"
    unfolding lookup by auto
  then have "set (keys m) \<subseteq> insert key (set (keys (getShard C sfa key)))"
    by (simp add: dom_map_of_conv_image_fst)
  then have home: "\<forall>k \<in> set (keys m). shardIndex C sfa k = shardIndex C sfa key"
    using old shardIndex_less [OF old, of key]
    unfolding shards_ok_def getShard_def by blast
  have "distinct (keys (sa_shards sfa' ! j)) \<and>
      (\<forall>k \<in> set (keys (sa_shards sfa' ! j)). shardIndex C sfa k = j)"
    if "j < length (sa_shards sfa)" for j
  proof (cases "j = shardIndex C sfa key")
    case True
    with home keys_m that show ?thesis by (simp add: shards)
  next
    case False
    with old that show ?thesis by (simp add: shards shards_ok_def)
  qed
  then show "shards_ok C sfa'"
    using old unfolding shards_ok_def index by (simp add: shards)
  show "abs_table C sfa' = (abs_table C sfa)(key := map_option abs_group x)"
  proof
    fix k
    have "getShard C sfa' k =
        (if shardIndex C sfa k = shardIndex C sfa key then m else getShard C sfa k)"
      using shardIndex_less [OF old, of key] by (simp add: getShard_def index shards nth_list_update)
    moreover have "getShard C sfa k = getShard C sfa key"
      if "shardIndex C sfa k = shardIndex C sfa key"
      using that by (simp add: getShard_def)
    ultimately show "abs_table C sfa' k = ((abs_table C sfa)(key := map_option abs_group x)) k"
      using lookup by (auto simp: abs_table_def)
  qed
qed

lemma shard_put:
  assumes "shards_ok C sfa" and "sa_seed sfa' = sa_seed sfa"
    and "sa_shards sfa' = (sa_shards sfa)[shardIndex C sfa key := AList.update key g (getShard C sfa key)]"
  shows "shards_ok C sfa'" and "abs_table C sfa' = (abs_table C sfa)(key \<mapsto> abs_group g)"
  using shard_change [OF assms, of "Some g"] assms(1) shardIndex_less [OF assms(1), of key]
  by (simp_all add: shards_ok_def getShard_def update_conv')

lemma shard_remove:
  assumes "shards_ok C sfa" and "sa_seed sfa' = sa_seed sfa"
    and "sa_shards sfa' = (sa_shards sfa)[shardIndex C sfa key := AList.delete key (getShard C sfa key)]"
  shows "shards_ok C sfa'" and "abs_table C sfa' = (abs_table C sfa)(key := None)"
  using shard_change [OF assms, of None] assms(1) shardIndex_less [OF assms(1), of key]
  by (simp_all add: shards_ok_def getShard_def delete_conv')

definition others :: "maphash \<Rightarrow> ShardedFragmentAssembler \<Rightarrow> fragmentKey \<Rightarrow> shard" where
  "others C sfa key =
     concat ((sa_shards sfa)[shardIndex C sfa key := AList.delete key (getShard C sfa key)])"

lemma entries_split:
  assumes "shards_ok C sfa"
  shows "mset (concat (sa_shards sfa)) =
      mset (case map_of (getShard C sfa key) key of Some g \<Rightarrow> (key, g) # others C sfa key
            | None \<Rightarrow> others C sfa key)"
    and "mset (concat ((sa_shards sfa)[shardIndex C sfa key :=
        AList.update key g' (getShard C sfa key)])) = add_mset (key, g') (mset (others C sfa key))"
  using assms shardIndex_less [OF assms, of key]
    mset_concat_delete [of "shardIndex C sfa key" "sa_shards sfa" key]
    mset_concat_put [of "shardIndex C sfa key" "sa_shards sfa" key g']
  by (auto simp: shards_ok_def others_def getShard_def delete_absent split: option.splits)

section \<open>\<open>AddFragment\<close> keeps the invariant and implements the table\<close>

definition refused :: "udp_error + 'a \<Rightarrow> bool" where
  "refused r \<longleftrightarrow> r = Inl ErrFragmentAssemblerClosed \<or> r = Inl ErrFragmentAssemblerFull"

lemma sfa_invI:
  assumes "shards_ok C sfa'" and "mset (concat (sa_shards sfa')) = mset es"
    and "table_ok H es p' (sa_retainedGroups sfa') (sa_retainedBytes sfa')"
    and "\<forall>e \<in> set es. incomplete (snd e)"
    and "sa_retainedGroups sfa' \<le> fragmentGroupLimit (sa_maxGroups sfa')"
    and "sa_retainedBytes sfa' \<le> fragmentByteLimit (sa_maxBytes sfa')" and "\<not> sa_closed sfa'"
  shows "sfa_inv C H (sfa', p')"
  using assms(1,3-) mset_eq_setD [OF assms(2)] table_ok_mset [OF assms(2)]
  by (simp add: sfa_inv_def del: set_concat)

lemma storeFragment_entries:
  assumes inv: "sfa_inv C H (sfa, p)" and found: "found = map_of (getShard C sfa key) key"
    and tot: "case found of None \<Rightarrow> True | Some g \<Rightarrow> fg_total g = ftotal \<and> fg_data g ! unat index = None"
    and idx: "unat index < unat ftotal"
  shows "table_ok H (case found of Some g \<Rightarrow> (key, g) # others C sfa key | None \<Rightarrow> others C sfa key) p
      (sa_retainedGroups sfa) (sa_retainedBytes sfa)"
    and "unat index < length (fg_data (start_group now ftotal found))"
    and "fg_data (start_group now ftotal found) ! unat index = None"
    and "fg_total (start_group now ftotal found) = ftotal"
proof -
  have "mset (concat (sa_shards sfa)) =
      mset (case found of Some g \<Rightarrow> (key, g) # others C sfa key | None \<Rightarrow> others C sfa key)"
    unfolding found using inv by (intro entries_split(1)) (simp add: sfa_inv_def)
  from table_ok_mset [OF this] inv
  show tab: "table_ok H (case found of Some g \<Rightarrow> (key, g) # others C sfa key | None \<Rightarrow> others C sfa key) p
      (sa_retainedGroups sfa) (sa_retainedBytes sfa)"
    by (simp add: sfa_inv_def)
  show "unat index < length (fg_data (start_group now ftotal found))"
    "fg_data (start_group now ftotal found) ! unat index = None"
    "fg_total (start_group now ftotal found) = ftotal"
    using tot idx tab
    by (auto simp: start_group_def fresh_group_def table_ok_def group_wf_def split: option.splits)
qed

lemma storeFragment_step:
  assumes inv: "sfa_inv C H (sfa, p)" and open_: "\<not> sa_closed sfa"
    and found: "found = map_of (getShard C sfa key) key"
    and tot: "case found of None \<Rightarrow> True | Some g \<Rightarrow> fg_total g = ftotal \<and> fg_data g ! unat index = None"
    and idx: "unat index < unat ftotal"
    and run: "storeFragment now (shardIndex C sfa key) key found index ftotal payload sfa p =
      (r, sfa', p')"
  shows "sfa_inv C H (sfa', p') \<and>
    (if refused r then abs_table C sfa' = abs_table C sfa
     else (r, abs_table C sfa') = spec_fill key (unat index) (unat ftotal) payload
            (fg_data (start_group now ftotal found)) (abs_table C sfa))"
proof -
  let ?R = "others C sfa key" and ?i = "shardIndex C sfa key" and ?m = "getShard C sfa key"
  let ?es = "case found of Some g \<Rightarrow> (key, g) # ?R | None \<Rightarrow> ?R"
  let ?g0 = "start_group now ftotal found"
  let ?ds = "(fg_data ?g0)[unat index := Some payload]"
  have ok: "shards_ok C sfa"
    using inv by (simp add: sfa_inv_def)
  note es = entries_split [OF ok, of key, folded found]
  note pre = storeFragment_entries [OF inv found tot idx]
  have inc: "\<forall>e \<in> set ?es. incomplete (snd e)"
    using inv mset_eq_setD [OF es(1)] by (simp add: sfa_inv_def del: set_concat)
  then have inc': "\<forall>e \<in> set ?R. incomplete (snd e)"
    by (cases found) auto
  have lim: "sa_retainedGroups sfa \<le> fragmentGroupLimit (sa_maxGroups sfa)"
    "sa_retainedBytes sfa \<le> fragmentByteLimit (sa_maxBytes sfa)"
    using inv by (simp_all add: sfa_inv_def)
  have m: "sa_shards sfa ! ?i = ?m"
    by (simp add: getShard_def)
  show ?thesis
  proof (rule storeFragment_cases [OF pre(1) lim(1) refl pre(2,3) refl run])
    fix gd bd
    assume r: "r = Inl ErrFragmentAssemblerFull"
      and sfa': "sfa' = sfa\<lparr>sa_groupDrops := gd, sa_byteDrops := bd\<rparr>"
      and tab': "table_ok H ?es p' (sa_retainedGroups sfa) (sa_retainedBytes sfa)"
    have same: "abs_table C sfa' = abs_table C sfa" "shards_ok C sfa' = shards_ok C sfa"
      by (simp_all add: sfa' abs_table_def getShard_def shardIndex_def fun_eq_iff shards_ok_def)
    have "sfa_inv C H (sfa', p')"
      by (rule sfa_invI [of _ _ ?es])
        (use ok same(2) es(1) tab' inc lim open_ in \<open>simp_all add: sfa' del: mset_concat\<close>)
    with r same show ?thesis
      by (simp add: refused_def)
  next
    fix g G B
    assume r: "r = Inr None" and ds: "None \<in> set ?ds"
      and sfa': "sfa' = sfa\<lparr>sa_shards := (sa_shards sfa)[?i := AList.update key g (sa_shards sfa ! ?i)],
                  sa_retainedGroups := G, sa_retainedBytes := B\<rparr>"
      and tab': "table_ok H ((key, g) # ?R) p' G B" and lim': "G \<le> fragmentGroupLimit (sa_maxGroups sfa)"
        "B \<le> fragmentByteLimit (sa_maxBytes sfa)"
      and g: "fg_total g = fg_total ?g0" "fg_data g = ?ds"
    have new: "shards_ok C sfa'" "abs_table C sfa' = (abs_table C sfa)(key \<mapsto> abs_group g)"
      using shard_put [OF ok, of sfa' key g] by (simp_all add: sfa' m)
    have "sfa_inv C H (sfa', p')"
      by (rule sfa_invI [of _ _ "(key, g) # ?R"])
        (use new(1) es(2) [of g] tab' inc' lim' open_ ds g(2) in
          \<open>simp_all add: sfa' m incomplete_def del: mset_concat\<close>)
    with r new ds g pre(4) show ?thesis
      by (simp add: refused_def spec_fill_def abs_group_def)
  next
    fix G B
    assume r: "r = Inr (Some (concat (map the ?ds)))" and ds: "None \<notin> set ?ds"
      and sfa': "sfa' = sfa\<lparr>sa_shards := (sa_shards sfa)[?i := AList.delete key (sa_shards sfa ! ?i)],
                  sa_retainedGroups := G, sa_retainedBytes := B\<rparr>"
      and tab': "table_ok H ?R p' G B" and lim': "G \<le> fragmentGroupLimit (sa_maxGroups sfa)"
        "B \<le> fragmentByteLimit (sa_maxBytes sfa)"
    have new: "shards_ok C sfa'" "abs_table C sfa' = (abs_table C sfa)(key := None)"
      using shard_remove [OF ok, of sfa' key] by (simp_all add: sfa' m)
    have "sfa_inv C H (sfa', p')"
      by (rule sfa_invI [of _ _ ?R])
        (use new(1) tab' inc' lim' open_ in \<open>simp_all add: sfa' m others_def del: mset_concat set_concat\<close>)
    with r new ds show ?thesis
      by (simp add: refused_def spec_fill_def)
  qed
qed

lemma validateFragmentInput_nat:
  "validateFragmentInput index ftotal =
     (if unat ftotal < 2 then Some ErrInvalidFragTotal
      else if unat ftotal \<le> unat index then Some ErrInvalidFragIndex else None)"
  by (simp add: validateFragmentInput_def word_less_nat_alt word_le_nat_alt)

lemma found_group:
  assumes "sfa_inv C H (sfa, p)" and "map_of (getShard C sfa key) key = Some g"
  shows "table_ok H ((key, g) # others C sfa key) p (sa_retainedGroups sfa) (sa_retainedBytes sfa)"
    and "group_wf g" and "abs_table C sfa key = Some (abs_group g)"
    and "\<forall>e \<in> set (others C sfa key). incomplete (snd e)"
proof -
  have ok: "shards_ok C sfa"
    using assms(1) by (simp add: sfa_inv_def)
  note es = entries_split(1) [OF ok, of key, unfolded assms(2), simplified]
  show t: "table_ok H ((key, g) # others C sfa key) p (sa_retainedGroups sfa) (sa_retainedBytes sfa)"
    using assms(1) table_ok_mset [of "concat (sa_shards sfa)" "(key, g) # others C sfa key"] es
    by (simp add: sfa_inv_def)
  then show "group_wf g"
    by (simp add: table_ok_def)
  show "abs_table C sfa key = Some (abs_group g)"
    using assms(2) by (simp add: abs_table_def)
  have "set (concat (sa_shards sfa)) = insert (key, g) (set (others C sfa key))"
    using mset_eq_setD [of "concat (sa_shards sfa)" "(key, g) # others C sfa key"] es
    by (simp del: set_concat)
  then show "\<forall>e \<in> set (others C sfa key). incomplete (snd e)"
    using assms(1) by (simp add: sfa_inv_def del: set_concat)
qed

lemma drop_group_step:
  assumes inv: "sfa_inv C H (sfa, p)" and open_: "\<not> sa_closed sfa"
    and found: "map_of (getShard C sfa key) key = Some g"
    and rel: "releaseFragmentGroup g p = (released, g', p')"
    and sfa': "sfa' = sfa\<lparr>sa_shards := (sa_shards sfa)[shardIndex C sfa key :=
        AList.delete key (getShard C sfa key)],
      sa_retainedGroups := sa_retainedGroups sfa - 1,
      sa_retainedBytes := sa_retainedBytes sfa - released\<rparr>"
  shows "sfa_inv C H (sfa', p')" and "abs_table C sfa' = (abs_table C sfa)(key := None)"
proof -
  have ok: "shards_ok C sfa"
    using inv by (simp add: sfa_inv_def)
  have new: "shards_ok C sfa'" "abs_table C sfa' = (abs_table C sfa)(key := None)"
    using shard_remove [OF ok, of sfa' key] by (simp_all add: sfa')
  then show "abs_table C sfa' = (abs_table C sfa)(key := None)"
    by simp
  note g = found_group [OF inv found]
  have "table_ok H (others C sfa key) p' (sa_retainedGroups sfa - 1) (sa_retainedBytes sfa - released)"
    by (rule table_ok_release [OF g(1) rel])
  moreover have "released \<ge> 0"
    using group_wf_bytes [OF g(2)] rel by (simp add: releaseFragmentGroup_def)
  ultimately show "sfa_inv C H (sfa', p')"
    using new(1) inv open_ g(4)
    by (intro sfa_invI [of _ _ "others C sfa key"])
      (simp_all add: sfa' others_def sfa_inv_def del: mset_concat set_concat)
qed

lemma AddFragment_existing:
  assumes inv: "sfa_inv C H (sfa, p)" and go: "\<not> sa_closed sfa"
    and key: "key = \<lparr>fk_sessionID = sid, fk_fragID = fid\<rparr>"
    and found: "map_of (getShard C sfa key) key = Some g"
    and valid: "validateFragmentInput index ftotal = None"
    and run: "AddFragment C now sid fid index ftotal payload (sfa, p) = (r, sfa', p')"
  shows "sfa_inv C H (sfa', p') \<and>
    (if refused r then abs_table C sfa' = abs_table C sfa
     else (r, abs_table C sfa') = spec_add key (unat index) (unat ftotal) payload (abs_table C sfa))"
proof -
  note g = found_group [OF inv found]
  have idx: "unat index < unat ftotal" "\<not> unat ftotal < 2"
    using valid by (auto simp: validateFragmentInput_nat split: if_splits)
  have g_len: "length (fg_data g) = unat (fg_total g)"
    using g(2) by (simp add: group_wf_def)
  show ?thesis
  proof (cases "fg_total g = ftotal")
    case False
    obtain released g' p1 where rel: "releaseFragmentGroup g p = (released, g', p1)"
      by (metis surj_pair)
    have "r = Inl ErrFragmentTotalMismatch" "p' = p1" and sfa': "sfa' = sfa\<lparr>sa_shards :=
        (sa_shards sfa)[shardIndex C sfa key := AList.delete key (getShard C sfa key)],
        sa_retainedGroups := sa_retainedGroups sfa - 1,
        sa_retainedBytes := sa_retainedBytes sfa - released\<rparr>"
      using go valid run found False rel
      by (auto simp: AddFragment_def validateFragmentGroup_def Let_def key)
    moreover have "unat (fg_total g) \<noteq> unat ftotal"
      using False by (simp add: word_unat_eq_iff)
    ultimately show ?thesis
      using drop_group_step [OF inv go found rel sfa'] idx g(3)
      by (simp add: spec_add_def refused_def abs_group_def)
  next
    case tot: True
    have val: "validateFragmentGroup g index ftotal = None"
      using tot g_len idx by (simp add: validateFragmentGroup_def)
    show ?thesis
    proof (cases "fg_data g ! unat index = None")
      case True
      then have "storeFragment now (shardIndex C sfa key) key (Some g) index ftotal payload sfa p =
          (r, sfa', p')"
        using go valid run found val by (simp add: AddFragment_def Let_def key)
      from storeFragment_step [OF inv go _ _ idx(1) this] found idx True tot g(3) show ?thesis
        by (simp add: spec_add_def start_group_def abs_group_def)
    next
      case False
      then show ?thesis
        using inv go valid run found val idx tot g(3)
        by (simp add: AddFragment_def spec_add_def refused_def abs_group_def Let_def key)
    qed
  qed
qed

lemma AddFragment_step:
  assumes inv: "sfa_inv C H (sfa, p)"
    and run: "AddFragment C now sid fid index ftotal payload (sfa, p) = (r, sfa', p')"
    and key: "key = \<lparr>fk_sessionID = sid, fk_fragID = fid\<rparr>"
  shows "sfa_inv C H (sfa', p') \<and>
    (if refused r then abs_table C sfa' = abs_table C sfa
     else (r, abs_table C sfa') = spec_add key (unat index) (unat ftotal) payload (abs_table C sfa))"
proof (cases "validateFragmentInput index ftotal")
  case (Some err)
  with inv run show ?thesis
    by (auto simp: AddFragment_def validateFragmentInput_nat spec_add_def refused_def split: if_splits)
next
  case valid: None
  then have idx: "unat index < unat ftotal" "\<not> unat ftotal < 2"
    by (auto simp: validateFragmentInput_nat split: if_splits)
  show ?thesis
  proof (cases "sa_closed sfa \<or> map_of (getShard C sfa key) key \<noteq> None")
    case True
    with AddFragment_existing [OF inv _ key _ valid run] show ?thesis
      using inv valid run by (cases "sa_closed sfa") (auto simp: AddFragment_def refused_def)
  next
    case False
    then have "storeFragment now (shardIndex C sfa key) key None index ftotal payload sfa p =
        (r, sfa', p')"
      using valid run by (simp add: AddFragment_def Let_def key)
    from storeFragment_step [OF inv _ _ _ idx(1) this] False idx show ?thesis
      by (simp add: spec_add_def abs_table_def start_group_def fresh_group_def)
  qed
qed

section \<open>Capacity\<close>

text \<open>Room for one more fragment, and what a call may use of it.\<close>

definition room :: "ShardedFragmentAssembler \<Rightarrow> int \<Rightarrow> int \<Rightarrow> bool" where
  "room sfa groups bytes \<longleftrightarrow> \<not> sa_closed sfa \<and>
     sa_retainedGroups sfa + groups \<le> fragmentGroupLimit (sa_maxGroups sfa) \<and>
     sa_retainedBytes sfa + bytes \<le> fragmentByteLimit (sa_maxBytes sfa)"

lemma cost_nonneg [simp]: "0 \<le> cost d"
  by (simp add: cost_def split: option.split)

lemma storeFragment_room:
  assumes "sfa_inv C H (sfa, p)" and "found = map_of (getShard C sfa key) key"
    and "case found of None \<Rightarrow> True | Some g \<Rightarrow> fg_total g = ftotal \<and> fg_data g ! unat index = None"
    and "unat index < unat ftotal"
    and run: "storeFragment now (shardIndex C sfa key) key found index ftotal payload sfa p =
      (r, sfa', p')"
    and "room sfa (1 + G) (cost (Some payload) + B)" and "0 \<le> G" and "0 \<le> B"
  shows "\<not> refused r \<and> room sfa' G B"
proof -
  note pre = storeFragment_entries [OF assms(1-4)]
  have lim: "sa_retainedGroups sfa \<le> fragmentGroupLimit (sa_maxGroups sfa)"
    using assms(1) by (simp add: sfa_inv_def)
  show ?thesis
    by (rule storeFragment_cases [OF pre(1) lim refl pre(2,3) refl run])
      (use assms(6-) in \<open>auto simp: refused_def room_def\<close>)
qed

lemma AddFragment_room:
  assumes inv: "sfa_inv C H (sfa, p)"
    and run: "AddFragment C now sid fid index ftotal payload (sfa, p) = (r, sfa', p')"
    and room: "room sfa (1 + G) (cost (Some payload) + B)" "0 \<le> G" "0 \<le> B"
  shows "\<not> refused r \<and> room sfa' G B"
proof -
  let ?key = "\<lparr>fk_sessionID = sid, fk_fragID = fid\<rparr>"
  have open_: "\<not> sa_closed sfa" and keep: "room sfa G B"
    using room cost_nonneg [of "Some payload"] by (auto simp: room_def simp del: cost_nonneg)
  show ?thesis
  proof (cases "validateFragmentInput index ftotal")
    case (Some err)
    with run keep show ?thesis
      by (auto simp: AddFragment_def validateFragmentInput_def refused_def split: if_splits)
  next
    case valid: None
    then have idx: "unat index < unat ftotal"
      by (auto simp: validateFragmentInput_nat split: if_splits)
    consider (store) "storeFragment now (shardIndex C sfa ?key) ?key (map_of (getShard C sfa ?key) ?key)
          index ftotal payload sfa p = (r, sfa', p')"
        "case map_of (getShard C sfa ?key) ?key of None \<Rightarrow> True
         | Some g \<Rightarrow> fg_total g = ftotal \<and> fg_data g ! unat index = None"
      | (keep) "\<not> refused r" "sfa' = sfa"
      | (drop) g where "\<not> refused r" "map_of (getShard C sfa ?key) ?key = Some g" "sfa' = sfa\<lparr>sa_shards :=
          (sa_shards sfa)[shardIndex C sfa ?key := AList.delete ?key (getShard C sfa ?key)],
          sa_retainedGroups := sa_retainedGroups sfa - 1,
          sa_retainedBytes := sa_retainedBytes sfa - fg_retainedBytes g\<rparr>"
      using run valid open_
      by (cases "map_of (getShard C sfa ?key) ?key")
        (auto simp: AddFragment_def Let_def validateFragmentGroup_def releaseFragmentGroup_def refused_def
          split: if_splits)
    then show ?thesis
    proof cases
      case store
      then show ?thesis
        using storeFragment_room [OF inv refl _ idx _ room] by blast
    next
      case keep
      with \<open>room sfa G B\<close> show ?thesis by simp
    next
      case drop
      with group_wf_bytes [OF found_group(2) [OF inv drop(2)]] \<open>room sfa G B\<close> show ?thesis
        by (simp add: room_def)
    qed
  qed
qed

section \<open>The contract of \<open>UDPFragmentAssembler\<close>\<close>

type_synonym 's assembler =
  "int \<Rightarrow> u32 \<Rightarrow> u64 \<Rightarrow> u8 \<Rightarrow> u8 \<Rightarrow> byte list \<Rightarrow> 's \<Rightarrow> (udp_error + byte list option) \<times> 's"

type_synonym received = "udp_error + u32 \<times> byte list option \<times> bool"

text \<open>A receiver: the datagrams arrive one by one, each at its time.\<close>

fun receive_all :: "'s assembler \<Rightarrow> (int \<times> byte list) list \<Rightarrow> 's \<Rightarrow> received list \<times> 's" where
  "receive_all add [] s = ([], s)"
| "receive_all add ((now, g) # gs) s =
     (let (r, s1) = DecodeAndAssembleUDPDatagram g (Some (add now)) s;
          (rs, s2) = receive_all add gs s1
      in (r # rs, s2))"

text \<open>The identity of a datagram that carries a fragment.\<close>

definition datagram_key :: "byte list \<Rightarrow> fragmentKey option" where
  "datagram_key g = (case DecodeUDPDatagram g of
       Inr d \<Rightarrow> if ud_IsFragmented d
               then Some \<lparr>fk_sessionID = ud_SessionID d, fk_fragID = ud_FragmentID d\<rparr> else None
     | Inl _ \<Rightarrow> None)"

text \<open>A group of which the fragments with the indices \<open>S\<close> have arrived.\<close>

definition partial :: "nat \<Rightarrow> (nat \<Rightarrow> byte list) \<Rightarrow> nat set \<Rightarrow> (nat \<times> byte list option list) option" where
  "partial n pay S = (if S = {} then None
     else Some (n, map (\<lambda>i. if i \<in> S then Some (pay i) else None) [0..<n]))"

lemma partial_update:
  "i < n \<Longrightarrow> (map (\<lambda>i. if i \<in> S then Some (pay i) else None) [0..<n])[i := Some (pay i)] =
     map (\<lambda>j. if j \<in> insert i S then Some (pay j) else None) [0..<n]"
  by (rule nth_equalityI) (auto simp: nth_list_update)

lemma partial_full:
  "None \<notin> set (map (\<lambda>i. if i \<in> S then Some (pay i) else None) [0..<n]) \<longleftrightarrow> {..<n} \<subseteq> S"
  by auto

lemma spec_add_partial:
  assumes T: "T k = partial n pay S" and S: "S \<subseteq> {..<n}" and i: "i < n" and n: "2 \<le> n"
  shows "i \<in> S \<Longrightarrow> spec_add k i n (pay i) T = (Inr None, T)"
    and "i \<notin> S \<Longrightarrow> insert i S \<noteq> {..<n} \<Longrightarrow>
      spec_add k i n (pay i) T = (Inr None, T(k := partial n pay (insert i S)))"
    and "i \<notin> S \<Longrightarrow> insert i S = {..<n} \<Longrightarrow>
      spec_add k i n (pay i) T = (Inr (Some (concat (map pay [0..<n]))), T(k := None))"
proof -
  show "i \<in> S \<Longrightarrow> spec_add k i n (pay i) T = (Inr None, T)"
    using T i n by (auto simp: spec_add_def partial_def)
  let ?ds = "map (\<lambda>i. if i \<in> S then Some (pay i) else None) [0..<n]"
  let ?ds' = "map (\<lambda>j. if j \<in> insert i S then Some (pay j) else None) [0..<n]"
  have "S = {} \<Longrightarrow> ?ds = replicate n None"
    by (simp add: map_replicate_const)
  then have fill: "spec_add k i n (pay i) T = spec_fill k i n (pay i) ?ds T" if "i \<notin> S"
    using that T i n by (auto simp: spec_add_def partial_def)
  have full: "None \<notin> set ?ds' \<longleftrightarrow> insert i S = {..<n}"
    unfolding partial_full using S i by auto
  show "spec_add k i n (pay i) T = (Inr None, T(k := partial n pay (insert i S)))"
    if "i \<notin> S" "insert i S \<noteq> {..<n}"
    using fill [OF that(1)] full that(2)
    unfolding spec_fill_def partial_update [OF i] Let_def by (simp add: partial_def)
  show "spec_add k i n (pay i) T = (Inr (Some (concat (map pay [0..<n]))), T(k := None))"
    if "i \<notin> S" "insert i S = {..<n}"
  proof -
    have pay: "map the ?ds' = map pay [0..<n]"
      using that(2) by simp
    show ?thesis
      unfolding fill [OF that(1)] spec_fill_def partial_update [OF i] Let_def pay
      using full that(2) by simp
  qed
qed

lemma spec_add_other: "k' \<noteq> k \<Longrightarrow> snd (spec_add k i n payload T) k' = T k'"
  by (auto simp: spec_add_def spec_fill_def Let_def split: option.splits)

locale fragment_assembler =
  fixes add :: "'s assembler" and inv :: "'s \<Rightarrow> bool" and table :: "'s \<Rightarrow> reassembly"
  assumes add_inv: "inv s \<Longrightarrow> add now sid fid i n payload s = (r, s') \<Longrightarrow> inv s'"
    and add_refused: "inv s \<Longrightarrow> add now sid fid i n payload s = (r, s') \<Longrightarrow> refused r \<Longrightarrow>
      table s' = table s"
    and add_refines: "inv s \<Longrightarrow> add now sid fid i n payload s = (r, s') \<Longrightarrow> \<not> refused r \<Longrightarrow>
      (r, table s') = spec_add \<lparr>fk_sessionID = sid, fk_fragID = fid\<rparr> (unat i) (unat n) payload (table s)"
begin

lemma receive_inv:
  assumes "inv s" and "DecodeAndAssembleUDPDatagram g (Some (add now)) s = (r, s')"
  shows "inv s'"
  using assms
  by (auto simp: DecodeAndAssembleUDPDatagram_def Let_def
      split: sum.splits if_splits prod.splits dest: add_inv)

text \<open>A datagram of another identity, a plain one or a malformed one leaves an identity alone.\<close>

lemma receive_other:
  assumes "inv s" and "DecodeAndAssembleUDPDatagram g (Some (add now)) s = (r, s')"
    and "datagram_key g \<noteq> Some k"
  shows "table s' k = table s k"
proof (cases "DecodeUDPDatagram g")
  case (Inl e)
  with assms show ?thesis by (simp add: DecodeAndAssembleUDPDatagram_def)
next
  case (Inr d)
  show ?thesis
  proof (cases "ud_IsFragmented d")
    case False
    with Inr assms show ?thesis by (simp add: DecodeAndAssembleUDPDatagram_def)
  next
    case True
    let ?k = "\<lparr>fk_sessionID = ud_SessionID d, fk_fragID = ud_FragmentID d\<rparr>"
    obtain r1 where add: "add now (ud_SessionID d) (ud_FragmentID d) (ud_FragmentIndex d)
        (ud_FragmentTotal d) (ud_Payload d) s = (r1, s')"
      using Inr True assms(2)
      by (auto simp: DecodeAndAssembleUDPDatagram_def Let_def split: prod.splits sum.splits)
    have "k \<noteq> ?k"
      using Inr True assms(3) by (auto simp: datagram_key_def)
    then show ?thesis
      using add_refused [OF assms(1) add] add_refines [OF assms(1) add] spec_add_other
      by (cases "refused r1") (metis snd_conv)+
  qed
qed

text \<open>A fragment of the packet: the table's step, unless the assembler refuses it.\<close>

lemma receive_fragment:
  assumes "inv s" and "DecodeAndAssembleUDPDatagram g (Some (add now)) s = (r, s')"
    and "DecodeUDPDatagram g = Inr (fragment_datagram sid fid data i)" and "\<not> refused r"
    and "i < fragment_count data" and "fragment_count data \<le> 255"
    and "k = \<lparr>fk_sessionID = sid, fk_fragID = fid\<rparr>"
    and "spec_add k i (fragment_count data) (piece data i) (table s) = (r0, T)"
  shows "r = (case r0 of Inl e \<Rightarrow> Inl e | Inr payload \<Rightarrow> Inr (sid, payload, payload \<noteq> None))"
    and "table s' = T"
proof -
  obtain r1 where add: "add now sid fid (of_nat i) (of_nat (fragment_count data)) (piece data i) s =
      (r1, s')" and r: "r = (case r1 of Inl e \<Rightarrow> Inl e | Inr payload \<Rightarrow> Inr (sid, payload, payload \<noteq> None))"
    using assms(2,3)
    by (auto simp: DecodeAndAssembleUDPDatagram_def Let_def fragment_datagram_def
        split: prod.splits sum.splits)
  have "\<not> refused r1"
    using assms(4) by (auto simp: refused_def r)
  from add_refines [OF assms(1) add this] assms(5,6,7,8)
  show "r = (case r0 of Inl e \<Rightarrow> Inl e | Inr payload \<Rightarrow> Inr (sid, payload, payload \<noteq> None))"
    and "table s' = T"
    by (simp_all add: r unat_of_nat)
qed

end

interpretation sharded: fragment_assembler "AddFragment C" "sfa_inv C H" "\<lambda>(sfa, p). abs_table C sfa"
  for C H
proof
  fix s now sid fid i n payload r s'
  assume inv: "sfa_inv C H s" and run: "AddFragment C now sid fid i n payload s = (r, s')"
  obtain sfa p sfa' p' where s: "s = (sfa, p)" "s' = (sfa', p')"
    by (cases s, cases s')
  note step = AddFragment_step [OF inv [unfolded s] run [unfolded s] refl]
  show "sfa_inv C H s'"
    using step s by simp
  show "refused r \<Longrightarrow> (case s' of (sfa, p) \<Rightarrow> abs_table C sfa) = (case s of (sfa, p) \<Rightarrow> abs_table C sfa)"
    using step s by simp
  show "\<not> refused r \<Longrightarrow> (r, case s' of (sfa, p) \<Rightarrow> abs_table C sfa) =
      spec_add \<lparr>fk_sessionID = sid, fk_fragID = fid\<rparr> (unat i) (unat n) payload
        (case s of (sfa, p) \<Rightarrow> abs_table C sfa)"
    using step s by simp
qed

section \<open>Reassembly in any order\<close>

text \<open>The indices of the packet's fragments among the datagrams \<open>gs\<close>.\<close>

definition arrived :: "u32 \<Rightarrow> u64 \<Rightarrow> byte list \<Rightarrow> (int \<times> byte list) list \<Rightarrow> nat set" where
  "arrived sid fid data gs = {i. i < fragment_count data \<and>
     (\<exists>g \<in> snd ` set gs. DecodeUDPDatagram g = Inr (fragment_datagram sid fid data i))}"

text \<open>Every datagram that claims the packet's identity is one of its fragments.\<close>

definition genuine :: "u32 \<Rightarrow> u64 \<Rightarrow> byte list \<Rightarrow> (int \<times> byte list) list \<Rightarrow> bool" where
  "genuine sid fid data gs \<longleftrightarrow> (\<forall>g \<in> snd ` set gs.
     datagram_key g = Some \<lparr>fk_sessionID = sid, fk_fragID = fid\<rparr> \<longrightarrow>
     (\<exists>i < fragment_count data. DecodeUDPDatagram g = Inr (fragment_datagram sid fid data i)))"

lemma fragment_datagram_inject:
  assumes "fragment_count data \<le> 255" and "i < fragment_count data" and "j < fragment_count data"
    and "fragment_datagram sid fid data i = fragment_datagram sid fid data j"
  shows "i = j"
proof -
  have "unat (of_nat i :: u8) = unat (of_nat j :: u8)"
    using assms(4) by (simp add: fragment_datagram_def)
  with assms(1-3) show ?thesis
    by (simp add: unat_of_nat)
qed

lemma arrived_Nil [simp]: "arrived sid fid data [] = {}"
  by (simp add: arrived_def)

lemma arrived_Cons_fragment:
  assumes "fragment_count data \<le> 255" and "i < fragment_count data"
    and "DecodeUDPDatagram g = Inr (fragment_datagram sid fid data i)"
  shows "arrived sid fid data ((t, g) # gs) = insert i (arrived sid fid data gs)"
  using assms by (auto simp: arrived_def dest: fragment_datagram_inject [OF assms(1,2)])

lemma arrived_Cons_other:
  assumes "datagram_key g \<noteq> Some \<lparr>fk_sessionID = sid, fk_fragID = fid\<rparr>"
  shows "arrived sid fid data ((t, g) # gs) = arrived sid fid data gs"
  using assms by (auto simp: arrived_def datagram_key_def fragment_datagram_def)

lemma genuine_Cons: "genuine sid fid data ((t, g) # gs) \<longleftrightarrow>
    (datagram_key g = Some \<lparr>fk_sessionID = sid, fk_fragID = fid\<rparr> \<longrightarrow>
     (\<exists>i < fragment_count data. DecodeUDPDatagram g = Inr (fragment_datagram sid fid data i))) \<and>
    genuine sid fid data gs"
  by (auto simp: genuine_def)

context fragment_assembler
begin

lemma receive_known:
  assumes "inv s" and "DecodeAndAssembleUDPDatagram g (Some (add now)) s = (r, s')"
    and "DecodeUDPDatagram g = Inr (fragment_datagram sid fid data i)" and "\<not> refused r"
    and "i < fragment_count data" and "2 \<le> fragment_count data" and "fragment_count data \<le> 255"
    and "k = \<lparr>fk_sessionID = sid, fk_fragID = fid\<rparr>"
    and "table s k = partial (fragment_count data) (piece data) S" and "S \<subset> {..<fragment_count data}"
  shows "if insert i S = {..<fragment_count data}
    then r = Inr (sid, Some data, True) \<and> table s' k = None
    else r = Inr (sid, None, False) \<and>
      table s' k = partial (fragment_count data) (piece data) (insert i S)"
proof -
  note step = receive_fragment [OF assms(1-5,7,8)]
  have S: "S \<subseteq> {..<fragment_count data}" "S \<noteq> {..<fragment_count data}"
    using assms(10) by auto
  note spec = spec_add_partial [of "table s", OF assms(9) S(1) assms(5,6)]
  consider "i \<in> S" | "i \<notin> S" "insert i S \<noteq> {..<fragment_count data}"
    | "i \<notin> S" "insert i S = {..<fragment_count data}"
    by blast
  then show ?thesis
  proof cases
    case 1
    with step [OF spec(1)] S(2) assms(9) show ?thesis
      by (simp add: insert_absorb)
  next
    case 2
    with step [OF spec(2)] show ?thesis by simp
  next
    case 3
    with step [OF spec(3)] show ?thesis by (simp add: concat_pieces)
  qed
qed

lemma receive_all_pending:
  assumes "inv s" and "receive_all add gs s = (rs, s')" and "\<forall>r \<in> set rs. \<not> refused r"
    and "genuine sid fid data gs" and "2 \<le> fragment_count data" and "fragment_count data \<le> 255"
    and k: "k = \<lparr>fk_sessionID = sid, fk_fragID = fid\<rparr>"
    and "table s k = partial (fragment_count data) (piece data) S"
    and "S \<union> arrived sid fid data gs \<subset> {..<fragment_count data}"
  shows "inv s' \<and> table s' k = partial (fragment_count data) (piece data) (S \<union> arrived sid fid data gs) \<and>
    (\<forall>(g, r) \<in> set (zip (map snd gs) rs). datagram_key g = Some k \<longrightarrow> r = Inr (sid, None, False))"
  using assms(1-4,8,9)
proof (induction gs arbitrary: s rs S)
  case Nil
  then show ?case by simp
next
  case (Cons a gs)
  obtain t g where a: "a = (t, g)"
    by (cases a)
  obtain r s1 where one: "DecodeAndAssembleUDPDatagram g (Some (add t)) s = (r, s1)"
    by (metis surj_pair)
  with Cons.prems(2) obtain rs1 where rest: "receive_all add gs s1 = (rs1, s')" and rs: "rs = r # rs1"
    by (auto simp: a split: prod.splits)
  have inv1: "inv s1"
    by (rule receive_inv [OF Cons.prems(1) one])
  have gen: "genuine sid fid data gs"
    using Cons.prems(4) by (simp add: a genuine_Cons)
  show ?case
  proof (cases "datagram_key g = Some k")
    case True
    then obtain i where i: "i < fragment_count data"
      and dec: "DecodeUDPDatagram g = Inr (fragment_datagram sid fid data i)"
      using Cons.prems(4) by (auto simp: a genuine_Cons k)
    have arr: "arrived sid fid data (a # gs) = insert i (arrived sid fid data gs)"
      unfolding a by (rule arrived_Cons_fragment [OF assms(6) i dec])
    have sub: "insert i S \<union> arrived sid fid data gs \<subset> {..<fragment_count data}"
      using Cons.prems(6) by (simp add: arr)
    have "S \<subset> {..<fragment_count data}" "insert i S \<noteq> {..<fragment_count data}"
      using sub by auto
    then have r: "r = Inr (sid, None, False)" "table s1 k = partial (fragment_count data) (piece data) (insert i S)"
      using receive_known [OF Cons.prems(1) one dec _ i assms(5,6) k Cons.prems(5)] Cons.prems(3)
      by (auto simp: rs)
    from Cons.IH [OF inv1 rest _ gen r(2) sub] Cons.prems(3) r(1) show ?thesis
      by (simp add: rs a arr [unfolded a])
  next
    case False
    then have arr: "arrived sid fid data (a # gs) = arrived sid fid data gs"
      unfolding a k by (rule arrived_Cons_other)
    have "table s1 k = partial (fragment_count data) (piece data) S"
      using receive_other [OF Cons.prems(1) one False] Cons.prems(5) by simp
    from Cons.IH [OF inv1 rest _ gen this] Cons.prems(3,6) False show ?thesis
      by (simp add: rs a arr [unfolded a])
  qed
qed

lemma receive_all_append:
  "receive_all add (gs @ hs) s =
     (let (rs, s1) = receive_all add gs s; (rs', s2) = receive_all add hs s1 in (rs @ rs', s2))"
  by (induction gs arbitrary: s) (auto simp: Let_def split: prod.splits)

lemma receive_all_delivers:
  assumes "inv s" and "table s k = None" and k: "k = \<lparr>fk_sessionID = sid, fk_fragID = fid\<rparr>"
    and run: "receive_all add (gs @ [(t, g)]) s = (out, s')" and ok: "\<forall>r \<in> set out. \<not> refused r"
    and "genuine sid fid data gs" and n: "2 \<le> fragment_count data" "fragment_count data \<le> 255"
    and g: "DecodeUDPDatagram g = Inr (fragment_datagram sid fid data i)"
    and i: "i < fragment_count data" "i \<notin> arrived sid fid data gs"
      "insert i (arrived sid fid data gs) = {..<fragment_count data}"
  shows "last out = Inr (sid, Some data, True) \<and> table s' k = None \<and>
    (\<forall>(g, r) \<in> set (zip (map snd gs) out). datagram_key g = Some k \<longrightarrow> r = Inr (sid, None, False))"
proof -
  obtain rs s1 where first: "receive_all add gs s = (rs, s1)" by (metis surj_pair)
  obtain r where one: "DecodeAndAssembleUDPDatagram g (Some (add t)) s1 = (r, s')" and out: "out = rs @ [r]"
    using run first by (auto simp: receive_all_append Let_def split: prod.splits)
  have len: "length rs = length gs"
    using first by (induction gs arbitrary: s rs) (auto simp: Let_def split: prod.splits)
  have sub: "{} \<union> arrived sid fid data gs \<subset> {..<fragment_count data}"
    using i by auto
  have "table s k = partial (fragment_count data) (piece data) {}"
    using assms(2) by (simp add: partial_def)
  from receive_all_pending [OF assms(1) first _ assms(6) n k this sub] ok
  have mid: "inv s1" "table s1 k = partial (fragment_count data) (piece data) (arrived sid fid data gs)"
    "\<forall>(g, r) \<in> set (zip (map snd gs) rs). datagram_key g = Some k \<longrightarrow> r = Inr (sid, None, False)"
    by (auto simp: out)
  have "r = Inr (sid, Some data, True) \<and> table s' k = None"
    using receive_known [OF mid(1) one g _ i(1) n k mid(2)] sub i(3) ok by (simp add: out)
  moreover have "zip (map snd gs) out = zip (map snd gs) rs"
    by (simp add: out len zip_append2)
  ultimately show ?thesis
    using mid(3) by (simp add: out)
qed

end

end
