(* ===== verification/Udp_Reassembly.thy ===== *)
theory Udp_Reassembly
  imports Udp_Assembler
begin

text \<open>
  Expiry and shutdown of the fragment assembler, and its properties: the invariant and the
  capacity bounds along any sequence of calls, refinement of the abstract table, what
  \<open>cleanupLoop\<close> and \<open>Close\<close> remove, and delivery: a packet that is split, sent in
  datagrams that arrive in any order, repeated and mixed with foreign traffic, is handed out
  exactly as it was sent.
\<close>

section \<open>Expiry and shutdown\<close>

definition expired :: "int \<Rightarrow> fragmentKey \<times> fragmentGroup \<Rightarrow> bool" where
  "expired now e \<longleftrightarrow> now - fg_createdAt (snd e) > FragmentTimeout"

lemma table_ok_Cons_wf: "table_ok H ((k, g) # es) p G B \<Longrightarrow> group_wf g"
  by (simp add: table_ok_def)

lemma releaseFragmentGroup_bytes:
  "group_wf g \<Longrightarrow> releaseFragmentGroup g p = (released, g', p') \<Longrightarrow> 0 \<le> released"
  using group_wf_bytes [of g] by (simp add: releaseFragmentGroup_def)

lemma cleanupExpired_ok:
  assumes "cleanupExpiredFragmentGroups m now p = ((rg, rb), m', p')"
    and "table_ok H (m @ es) p G B"
  shows "m' = filter (\<lambda>e. \<not> expired now e) m" and "rg = int (length m) - int (length m')"
    and "0 \<le> rg" and "0 \<le> rb" and "table_ok H (m' @ es) p' (G - rg) (B - rb)"
proof -
  have "m' = filter (\<lambda>e. \<not> expired now e) m \<and> rg = int (length m) - int (length m') \<and> 0 \<le> rg \<and>
      0 \<le> rb \<and> table_ok H (m' @ es) p' (G - rg) (B - rb)"
    using assms
  proof (induction m arbitrary: p rg rb m' es G B)
    case Nil
    then show ?case by simp
  next
    case (Cons e m)
    obtain k g where e: "e = (k, g)" by (cases e)
    show ?case
    proof (cases "now - fg_createdAt g > FragmentTimeout")
      case True
      obtain released g' p1 where rel: "releaseFragmentGroup g p = (released, g', p1)"
        by (metis surj_pair)
      obtain rg1 rb1 where rec: "cleanupExpiredFragmentGroups m now p1 = ((rg1, rb1), m', p')"
        and sums: "rg = rg1 + 1" "rb = rb1 + released"
        using Cons.prems(1) True rel by (auto simp: e split: prod.splits)
      have "table_ok H (m @ es) p1 (G - 1) (B - released)"
        using table_ok_release [OF _ rel] Cons.prems(2) by (simp add: e)
      from Cons.IH [OF rec this] show ?thesis
        using releaseFragmentGroup_bytes [OF table_ok_Cons_wf rel] Cons.prems(2) True
        by (auto simp: e sums expired_def algebra_simps)
    next
      case False
      obtain m1 where rec: "cleanupExpiredFragmentGroups m now p = ((rg, rb), m1, p')"
        and m': "m' = e # m1"
        using Cons.prems(1) False by (auto simp: e split: prod.splits)
      have "table_ok H (m @ e # es) p G B"
        using Cons.prems(2) by (subst table_ok_mset [of _ "(e # m) @ es"]) auto
      from Cons.IH [OF rec this] have IH: "m1 = filter (\<lambda>e. \<not> expired now e) m"
        "rg = int (length m) - int (length m1)" "0 \<le> rg" "0 \<le> rb"
        "table_ok H (m1 @ e # es) p' (G - rg) (B - rb)"
        by auto
      from IH(5) have "table_ok H ((e # m1) @ es) p' (G - rg) (B - rb)"
        by (subst table_ok_mset [of _ "m1 @ e # es"]) auto
      with IH(1-4) False show ?thesis
        by (simp add: e m' expired_def)
    qed
  qed
  then show "m' = filter (\<lambda>e. \<not> expired now e) m" and "rg = int (length m) - int (length m')"
    and "0 \<le> rg" and "0 \<le> rb" and "table_ok H (m' @ es) p' (G - rg) (B - rb)"
    by auto
qed

lemma releaseAll_ok:
  assumes "releaseAllFragmentGroups m p = ((rg, rb), m', p')" and "table_ok H (m @ es) p G B"
  shows "m' = []" and "0 \<le> rg" and "0 \<le> rb" and "table_ok H es p' (G - rg) (B - rb)"
proof -
  have "m' = [] \<and> 0 \<le> rg \<and> 0 \<le> rb \<and> table_ok H es p' (G - rg) (B - rb)"
    using assms
  proof (induction m arbitrary: p rg rb m' G B)
    case Nil
    then show ?case by simp
  next
    case (Cons e m)
    obtain k g where e: "e = (k, g)" by (cases e)
    obtain released g' p1 where rel: "releaseFragmentGroup g p = (released, g', p1)"
      by (metis surj_pair)
    obtain rg1 rb1 where rec: "releaseAllFragmentGroups m p1 = ((rg1, rb1), m', p')"
      and sums: "rg = rg1 + 1" "rb = rb1 + released"
      using Cons.prems(1) rel by (auto simp: e split: prod.splits)
    have "table_ok H (m @ es) p1 (G - 1) (B - released)"
      using table_ok_release [OF _ rel] Cons.prems(2) by (simp add: e)
    from Cons.IH [OF rec this] show ?case
      using releaseFragmentGroup_bytes [OF table_ok_Cons_wf rel] Cons.prems(2)
      by (auto simp: e sums algebra_simps)
  qed
  then show "m' = []" and "0 \<le> rg" and "0 \<le> rb" and "table_ok H es p' (G - rg) (B - rb)"
    by auto
qed

text \<open>A sweep changes shards and counters only, and never raises a counter.\<close>

definition swept :: "ShardedFragmentAssembler \<Rightarrow> ShardedFragmentAssembler \<Rightarrow> bool" where
  "swept sfa sfa' \<longleftrightarrow> sa_seed sfa' = sa_seed sfa \<and> sa_maxGroups sfa' = sa_maxGroups sfa \<and>
     sa_maxBytes sfa' = sa_maxBytes sfa \<and> sa_closed sfa' = sa_closed sfa \<and>
     sa_groupDrops sfa' = sa_groupDrops sfa \<and> sa_byteDrops sfa' = sa_byteDrops sfa \<and>
     sa_retainedGroups sfa' \<le> sa_retainedGroups sfa \<and> sa_retainedBytes sfa' \<le> sa_retainedBytes sfa"

lemma swept_refl [simp]: "swept sfa sfa"
  by (simp add: swept_def)

lemma swept_trans: "swept a b \<Longrightarrow> swept b c \<Longrightarrow> swept a c"
  by (auto simp: swept_def)

lemma cleanupShards_ok:
  assumes "cleanupShards (length dones) rest now sfa p = (sfa', p')"
    and "sa_shards sfa = dones @ rest"
    and "table_ok H (concat (sa_shards sfa)) p (sa_retainedGroups sfa) (sa_retainedBytes sfa)"
  shows "sa_shards sfa' = dones @ map (filter (\<lambda>e. \<not> expired now e)) rest \<and> swept sfa sfa' \<and>
    table_ok H (concat (sa_shards sfa')) p' (sa_retainedGroups sfa') (sa_retainedBytes sfa') \<and>
    sa_expiredGroups sfa' = sa_expiredGroups sfa +
      of_int (sa_retainedGroups sfa - sa_retainedGroups sfa')"
  using assms
proof (induction rest arbitrary: dones sfa p)
  case Nil
  then show ?case by simp
next
  case (Cons m rest)
  obtain rg rb m1 p1 where m: "cleanupExpiredFragmentGroups m now p = ((rg, rb), m1, p1)"
    by (metis surj_pair)
  let ?es = "concat (dones @ rest)"
  have "table_ok H (m @ ?es) p (sa_retainedGroups sfa) (sa_retainedBytes sfa)"
    using Cons.prems(2,3) by (subst table_ok_mset [of _ "concat (sa_shards sfa)"]) auto
  note ok = cleanupExpired_ok [OF m this]
  define sfa1 where "sfa1 = (if rg > 0 then sfa\<lparr>sa_expiredGroups := sa_expiredGroups sfa + of_int rg\<rparr> else sfa)"
  define sfa2 where "sfa2 = sfa1\<lparr>sa_shards := (sa_shards sfa1)[length dones := m1],
      sa_retainedGroups := sa_retainedGroups sfa1 - rg, sa_retainedBytes := sa_retainedBytes sfa1 - rb\<rparr>"
  have f2: "sa_shards sfa2 = (dones @ [m1]) @ rest" "sa_retainedGroups sfa2 = sa_retainedGroups sfa - rg"
    "sa_retainedBytes sfa2 = sa_retainedBytes sfa - rb" "swept sfa sfa2"
    "sa_expiredGroups sfa2 = sa_expiredGroups sfa + of_int rg"
    using Cons.prems(2) ok(3,4) by (auto simp: sfa2_def sfa1_def swept_def)
  have run: "cleanupShards (length (dones @ [m1])) rest now sfa2 p1 = (sfa', p')"
    using Cons.prems(1) by (simp add: m sfa2_def sfa1_def Let_def)
  have "table_ok H (concat (sa_shards sfa2)) p1 (sa_retainedGroups sfa2) (sa_retainedBytes sfa2)"
    using ok(5) unfolding f2 by (subst table_ok_mset [of _ "m1 @ ?es"]) auto
  from Cons.IH [OF run f2(1) this] show ?case
    using f2 ok(1) swept_trans [OF f2(4)] by auto
qed

lemma closeShards_ok:
  assumes "closeShards (length dones) rest sfa p = (sfa', p')"
    and "sa_shards sfa = dones @ rest"
    and "table_ok H (concat (sa_shards sfa)) p (sa_retainedGroups sfa) (sa_retainedBytes sfa)"
  shows "sa_shards sfa' = dones @ map (\<lambda>_. []) rest \<and> swept sfa sfa' \<and>
    table_ok H (concat (sa_shards sfa')) p' (sa_retainedGroups sfa') (sa_retainedBytes sfa')"
  using assms
proof (induction rest arbitrary: dones sfa p)
  case Nil
  then show ?case by simp
next
  case (Cons m rest)
  obtain rg rb m1 p1 where m: "releaseAllFragmentGroups m p = ((rg, rb), m1, p1)"
    by (metis surj_pair)
  let ?es = "concat (dones @ rest)"
  have "table_ok H (m @ ?es) p (sa_retainedGroups sfa) (sa_retainedBytes sfa)"
    using Cons.prems(2,3) by (subst table_ok_mset [of _ "concat (sa_shards sfa)"]) auto
  note ok = releaseAll_ok [OF m this]
  define sfa2 where "sfa2 = sfa\<lparr>sa_shards := (sa_shards sfa)[length dones := m1],
      sa_retainedGroups := sa_retainedGroups sfa - rg, sa_retainedBytes := sa_retainedBytes sfa - rb\<rparr>"
  have f2: "sa_shards sfa2 = (dones @ [m1]) @ rest" "sa_retainedGroups sfa2 = sa_retainedGroups sfa - rg"
    "sa_retainedBytes sfa2 = sa_retainedBytes sfa - rb" "swept sfa sfa2"
    using Cons.prems(2) ok(2,3) by (auto simp: sfa2_def swept_def)
  have run: "closeShards (length (dones @ [m1])) rest sfa2 p1 = (sfa', p')"
    using Cons.prems(1) by (simp add: m sfa2_def)
  have "table_ok H (concat (sa_shards sfa2)) p1 (sa_retainedGroups sfa2) (sa_retainedBytes sfa2)"
    using ok(1,4) unfolding f2 by simp
  from Cons.IH [OF run f2(1) this] show ?case
    using f2 ok(1) swept_trans [OF f2(4)] by auto
qed

lemma shards_ok_sub:
  assumes "shards_ok C sfa" and "sa_seed sfa' = sa_seed sfa"
    and "sa_shards sfa' = map (filter P) (sa_shards sfa)"
  shows "shards_ok C sfa'"
proof -
  have "shardIndex C sfa' = shardIndex C sfa"
    using assms by (intro shardIndex_cong) auto
  with assms show ?thesis
    by (auto simp: shards_ok_def distinct_map_filter)
qed

text \<open>A tick of the cleanup loop.\<close>

lemma cleanupTick_ok:
  assumes "sfa_inv C H (sfa, p)" and "cleanupTick now sfa p = (sfa', p')"
  shows "sfa_inv C H (sfa', p')"
    and "sa_shards sfa' = map (filter (\<lambda>e. \<not> expired now e)) (sa_shards sfa)"
    and "sa_expiredGroups sfa' = sa_expiredGroups sfa +
      of_int (sa_retainedGroups sfa - sa_retainedGroups sfa')"
proof -
  have inv: "shards_ok C sfa" "table_ok H (concat (sa_shards sfa)) p (sa_retainedGroups sfa) (sa_retainedBytes sfa)"
    using assms(1) by (simp_all add: sfa_inv_def)
  from cleanupShards_ok [of "[]" "sa_shards sfa" now sfa p sfa' p', OF _ _ inv(2)] assms(2)
  have r: "sa_shards sfa' = map (filter (\<lambda>e. \<not> expired now e)) (sa_shards sfa)" "swept sfa sfa'"
    "table_ok H (concat (sa_shards sfa')) p' (sa_retainedGroups sfa') (sa_retainedBytes sfa')"
    "sa_expiredGroups sfa' = sa_expiredGroups sfa + of_int (sa_retainedGroups sfa - sa_retainedGroups sfa')"
    by (auto simp: cleanupTick_def)
  have "shards_ok C sfa'"
    using r(2) by (intro shards_ok_sub [OF inv(1) _ r(1)]) (simp add: swept_def)
  then show "sfa_inv C H (sfa', p')"
    using assms(1) r(2,3) unfolding sfa_inv_def swept_def by (auto simp: r(1))
  show "sa_shards sfa' = map (filter (\<lambda>e. \<not> expired now e)) (sa_shards sfa)"
    "sa_expiredGroups sfa' = sa_expiredGroups sfa + of_int (sa_retainedGroups sfa - sa_retainedGroups sfa')"
    by (fact r)+
qed

text \<open>Closing: everything is released, and it stays that way.\<close>

lemma Close_ok:
  assumes "sfa_inv C H (sfa, p)" and "Close sfa p = (sfa', p')"
  shows "sfa_inv C H (sfa', p')" and "sa_closed sfa'" and "concat (sa_shards sfa') = []"
    and "sa_retainedGroups sfa' = 0" and "sa_retainedBytes sfa' = 0" and "owned H p'"
proof -
  have inv: "shards_ok C sfa" "table_ok H (concat (sa_shards sfa)) p (sa_retainedGroups sfa) (sa_retainedBytes sfa)"
    using assms(1) by (simp_all add: sfa_inv_def)
  have "sfa_inv C H (sfa', p') \<and> sa_closed sfa' \<and> concat (sa_shards sfa') = []"
  proof (cases "sa_closed sfa")
    case True
    with assms show ?thesis by (auto simp: Close_def sfa_inv_def)
  next
    case False
    let ?sfa = "sfa\<lparr>sa_closed := True\<rparr>"
    have r: "sa_shards sfa' = map (\<lambda>_. []) (sa_shards sfa)" "swept ?sfa sfa'"
      "table_ok H (concat (sa_shards sfa')) p' (sa_retainedGroups sfa') (sa_retainedBytes sfa')"
      using closeShards_ok [of "[]" "sa_shards sfa" ?sfa p sfa' p' H] assms(2) False inv(2)
      by (auto simp: Close_def)
    have "shards_ok C sfa'"
      using r(1,2) by (intro shards_ok_sub [OF inv(1), of sfa' "\<lambda>_. False"]) (auto simp: swept_def)
    moreover have "concat (sa_shards sfa') = []"
      by (simp add: r(1))
    ultimately show ?thesis
      using assms(1) r(2,3) unfolding sfa_inv_def swept_def by auto
  qed
  then show "sfa_inv C H (sfa', p')" and closed: "sa_closed sfa'" "concat (sa_shards sfa') = []"
    by auto
  then have "table_ok H [] p' (sa_retainedGroups sfa') (sa_retainedBytes sfa')"
    unfolding sfa_inv_def by (metis (no_types, lifting) case_prodD)
  then show "sa_retainedGroups sfa' = 0" "sa_retainedBytes sfa' = 0" "owned H p'"
    by (simp_all add: table_ok_def bufs_ok_def)
qed

section \<open>Properties\<close>

lemma sfa_inv_new:
  assumes "owned H p"
  shows "sfa_inv C H (NewShardedFragmentAssembler sd shardCount maxGroups maxBytes, p)"
proof -
  have "concat (replicate n []) = ([] :: shard)" for n
    by (induction n) auto
  with assms show ?thesis
    by (auto simp: sfa_inv_def NewShardedFragmentAssembler_def Let_def shards_ok_def table_ok_def
        bufs_ok_def fragmentGroupLimit_def fragmentByteLimit_def qmux_defs)
qed

text \<open>Everything that can happen to an assembler, as one step each.\<close>

datatype asm_op = Add int u32 u64 u8 u8 "byte list" | Tick int | Shut

fun asm_step :: "maphash \<Rightarrow> asm_op \<Rightarrow> ShardedFragmentAssembler \<times> UDPBufferPool \<Rightarrow>
    ShardedFragmentAssembler \<times> UDPBufferPool" where
  "asm_step C (Add now sid fid i n payload) s = snd (AddFragment C now sid fid i n payload s)"
| "asm_step C (Tick now) (sfa, p) = cleanupTick now sfa p"
| "asm_step C Shut (sfa, p) = Close sfa p"

lemma asm_step_inv: "sfa_inv C H s \<Longrightarrow> sfa_inv C H (asm_step C op s)"
proof (cases op)
  case (Add now sid fid i n payload)
  obtain r s' where run: "AddFragment C now sid fid i n payload s = (r, s')"
    by (metis surj_pair)
  assume "sfa_inv C H s"
  from sharded.add_inv [OF this run] show ?thesis
    by (simp add: Add run)
next
  case (Tick now)
  obtain sfa p where s: "s = (sfa, p)" by (cases s)
  obtain sfa' p' where run: "cleanupTick now sfa p = (sfa', p')"
    by (metis surj_pair)
  assume "sfa_inv C H s"
  with cleanupTick_ok(1) [OF _ run] show ?thesis
    by (simp add: Tick s run)
next
  case Shut
  obtain sfa p where s: "s = (sfa, p)" by (cases s)
  obtain sfa' p' where run: "Close sfa p = (sfa', p')"
    by (metis surj_pair)
  assume "sfa_inv C H s"
  with Close_ok(1) [OF _ run] show ?thesis
    by (simp add: Shut s run)
qed

lemma asm_run_inv: "sfa_inv C H s \<Longrightarrow> sfa_inv C H (fold (asm_step C) ops s)"
  by (induction ops arbitrary: s) (simp_all add: asm_step_inv)

text \<open>C3: along any sequence of calls, ticks and shutdowns the assembler stays within its limits
  and its counters are exact: the group counter is the number of groups in the shards and the
  byte counter is the sum of their backing bytes, both within the configured (or default)
  limit; every group sits in the shard of its hash, misses at least one fragment and has
  counted the fragments it holds; the pooled buffers it holds are pairwise different and held
  by no one else.\<close>

theorem assembler_invariant:
  assumes "owned H p"
    and "fold (asm_step C) ops (NewShardedFragmentAssembler sd shardCount maxGroups maxBytes, p) = (sfa, p')"
  shows "sfa_inv C H (sfa, p') \<and>
    RetainedGroups (Snapshot sfa) = int (length (concat (sa_shards sfa))) \<and>
    RetainedGroups (Snapshot sfa) \<le> fragmentGroupLimit (sa_maxGroups sfa) \<and>
    RetainedBackingBytes (Snapshot sfa) = sum_entries fg_retainedBytes (concat (sa_shards sfa)) \<and>
    RetainedBackingBytes (Snapshot sfa) \<le> fragmentByteLimit (sa_maxBytes sfa) \<and>
    distinct (map gb_addr (bufs (concat (sa_shards sfa))))"
  using asm_run_inv [OF sfa_inv_new [OF assms(1)], of C ops sd shardCount maxGroups maxBytes]
  unfolding assms(2) by (simp add: sfa_inv_def table_ok_def Snapshot_def bufs_ok_def)

theorem assembler_invariant_witness:
  "sfa_inv (\<lambda>_ k. ucast (fk_sessionID k)) {}
     (fold (asm_step (\<lambda>_ k. ucast (fk_sessionID k)))
        [Add 0 1 7 0 2 [1, 2], Add 1 2 7 1 2 [3], Tick 9000000000, Add 2 1 7 1 2 [4], Shut]
        (NewShardedFragmentAssembler 0 4 1 0,
         \<lparr>datagramPool = [], readPool = [], fragmentPool = [], nextAddr = 0\<rparr>))"
proof -
  let ?C = "\<lambda>_ k. ucast (fk_sessionID k) :: u64"
  let ?s = "fold (asm_step ?C)
        [Add 0 1 7 0 2 [1, 2], Add 1 2 7 1 2 [3], Tick 9000000000, Add 2 1 7 1 2 [4], Shut]
        (NewShardedFragmentAssembler 0 4 1 0,
         \<lparr>datagramPool = [], readPool = [], fragmentPool = [], nextAddr = 0\<rparr>)"
  obtain sfa p where s: "?s = (sfa, p)" by (cases ?s)
  show ?thesis
    using assembler_invariant [OF owned_empty s] s by simp
qed

text \<open>C16: sharding, pooling and accounting are invisible. Unless the assembler is closed or out
  of capacity, \<open>AddFragment\<close> returns what the abstract reassembly table returns and makes the
  table's step; a refused call leaves the table as it is.\<close>

theorem add_fragment_refines:
  assumes "sfa_inv C H (sfa, p)"
    and "AddFragment C now sid fid index ftotal payload (sfa, p) = (r, sfa', p')"
  shows "if refused r then abs_table C sfa' = abs_table C sfa
    else (r, abs_table C sfa') = spec_add \<lparr>fk_sessionID = sid, fk_fragID = fid\<rparr>
      (unat index) (unat ftotal) payload (abs_table C sfa)"
  using AddFragment_step [OF assms refl] by simp

theorem add_fragment_refines_witness:
  "\<exists>sfa' p'. AddFragment (\<lambda>_ _. 0) 0 5 7 0 2 [1, 2] (NewShardedFragmentAssembler 0 4 1 0,
         \<lparr>datagramPool = [], readPool = [], fragmentPool = [], nextAddr = 0\<rparr>) = (Inr None, sfa', p') \<and>
     abs_table (\<lambda>_ _. 0) sfa' \<lparr>fk_sessionID = 5, fk_fragID = 7\<rparr> = Some (2, [Some [1, 2], None])"
proof -
  let ?s = "NewShardedFragmentAssembler 0 4 1 0" and
    ?p = "\<lparr>datagramPool = [], readPool = [], fragmentPool = [], nextAddr = 0\<rparr>" and
    ?k = "\<lparr>fk_sessionID = 5, fk_fragID = 7\<rparr>"
  obtain r sfa' p' where run: "AddFragment (\<lambda>_ _. 0) 0 5 7 0 2 [1, 2] (?s, ?p) = (r, sfa', p')"
    by (metis surj_pair)
  have "fst (AddFragment (\<lambda>_ _. 0) 0 5 7 0 2 [1, 2] (?s, ?p)) = Inr None"
    by code_simp
  then have r: "r = Inr None"
    using run by simp
  have "abs_table (\<lambda>_ _. 0) ?s ?k = None"
    by code_simp
  then have "spec_add ?k 0 2 [1, 2] (abs_table (\<lambda>_ _. 0) ?s) =
      (Inr None, (abs_table (\<lambda>_ _. 0) ?s)(?k \<mapsto> (2, [Some [1, 2], None])))"
    by (simp add: spec_add_def spec_fill_def numeral_2_eq_2)
  then show ?thesis
    using add_fragment_refines [OF sfa_inv_new [OF owned_empty] run] run r
    by (simp add: refused_def)
qed

text \<open>An assembler with room for every datagram refuses none.\<close>

lemma receive_room:
  assumes "sfa_inv C H (sfa, p)"
    and run: "DecodeAndAssembleUDPDatagram g (Some (AddFragment C now)) (sfa, p) = (r, sfa', p')"
    and "room sfa (1 + G) (int FragmentBufferSize + B)" "0 \<le> G" "0 \<le> B"
  shows "\<not> refused r \<and> room sfa' G B"
proof -
  have keep: "room sfa G B"
    using assms(3-) by (auto simp: room_def)
  show ?thesis
  proof (cases "DecodeUDPDatagram g")
    case (Inl e)
    then have "e \<noteq> ErrFragmentAssemblerClosed \<and> e \<noteq> ErrFragmentAssemblerFull"
      by (auto simp: DecodeUDPDatagram_def Let_def split: if_splits)
    with Inl run keep show ?thesis
      by (auto simp: DecodeAndAssembleUDPDatagram_def refused_def)
  next
    case (Inr d)
    show ?thesis
    proof (cases "ud_IsFragmented d")
      case False
      with Inr run keep show ?thesis
        by (auto simp: DecodeAndAssembleUDPDatagram_def refused_def)
    next
      case True
      obtain r1 where add: "AddFragment C now (ud_SessionID d) (ud_FragmentID d) (ud_FragmentIndex d)
          (ud_FragmentTotal d) (ud_Payload d) (sfa, p) = (r1, sfa', p')"
        and r: "r = (case r1 of Inl e \<Rightarrow> Inl e | Inr payload \<Rightarrow> Inr (ud_SessionID d, payload, payload \<noteq> None))"
        using Inr True run
        by (auto simp: DecodeAndAssembleUDPDatagram_def Let_def split: prod.splits sum.splits)
      have "cost (Some (ud_Payload d)) = int FragmentBufferSize"
        using decode_sound(5) [OF Inr] True by (simp add: cost_def FragmentBufferSize_def)
      with AddFragment_room [OF assms(1) add] assms(3-) show ?thesis
        by (auto simp: r refused_def split: sum.splits)
    qed
  qed
qed

lemma receive_all_room:
  assumes "sfa_inv C H (sfa, p)" and "receive_all (AddFragment C) gs (sfa, p) = (out, s')"
    and "room sfa (int (length gs)) (int FragmentBufferSize * int (length gs))"
  shows "\<forall>r \<in> set out. \<not> refused r"
  using assms
proof (induction gs arbitrary: sfa p out)
  case Nil
  then show ?case by simp
next
  case (Cons a gs)
  obtain t g where a: "a = (t, g)" by (cases a)
  obtain r sfa1 p1 where one: "DecodeAndAssembleUDPDatagram g (Some (AddFragment C t)) (sfa, p) = (r, sfa1, p1)"
    by (metis surj_pair)
  with Cons.prems(2) obtain rs where rest: "receive_all (AddFragment C) gs (sfa1, p1) = (rs, s')"
    and out: "out = r # rs"
    by (auto simp: a split: prod.splits)
  have "\<not> refused r \<and> room sfa1 (int (length gs)) (int FragmentBufferSize * int (length gs))"
    using Cons.prems(3) by (intro receive_room [OF Cons.prems(1) one]) (simp_all add: algebra_simps)
  with Cons.IH [OF sharded.receive_inv [OF Cons.prems(1) one] rest] show ?case
    by (simp add: out)
qed

text \<open>C1: delivery. A packet too large for one datagram is split by the sender; its datagrams
  arrive in any order, any of them repeatedly, mixed with other traffic (none of which claims
  the packet's identity), at an open assembler with room for as many groups and buffers as
  there are datagrams. Then every fragment but the last missing one is absorbed without output,
  and the last missing one yields the packet, byte for byte, whatever the pooled buffers
  contained before.\<close>

theorem packet_delivered:
  fixes mem :: "nat \<Rightarrow> byte list" and C :: maphash
  assumes mem: "\<forall>a. length (mem a) = DatagramBufferSize"
    and big: "MaxUDPPayload < length data"
    and send: "FragmentUDPPooled mem sid epoch data seq enable ps = (Inr rs, seq', ps')"
    and key: "key = \<lparr>fk_sessionID = sid, fk_fragID = fragmentIdentity epoch seq'\<rparr>"
    and inv: "sfa_inv C H (sfa, p)" and fresh: "abs_table C sfa key = None"
    and foreign: "\<forall>g \<in> snd ` set before. datagram_key g = Some key \<longrightarrow> g \<in> dr_Data ` set rs"
    and final: "final \<in> dr_Data ` set rs" "final \<notin> snd ` set before"
    and all: "dr_Data ` set rs \<subseteq> insert final (snd ` set before)"
    and recv: "receive_all (AddFragment C) (before @ [(t, final)]) (sfa, p) = (out, s')"
    and room: "room sfa (int (length before) + 1) (int FragmentBufferSize * (int (length before) + 1))"
  shows "last out = Inr (sid, Some data, True) \<and>
    (\<forall>(g, r) \<in> set (zip (map snd before) out). g \<in> dr_Data ` set rs \<longrightarrow> r = Inr (sid, None, False))"
proof -
  have "seq' = seq + 1"
    using send big by (auto simp: FragmentUDPPooled_def Let_def split: if_splits prod.splits)
  then have fid: "fragmentIdentity epoch seq' = fragmentIdentity epoch (seq + 1)" by simp
  let ?fid = "fragmentIdentity epoch seq'" and ?n = "fragment_count data"
  note res = fragment_results [OF mem big send fid]
  note dec = fragment_results_decode [OF mem big send fid]
  obtain i where i: "i < ?n" "DecodeUDPDatagram final = Inr (fragment_datagram sid ?fid data i)"
    using final(1) unfolding dec by blast
  have claims: "datagram_key g = Some key" if "g \<in> dr_Data ` set rs" for g
    using that unfolding dec by (auto simp: datagram_key_def key fragment_datagram_def)
  have gen: "genuine sid ?fid data before"
    using foreign dec unfolding genuine_def key by blast
  have same: "g = final" if "DecodeUDPDatagram g = Inr (fragment_datagram sid ?fid data i)" for g
    using decode_sound(1) [OF that] decode_sound(1) [OF i(2)] by simp
  have new: "i \<notin> arrived sid ?fid data before"
    using same final(2) unfolding arrived_def by blast
  have "j \<in> insert i (arrived sid ?fid data before)" if j: "j < ?n" for j
  proof -
    have "length rs = ?n"
      using arg_cong [OF res(3), of length] by simp
    with j have "DecodeUDPDatagram (dr_Data (rs ! j)) = Inr (fragment_datagram sid ?fid data j)"
      and "dr_Data (rs ! j) \<in> dr_Data ` set rs"
      using arg_cong [OF res(3), of "\<lambda>l. l ! j"] by simp_all
    with all have g: "DecodeUDPDatagram (dr_Data (rs ! j)) = Inr (fragment_datagram sid ?fid data j)"
      "dr_Data (rs ! j) \<in> insert final (snd ` set before)"
      by blast+
    show ?thesis
    proof (cases "dr_Data (rs ! j) = final")
      case True
      with g(1) i(2) have "fragment_datagram sid ?fid data i = fragment_datagram sid ?fid data j"
        by simp
      from fragment_datagram_inject [OF res(1) i(1) j this] show ?thesis by simp
    next
      case False
      with g(2) have "dr_Data (rs ! j) \<in> snd ` set before" by blast
      with g(1) j show ?thesis unfolding arrived_def by blast
    qed
  qed
  then have whole: "insert i (arrived sid ?fid data before) = {..<?n}"
    using i(1) by (auto simp: arrived_def)
  have served: "\<forall>r \<in> set out. \<not> refused r"
    using receive_all_room [OF inv recv] room by (simp add: add.commute)
  from sharded.receive_all_delivers [OF inv _ key recv served gen fragment_count_ge2 [OF big] res(1) i(2,1) new whole]
    fresh claims show ?thesis by auto
qed

theorem packet_delivered_witness:
  "\<exists>rs seq' ps' out s'. FragmentUDPPooled (\<lambda>_. replicate 1200 7) 9 1 (replicate 2000 5) 4 True
       \<lparr>datagramPool = [], readPool = [], fragmentPool = [], nextAddr = 0\<rparr> = (Inr rs, seq', ps') \<and>
     receive_all (AddFragment (\<lambda>_ _. 3))
       ([(0, dr_Data (rs ! 1)), (1, [0x21, 0, 0]), (2, dr_Data (rs ! 1))] @ [(3, dr_Data (rs ! 0))])
       (NewShardedFragmentAssembler 0 4 0 0,
        \<lparr>datagramPool = [], readPool = [], fragmentPool = [], nextAddr = 0\<rparr>) = (out, s') \<and>
     last out = Inr (9, Some (replicate 2000 5), True)"
proof -
  let ?p = "\<lparr>datagramPool = [], readPool = [], fragmentPool = [], nextAddr = 0\<rparr>"
  let ?m = "\<lambda>_. replicate 1200 7" and ?d = "replicate 2000 5" and ?C = "\<lambda>_ _. 3" and
    ?s = "NewShardedFragmentAssembler 0 4 0 0"
  have big: "MaxUDPPayload < length ?d" and mem: "\<forall>a. length (?m a) = DatagramBufferSize"
    by (simp_all add: qmux_defs)
  obtain rs seq' ps' where send: "FragmentUDPPooled ?m 9 1 ?d 4 True ?p = (Inr rs, seq', ps')"
    by (simp add: FragmentUDPPooled_def qmux_defs split_beta Let_def)
  let ?b = "[(0, dr_Data (rs ! 1)), (1, [0x21, 0, 0]), (2, dr_Data (rs ! 1))]"
  obtain out s' where recv: "receive_all (AddFragment ?C) (?b @ [(3, dr_Data (rs ! 0))]) (?s, ?p) = (out, s')"
    by (metis surj_pair)
  have n: "fragment_count ?d = 2"
    by (simp add: fragment_count_def qmux_defs)
  note res = fragment_results [OF mem big send refl, unfolded n]
  have "length rs = 2"
    using arg_cong [OF res(2), of length] by simp
  then obtain r0 r1 where rs: "rs = [r0, r1]"
    by (metis (no_types, opaque_lifting) One_nat_def Suc_1 length_0_conv length_Suc_conv)
  have d01: "dr_Data r0 ! 13 = 0" "dr_Data r1 ! 13 = 1" "dr_Data r0 ! 0 = 0x22"
    using res(2) by (simp_all add: rs upt_rec fragment_header_def nth_append qmux_defs)
  have key: "abs_table ?C ?s k = None" for k
    by (simp add: abs_table_def getShard_def shardIndex_def NewShardedFragmentAssembler_def)
  have other: "datagram_key [0x21, 0, 0] = None"
    by (simp add: datagram_key_def DecodeUDPDatagram_def qmux_defs)
  have "room ?s 4 (int FragmentBufferSize * 4)"
    by (simp add: room_def NewShardedFragmentAssembler_def fragmentGroupLimit_def fragmentByteLimit_def qmux_defs)
  moreover have "dr_Data r0 \<noteq> dr_Data r1" "dr_Data r0 \<noteq> [0x21, 0, 0]"
    using d01 by auto
  ultimately show ?thesis
    using packet_delivered [OF mem big send refl sfa_inv_new [OF owned_empty] key _ _ _ _ recv] send recv other
    by (simp add: rs)
qed

text \<open>C33: expiry. A tick of the cleanup loop removes exactly the groups older than
  \<open>FragmentTimeout\<close>, counts them, returns their buffers and their share of the limits, and
  leaves every other identity as it was.\<close>

theorem cleanup_removes_expired:
  assumes "sfa_inv C H (sfa, p)" and "cleanupTick now sfa p = (sfa', p')"
  shows "sfa_inv C H (sfa', p') \<and>
    sa_shards sfa' = map (filter (\<lambda>e. now - fg_createdAt (snd e) \<le> FragmentTimeout)) (sa_shards sfa) \<and>
    ExpiredGroups (Snapshot sfa') = ExpiredGroups (Snapshot sfa) +
      of_nat (length (filter (\<lambda>e. now - fg_createdAt (snd e) > FragmentTimeout) (concat (sa_shards sfa))))"
proof -
  note r = cleanupTick_ok [OF assms]
  have counts: "sa_retainedGroups sfa = int (length (concat (sa_shards sfa)))"
    "sa_retainedGroups sfa' = int (length (concat (sa_shards sfa')))"
    using assms(1) r(1) by (simp_all add: sfa_inv_def table_ok_def)
  have "concat (sa_shards sfa') = filter (\<lambda>e. \<not> expired now e) (concat (sa_shards sfa))"
    by (simp add: r(2) filter_concat)
  then have "sa_retainedGroups sfa - sa_retainedGroups sfa' =
      int (length (filter (expired now) (concat (sa_shards sfa))))"
    using sum_length_filter_compl [of "expired now" "concat (sa_shards sfa)"] unfolding counts
    by (metis add_diff_cancel_right' of_nat_add)
  with r show ?thesis
    by (simp add: Snapshot_def expired_def [abs_def] not_less)
qed

theorem cleanup_removes_expired_witness:
  "let s = fold (asm_step (\<lambda>_ _. 0)) [Add 0 1 7 0 2 [1, 2], Add 4000000000 2 7 1 2 [3]]
        (NewShardedFragmentAssembler 0 1 0 0,
         \<lparr>datagramPool = [], readPool = [], fragmentPool = [], nextAddr = 0\<rparr>)
   in length (concat (sa_shards (fst s))) = 2 \<and>
      ExpiredGroups (Snapshot (fst (cleanupTick 6000000000 (fst s) (snd s)))) = 1"
proof -
  let ?s = "fold (asm_step (\<lambda>_ _. 0)) [Add 0 1 7 0 2 [1, 2], Add 4000000000 2 7 1 2 [3]]
        (NewShardedFragmentAssembler 0 1 0 0,
         \<lparr>datagramPool = [], readPool = [], fragmentPool = [], nextAddr = 0\<rparr>)"
  obtain sfa p where s: "?s = (sfa, p)" by (cases ?s)
  obtain sfa' p' where run: "cleanupTick 6000000000 sfa p = (sfa', p')" by (metis surj_pair)
  have inv: "sfa_inv (\<lambda>_ _. 0) {} (sfa, p)"
    using asm_run_inv [OF sfa_inv_new [OF owned_empty]] unfolding s [symmetric] .
  have "length (concat (sa_shards (fst ?s))) = 2"
    "length (filter (\<lambda>e. 6000000000 - fg_createdAt (snd e) > FragmentTimeout) (concat (sa_shards (fst ?s)))) = 1"
    "ExpiredGroups (Snapshot (fst ?s)) = 0"
    by code_simp+
  then show ?thesis
    using cleanup_removes_expired [OF inv run] unfolding s Let_def by (simp add: run)
qed

text \<open>C34: shutdown. \<open>Close\<close> empties every shard, returns every buffer and brings both counters
  to zero; calling it again changes nothing; afterwards no fragment is accepted and nothing is
  retained again.\<close>

theorem close_releases_everything:
  assumes "sfa_inv C H (sfa, p)" and "Close sfa p = (sfa', p')"
  shows "concat (sa_shards sfa') = [] \<and> sa_retainedGroups sfa' = 0 \<and> sa_retainedBytes sfa' = 0 \<and>
    owned H p' \<and> Close sfa' p' = (sfa', p') \<and>
    AddFragment C now sid fid index ftotal payload (sfa', p') =
      (Inl (case validateFragmentInput index ftotal of None \<Rightarrow> ErrFragmentAssemblerClosed | Some e \<Rightarrow> e),
       sfa', p')"
proof -
  have closed: "sa_closed sfa'" using Close_ok [OF assms] by blast
  show ?thesis
    unfolding Close_def [of sfa'] AddFragment_def using Close_ok [OF assms] closed
    by (simp split: option.split)
qed

theorem close_releases_everything_witness:
  "let s = fold (asm_step (\<lambda>_ _. 0)) [Add 0 1 7 0 2 [1, 2], Add 4 2 7 1 2 [3]]
        (NewShardedFragmentAssembler 0 1 0 0,
         \<lparr>datagramPool = [], readPool = [], fragmentPool = [], nextAddr = 0\<rparr>)
   in sa_retainedGroups (fst s) = 2 \<and> sa_retainedGroups (fst (Close (fst s) (snd s))) = 0"
proof -
  let ?s = "fold (asm_step (\<lambda>_ _. 0)) [Add 0 1 7 0 2 [1, 2], Add 4 2 7 1 2 [3]]
        (NewShardedFragmentAssembler 0 1 0 0,
         \<lparr>datagramPool = [], readPool = [], fragmentPool = [], nextAddr = 0\<rparr>)"
  obtain sfa p where s: "?s = (sfa, p)" by (cases ?s)
  obtain sfa' p' where run: "Close sfa p = (sfa', p')" by (metis surj_pair)
  have inv: "sfa_inv (\<lambda>_ _. 0) {} (sfa, p)"
    using asm_run_inv [OF sfa_inv_new [OF owned_empty]] unfolding s [symmetric] .
  have "sa_retainedGroups (fst ?s) = 2"
    by code_simp
  then show ?thesis
    using close_releases_everything [OF inv run] unfolding s Let_def by (simp add: run)
qed

text \<open>Reservations never overshoot. Whatever the other goroutines do to the counter
  meanwhile, a reservation succeeds only on a value that leaves it within the limit, and fails
  only on a value that does not have the room.\<close>

theorem reserve_never_overshoots:
  "case reserveFragmentCapacity counter amount limit env of (ok, counter') \<Rightarrow>
     \<exists>seen. seen \<in> set (counter # env) \<and> (ok \<longleftrightarrow> seen + amount \<le> limit) \<and>
       counter' = (if ok then seen + amount else seen)"
proof -
  let ?b = "\<lambda>current. if amount > limit - current then Inl False else Inr (current + amount, True)"
  obtain w where w: "w \<in> set (counter # env)" and
    cas: "cas_loop ?b counter env = (case ?b w of Inl r \<Rightarrow> (r, w) | Inr (w', r) \<Rightarrow> (r, w'))"
    using cas_loop_linearizes [of counter env ?b] by blast
  show ?thesis
    unfolding reserveFragmentCapacity_def cas using w by auto
qed

end
