(* ===== verification/Balancer.thy ===== *)
theory Balancer
  imports Prelude
begin

text \<open>
  Load balancing over client generations, \<^verbatim>\<open>server/pool/balancer.go\<close>, and the record of a
  generation (\<open>ClientConn\<close> of \<^verbatim>\<open>server/pool/pool.go\<close>). A \<open>*ClientConn\<close> is an index into the
  list of all generations ever created.

  The locale \<open>load_balancer\<close> is the contract the pool relies on when it calls \<open>Select\<close>: the
  result is one of the candidates and healthy, and a healthy candidate is never refused. Both
  strategies are shown to meet it. Least-connections moreover picks a minimum, round-robin
  serves every candidate once per round.
\<close>

section \<open>Data and operations\<close>

text \<open>The fields of \<open>ClientConn\<close> that the pool's logic reads or writes.\<close>

record ClientConn =
  cc_ID :: string
  cc_LastHeartbeat :: int
  cc_Capabilities :: "string list"
  cc_ActiveConns :: int
  cc_TotalConns :: u64
  cc_tcpPending :: int
  cc_tcpActive :: int
  cc_udpSessions :: int
  cc_tcpStreamID :: int
  cc_tcpOpened :: bool
  cc_healthy :: bool
  cc_added :: bool

text \<open>The errors of \<^verbatim>\<open>server/pool\<close>; the ones below \<open>ErrUDPGenerationCapacity\<close> are the texts
  built by \<^verbatim>\<open>fmt.Errorf\<close>.\<close>

datatype pool_error =
    ErrNoClientsAvailable | ErrNoHealthyClients | ErrNoEligibleClients | ErrAccountingFault
  | ErrPendingRegistrationCapacity | ErrClientGenerationCapacity
  | ErrTCPGenerationConnectionCapacity | ErrTCPGenerationSetupCapacity | ErrUDPGenerationCapacity
  | InvalidPoolReservation | ClientConnectionNil | ClientIDEmpty | ReservationNoLongerPending
  | ClientAlreadyExists string | ClientAlreadyPending string | ConnAlreadyAdded string
  | ReservedIDChanged | OutsideUDPCandidates | OutsideTCPCandidates

text \<open>The state of a balancer: the round-robin counter, or nothing.\<close>

datatype LoadBalancer = RoundRobinBalancer u64 | LeastConnectionsBalancer

text \<open>The second scan of round-robin: \<open>idx\<close> counts the healthy clients down.\<close>

fun rr_scan :: "(nat \<Rightarrow> bool) \<Rightarrow> nat list \<Rightarrow> nat \<Rightarrow> nat option \<Rightarrow> nat option" where
  "rr_scan healthy [] idx fallback = fallback"
| "rr_scan healthy (c # cs) idx fallback =
     (if \<not> healthy c then rr_scan healthy cs idx fallback
      else
        let fallback' = (if fallback = None then Some c else fallback)
        in if idx = 0 then Some c else rr_scan healthy cs (idx - 1) fallback')"

text \<open>\<open>healthy1\<close> is what the counting scan sees, \<open>healthy2\<close> what the selecting scan sees.\<close>

definition rr_Select :: "u64 \<Rightarrow> (nat \<Rightarrow> bool) \<Rightarrow> (nat \<Rightarrow> bool) \<Rightarrow> nat list \<Rightarrow>
    (pool_error + nat) \<times> u64" where
  "rr_Select counter healthy1 healthy2 clients =
     (if length clients = 0 then (Inl ErrNoClientsAvailable, counter)
      else
        let healthyCount = length (filter healthy1 clients)
        in if healthyCount = 0 then (Inl ErrNoHealthyClients, counter)
           else
             let counter' = counter + 1;
                 idx = unat (counter' mod of_nat healthyCount)
             in if healthyCount = length clients then (Inr (clients ! idx), counter')
                else (case rr_scan healthy2 clients idx None of
                        Some c \<Rightarrow> (Inr c, counter')
                      | None \<Rightarrow> (Inl ErrNoHealthyClients, counter')))"

fun lc_scan :: "ClientConn list \<Rightarrow> nat list \<Rightarrow> nat option \<Rightarrow> int \<Rightarrow> nat option" where
  "lc_scan conns [] selected minConns = selected"
| "lc_scan conns (c # cs) selected minConns =
     (if \<not> cc_healthy (conns ! c) then lc_scan conns cs selected minConns
      else
        let n = cc_tcpPending (conns ! c) + cc_ActiveConns (conns ! c)
        in if selected = None \<or> n < minConns then lc_scan conns cs (Some c) n
           else lc_scan conns cs selected minConns)"

definition lc_Select :: "ClientConn list \<Rightarrow> nat list \<Rightarrow> pool_error + nat" where
  "lc_Select conns clients =
     (if length clients = 0 then Inl ErrNoClientsAvailable
      else case lc_scan conns clients None 0 of
          None \<Rightarrow> Inl ErrNoHealthyClients
        | Some c \<Rightarrow> Inr c)"

text \<open>The call through the interface, with the pool's lock held.\<close>

fun Select :: "LoadBalancer \<Rightarrow> ClientConn list \<Rightarrow> nat list \<Rightarrow> (pool_error + nat) \<times> LoadBalancer" where
  "Select (RoundRobinBalancer counter) conns clients =
     (let healthy = (\<lambda>c. cc_healthy (conns ! c));
          (r, counter') = rr_Select counter healthy healthy clients
      in (r, RoundRobinBalancer counter'))"
| "Select LeastConnectionsBalancer conns clients =
     (lc_Select conns clients, LeastConnectionsBalancer)"

fun balancer_Name :: "LoadBalancer \<Rightarrow> string" where
  "balancer_Name (RoundRobinBalancer _) = ''round-robin''"
| "balancer_Name LeastConnectionsBalancer = ''least-connections''"

section \<open>The contract\<close>

text \<open>\<open>select\<close> on the generations \<open>conns\<close> and the candidates, with the balancer's own state.\<close>

locale load_balancer =
  fixes select :: "'b \<Rightarrow> ClientConn list \<Rightarrow> nat list \<Rightarrow> (pool_error + nat) \<times> 'b"
  assumes select_sound: "fst (select b conns cs) = Inr c \<Longrightarrow> length cs < 2 ^ 64 \<Longrightarrow>
      c \<in> set cs \<and> cc_healthy (conns ! c)"
    and select_complete: "c \<in> set cs \<Longrightarrow> cc_healthy (conns ! c) \<Longrightarrow> length cs < 2 ^ 64 \<Longrightarrow>
      \<exists>d. fst (select b conns cs) = Inr d"
    and select_none: "fst (select b conns cs) = Inl e \<Longrightarrow>
      e = (if cs = [] then ErrNoClientsAvailable else ErrNoHealthyClients)"
begin

text \<open>Among healthy candidates a selection always succeeds and stays inside.\<close>

lemma select_healthy:
  assumes "cs \<noteq> []" and "\<forall>c \<in> set cs. cc_healthy (conns ! c)" and "length cs < 2 ^ 64"
  shows "\<exists>d \<in> set cs. fst (select b conns cs) = Inr d"
proof -
  from assms have "\<exists>d. fst (select b conns cs) = Inr d"
    by (intro select_complete [of "hd cs"]) simp_all
  then show ?thesis
    using select_sound assms(3) by blast
qed

end

section \<open>Round-robin\<close>

lemma rr_scan_eq:
  "rr_scan healthy cs idx fb =
     (let hs = filter healthy cs
      in if idx < length hs then Some (hs ! idx)
         else if fb \<noteq> None then fb else if hs = [] then None else Some (hd hs))"
  by (induction cs arbitrary: idx fb) (auto simp: Let_def nth_Cons' split: if_splits)

lemma rr_index_less:
  assumes "0 < n" and "n < 2 ^ 64"
  shows "unat ((counter :: u64) mod of_nat n) < n"
    and "unat ((counter :: u64) mod of_nat n) = unat counter mod n"
proof -
  have "unat (of_nat n :: u64) = n"
    using assms(2) by (simp add: unat_of_nat)
  then show "unat ((counter :: u64) mod of_nat n) = unat counter mod n"
    by (simp add: unat_mod)
  with assms(1) show "unat ((counter :: u64) mod of_nat n) < n" by simp
qed

lemma filter_all_length: "length (filter P xs) = length xs \<Longrightarrow> filter P xs = xs"
  by (metis filter_True length_filter_less nat_neq_iff)

lemma rr_Select_quiet:
  assumes "hs = filter healthy cs" and "hs \<noteq> []" and "length cs < 2 ^ 64"
  shows "rr_Select counter healthy healthy cs =
    (Inr (hs ! (unat (counter + 1) mod length hs)), counter + 1)"
proof -
  have len: "0 < length hs" "length hs < 2 ^ 64"
    using assms le_less_trans [OF length_filter_le [of healthy cs] assms(3)] by simp_all
  note idx = rr_index_less [OF len, of "counter + 1"]
  have cs: "cs \<noteq> []"
    using assms(1,2) by auto
  show ?thesis
  proof (cases "length hs = length cs")
    case True
    with filter_all_length [of healthy cs] assms(1) have "hs = cs" by simp
    with cs idx show ?thesis
      using assms(1) by (simp add: rr_Select_def Let_def)
  next
    case False
    with cs idx assms(1) len(1) show ?thesis
      by (simp add: rr_Select_def rr_scan_eq Let_def)
  qed
qed

lemma rr_Select_unhealthy: "filter healthy cs = [] \<Longrightarrow>
    rr_Select counter healthy healthy cs =
      (Inl (if cs = [] then ErrNoClientsAvailable else ErrNoHealthyClients), counter)"
  by (simp add: rr_Select_def)

lemma filter_nth_mem: "i < length (filter P xs) \<Longrightarrow>
    filter P xs ! i \<in> set xs \<and> P (filter P xs ! i)"
  using nth_mem [of i "filter P xs"] by simp

section \<open>Least connections\<close>

definition load :: "ClientConn list \<Rightarrow> nat \<Rightarrow> int" where
  "load conns c = cc_tcpPending (conns ! c) + cc_ActiveConns (conns ! c)"

lemma lc_scan_some:
  "lc_scan conns cs (Some c) (load conns c) = Some d \<Longrightarrow>
     (d = c \<or> d \<in> set cs \<and> cc_healthy (conns ! d)) \<and> load conns d \<le> load conns c \<and>
     (\<forall>e \<in> set cs. cc_healthy (conns ! e) \<longrightarrow> load conns d \<le> load conns e)"
proof (induction cs arbitrary: c)
  case Nil
  then show ?case by simp
next
  case (Cons a cs)
  show ?case
  proof (cases "cc_healthy (conns ! a) \<and> load conns a < load conns c")
    case True
    then have "lc_scan conns cs (Some a) (load conns a) = Some d"
      using Cons.prems by (simp add: load_def)
    from Cons.IH [OF this] True show ?thesis by auto
  next
    case False
    then have "lc_scan conns cs (Some c) (load conns c) = Some d"
      using Cons.prems by (auto simp: load_def split: if_splits)
    from Cons.IH [OF this] False show ?thesis by auto
  qed
qed

lemma lc_scan_total: "\<exists>d. lc_scan conns cs (Some c) m = Some d"
  by (induction cs arbitrary: c m) (auto simp: Let_def)

lemma lc_scan_none:
  "(case lc_scan conns cs None m of
      None \<Rightarrow> filter (\<lambda>c. cc_healthy (conns ! c)) cs = []
    | Some d \<Rightarrow> d \<in> set cs \<and> cc_healthy (conns ! d) \<and>
        (\<forall>e \<in> set cs. cc_healthy (conns ! e) \<longrightarrow> load conns d \<le> load conns e))"
proof (induction cs)
  case Nil
  show ?case by simp
next
  case (Cons a cs)
  show ?case
  proof (cases "cc_healthy (conns ! a)")
    case True
    then have eq: "lc_scan conns (a # cs) None m = lc_scan conns cs (Some a) (load conns a)"
      by (simp add: load_def)
    obtain d where d: "lc_scan conns cs (Some a) (load conns a) = Some d"
      using lc_scan_total by blast
    from lc_scan_some [OF d] True show ?thesis
      unfolding eq d by auto
  next
    case False
    with Cons.IH show ?thesis by (auto split: option.splits)
  qed
qed

section \<open>Both strategies meet the contract\<close>

interpretation round_robin: load_balancer
  "\<lambda>counter conns cs. rr_Select counter (\<lambda>c. cc_healthy (conns ! c)) (\<lambda>c. cc_healthy (conns ! c)) cs"
proof
  fix counter :: u64 and conns cs c
  let ?h = "\<lambda>c. cc_healthy (conns ! c)"
  let ?r = "fst (rr_Select counter ?h ?h cs)" and ?hs = "filter (\<lambda>c. cc_healthy (conns ! c)) cs"
  have quiet: "?r = Inr (?hs ! (unat (counter + 1) mod length ?hs))"
    if "?hs \<noteq> []" "length cs < 2 ^ 64"
    using rr_Select_quiet [OF refl that] by simp
  show "c \<in> set cs \<and> ?h c" if r: "?r = Inr c" "length cs < 2 ^ 64"
  proof -
    have ne: "?hs \<noteq> []"
      using r(1) rr_Select_unhealthy [of ?h cs counter] by auto
    then have "c = ?hs ! (unat (counter + 1) mod length ?hs)"
      using quiet r by simp
    with ne show ?thesis
      using filter_nth_mem [of "unat (counter + 1) mod length ?hs" ?h cs] by simp
  qed
  show "\<exists>d. ?r = Inr d" if "c \<in> set cs" "?h c" "length cs < 2 ^ 64"
    using quiet that by (metis filter_empty_conv)
  fix e
  show "?r = Inl e \<Longrightarrow> e = (if cs = [] then ErrNoClientsAvailable else ErrNoHealthyClients)"
    by (auto simp: rr_Select_def Let_def split: if_splits option.splits)
qed

interpretation least_connections: load_balancer "\<lambda>b conns cs. (lc_Select conns cs, b)"
proof
  fix b :: 'b and conns cs c
  note scan = lc_scan_none [of conns cs 0]
  show "fst (lc_Select conns cs, b) = Inr c \<Longrightarrow> length cs < 2 ^ 64 \<Longrightarrow> c \<in> set cs \<and> cc_healthy (conns ! c)"
    using scan by (auto simp: lc_Select_def split: if_splits option.splits)
  show "c \<in> set cs \<Longrightarrow> cc_healthy (conns ! c) \<Longrightarrow> length cs < 2 ^ 64 \<Longrightarrow>
      \<exists>d. fst (lc_Select conns cs, b) = Inr d"
    using scan by (auto simp: lc_Select_def filter_empty_conv split: option.splits)
  fix e
  show "fst (lc_Select conns cs, b) = Inl e \<Longrightarrow>
      e = (if cs = [] then ErrNoClientsAvailable else ErrNoHealthyClients)"
    by (auto simp: lc_Select_def split: if_splits option.splits)
qed

lemma Select_fst:
  "fst (Select b conns cs) = (case b of
       RoundRobinBalancer counter \<Rightarrow>
         fst (rr_Select counter (\<lambda>c. cc_healthy (conns ! c)) (\<lambda>c. cc_healthy (conns ! c)) cs)
     | LeastConnectionsBalancer \<Rightarrow> fst (lc_Select conns cs, b))"
  by (cases b) (simp_all add: Let_def split_beta)

interpretation balancer: load_balancer Select
proof
  fix b conns cs c
  show "c \<in> set cs \<and> cc_healthy (conns ! c)"
    if "fst (Select b conns cs) = Inr c" "length cs < 2 ^ 64"
    using that round_robin.select_sound [of _ conns cs c] least_connections.select_sound [of conns cs b c]
    unfolding Select_fst by (cases b) simp_all
  show "\<exists>d. fst (Select b conns cs) = Inr d"
    if "c \<in> set cs" "cc_healthy (conns ! c)" "length cs < 2 ^ 64"
    using round_robin.select_complete [OF that] least_connections.select_complete [OF that, of b]
    unfolding Select_fst by (cases b) simp_all
  fix e
  show "fst (Select b conns cs) = Inl e \<Longrightarrow>
      e = (if cs = [] then ErrNoClientsAvailable else ErrNoHealthyClients)"
    using round_robin.select_none [of _ conns cs e] least_connections.select_none [of conns cs b e]
    unfolding Select_fst by (cases b) simp_all
qed

section \<open>Properties\<close>

text \<open>A number of consecutive selections over the same candidates.\<close>

fun select_times :: "nat \<Rightarrow> LoadBalancer \<Rightarrow> ClientConn list \<Rightarrow> nat list \<Rightarrow> (pool_error + nat) list" where
  "select_times 0 b conns cs = []"
| "select_times (Suc k) b conns cs =
     (let (r, b') = Select b conns cs in r # select_times k b' conns cs)"

lemma mset_rotate: "mset (rotate n xs) = mset xs"
proof -
  have "mset (drop k xs @ take k xs) = mset (take k xs @ drop k xs)" for k
    by (simp only: mset_append union_commute)
  then show ?thesis
    by (simp add: rotate_drop_take)
qed

lemma select_times_rr:
  assumes "hs = filter (\<lambda>c. cc_healthy (conns ! c)) cs" and "hs \<noteq> []" and "length cs < 2 ^ 64"
    and "unat counter + k < 2 ^ 64"
  shows "select_times k (RoundRobinBalancer counter) conns cs =
    map (\<lambda>j. Inr (hs ! ((unat counter + 1 + j) mod length hs))) [0..<k]"
  using assms(4)
proof (induction k arbitrary: counter)
  case 0
  show ?case by simp
next
  case (Suc k)
  have next_counter: "unat (counter + 1) = unat counter + 1"
    using Suc.prems by (simp add: unat_word_ariths)
  have "select_times k (RoundRobinBalancer (counter + 1)) conns cs =
      map (\<lambda>j. Inr (hs ! ((unat counter + 1 + Suc j) mod length hs))) [0..<k]"
    using Suc.IH [of "counter + 1"] Suc.prems by (simp add: next_counter)
  then show ?case
    using rr_Select_quiet [OF assms(1-3), of counter]
    by (simp add: Let_def next_counter upt_conv_Cons map_Suc_upt [symmetric] del: upt_Suc)
qed

text \<open>C29: round-robin is fair. In one round, as many consecutive selections as there are healthy
  candidates, every healthy candidate is selected exactly once, and no unhealthy one.\<close>

theorem round_robin_fair:
  assumes "hs = filter (\<lambda>c. cc_healthy (conns ! c)) cs" and "hs \<noteq> []" and "length cs < 2 ^ 64"
    and "unat counter + length hs < 2 ^ 64"
  shows "mset (select_times (length hs) (RoundRobinBalancer counter) conns cs) = mset (map Inr hs)"
proof -
  have rot: "map (\<lambda>j. hs ! ((a + j) mod length hs)) [0..<length hs] = rotate a hs" for a
    by (rule nth_equalityI) (simp_all add: nth_rotate)
  have "select_times (length hs) (RoundRobinBalancer counter) conns cs =
      map Inr (map (\<lambda>j. hs ! ((unat counter + 1 + j) mod length hs)) [0..<length hs])"
    unfolding select_times_rr [OF assms] by simp
  then show ?thesis
    unfolding rot by (simp only: mset_map mset_rotate)
qed

theorem round_robin_fair_witness:
  "let c = \<lparr>cc_ID = ''a'', cc_LastHeartbeat = 0, cc_Capabilities = [], cc_ActiveConns = 0,
            cc_TotalConns = 0, cc_tcpPending = 0, cc_tcpActive = 0, cc_udpSessions = 0,
            cc_tcpStreamID = 0, cc_tcpOpened = False, cc_healthy = True, cc_added = True\<rparr>
   in mset (select_times 2 (RoundRobinBalancer 6) [c, c\<lparr>cc_healthy := False\<rparr>, c] [0, 1, 2]) =
      {#Inr 0, Inr 2#}"
proof -
  define c where "c = \<lparr>cc_ID = ''a'', cc_LastHeartbeat = 0, cc_Capabilities = [], cc_ActiveConns = 0,
            cc_TotalConns = 0, cc_tcpPending = 0, cc_tcpActive = 0, cc_udpSessions = 0,
            cc_tcpStreamID = 0, cc_tcpOpened = False, cc_healthy = True, cc_added = True\<rparr>"
  let ?conns = "[c, c\<lparr>cc_healthy := False\<rparr>, c]"
  have hs: "[0, 2] = filter (\<lambda>k. cc_healthy (?conns ! k)) [0, 1, 2]"
    by (simp add: c_def)
  have fair: "mset (select_times (length [0, 2 :: nat]) (RoundRobinBalancer 6) ?conns [0, 1, 2]) =
      mset (map Inr [0, 2])"
    by (rule round_robin_fair [OF hs]) simp_all
  have two: "length [0, 2 :: nat] = 2"
    by simp
  show ?thesis
    unfolding Let_def c_def [symmetric] using fair [unfolded two]
    by (simp only: list.map mset.simps)
qed

text \<open>C30: least-connections returns a healthy candidate whose pending and active TCP connections
  are the fewest among the healthy candidates, and it finds one whenever there is one.\<close>

theorem least_connections_minimal:
  "case fst (Select LeastConnectionsBalancer conns cs) of
     Inr c \<Rightarrow> c \<in> set cs \<and> cc_healthy (conns ! c) \<and>
       (\<forall>n \<in> load conns ` set (filter (\<lambda>d. cc_healthy (conns ! d)) cs). load conns c \<le> n)
   | Inl e \<Rightarrow> filter (\<lambda>d. cc_healthy (conns ! d)) cs = [] \<and>
       e = (if cs = [] then ErrNoClientsAvailable else ErrNoHealthyClients)"
  using lc_scan_none [of conns cs 0] by (auto simp: lc_Select_def split: option.splits)

theorem least_connections_minimal_witness:
  "let c = \<lparr>cc_ID = ''a'', cc_LastHeartbeat = 0, cc_Capabilities = [], cc_ActiveConns = 2,
            cc_TotalConns = 0, cc_tcpPending = 0, cc_tcpActive = 2, cc_udpSessions = 0,
            cc_tcpStreamID = 0, cc_tcpOpened = False, cc_healthy = True, cc_added = True\<rparr>
   in fst (Select LeastConnectionsBalancer [c, c\<lparr>cc_ActiveConns := 1\<rparr>] [0, 1]) = Inr 1"
proof -
  let ?c = "\<lparr>cc_ID = ''a'', cc_LastHeartbeat = 0, cc_Capabilities = [], cc_ActiveConns = 2,
            cc_TotalConns = 0, cc_tcpPending = 0, cc_tcpActive = 2, cc_udpSessions = 0,
            cc_tcpStreamID = 0, cc_tcpOpened = False, cc_healthy = True, cc_added = True\<rparr>"
  let ?conns = "[?c, ?c\<lparr>cc_ActiveConns := 1\<rparr>]"
  note min = least_connections_minimal [of ?conns "[0, 1]"]
  obtain c where c: "fst (Select LeastConnectionsBalancer ?conns [0, 1]) = Inr c"
    by (simp add: lc_Select_def)
  with min have "c \<in> {0, 1}" "load ?conns c \<le> 1"
    by (auto simp: load_def)
  then have "c = 1"
    by (auto simp: load_def)
  with c show ?thesis by (simp add: Let_def)
qed

end
