(* ===== verification/Pool.thy ===== *)
theory Pool
  imports Balancer
begin

text \<open>
  The connection pool of one QUIC listener, \<^verbatim>\<open>server/pool/pool.go\<close>: registration
  (\<open>BeginPending\<close>, \<open>Reserve\<close>, \<open>Commit\<close>, \<open>Abort\<close>), retirement (\<open>BeginRetire\<close>, \<open>Done\<close>,
  \<open>TCPDrained\<close>), UDP sessions (\<open>ReserveUDP\<close>, \<open>ReleaseUDP\<close>), TCP leases (\<open>BeginTCPAdmission\<close>,
  \<open>Next\<close>, \<open>Commit\<close>, \<open>Release\<close>) and the capacity snapshot.

  The record holds the pool and the objects it hands out pointers to: generations,
  reservations, retirements, leases and admissions live in lists and a pointer is an index;
  creating an object appends it. A pointer argument is an option: \<open>None\<close> is nil, or an object
  of another pool where the code compares the \<open>pool\<close> field. Every operation holds \<open>p.mu\<close>, so
  one call is one step. \<open>range\<close> is the order in which Go visits a map. Go maps are association
  lists. Logging, the QUIC handles and the transport statistics are left out.
\<close>

section \<open>State\<close>

datatype reservation_state =
  reservationPending | reservationReserved | reservationCommitted | reservationAborted

datatype tcpLeaseState = tcpLeasePending | tcpLeaseActive | tcpLeaseReleased

record Reservation =
  rs_conn :: "nat option"
  rs_id :: string
  rs_state :: reservation_state

text \<open>\<open>rt_tcpDrained\<close> is the buffer of the channel of capacity one.\<close>

record Retirement =
  rt_conn :: nat
  rt_done :: bool
  rt_tcpDrained :: "int list"
  rt_drainSent :: bool

record TCPLease =
  le_conn :: nat
  le_state :: tcpLeaseState

record TCPAdmission =
  ad_candidates :: "nat list"
  ad_next :: nat
  ad_balanced :: bool
  ad_balanceErr :: "pool_error option"

record Limits =
  MaxClientGenerations :: int
  MaxPendingRegistrations :: int
  MaxTCPConnectionsPerGeneration :: int
  MaxPendingTCPSetupsPerGeneration :: int
  MaxUDPSessionsPerGeneration :: int

record capacityState =
  highWater :: int
  drops :: u64

record LimitSnapshot =
  ls_Current :: int
  ls_HighWater :: int
  ls_Limit :: int
  ls_CapacityDrops :: u64

record ConnectionPool =
  p_conns :: "ClientConn list"
  p_resvs :: "Reservation list"
  p_rets :: "Retirement list"
  p_leases :: "TCPLease list"
  p_adms :: "TCPAdmission list"
  p_clients :: "(string \<times> nat) list"
  p_reservations :: "(string \<times> nat) list"
  p_retiring :: "(nat \<times> nat) list"
  p_serverPending :: int
  p_accountingFaults :: u64
  p_limits :: Limits
  p_pendingRegistrations :: capacityState
  p_clientGenerations :: capacityState
  p_tcpConnections :: capacityState
  p_pendingTCPSetups :: capacityState
  p_udpSessions :: capacityState
  p_balancer :: LoadBalancer
  p_cachedClients :: "nat list option"

type_synonym map_range = "(string \<times> nat) list \<Rightarrow> (string \<times> nat) list"

definition defaultLimits :: Limits where
  "defaultLimits =
     \<lparr>MaxClientGenerations = 16, MaxPendingRegistrations = 128,
      MaxTCPConnectionsPerGeneration = 100, MaxPendingTCPSetupsPerGeneration = 16,
      MaxUDPSessionsPerGeneration = 256\<rparr>"

text \<open>\<open>conns\<close> are the generations that exist when the pool is created; none was added yet.\<close>

definition NewWithLimits :: "ClientConn list \<Rightarrow> LoadBalancer \<Rightarrow> Limits \<Rightarrow> ConnectionPool" where
  "NewWithLimits conns balancer limits =
     \<lparr>p_conns = conns, p_resvs = [], p_rets = [], p_leases = [], p_adms = [], p_clients = [],
      p_reservations = [], p_retiring = [], p_serverPending = 0, p_accountingFaults = 0,
      p_limits = limits, p_pendingRegistrations = \<lparr>highWater = 0, drops = 0\<rparr>,
      p_clientGenerations = \<lparr>highWater = 0, drops = 0\<rparr>,
      p_tcpConnections = \<lparr>highWater = 0, drops = 0\<rparr>,
      p_pendingTCPSetups = \<lparr>highWater = 0, drops = 0\<rparr>,
      p_udpSessions = \<lparr>highWater = 0, drops = 0\<rparr>,
      p_balancer = balancer, p_cachedClients = None\<rparr>"

definition New :: "ClientConn list \<Rightarrow> LoadBalancer \<Rightarrow> ConnectionPool" where
  "New conns balancer = NewWithLimits conns balancer defaultLimits"

definition observe :: "int \<Rightarrow> capacityState \<Rightarrow> capacityState" where
  "observe current s = (if current > highWater s then s\<lparr>highWater := current\<rparr> else s)"

definition capacity_snapshot :: "int \<Rightarrow> int \<Rightarrow> capacityState \<Rightarrow> LimitSnapshot" where
  "capacity_snapshot current limit s =
     \<lparr>ls_Current = current, ls_HighWater = max current (highWater s), ls_Limit = limit,
      ls_CapacityDrops = drops s\<rparr>"

text \<open>Access to the objects behind the pointers.\<close>

abbreviation conn :: "ConnectionPool \<Rightarrow> nat \<Rightarrow> ClientConn" where
  "conn p c \<equiv> p_conns p ! c"

definition upd_conn :: "nat \<Rightarrow> (ClientConn \<Rightarrow> ClientConn) \<Rightarrow> ConnectionPool \<Rightarrow> ConnectionPool" where
  [qmux_defs]: "upd_conn c f p = p\<lparr>p_conns := (p_conns p)[c := f (p_conns p ! c)]\<rparr>"

definition upd_resv :: "nat \<Rightarrow> (Reservation \<Rightarrow> Reservation) \<Rightarrow> ConnectionPool \<Rightarrow> ConnectionPool" where
  [qmux_defs]: "upd_resv r f p = p\<lparr>p_resvs := (p_resvs p)[r := f (p_resvs p ! r)]\<rparr>"

definition upd_ret :: "nat \<Rightarrow> (Retirement \<Rightarrow> Retirement) \<Rightarrow> ConnectionPool \<Rightarrow> ConnectionPool" where
  [qmux_defs]: "upd_ret t f p = p\<lparr>p_rets := (p_rets p)[t := f (p_rets p ! t)]\<rparr>"

definition upd_lease :: "nat \<Rightarrow> (TCPLease \<Rightarrow> TCPLease) \<Rightarrow> ConnectionPool \<Rightarrow> ConnectionPool" where
  [qmux_defs]: "upd_lease l f p = p\<lparr>p_leases := (p_leases p)[l := f (p_leases p ! l)]\<rparr>"

definition upd_adm :: "nat \<Rightarrow> (TCPAdmission \<Rightarrow> TCPAdmission) \<Rightarrow> ConnectionPool \<Rightarrow> ConnectionPool" where
  [qmux_defs]: "upd_adm a f p = p\<lparr>p_adms := (p_adms p)[a := f (p_adms p ! a)]\<rparr>"

definition clientGenerationCountLocked :: "ConnectionPool \<Rightarrow> int" where
  "clientGenerationCountLocked p =
     int (length (p_reservations p) + length (p_clients p) + length (p_retiring p))"

definition isCurrentLocked :: "ConnectionPool \<Rightarrow> nat option \<Rightarrow> bool" where
  "isCurrentLocked p expected = (case expected of None \<Rightarrow> False
     | Some c \<Rightarrow> cc_ID (conn p c) \<noteq> '''' \<and> map_of (p_clients p) (cc_ID (conn p c)) = Some c)"

definition isEligible :: "ConnectionPool \<Rightarrow> nat option \<Rightarrow> string \<Rightarrow> bool" where
  "isEligible p c protocol = (case c of None \<Rightarrow> False
     | Some c \<Rightarrow> if \<not> cc_healthy (conn p c) \<or> (protocol \<noteq> ''tcp'' \<and> protocol \<noteq> ''udp'') then False
               else protocol \<in> set (cc_Capabilities (conn p c)))"

section \<open>Registration\<close>

definition beginPending :: "ConnectionPool \<Rightarrow> (pool_error + nat) \<times> ConnectionPool" where
  "beginPending p =
     (if p_accountingFaults p \<noteq> 0 then (Inl ErrAccountingFault, p)
      else if p_serverPending p \<ge> MaxPendingRegistrations (p_limits p) then
        (Inl ErrPendingRegistrationCapacity,
         p\<lparr>p_pendingRegistrations :=
             (p_pendingRegistrations p)\<lparr>drops := drops (p_pendingRegistrations p) + 1\<rparr>\<rparr>)
      else
        (Inr (length (p_resvs p)),
         p\<lparr>p_serverPending := p_serverPending p + 1,
           p_pendingRegistrations := observe (p_serverPending p + 1) (p_pendingRegistrations p),
           p_resvs := p_resvs p @ [\<lparr>rs_conn = None, rs_id = '''', rs_state = reservationPending\<rparr>]\<rparr>))"

definition BeginPending :: "ConnectionPool \<Rightarrow> nat option \<times> ConnectionPool" where
  "BeginPending p = (case beginPending p of (Inl _, p') \<Rightarrow> (None, p') | (Inr r, p') \<Rightarrow> (Some r, p'))"

text \<open>\<open>Reservation.Reserve\<close>: \<open>None\<close> is the nil error.\<close>

definition Reservation_Reserve :: "nat option \<Rightarrow> nat option \<Rightarrow> ConnectionPool \<Rightarrow>
    pool_error option \<times> ConnectionPool" where
  "Reservation_Reserve rp cp p =
     (case rp of None \<Rightarrow> (Some InvalidPoolReservation, p)
      | Some r \<Rightarrow> (case cp of None \<Rightarrow> (Some ClientConnectionNil, p)
      | Some c \<Rightarrow>
        let cid = cc_ID (conn p c) in
        if cid = '''' then (Some ClientIDEmpty, p)
        else if rs_state (p_resvs p ! r) \<noteq> reservationPending
        then (Some ReservationNoLongerPending, p)
        else if p_accountingFaults p \<noteq> 0 then (Some ErrAccountingFault, p)
        else if map_of (p_clients p) cid \<noteq> None then (Some (ClientAlreadyExists cid), p)
        else if map_of (p_reservations p) cid \<noteq> None then (Some (ClientAlreadyPending cid), p)
        else if cc_added (conn p c) then (Some (ConnAlreadyAdded cid), p)
        else if clientGenerationCountLocked p \<ge> MaxClientGenerations (p_limits p) then
          (Some ErrClientGenerationCapacity,
           p\<lparr>p_clientGenerations := (p_clientGenerations p)\<lparr>drops := drops (p_clientGenerations p) + 1\<rparr>\<rparr>)
        else
          let p1 = upd_resv r (\<lambda>x. x\<lparr>rs_conn := Some c, rs_id := cid,
                                      rs_state := reservationReserved\<rparr>) p;
              p2 = p1\<lparr>p_reservations := AList.update cid r (p_reservations p1)\<rparr>
          in (None, p2\<lparr>p_clientGenerations :=
                       observe (clientGenerationCountLocked p2) (p_clientGenerations p2)\<rparr>)))"

definition Abort :: "nat option \<Rightarrow> ConnectionPool \<Rightarrow> bool \<times> ConnectionPool" where
  "Abort rp p =
     (case rp of None \<Rightarrow> (False, p)
      | Some r \<Rightarrow>
        let x = p_resvs p ! r in
        if rs_state x \<noteq> reservationPending \<and> rs_state x \<noteq> reservationReserved then (False, p)
        else if rs_state x = reservationReserved \<and> map_of (p_reservations p) (rs_id x) \<noteq> Some r
        then (False, p)
        else
          let p1 = (if rs_state x = reservationReserved
                    then p\<lparr>p_reservations := AList.delete (rs_id x) (p_reservations p)\<rparr> else p);
              p2 = p1\<lparr>p_serverPending := p_serverPending p1 - 1\<rparr>
          in (True, upd_resv r (\<lambda>x. x\<lparr>rs_state := reservationAborted\<rparr>) p2))"

definition pool_Reserve :: "nat option \<Rightarrow> ConnectionPool \<Rightarrow> (pool_error + nat) \<times> ConnectionPool" where
  "pool_Reserve cp p =
     (case beginPending p of (Inl err, p1) \<Rightarrow> (Inl err, p1)
      | (Inr r, p1) \<Rightarrow>
        (case Reservation_Reserve (Some r) cp p1 of
           (Some err, p2) \<Rightarrow> (Inl err, snd (Abort (Some r) p2))
         | (None, p2) \<Rightarrow> (Inr r, p2)))"

definition pool_Commit :: "nat option \<Rightarrow> ConnectionPool \<Rightarrow> pool_error option \<times> ConnectionPool" where
  "pool_Commit rp p =
     (case rp of None \<Rightarrow> (Some InvalidPoolReservation, p)
      | Some r \<Rightarrow>
        let x = p_resvs p ! r in
        if rs_state x \<noteq> reservationReserved \<or> map_of (p_reservations p) (rs_id x) \<noteq> Some r
        then (Some ReservationNoLongerPending, p)
        else if p_accountingFaults p \<noteq> 0 then (Some ErrAccountingFault, p)
        else (case rs_conn x of None \<Rightarrow> (Some ReservedIDChanged, p)
        | Some c \<Rightarrow>
          if cc_ID (conn p c) \<noteq> rs_id x then (Some ReservedIDChanged, p)
          else if map_of (p_clients p) (rs_id x) \<noteq> None
          then (Some (ClientAlreadyExists (rs_id x)), p)
          else if cc_added (conn p c) then (Some (ConnAlreadyAdded (rs_id x)), p)
          else
            let p1 = upd_conn c (\<lambda>k. k\<lparr>cc_added := True, cc_healthy := True\<rparr>) p;
                p2 = p1\<lparr>p_clients := AList.update (rs_id x) c (p_clients p1),
                        p_reservations := AList.delete (rs_id x) (p_reservations p1),
                        p_serverPending := p_serverPending p1 - 1\<rparr>;
                p3 = upd_resv r (\<lambda>x. x\<lparr>rs_state := reservationCommitted\<rparr>) p2
            in (None, p3\<lparr>p_cachedClients := None\<rparr>)))"

definition Add :: "nat option \<Rightarrow> ConnectionPool \<Rightarrow> pool_error option \<times> ConnectionPool" where
  "Add cp p =
     (case pool_Reserve cp p of (Inl err, p1) \<Rightarrow> (Some err, p1)
      | (Inr r, p1) \<Rightarrow>
        (case pool_Commit (Some r) p1 of
           (Some err, p2) \<Rightarrow> (Some err, snd (Abort (Some r) p2))
         | (None, p2) \<Rightarrow> (None, p2)))"

section \<open>Retirement\<close>

definition signalTCPDrainedLocked :: "nat option \<Rightarrow> ConnectionPool \<Rightarrow> ConnectionPool" where
  "signalTCPDrainedLocked rp p =
     (case rp of None \<Rightarrow> p
      | Some t \<Rightarrow>
        let x = p_rets p ! t; k = conn p (rt_conn x) in
        if rt_drainSent x \<or> cc_tcpPending k + cc_tcpActive k \<noteq> 0 then p
        else
          let fence = (if cc_tcpOpened k then cc_tcpStreamID k else - 1)
          in upd_ret t (\<lambda>x. x\<lparr>rt_tcpDrained := rt_tcpDrained x @ [fence], rt_drainSent := True\<rparr>) p)"

definition BeginRetire :: "nat option \<Rightarrow> ConnectionPool \<Rightarrow> nat option \<times> ConnectionPool" where
  "BeginRetire expected p =
     (if \<not> isCurrentLocked p expected then (None, p)
      else
        let c = the expected;
            t = length (p_rets p);
            p1 = upd_conn c (\<lambda>k. k\<lparr>cc_healthy := False\<rparr>) p;
            p2 = p1\<lparr>p_clients := AList.delete (cc_ID (conn p1 c)) (p_clients p1),
                    p_rets := p_rets p1 @ [\<lparr>rt_conn = c, rt_done = False, rt_tcpDrained = [],
                                            rt_drainSent = False\<rparr>],
                    p_retiring := AList.update c t (p_retiring p1),
                    p_cachedClients := None\<rparr>
        in (Some t, signalTCPDrainedLocked (Some t) p2))"

text \<open>A receive from the channel of \<open>TCPDrained\<close>; \<open>None\<close> where it would block.\<close>

definition TCPDrained_recv :: "nat \<Rightarrow> ConnectionPool \<Rightarrow> int option \<times> ConnectionPool" where
  "TCPDrained_recv t p =
     (case rt_tcpDrained (p_rets p ! t) of [] \<Rightarrow> (None, p)
      | v # vs \<Rightarrow> (Some v, upd_ret t (\<lambda>x. x\<lparr>rt_tcpDrained := vs\<rparr>) p))"

definition finalizeRetirementLocked :: "nat \<Rightarrow> ConnectionPool \<Rightarrow> ConnectionPool" where
  "finalizeRetirementLocked c p =
     (case map_of (p_retiring p) c of None \<Rightarrow> p
      | Some t \<Rightarrow>
        if rt_done (p_rets p ! t) \<and> cc_tcpPending (conn p c) = 0 \<and> cc_tcpActive (conn p c) = 0 \<and>
           cc_udpSessions (conn p c) = 0
        then p\<lparr>p_retiring := AList.delete c (p_retiring p)\<rparr> else p)"

definition Done :: "nat option \<Rightarrow> ConnectionPool \<Rightarrow> bool \<times> ConnectionPool" where
  "Done rp p =
     (case rp of None \<Rightarrow> (False, p)
      | Some t \<Rightarrow>
        let x = p_rets p ! t in
        if rt_done x \<or> map_of (p_retiring p) (rt_conn x) \<noteq> Some t then (False, p)
        else (True, finalizeRetirementLocked (rt_conn x) (upd_ret t (\<lambda>x. x\<lparr>rt_done := True\<rparr>) p)))"

definition Remove :: "nat option \<Rightarrow> ConnectionPool \<Rightarrow> bool \<times> ConnectionPool" where
  "Remove expected p =
     (case BeginRetire expected p of (None, p1) \<Rightarrow> (False, p1) | (Some t, p1) \<Rightarrow> Done (Some t) p1)"

section \<open>UDP sessions\<close>

text \<open>The scan of \<open>ReserveUDP\<close>: whether a client is eligible at all, and those with room.\<close>

definition udpCandidates :: "map_range \<Rightarrow> ConnectionPool \<Rightarrow> bool \<times> nat list" where
  "udpCandidates rng p =
     (let visited = filter (\<lambda>c. isEligible p (Some c) ''udp'') (map snd (rng (p_clients p)))
      in (visited \<noteq> [],
          filter (\<lambda>c. cc_udpSessions (conn p c) < MaxUDPSessionsPerGeneration (p_limits p)) visited))"

definition ReserveUDP :: "map_range \<Rightarrow> ConnectionPool \<Rightarrow> (pool_error + nat) \<times> ConnectionPool" where
  "ReserveUDP rng p =
     (if p_accountingFaults p \<noteq> 0 then (Inl ErrAccountingFault, p)
      else if length (p_clients p) = 0 then (Inl ErrNoClientsAvailable, p)
      else
        let (hasEligible, eligible) = udpCandidates rng p in
        if \<not> hasEligible then (Inl ErrNoEligibleClients, p)
        else if length eligible = 0 then
          (Inl ErrUDPGenerationCapacity,
           p\<lparr>p_udpSessions := (p_udpSessions p)\<lparr>drops := drops (p_udpSessions p) + 1\<rparr>\<rparr>)
        else
          let (r, b) = Select (p_balancer p) (p_conns p) eligible;
              p1 = p\<lparr>p_balancer := b\<rparr>
          in (case r of Inl err \<Rightarrow> (Inl err, p1)
              | Inr selected \<Rightarrow>
                if selected \<notin> set eligible then (Inl OutsideUDPCandidates, p1)
                else
                  let p2 = upd_conn selected (\<lambda>k. k\<lparr>cc_udpSessions := cc_udpSessions k + 1\<rparr>) p1
                  in (Inr selected,
                      p2\<lparr>p_udpSessions :=
                           observe (cc_udpSessions (conn p2 selected)) (p_udpSessions p2)\<rparr>)))"

definition ReleaseUDP :: "nat option \<Rightarrow> ConnectionPool \<Rightarrow> bool \<times> ConnectionPool" where
  "ReleaseUDP cp p =
     (case cp of None \<Rightarrow> (False, p)
      | Some c \<Rightarrow>
        if cc_udpSessions (conn p c) \<le> 0
        then (False, p\<lparr>p_accountingFaults := p_accountingFaults p + 1\<rparr>)
        else (True, finalizeRetirementLocked c
                      (upd_conn c (\<lambda>k. k\<lparr>cc_udpSessions := cc_udpSessions k - 1\<rparr>) p)))"

definition IsCurrentEligible :: "nat option \<Rightarrow> string \<Rightarrow> ConnectionPool \<Rightarrow> bool" where
  "IsCurrentEligible cp protocol p \<longleftrightarrow> isCurrentLocked p cp \<and> isEligible p cp protocol"

section \<open>TCP admission and leases\<close>

definition clientSliceLocked :: "map_range \<Rightarrow> ConnectionPool \<Rightarrow> nat list \<times> ConnectionPool" where
  "clientSliceLocked rng p =
     (case p_cachedClients p of Some clients \<Rightarrow> (clients, p)
      | None \<Rightarrow> let clients = map snd (rng (p_clients p))
                in (clients, p\<lparr>p_cachedClients := Some clients\<rparr>))"

definition BeginTCPAdmission :: "map_range \<Rightarrow> ConnectionPool \<Rightarrow> (pool_error + nat) \<times> ConnectionPool" where
  "BeginTCPAdmission rng p =
     (if p_accountingFaults p \<noteq> 0 then (Inl ErrAccountingFault, p)
      else if length (p_clients p) = 0 then (Inl ErrNoClientsAvailable, p)
      else
        let (clients, p1) = clientSliceLocked rng p;
            candidates = filter (\<lambda>c. isEligible p1 (Some c) ''tcp'') clients
        in if length candidates = 0 then (Inl ErrNoEligibleClients, p1)
           else (Inr (length (p_adms p1)),
                 p1\<lparr>p_adms := p_adms p1 @ [\<lparr>ad_candidates = candidates, ad_next = 0,
                                           ad_balanced = False, ad_balanceErr = None\<rparr>]\<rparr>))"

definition tcpCapacityErrorLocked :: "ConnectionPool \<Rightarrow> nat \<Rightarrow> pool_error option" where
  "tcpCapacityErrorLocked p c =
     (if cc_tcpPending (conn p c) + cc_tcpActive (conn p c) \<ge> MaxTCPConnectionsPerGeneration (p_limits p)
      then Some ErrTCPGenerationConnectionCapacity
      else if cc_tcpPending (conn p c) \<ge> MaxPendingTCPSetupsPerGeneration (p_limits p)
      then Some ErrTCPGenerationSetupCapacity
      else None)"

definition usable :: "ConnectionPool \<Rightarrow> nat \<Rightarrow> bool" where
  "usable p c \<longleftrightarrow> isCurrentLocked p (Some c) \<and> isEligible p (Some c) ''tcp'' \<and>
     tcpCapacityErrorLocked p c = None"

text \<open>The balancing part of \<open>Next\<close>, run once per admission.\<close>

definition balanceAdmission :: "nat \<Rightarrow> ConnectionPool \<Rightarrow> ConnectionPool" where
  "balanceAdmission a p =
     (let p1 = upd_adm a (\<lambda>x. x\<lparr>ad_balanced := True\<rparr>) p;
          candidates = ad_candidates (p_adms p1 ! a);
          eligible = filter (usable p1) candidates
      in if length eligible = 0 then p1
         else
           let (r, b) = Select (p_balancer p1) (p_conns p1) eligible;
               p2 = p1\<lparr>p_balancer := b\<rparr>
           in (case r of Inl err \<Rightarrow> upd_adm a (\<lambda>x. x\<lparr>ad_balanceErr := Some err\<rparr>) p2
               | Inr selected \<Rightarrow>
                 if selected \<notin> set eligible
                 then upd_adm a (\<lambda>x. x\<lparr>ad_balanceErr := Some OutsideTCPCandidates\<rparr>) p2
                 else
                   let k = length (takeWhile (\<lambda>c. c \<noteq> selected) candidates)
                   in upd_adm a (\<lambda>x. x\<lparr>ad_candidates := (candidates[0 := candidates ! k])[k := candidates ! 0]\<rparr>)
                        p2))"

text \<open>The walk of \<open>Next\<close> over the remaining candidates: the generation found, the new value of
  \<open>a.next\<close>, and whether a candidate was at connection or setup capacity.\<close>

fun nextLoop :: "ConnectionPool \<Rightarrow> nat list \<Rightarrow> nat \<Rightarrow> bool \<Rightarrow> bool \<Rightarrow>
    nat option \<times> nat \<times> bool \<times> bool" where
  "nextLoop p [] nxt atConnection atSetup = (None, nxt, atConnection, atSetup)"
| "nextLoop p (c # cs) nxt atConnection atSetup =
     (if \<not> isCurrentLocked p (Some c) \<or> \<not> isEligible p (Some c) ''tcp''
      then nextLoop p cs (Suc nxt) atConnection atSetup
      else (case tcpCapacityErrorLocked p c of
          Some err \<Rightarrow>
            if err = ErrTCPGenerationConnectionCapacity then nextLoop p cs (Suc nxt) True atSetup
            else nextLoop p cs (Suc nxt) atConnection True
        | None \<Rightarrow> (Some c, Suc nxt, atConnection, atSetup)))"

definition Next :: "nat option \<Rightarrow> ConnectionPool \<Rightarrow> (pool_error + nat option) \<times> ConnectionPool" where
  "Next ap p =
     (case ap of None \<Rightarrow> (Inr None, p)
      | Some a \<Rightarrow>
        if p_accountingFaults p \<noteq> 0 then (Inl ErrAccountingFault, p)
        else
          let p1 = (if \<not> ad_balanced (p_adms p ! a) then balanceAdmission a p else p) in
          case ad_balanceErr (p_adms p1 ! a) of Some err \<Rightarrow> (Inl err, p1)
          | None \<Rightarrow>
            let x = p_adms p1 ! a;
                (found, nxt, atConnection, atSetup) =
                  nextLoop p1 (drop (ad_next x) (ad_candidates x)) (ad_next x) False False;
                p2 = upd_adm a (\<lambda>x. x\<lparr>ad_next := nxt\<rparr>) p1
            in (case found of
                  Some c \<Rightarrow>
                    let p3 = upd_conn c (\<lambda>k. k\<lparr>cc_tcpPending := cc_tcpPending k + 1\<rparr>) p2;
                        pending = cc_tcpPending (conn p3 c)
                    in (Inr (Some (length (p_leases p3))),
                        p3\<lparr>p_pendingTCPSetups := observe pending (p_pendingTCPSetups p3),
                           p_tcpConnections :=
                             observe (pending + cc_tcpActive (conn p3 c)) (p_tcpConnections p3),
                           p_leases := p_leases p3 @ [\<lparr>le_conn = c, le_state = tcpLeasePending\<rparr>]\<rparr>)
                | None \<Rightarrow>
                    if atConnection then
                      (Inl ErrTCPGenerationConnectionCapacity,
                       p2\<lparr>p_tcpConnections := (p_tcpConnections p2)\<lparr>drops := drops (p_tcpConnections p2) + 1\<rparr>\<rparr>)
                    else if atSetup then
                      (Inl ErrTCPGenerationSetupCapacity,
                       p2\<lparr>p_pendingTCPSetups := (p_pendingTCPSetups p2)\<lparr>drops := drops (p_pendingTCPSetups p2) + 1\<rparr>\<rparr>)
                    else (Inr None, p2)))"

definition lease_Client :: "nat option \<Rightarrow> ConnectionPool \<Rightarrow> nat option" where
  "lease_Client lp p = (case lp of None \<Rightarrow> None | Some l \<Rightarrow> Some (le_conn (p_leases p ! l)))"

text \<open>The stream counter is raised by a compare-and-swap loop; \<open>env\<close> is the interference.\<close>

definition RecordStream :: "nat option \<Rightarrow> int \<Rightarrow> int list \<Rightarrow> ConnectionPool \<Rightarrow> ConnectionPool" where
  "RecordStream lp streamID env p =
     (case lp of None \<Rightarrow> p
      | Some l \<Rightarrow>
        let c = le_conn (p_leases p ! l);
            (_, v) = cas_loop (\<lambda>current. if streamID > current then Inr (streamID, ()) else Inl ())
                       (cc_tcpStreamID (conn p c)) env
        in upd_conn c (\<lambda>k. k\<lparr>cc_tcpStreamID := v, cc_tcpOpened := True\<rparr>) p)"

definition lease_Commit :: "nat option \<Rightarrow> ConnectionPool \<Rightarrow> bool \<times> ConnectionPool" where
  "lease_Commit lp p =
     (case lp of None \<Rightarrow> (False, p)
      | Some l \<Rightarrow>
        let x = p_leases p ! l in
        if le_state x \<noteq> tcpLeasePending then (False, p)
        else (True, upd_lease l (\<lambda>x. x\<lparr>le_state := tcpLeaseActive\<rparr>)
                (upd_conn (le_conn x)
                   (\<lambda>k. k\<lparr>cc_ActiveConns := cc_ActiveConns k + 1, cc_tcpActive := cc_tcpActive k + 1,
                          cc_TotalConns := cc_TotalConns k + 1, cc_tcpPending := cc_tcpPending k - 1\<rparr>) p)))"

definition lease_Release :: "nat option \<Rightarrow> ConnectionPool \<Rightarrow> bool \<times> ConnectionPool" where
  "lease_Release lp p =
     (case lp of None \<Rightarrow> (False, p)
      | Some l \<Rightarrow>
        let x = p_leases p ! l; c = le_conn x;
            finish = (\<lambda>p. let p1 = upd_lease l (\<lambda>x. x\<lparr>le_state := tcpLeaseReleased\<rparr>) p;
                              p2 = signalTCPDrainedLocked (map_of (p_retiring p1) c) p1
                          in finalizeRetirementLocked c p2)
        in (case le_state x of
              tcpLeasePending \<Rightarrow>
                (True, finish (upd_conn c (\<lambda>k. k\<lparr>cc_tcpPending := cc_tcpPending k - 1\<rparr>) p))
            | tcpLeaseActive \<Rightarrow>
                (True, finish (upd_conn c (\<lambda>k. k\<lparr>cc_ActiveConns := cc_ActiveConns k - 1,
                                                 cc_tcpActive := cc_tcpActive k - 1\<rparr>) p))
            | tcpLeaseReleased \<Rightarrow> (False, p)))"

section \<open>Health, queries and the snapshot\<close>

definition MarkUnhealthy :: "nat option \<Rightarrow> ConnectionPool \<Rightarrow> bool \<times> ConnectionPool" where
  "MarkUnhealthy expected p =
     (if \<not> isCurrentLocked p expected then (False, p)
      else (True, (upd_conn (the expected) (\<lambda>k. k\<lparr>cc_healthy := False\<rparr>) p)\<lparr>p_cachedClients := None\<rparr>))"

definition MarkHealthy :: "nat option \<Rightarrow> ConnectionPool \<Rightarrow> bool \<times> ConnectionPool" where
  "MarkHealthy expected p =
     (if \<not> isCurrentLocked p expected then (False, p)
      else (True, (upd_conn (the expected) (\<lambda>k. k\<lparr>cc_healthy := True\<rparr>) p)\<lparr>p_cachedClients := None\<rparr>))"

definition Get :: "string \<Rightarrow> ConnectionPool \<Rightarrow> nat option" where
  "Get clientID p = map_of (p_clients p) clientID"

definition List :: "map_range \<Rightarrow> ConnectionPool \<Rightarrow> nat list" where
  "List rng p = map snd (rng (p_clients p))"

definition Count :: "ConnectionPool \<Rightarrow> int" where
  "Count p = int (length (p_clients p))"

definition HealthyCount :: "map_range \<Rightarrow> ConnectionPool \<Rightarrow> int" where
  "HealthyCount rng p =
     int (length (filter (\<lambda>c. cc_healthy (conn p c)) (map snd (rng (p_clients p)))))"

definition EligibleCount :: "map_range \<Rightarrow> string \<Rightarrow> ConnectionPool \<Rightarrow> int" where
  "EligibleCount rng protocol p =
     int (length (filter (\<lambda>c. isEligible p (Some c) protocol) (map snd (rng (p_clients p)))))"

record CapacitySnapshot =
  cs_Healthy :: int
  cs_OldestHeartbeat :: "int option"
  cs_ServerPending :: int
  cs_Reservations :: int
  cs_Registered :: int
  cs_ServerRetiring :: int
  cs_TCPPending :: int
  cs_TCPActive :: int
  cs_UDPSessions :: int
  cs_AccountingFaults :: u64
  cs_PendingRegistrations :: LimitSnapshot
  cs_ClientGenerations :: LimitSnapshot
  cs_TCPConnectionsPerGeneration :: LimitSnapshot
  cs_PendingTCPSetupsPerGeneration :: LimitSnapshot
  cs_UDPSessionsPerGeneration :: LimitSnapshot

text \<open>The loop over clients for the heartbeat: zero is a heartbeat never seen.\<close>

fun oldestHeartbeat :: "ConnectionPool \<Rightarrow> nat list \<Rightarrow> int option \<Rightarrow> int option" where
  "oldestHeartbeat p [] oldest = oldest"
| "oldestHeartbeat p (c # cs) oldest =
     (let ns = cc_LastHeartbeat (conn p c)
      in oldestHeartbeat p cs
           (if ns \<noteq> 0 \<and> (case oldest of None \<Rightarrow> True | Some h \<Rightarrow> ns < h) then Some ns else oldest))"

definition pool_Snapshot :: "map_range \<Rightarrow> ConnectionPool \<Rightarrow> CapacitySnapshot" where
  "pool_Snapshot rng p =
     (let clients = map snd (rng (p_clients p));
          gens = clients @ map fst (p_retiring p);
          pend = (\<lambda>c. cc_tcpPending (conn p c));
          act = (\<lambda>c. cc_tcpActive (conn p c));
          udp = (\<lambda>c. cc_udpSessions (conn p c));
          highest = (\<lambda>f. foldl (\<lambda>m c. max m (f c)) 0 gens);
          limits = p_limits p
      in \<lparr>cs_Healthy = int (length (filter (\<lambda>c. cc_healthy (conn p c)) clients)),
          cs_OldestHeartbeat = oldestHeartbeat p clients None,
          cs_ServerPending = p_serverPending p,
          cs_Reservations = int (length (p_reservations p)),
          cs_Registered = int (length (p_clients p)),
          cs_ServerRetiring = int (length (p_retiring p)),
          cs_TCPPending = sum_list (map pend gens),
          cs_TCPActive = sum_list (map act gens),
          cs_UDPSessions = sum_list (map udp gens),
          cs_AccountingFaults = p_accountingFaults p,
          cs_PendingRegistrations =
            capacity_snapshot (p_serverPending p) (MaxPendingRegistrations limits) (p_pendingRegistrations p),
          cs_ClientGenerations =
            capacity_snapshot (clientGenerationCountLocked p) (MaxClientGenerations limits) (p_clientGenerations p),
          cs_TCPConnectionsPerGeneration =
            capacity_snapshot (highest (\<lambda>c. pend c + act c)) (MaxTCPConnectionsPerGeneration limits)
              (p_tcpConnections p),
          cs_PendingTCPSetupsPerGeneration =
            capacity_snapshot (highest pend) (MaxPendingTCPSetupsPerGeneration limits) (p_pendingTCPSetups p),
          cs_UDPSessionsPerGeneration =
            capacity_snapshot (highest udp) (MaxUDPSessionsPerGeneration limits) (p_udpSessions p)\<rparr>)"

end
