(* ===== verification/Pool_Invariant.thy ===== *)
theory Pool_Invariant
  imports Pool
begin

text \<open>
  The accounting invariant of the connection pool and its preservation by every operation.

  The invariant is a conjunction of small predicates over the parts of the pool they are about,
  so that an operation has to argue only about the parts it changes: identities (one current
  generation per ID), registrations (the pending counter is the number of open reservations),
  retirements (a generation stays until its owner is done and its traffic is gone), leases
  (the counters of a generation are the numbers of its pending and active leases), capacity
  bounds with their high-water marks, drain notifications, and the membership cache.
\<close>

section \<open>The invariant\<close>

definition idle :: "ClientConn \<Rightarrow> bool" where
  "idle k \<longleftrightarrow> cc_tcpPending k = 0 \<and> cc_tcpActive k = 0 \<and> cc_udpSessions k = 0"

definition is_open :: "Reservation \<Rightarrow> bool" where
  "is_open x \<longleftrightarrow> rs_state x = reservationPending \<or> rs_state x = reservationReserved"

definition ids_ok :: "ClientConn list \<Rightarrow> (string \<times> nat) list \<Rightarrow> bool" where
  "ids_ok K Cl \<longleftrightarrow> distinct (keys Cl) \<and>
     (\<forall>i c. (i, c) \<in> set Cl \<longrightarrow> c < length K \<and> cc_ID (K ! c) = i \<and> i \<noteq> [] \<and> cc_added (K ! c))"

definition resv_ok :: "ClientConn list \<Rightarrow> (string \<times> nat) list \<Rightarrow> (string \<times> nat) list \<Rightarrow>
    Reservation list \<Rightarrow> int \<Rightarrow> bool" where
  "resv_ok K Cl Re R n \<longleftrightarrow> distinct (keys Re) \<and> set (keys Cl) \<inter> set (keys Re) = {} \<and>
     (\<forall>i r. (i, r) \<in> set Re \<longrightarrow> r < length R \<and> rs_state (R ! r) = reservationReserved \<and> rs_id (R ! r) = i \<and>
        i \<noteq> [] \<and> (\<exists>c < length K. rs_conn (R ! r) = Some c \<and> cc_ID (K ! c) = i)) \<and>
     (\<forall>r < length R. rs_state (R ! r) = reservationReserved \<longrightarrow> map_of Re (rs_id (R ! r)) = Some r) \<and>
     n = int (length (filter is_open R))"

definition ret_ok :: "ClientConn list \<Rightarrow> (string \<times> nat) list \<Rightarrow> (nat \<times> nat) list \<Rightarrow>
    Retirement list \<Rightarrow> bool" where
  "ret_ok K Cl Rt T \<longleftrightarrow> distinct (keys Rt) \<and> distinct (map rt_conn T) \<and>
     (\<forall>c t. (c, t) \<in> set Rt \<longrightarrow> t < length T \<and> rt_conn (T ! t) = c) \<and>
     (\<forall>t < length T. rt_conn (T ! t) < length K \<and> cc_added (K ! rt_conn (T ! t)) \<and>
        rt_conn (T ! t) \<notin> snd ` set Cl \<and>
        (map_of Rt (rt_conn (T ! t)) = Some t \<or> rt_done (T ! t) \<and> idle (K ! rt_conn (T ! t))))"

definition traffic_ok :: "ClientConn list \<Rightarrow> (string \<times> nat) list \<Rightarrow> (nat \<times> nat) list \<Rightarrow> bool" where
  "traffic_ok K Cl Rt \<longleftrightarrow>
     (\<forall>c < length K. \<not> idle (K ! c) \<longrightarrow> c \<in> snd ` set Cl \<or> c \<in> fst ` set Rt)"

definition leases_of :: "TCPLease list \<Rightarrow> nat \<Rightarrow> tcpLeaseState \<Rightarrow> int" where
  "leases_of L c st = int (length (filter (\<lambda>l. le_conn l = c \<and> le_state l = st) L))"

definition lease_ok :: "ClientConn list \<Rightarrow> TCPLease list \<Rightarrow> bool" where
  "lease_ok K L \<longleftrightarrow> (\<forall>l \<in> set L. le_conn l < length K) \<and>
     (\<forall>c < length K. cc_tcpPending (K ! c) = leases_of L c tcpLeasePending \<and>
        cc_tcpActive (K ! c) = leases_of L c tcpLeaseActive \<and>
        cc_ActiveConns (K ! c) = cc_tcpActive (K ! c) \<and> 0 \<le> cc_udpSessions (K ! c))"

definition within :: "int \<Rightarrow> int \<Rightarrow> capacityState \<Rightarrow> bool" where
  "within v limit s \<longleftrightarrow> v \<le> limit \<and> v \<le> highWater s \<and> highWater s \<le> limit"

definition caps_ok :: "ClientConn list \<Rightarrow> Limits \<Rightarrow> capacityState \<Rightarrow> capacityState \<Rightarrow> capacityState \<Rightarrow> bool" where
  "caps_ok K lim tc ps us \<longleftrightarrow>
     0 \<le> highWater tc \<and> highWater tc \<le> MaxTCPConnectionsPerGeneration lim \<and>
     0 \<le> highWater ps \<and> highWater ps \<le> MaxPendingTCPSetupsPerGeneration lim \<and>
     0 \<le> highWater us \<and> highWater us \<le> MaxUDPSessionsPerGeneration lim \<and>
     (\<forall>c < length K. cc_tcpPending (K ! c) + cc_tcpActive (K ! c) \<le> highWater tc \<and>
        cc_tcpPending (K ! c) \<le> highWater ps \<and> cc_udpSessions (K ! c) \<le> highWater us)"

text \<open>The notification is sent exactly when no TCP lease is left, and once.\<close>

definition notified :: "int \<Rightarrow> Retirement \<Rightarrow> bool" where
  "notified n x \<longleftrightarrow> (rt_drainSent x \<longleftrightarrow> n = 0) \<and>
     length (rt_tcpDrained x) \<le> (if rt_drainSent x then 1 else 0)"

definition drain_ok :: "ClientConn list \<Rightarrow> Retirement list \<Rightarrow> bool" where
  "drain_ok K T \<longleftrightarrow>
     (\<forall>x \<in> set T. notified (cc_tcpPending (K ! rt_conn x) + cc_tcpActive (K ! rt_conn x)) x)"

definition cache_ok :: "nat list option \<Rightarrow> (string \<times> nat) list \<Rightarrow> bool" where
  "cache_ok cached Cl \<longleftrightarrow> (case cached of None \<Rightarrow> True | Some xs \<Rightarrow> mset xs = mset (map snd Cl))"

definition adm_ok :: "ClientConn list \<Rightarrow> TCPAdmission list \<Rightarrow> bool" where
  "adm_ok K A \<longleftrightarrow> (\<forall>a \<in> set A. \<forall>c \<in> set (ad_candidates a). c < length K)"

definition pool_inv :: "ConnectionPool \<Rightarrow> bool" where
  "pool_inv p \<longleftrightarrow> ids_ok (p_conns p) (p_clients p) \<and>
     resv_ok (p_conns p) (p_clients p) (p_reservations p) (p_resvs p) (p_serverPending p) \<and>
     ret_ok (p_conns p) (p_clients p) (p_retiring p) (p_rets p) \<and>
     traffic_ok (p_conns p) (p_clients p) (p_retiring p) \<and>
     lease_ok (p_conns p) (p_leases p) \<and>
     caps_ok (p_conns p) (p_limits p) (p_tcpConnections p) (p_pendingTCPSetups p) (p_udpSessions p) \<and>
     drain_ok (p_conns p) (p_rets p) \<and> cache_ok (p_cachedClients p) (p_clients p) \<and>
     adm_ok (p_conns p) (p_adms p) \<and>
     within (p_serverPending p) (MaxPendingRegistrations (p_limits p)) (p_pendingRegistrations p) \<and>
     within (clientGenerationCountLocked p) (MaxClientGenerations (p_limits p)) (p_clientGenerations p)"

section \<open>Changes to the generations\<close>

text \<open>Generations are only added, keep their ID and stay consumed.\<close>

definition evolve :: "ClientConn list \<Rightarrow> ClientConn list \<Rightarrow> bool" where
  "evolve K K' \<longleftrightarrow> length K \<le> length K' \<and>
     (\<forall>c < length K. cc_ID (K' ! c) = cc_ID (K ! c) \<and> (cc_added (K ! c) \<longrightarrow> cc_added (K' ! c)))"

lemma evolve_refl [simp]: "evolve K K"
  by (simp add: evolve_def)

lemma evolve_upd: "c < length K \<Longrightarrow> cc_ID k = cc_ID (K ! c) \<Longrightarrow>
    (cc_added (K ! c) \<Longrightarrow> cc_added k) \<Longrightarrow> evolve K (K[c := k])"
  by (auto simp: evolve_def nth_list_update)

lemma evolve_alloc: "evolve K (K @ [k])"
  by (simp add: evolve_def nth_append)

lemma ids_ok_evolve: "ids_ok K Cl \<Longrightarrow> evolve K K' \<Longrightarrow> ids_ok K' Cl"
  unfolding ids_ok_def evolve_def by (metis less_le_trans)

lemma evolveD: "evolve K K' \<Longrightarrow> c < length K \<Longrightarrow>
    c < length K' \<and> cc_ID (K' ! c) = cc_ID (K ! c) \<and> (cc_added (K ! c) \<longrightarrow> cc_added (K' ! c))"
  unfolding evolve_def by auto

lemma resv_ok_evolve:
  assumes "resv_ok K Cl Re R n" and "evolve K K'"
  shows "resv_ok K' Cl Re R n"
proof -
  have "\<exists>c < length K'. rs_conn x = Some c \<and> cc_ID (K' ! c) = i"
    if "\<exists>c < length K. rs_conn x = Some c \<and> cc_ID (K ! c) = i" for x :: Reservation and i
    using that evolveD [OF assms(2)] by blast
  with assms(1) show ?thesis
    unfolding resv_ok_def by blast
qed

lemma ret_ok_evolve:
  assumes "ret_ok K Cl Rt T" and "evolve K K'"
    and "\<And>c. c < length K \<Longrightarrow> c \<notin> snd ` set Cl \<Longrightarrow> idle (K ! c) \<Longrightarrow> idle (K' ! c)"
  shows "ret_ok K' Cl Rt T"
  using assms(1,3) evolveD [OF assms(2)] unfolding ret_ok_def by blast

lemma traffic_ok_evolve:
  assumes "traffic_ok K Cl Rt" and "length K' = length K"
    and "\<And>c. c < length K \<Longrightarrow> idle (K ! c) \<Longrightarrow> c \<notin> snd ` set Cl \<Longrightarrow> idle (K' ! c)"
  shows "traffic_ok K' Cl Rt"
  using assms unfolding traffic_ok_def by metis

lemma adm_ok_evolve: "adm_ok K A \<Longrightarrow> evolve K K' \<Longrightarrow> adm_ok K' A"
  unfolding adm_ok_def evolve_def by (metis less_le_trans)

lemma drain_ok_evolve:
  assumes "drain_ok K T"
    and "\<And>x. x \<in> set T \<Longrightarrow> cc_tcpPending (K' ! rt_conn x) + cc_tcpActive (K' ! rt_conn x) =
      cc_tcpPending (K ! rt_conn x) + cc_tcpActive (K ! rt_conn x)"
  shows "drain_ok K' T"
  using assms unfolding drain_ok_def by simp

lemma ids_okD:
  assumes "ids_ok K Cl" and "(i, c) \<in> set Cl"
  shows "c < length K" "cc_ID (K ! c) = i" "i \<noteq> []" "cc_added (K ! c)" "map_of Cl i = Some c"
  using assms unfolding ids_ok_def by (blast, blast, blast, blast, simp)

lemma ids_ok_delete:
  assumes "ids_ok K Cl"
  shows "ids_ok K (AList.delete i Cl)"
proof -
  have "distinct (keys (AList.delete i Cl))"
    by (rule distinct_keys_delete) (use assms in \<open>simp add: ids_ok_def\<close>)
  moreover have "c < length K \<and> cc_ID (K ! c) = j \<and> j \<noteq> [] \<and> cc_added (K ! c)"
    if "(j, c) \<in> set (AList.delete i Cl)" for j c
    using ids_okD(1-4) [OF assms] that unfolding mem_delete by metis
  ultimately show ?thesis
    unfolding ids_ok_def by metis
qed

text \<open>What a current generation is.\<close>

lemma isCurrent_mem:
  assumes "ids_ok (p_conns p) (p_clients p)"
  shows "isCurrentLocked p (Some c) \<longleftrightarrow> c \<in> snd ` set (p_clients p)"
proof
  assume "isCurrentLocked p (Some c)"
  then show "c \<in> snd ` set (p_clients p)"
    by (auto simp: isCurrentLocked_def dest!: map_of_SomeD intro: rev_image_eqI)
next
  assume "c \<in> snd ` set (p_clients p)"
  then obtain i where "(i, c) \<in> set (p_clients p)"
    by auto
  with assms show "isCurrentLocked p (Some c)"
    by (auto simp: isCurrentLocked_def ids_ok_def)
qed

lemma ids_ok_snd_distinct:
  assumes "ids_ok K Cl"
  shows "distinct (map snd Cl)"
proof -
  have "map (\<lambda>c. cc_ID (K ! c)) (map snd Cl) = keys Cl"
    using assms by (auto simp: ids_ok_def)
  with assms have "distinct (map (\<lambda>c. cc_ID (K ! c)) (map snd Cl))"
    by (simp only: ids_ok_def)
  then show ?thesis
    by (simp only: distinct_map)
qed

text \<open>A change that leaves the traffic counters alone.\<close>

definition counts :: "ClientConn \<Rightarrow> int \<times> int \<times> int \<times> int" where
  "counts k = (cc_tcpPending k, cc_tcpActive k, cc_ActiveConns k, cc_udpSessions k)"

lemma counts_upd: "counts k = counts (K ! c) \<Longrightarrow> counts (K[c := k] ! d) = counts (K ! d)"
  by (cases "c < length K") (auto simp: nth_list_update list_update_beyond not_less)

lemma counts_same:
  assumes "length K' = length K" and "\<And>d. counts (K' ! d) = counts (K ! d)"
  shows "lease_ok K' L = lease_ok K L" and "caps_ok K' lim tc ps us = caps_ok K lim tc ps us"
    and "drain_ok K' T = drain_ok K T" and "idle (K' ! d) = idle (K ! d)"
    and "traffic_ok K' Cl Rt = traffic_ok K Cl Rt"
proof -
  have eq: "cc_tcpPending (K' ! d) = cc_tcpPending (K ! d)" "cc_tcpActive (K' ! d) = cc_tcpActive (K ! d)"
    "cc_ActiveConns (K' ! d) = cc_ActiveConns (K ! d)" "cc_udpSessions (K' ! d) = cc_udpSessions (K ! d)" for d
    using assms(2) [of d] by (simp_all add: counts_def)
  show "lease_ok K' L = lease_ok K L" and "caps_ok K' lim tc ps us = caps_ok K lim tc ps us"
    and "drain_ok K' T = drain_ok K T" and "idle (K' ! d) = idle (K ! d)"
    and "traffic_ok K' Cl Rt = traffic_ok K Cl Rt"
    by (simp_all add: lease_ok_def caps_ok_def drain_ok_def idle_def traffic_ok_def eq assms(1))
qed

text \<open>The part of the invariant that is about the generations and their traffic.\<close>

lemma quiet_upd:
  assumes "c < length K" and "cc_ID k = cc_ID (K ! c)" and "cc_added (K ! c) \<longrightarrow> cc_added k"
    and "counts k = counts (K ! c)"
  shows "ids_ok K Cl \<Longrightarrow> ids_ok (K[c := k]) Cl"
    and "resv_ok K Cl Re R n \<Longrightarrow> resv_ok (K[c := k]) Cl Re R n"
    and "ret_ok K Cl Rt T \<Longrightarrow> ret_ok (K[c := k]) Cl Rt T"
    and "adm_ok K A \<Longrightarrow> adm_ok (K[c := k]) A"
    and "lease_ok (K[c := k]) L = lease_ok K L"
    and "caps_ok (K[c := k]) lim tc ps us = caps_ok K lim tc ps us"
    and "drain_ok (K[c := k]) T = drain_ok K T"
    and "traffic_ok (K[c := k]) Cl Rt = traffic_ok K Cl Rt"
proof -
  have ev: "evolve K (K[c := k])"
    using assms(1-3) by (intro evolve_upd) blast+
  note same = counts_same [OF length_list_update counts_upd [OF assms(4)]]
  show "ids_ok K Cl \<Longrightarrow> ids_ok (K[c := k]) Cl"
    and "resv_ok K Cl Re R n \<Longrightarrow> resv_ok (K[c := k]) Cl Re R n"
    and "adm_ok K A \<Longrightarrow> adm_ok (K[c := k]) A"
    using ev by (auto intro: ids_ok_evolve resv_ok_evolve adm_ok_evolve)
  show "ret_ok K Cl Rt T \<Longrightarrow> ret_ok (K[c := k]) Cl Rt T"
    using ret_ok_evolve [OF _ ev] same(4) by blast
  show "lease_ok (K[c := k]) L = lease_ok K L"
    and "caps_ok (K[c := k]) lim tc ps us = caps_ok K lim tc ps us"
    and "drain_ok (K[c := k]) T = drain_ok K T"
    and "traffic_ok (K[c := k]) Cl Rt = traffic_ok K Cl Rt"
    by (fact same)+
qed

section \<open>Registration\<close>

lemma within_observe: "v \<le> limit \<Longrightarrow> highWater s \<le> limit \<Longrightarrow> within v limit (observe v s)"
  by (simp add: within_def observe_def)

lemma within_drops [simp]: "within v limit (s\<lparr>drops := d\<rparr>) = within v limit s"
  by (simp add: within_def)

lemma within_less: "within v limit s \<Longrightarrow> v' \<le> v \<Longrightarrow> within v' limit s"
  by (simp add: within_def)

lemma resv_okD:
  assumes "resv_ok K Cl Re R n"
  shows "distinct (keys Re)" "set (keys Cl) \<inter> set (keys Re) = {}"
    and "\<And>i r. (i, r) \<in> set Re \<Longrightarrow> r < length R \<and> rs_state (R ! r) = reservationReserved \<and> rs_id (R ! r) = i \<and>
        i \<noteq> [] \<and> (\<exists>c < length K. rs_conn (R ! r) = Some c \<and> cc_ID (K ! c) = i)"
    and "\<And>r. r < length R \<Longrightarrow> rs_state (R ! r) = reservationReserved \<Longrightarrow> map_of Re (rs_id (R ! r)) = Some r"
    and "n = int (length (filter is_open R))"
  using assms unfolding resv_ok_def by blast+

lemma resv_ok_new:
  assumes "resv_ok K Cl Re R n"
  shows "resv_ok K Cl Re (R @ [\<lparr>rs_conn = None, rs_id = [], rs_state = reservationPending\<rparr>]) (n + 1)"
  using assms unfolding resv_ok_def by (auto simp: nth_append is_open_def less_Suc_eq)

lemma resv_ok_reserve:
  assumes "resv_ok K Cl Re R n" and "r < length R" and "rs_state (R ! r) = reservationPending"
    and "c < length K" and "i = cc_ID (K ! c)" and "i \<noteq> []"
    and "map_of Cl i = None" and "map_of Re i = None"
  shows "resv_ok K Cl (AList.update i r Re)
    (R[r := (R ! r)\<lparr>rs_conn := Some c, rs_id := i, rs_state := reservationReserved\<rparr>]) n"
proof -
  let ?x = "(R ! r)\<lparr>rs_conn := Some c, rs_id := i, rs_state := reservationReserved\<rparr>"
  note ok = resv_okD [OF assms(1)]
  have fresh: "r' \<noteq> r \<and> j \<noteq> i" if "(j, r') \<in> set Re" for j r'
    using ok(3) [OF that] assms(3,8) that by (force simp: map_of_eq_None_iff)
  have "set (keys Cl) \<inter> set (keys (AList.update i r Re)) = {}"
    using ok(2) assms(7) by (auto simp: dom_update map_of_eq_None_iff)
  moreover have "r' < length (R[r := ?x]) \<and> rs_state (R[r := ?x] ! r') = reservationReserved \<and>
      rs_id (R[r := ?x] ! r') = j \<and> j \<noteq> [] \<and>
      (\<exists>c < length K. rs_conn (R[r := ?x] ! r') = Some c \<and> cc_ID (K ! c) = j)"
    if "(j, r') \<in> set (AList.update i r Re)" for j r'
  proof (cases "j = i")
    case True
    with that ok(1) have "r' = r" by (simp add: mem_update)
    with True assms(2,4-6) show ?thesis by auto
  next
    case False
    with that ok(1) have old: "(j, r') \<in> set Re" by (simp add: mem_update)
    with ok(3) [OF old] fresh [OF old] show ?thesis by simp
  qed
  moreover have "map_of (AList.update i r Re) (rs_id (R[r := ?x] ! r')) = Some r'"
    if "r' < length R" "rs_state (R[r := ?x] ! r') = reservationReserved" for r'
  proof (cases "r' = r")
    case True
    with assms(2) show ?thesis by (simp add: update_conv')
  next
    case False
    with that ok(4) [of r'] assms(8) show ?thesis by (auto simp: update_conv')
  qed
  moreover have "n = int (length (filter is_open (R[r := ?x])))"
    using length_filter_update [OF assms(2), of is_open ?x] assms(3) ok(5) by (simp add: is_open_def)
  ultimately show ?thesis
    using ok(1) unfolding resv_ok_def by simp
qed

text \<open>An open reservation that ends: aborted before or after it was bound to an ID, or committed.\<close>

lemma resv_ok_end_pending:
  assumes "resv_ok K Cl Re R n" and "r < length R" and "rs_state (R ! r) = reservationPending"
    and "x = (R ! r)\<lparr>rs_state := st\<rparr>" and "st = reservationAborted \<or> st = reservationCommitted"
  shows "resv_ok K Cl Re (R[r := x]) (n - 1)"
proof -
  note ok = resv_okD [OF assms(1)]
  have other: "r' \<noteq> r" if "(j, r') \<in> set Re" for j r'
    using ok(3) [OF that] assms(3) by auto
  have "r' < length (R[r := x]) \<and> rs_state (R[r := x] ! r') = reservationReserved \<and>
      rs_id (R[r := x] ! r') = j \<and> j \<noteq> [] \<and>
      (\<exists>c < length K. rs_conn (R[r := x] ! r') = Some c \<and> cc_ID (K ! c) = j)"
    if "(j, r') \<in> set Re" for j r'
    using ok(3) [OF that] other [OF that] by simp
  moreover have "map_of Re (rs_id (R[r := x] ! r')) = Some r'"
    if "r' < length R" "rs_state (R[r := x] ! r') = reservationReserved" for r'
    using that assms(2,4,5) ok(4) [of r'] by (cases "r' = r") auto
  moreover have "n - 1 = int (length (filter is_open (R[r := x])))"
    using length_filter_update [OF assms(2), of is_open x] assms(3-5) ok(5) by (auto simp: is_open_def)
  ultimately show ?thesis
    using ok(1,2) unfolding resv_ok_def by simp
qed

lemma resv_ok_end_reserved:
  assumes "resv_ok K Cl Re R n" and "r < length R" and "rs_state (R ! r) = reservationReserved"
    and "x = (R ! r)\<lparr>rs_state := st\<rparr>" and "st = reservationAborted \<or> st = reservationCommitted"
  shows "resv_ok K Cl (AList.delete (rs_id (R ! r)) Re) (R[r := x]) (n - 1)"
proof -
  let ?i = "rs_id (R ! r)"
  note ok = resv_okD [OF assms(1)]
  have other: "r' \<noteq> r \<and> (j, r') \<in> set Re" if "(j, r') \<in> set (AList.delete ?i Re)" for j r'
    using that ok(3) [of j r'] by (auto simp: mem_delete)
  have "r' < length (R[r := x]) \<and> rs_state (R[r := x] ! r') = reservationReserved \<and>
      rs_id (R[r := x] ! r') = j \<and> j \<noteq> [] \<and>
      (\<exists>c < length K. rs_conn (R[r := x] ! r') = Some c \<and> cc_ID (K ! c) = j)"
    if "(j, r') \<in> set (AList.delete ?i Re)" for j r'
    using ok(3) [of j r'] other [OF that] by simp
  moreover have "map_of (AList.delete ?i Re) (rs_id (R[r := x] ! r')) = Some r'"
    if "r' < length R" "rs_state (R[r := x] ! r') = reservationReserved" for r'
  proof -
    have ne: "r' \<noteq> r"
      using that assms(2,4,5) by auto
    then have look: "map_of Re (rs_id (R ! r')) = Some r'"
      using that ok(4) [of r'] by simp
    moreover have "map_of Re ?i = Some r"
      using ok(4) assms(2,3) by simp
    ultimately have "rs_id (R ! r') \<noteq> ?i"
      using ne by auto
    with look ne show ?thesis
      by (simp add: delete_conv')
  qed
  moreover have "n - 1 = int (length (filter is_open (R[r := x])))"
    using length_filter_update [OF assms(2), of is_open x] assms(3-5) ok(5) by (auto simp: is_open_def)
  moreover have "set (keys Cl) \<inter> set (keys (AList.delete ?i Re)) = {}"
    using ok(2) unfolding keys_delete by blast
  ultimately show ?thesis
    using ok(1) unfolding resv_ok_def by simp
qed

lemma resv_ok_clients:
  assumes "resv_ok K Cl Re R n" and "set (keys Cl') \<inter> set (keys Re) = {}"
  shows "resv_ok K Cl' Re R n"
  using assms unfolding resv_ok_def by blast

lemma beginPending_inv:
  assumes "pool_inv p"
  shows "pool_inv (snd (beginPending p))"
proof -
  have "within (p_serverPending p) (MaxPendingRegistrations (p_limits p)) (p_pendingRegistrations p)"
    using assms by (simp add: pool_inv_def)
  then have w: "highWater (p_pendingRegistrations p) \<le> MaxPendingRegistrations (p_limits p)"
    by (simp add: within_def)
  consider "p_accountingFaults p \<noteq> 0" | "p_accountingFaults p = 0"
      "p_serverPending p \<ge> MaxPendingRegistrations (p_limits p)"
    | "p_accountingFaults p = 0" "p_serverPending p < MaxPendingRegistrations (p_limits p)"
    by fastforce
  then show ?thesis
  proof cases
    case 1
    with assms show ?thesis by (simp add: beginPending_def)
  next
    case 2
    with assms show ?thesis
      by (simp add: beginPending_def pool_inv_def clientGenerationCountLocked_def)
  next
    case 3
    have "resv_ok (p_conns p) (p_clients p) (p_reservations p)
        (p_resvs p @ [\<lparr>rs_conn = None, rs_id = [], rs_state = reservationPending\<rparr>]) (p_serverPending p + 1)"
      using assms by (intro resv_ok_new) (simp add: pool_inv_def)
    moreover have "within (p_serverPending p + 1) (MaxPendingRegistrations (p_limits p))
        (observe (p_serverPending p + 1) (p_pendingRegistrations p))"
      using w 3 by (intro within_observe) simp_all
    ultimately show ?thesis
      using 3 assms by (simp add: beginPending_def pool_inv_def clientGenerationCountLocked_def)
  qed
qed

lemma beginPending_result:
  assumes "fst (beginPending p) = Inr r"
  shows "r = length (p_resvs p)" and "p_resvs (snd (beginPending p)) =
      p_resvs p @ [\<lparr>rs_conn = None, rs_id = [], rs_state = reservationPending\<rparr>]"
    and "p_conns (snd (beginPending p)) = p_conns p"
  using assms by (auto simp: beginPending_def split: if_splits)

lemma Reservation_Reserve_inv:
  assumes "pool_inv p" and "r < length (p_resvs p)" and "c < length (p_conns p)"
  shows "pool_inv (snd (Reservation_Reserve (Some r) (Some c) p))"
proof -
  let ?i = "cc_ID (conn p c)"
  let ?R = "(p_resvs p)[r := (p_resvs p ! r)\<lparr>rs_conn := Some c, rs_id := ?i, rs_state := reservationReserved\<rparr>]"
  let ?Re = "AList.update ?i r (p_reservations p)"
  show ?thesis
  proof (cases "?i \<noteq> [] \<and> rs_state (p_resvs p ! r) = reservationPending \<and> p_accountingFaults p = 0 \<and>
      map_of (p_clients p) ?i = None \<and> map_of (p_reservations p) ?i = None \<and> \<not> cc_added (conn p c)")
    case False
    then have "snd (Reservation_Reserve (Some r) (Some c) p) = p"
      by (auto simp: Reservation_Reserve_def Let_def)
    with assms(1) show ?thesis by simp
  next
    case ok: True
    have "resv_ok (p_conns p) (p_clients p) ?Re ?R (p_serverPending p)"
      using assms ok by (intro resv_ok_reserve) (auto simp: pool_inv_def)
    moreover have count: "int (length ?Re + length (p_clients p) + length (p_retiring p)) =
        clientGenerationCountLocked p + 1"
      using ok length_update_new [of "p_reservations p" ?i r] by (simp add: clientGenerationCountLocked_def)
    moreover have "within (clientGenerationCountLocked p + 1) (MaxClientGenerations (p_limits p))
        (observe (clientGenerationCountLocked p + 1) (p_clientGenerations p))"
      if "clientGenerationCountLocked p < MaxClientGenerations (p_limits p)"
      using assms(1) that by (intro within_observe) (auto simp: pool_inv_def within_def)
    ultimately show ?thesis
      using assms(1) ok
      by (simp add: Reservation_Reserve_def Let_def upd_resv_def pool_inv_def clientGenerationCountLocked_def
          not_le ac_simps)
  qed
qed

lemma Reservation_Reserve_result:
  "length (p_resvs (snd (Reservation_Reserve rp cp p))) = length (p_resvs p)"
  "p_conns (snd (Reservation_Reserve rp cp p)) = p_conns p"
  by (auto simp: Reservation_Reserve_def Let_def upd_resv_def split: option.splits)

lemma Abort_inv:
  assumes "pool_inv p" and "r < length (p_resvs p)"
  shows "pool_inv (snd (Abort (Some r) p))"
proof -
  let ?x = "(p_resvs p ! r)\<lparr>rs_state := reservationAborted\<rparr>"
  have ok: "resv_ok (p_conns p) (p_clients p) (p_reservations p) (p_resvs p) (p_serverPending p)"
    "within (p_serverPending p) (MaxPendingRegistrations (p_limits p)) (p_pendingRegistrations p)"
    "within (clientGenerationCountLocked p) (MaxClientGenerations (p_limits p)) (p_clientGenerations p)"
    using assms(1) by (simp_all add: pool_inv_def)
  have fewer: "within (p_serverPending p - 1) (MaxPendingRegistrations (p_limits p)) (p_pendingRegistrations p)"
    using ok(2) by (rule within_less) simp
  show ?thesis
  proof (cases "rs_state (p_resvs p ! r)")
    case reservationPending
    with resv_ok_end_pending [OF ok(1) assms(2), of ?x] assms(1) fewer show ?thesis
      by (simp add: Abort_def Let_def upd_resv_def pool_inv_def clientGenerationCountLocked_def)
  next
    case reservationReserved
    let ?i = "rs_id (p_resvs p ! r)"
    have found: "map_of (p_reservations p) ?i = Some r"
      using resv_okD(4) [OF ok(1) assms(2)] reservationReserved by simp
    have "length (AList.delete ?i (p_reservations p)) \<le> length (p_reservations p)"
      by (rule length_delete_le)
    then have "within (int (length (AList.delete ?i (p_reservations p)) + length (p_clients p) + length (p_retiring p)))
        (MaxClientGenerations (p_limits p)) (p_clientGenerations p)"
      using ok(3) by (elim within_less) (simp add: clientGenerationCountLocked_def)
    with resv_ok_end_reserved [OF ok(1) assms(2), of ?x] assms(1) fewer found reservationReserved show ?thesis
      by (simp add: Abort_def Let_def upd_resv_def pool_inv_def clientGenerationCountLocked_def)
  next
    case reservationCommitted
    with assms(1) show ?thesis by (simp add: Abort_def Let_def)
  next
    case reservationAborted
    with assms(1) show ?thesis by (simp add: Abort_def Let_def)
  qed
qed

lemma pool_Reserve_inv:
  assumes "pool_inv p" and "c < length (p_conns p)"
  shows "pool_inv (snd (pool_Reserve (Some c) p))"
    and "fst (pool_Reserve (Some c) p) = Inr r \<Longrightarrow> r < length (p_resvs (snd (pool_Reserve (Some c) p)))"
    and "p_conns (snd (pool_Reserve (Some c) p)) = p_conns p"
proof -
  have keep: "p_conns (snd (Abort rp q)) = p_conns q" for rp q
    by (simp add: Abort_def Let_def upd_resv_def split: option.split)
  have conns: "p_conns (snd (beginPending p)) = p_conns p"
    by (simp add: beginPending_def)
  have inv: "pool_inv (snd (beginPending p))"
    by (rule beginPending_inv [OF assms(1)])
  show "pool_inv (snd (pool_Reserve (Some c) p))"
  proof (cases "fst (beginPending p)")
    case (Inl e)
    with inv show ?thesis by (simp add: pool_Reserve_def split_beta)
  next
    case (Inr x)
    let ?q = "snd (beginPending p)"
    have x: "x < length (p_resvs ?q)"
      using beginPending_result [OF Inr] by simp
    have "pool_inv (snd (Reservation_Reserve (Some x) (Some c) ?q))"
      using Reservation_Reserve_inv [OF inv x] assms(2) conns by simp
    with Abort_inv [OF this, of x] Inr x show ?thesis
      by (simp add: pool_Reserve_def split_beta Reservation_Reserve_result split: option.split)
  qed
  show "fst (pool_Reserve (Some c) p) = Inr r \<Longrightarrow> r < length (p_resvs (snd (pool_Reserve (Some c) p)))"
    using beginPending_result
    by (auto simp: pool_Reserve_def split_beta Reservation_Reserve_result split: option.splits sum.splits)
  show "p_conns (snd (pool_Reserve (Some c) p)) = p_conns p"
    using conns keep
    by (simp add: pool_Reserve_def split_beta Reservation_Reserve_result split: option.split sum.split)
qed

lemma pool_Commit_inv:
  assumes "pool_inv p" and "r < length (p_resvs p)"
  shows "pool_inv (snd (pool_Commit (Some r) p))"
proof -
  let ?x = "p_resvs p ! r" and ?K = "p_conns p" and ?Cl = "p_clients p" and ?Re = "p_reservations p"
  let ?i = "rs_id ?x"
  show ?thesis
  proof (cases "rs_state ?x = reservationReserved \<and> p_accountingFaults p = 0 \<and> map_of ?Re ?i = Some r \<and>
      (\<exists>c. rs_conn ?x = Some c \<and> cc_ID (?K ! c) = ?i \<and> map_of ?Cl ?i = None \<and> \<not> cc_added (?K ! c))")
    case False
    then have "snd (pool_Commit (Some r) p) = p"
      by (auto simp: pool_Commit_def Let_def split: option.split)
    with assms(1) show ?thesis by simp
  next
    case True
    then obtain c where st: "rs_state ?x = reservationReserved" "p_accountingFaults p = 0" "map_of ?Re ?i = Some r"
      and c: "rs_conn ?x = Some c" "cc_ID (?K ! c) = ?i" "map_of ?Cl ?i = None" "\<not> cc_added (?K ! c)"
      by blast
    let ?k = "(?K ! c)\<lparr>cc_added := True, cc_healthy := True\<rparr>"
    let ?K' = "?K[c := ?k]" and ?Cl' = "AList.update ?i c ?Cl" and ?Re' = "AList.delete ?i ?Re"
    let ?R' = "(p_resvs p)[r := ?x\<lparr>rs_state := reservationCommitted\<rparr>]"
    have inv: "ids_ok ?K ?Cl" "resv_ok ?K ?Cl ?Re (p_resvs p) (p_serverPending p)"
      "ret_ok ?K ?Cl (p_retiring p) (p_rets p)" "traffic_ok ?K ?Cl (p_retiring p)"
      "lease_ok ?K (p_leases p)" "drain_ok ?K (p_rets p)" "adm_ok ?K (p_adms p)"
      "caps_ok ?K (p_limits p) (p_tcpConnections p) (p_pendingTCPSetups p) (p_udpSessions p)"
      "within (p_serverPending p) (MaxPendingRegistrations (p_limits p)) (p_pendingRegistrations p)"
      "within (clientGenerationCountLocked p) (MaxClientGenerations (p_limits p)) (p_clientGenerations p)"
      using assms(1) by (simp_all add: pool_inv_def)
    have entry: "c < length ?K" "?i \<noteq> []"
      using resv_okD(3) [OF inv(2) map_of_SomeD [OF st(3)]] c(1) by auto
    have k: "cc_ID ?k = cc_ID (?K ! c)" "cc_added (?K ! c) \<longrightarrow> cc_added ?k" "counts ?k = counts (?K ! c)"
      by (simp_all add: counts_def)
    note quiet = quiet_upd [OF entry(1) k(1) k(2) k(3)]
    have ids': "ids_ok ?K' ?Cl'"
      using quiet(1) [OF inv(1)] entry c(2) by (auto simp: ids_ok_def mem_update)
    have mem': "snd ` set ?Cl' \<subseteq> insert c (snd ` set ?Cl)"
      using inv(1) by (auto simp: ids_ok_def mem_update split: if_splits intro: rev_image_eqI)
    have "rt_conn (p_rets p ! t) \<noteq> c" if "t < length (p_rets p)" for t
      using inv(3) c(4) that unfolding ret_ok_def by metis
    then have ret': "ret_ok ?K' ?Cl' (p_retiring p) (p_rets p)"
      using quiet(3) [OF inv(3)] mem' unfolding ret_ok_def by blast
    have "snd ` set ?Cl \<subseteq> snd ` set ?Cl'"
      using inv(1) c(3) by (auto simp: ids_ok_def mem_update map_of_eq_None_iff intro!: image_eqI)
    then have traffic': "traffic_ok ?K' ?Cl' (p_retiring p)"
      using inv(4) unfolding quiet(8) unfolding traffic_ok_def by blast
    have keys': "set (keys ?Cl') \<inter> set (keys ?Re') = {}"
      using resv_okD(2) [OF inv(2)] unfolding keys_delete by (auto simp: dom_update)
    have resv': "resv_ok ?K' ?Cl' ?Re' ?R' (p_serverPending p - 1)"
      by (rule resv_ok_clients [OF resv_ok_end_reserved [OF quiet(2) [OF inv(2)] assms(2) st(1) refl] keys']) simp
    have "Suc (length ?Re') = length ?Re" "length ?Cl' = Suc (length ?Cl)"
      using length_delete [OF resv_okD(1) [OF inv(2)] st(3)] length_update_new [OF c(3)] by simp_all
    then have "int (length ?Re') + int (length ?Cl') + int (length (p_retiring p)) = clientGenerationCountLocked p"
      by (simp add: clientGenerationCountLocked_def)
    then have gens': "within (int (length ?Re') + int (length ?Cl') + int (length (p_retiring p)))
        (MaxClientGenerations (p_limits p)) (p_clientGenerations p)"
      using inv(10) by simp
    show ?thesis
      using ids' ret' traffic' resv' gens' inv(5-8) quiet(4) [OF inv(7)] st c within_less [OF inv(9), of "p_serverPending p - 1"]
      by (simp add: pool_Commit_def Let_def upd_conn_def upd_resv_def pool_inv_def cache_ok_def quiet(5-7)
          clientGenerationCountLocked_def)
  qed
qed

lemma Add_inv:
  assumes "pool_inv p" and "c < length (p_conns p)"
  shows "pool_inv (snd (Add (Some c) p))"
proof -
  have len: "length (p_resvs (snd (pool_Commit rp q))) = length (p_resvs q)" for rp q
    by (simp add: pool_Commit_def Let_def upd_resv_def upd_conn_def split: option.split)
  note res = pool_Reserve_inv [OF assms]
  show ?thesis
  proof (cases "fst (pool_Reserve (Some c) p)")
    case (Inl e)
    with res(1) show ?thesis by (simp add: Add_def split_beta)
  next
    case (Inr r)
    note r = res(2) [OF Inr]
    note com = pool_Commit_inv [OF res(1) r]
    from Abort_inv [OF com, of r] com Inr r show ?thesis
      by (simp add: Add_def split_beta len split: option.split)
  qed
qed

section \<open>Retirement\<close>

lemma ret_okD:
  assumes "ret_ok K Cl Rt T"
  shows "distinct (keys Rt)" "distinct (map rt_conn T)"
    and "\<And>c t. (c, t) \<in> set Rt \<Longrightarrow> t < length T \<and> rt_conn (T ! t) = c"
    and "\<And>t. t < length T \<Longrightarrow> rt_conn (T ! t) < length K \<and> cc_added (K ! rt_conn (T ! t)) \<and>
        rt_conn (T ! t) \<notin> snd ` set Cl \<and>
        (map_of Rt (rt_conn (T ! t)) = Some t \<or> rt_done (T ! t) \<and> idle (K ! rt_conn (T ! t)))"
  using assms unfolding ret_ok_def by blast+

lemma ret_ok_ret_upd:
  assumes "ret_ok K Cl Rt T" and "t < length T" and "rt_conn x = rt_conn (T ! t)"
    and "rt_done (T ! t) \<Longrightarrow> rt_done x"
  shows "ret_ok K Cl Rt (T[t := x])"
proof -
  note ok = ret_okD [OF assms(1)]
  have "map rt_conn (T[t := x]) = map rt_conn T"
    using assms(2,3) by (simp add: map_update list_update_same_conv)
  moreover have "rt_conn (T[t := x] ! u) = rt_conn (T ! u)" "rt_done (T ! u) \<Longrightarrow> rt_done (T[t := x] ! u)"
    for u
    using assms(2-4) by (cases "u = t"; simp)+
  ultimately show ?thesis
    unfolding ret_ok_def using ok by (simp del: map_update) blast
qed

definition tcp_load :: "ClientConn \<Rightarrow> int" where
  "tcp_load k = cc_tcpPending k + cc_tcpActive k"

lemma drain_ok_alt: "drain_ok K T \<longleftrightarrow> (\<forall>u < length T. notified (tcp_load (K ! rt_conn (T ! u))) (T ! u))"
  unfolding drain_ok_def tcp_load_def by (metis in_set_conv_nth)

text \<open>Sending the notification repairs the one retirement whose generation just drained.\<close>

lemma signal_drains:
  assumes "t < length (p_rets p)" and "T = p_rets p"
    and "\<And>u. u < length T \<Longrightarrow> u \<noteq> t \<Longrightarrow> notified (tcp_load (conn p (rt_conn (T ! u)))) (T ! u)"
    and "rt_drainSent (T ! t) \<Longrightarrow> tcp_load (conn p (rt_conn (T ! t))) = 0"
    and "length (rt_tcpDrained (T ! t)) \<le> (if rt_drainSent (T ! t) then 1 else 0)"
  shows "drain_ok (p_conns p) (p_rets (signalTCPDrainedLocked (Some t) p))"
proof -
  have "notified (tcp_load (conn p (rt_conn (T ! t)))) (p_rets (signalTCPDrainedLocked (Some t) p) ! t)"
    using assms by (auto simp: signalTCPDrainedLocked_def Let_def upd_ret_def notified_def tcp_load_def)
  moreover have "rt_conn (p_rets (signalTCPDrainedLocked (Some t) p) ! u) = rt_conn (T ! u)"
    "length (p_rets (signalTCPDrainedLocked (Some t) p)) = length T"
    "u \<noteq> t \<Longrightarrow> p_rets (signalTCPDrainedLocked (Some t) p) ! u = T ! u" for u
    using assms(1,2) by (auto simp: signalTCPDrainedLocked_def Let_def upd_ret_def nth_list_update)
  ultimately show ?thesis
    unfolding drain_ok_alt using assms(3) by metis
qed

text \<open>The rest of the pool does not change.\<close>

lemma signal_frame:
  assumes "ret_ok K Cl Rt (p_rets p)" and "t < length (p_rets p)"
  shows "ret_ok K Cl Rt (p_rets (signalTCPDrainedLocked (Some t) p))"
    and "signalTCPDrainedLocked (Some t) p = p\<lparr>p_rets := p_rets (signalTCPDrainedLocked (Some t) p)\<rparr>"
  using assms by (auto simp: signalTCPDrainedLocked_def Let_def upd_ret_def intro: ret_ok_ret_upd)

lemma finalize_inv:
  assumes "pool_inv p"
  shows "pool_inv (finalizeRetirementLocked c p)"
proof (cases "\<exists>t. map_of (p_retiring p) c = Some t \<and> rt_done (p_rets p ! t) \<and> idle (conn p c)")
  case False
  then have "finalizeRetirementLocked c p = p"
    by (auto simp: finalizeRetirementLocked_def idle_def split: option.splits)
  with assms show ?thesis by simp
next
  case True
  then obtain t where t: "map_of (p_retiring p) c = Some t" "rt_done (p_rets p ! t)" "idle (conn p c)"
    by blast
  let ?Rt = "AList.delete c (p_retiring p)"
  have inv: "ret_ok (p_conns p) (p_clients p) (p_retiring p) (p_rets p)"
    "traffic_ok (p_conns p) (p_clients p) (p_retiring p)"
    "within (clientGenerationCountLocked p) (MaxClientGenerations (p_limits p)) (p_clientGenerations p)"
    using assms by (simp_all add: pool_inv_def)
  note ok = ret_okD [OF inv(1)]
  have tc: "t < length (p_rets p)" "rt_conn (p_rets p ! t) = c"
    using ok(3) [OF map_of_SomeD [OF t(1)]] by auto
  have "map_of ?Rt (rt_conn (p_rets p ! u)) = Some u \<or> rt_done (p_rets p ! u) \<and> idle (conn p (rt_conn (p_rets p ! u)))"
    if "u < length (p_rets p)" for u
    using ok(4) [OF that] t by (auto simp: delete_conv')
  then have ret': "ret_ok (p_conns p) (p_clients p) ?Rt (p_rets p)"
    using ok distinct_keys_delete [OF ok(1)] unfolding ret_ok_def mem_delete by blast
  have traffic': "traffic_ok (p_conns p) (p_clients p) ?Rt"
    using inv(2) t(3) unfolding traffic_ok_def by (metis Diff_iff keys_delete list.set_map singletonD)
  have "within (int (length (p_reservations p)) + int (length (p_clients p)) + int (length ?Rt))
      (MaxClientGenerations (p_limits p)) (p_clientGenerations p)"
    using within_less [OF inv(3)] length_delete [OF ok(1) t(1)] by (simp add: clientGenerationCountLocked_def)
  with assms ret' traffic' t show ?thesis
    by (simp add: finalizeRetirementLocked_def idle_def pool_inv_def clientGenerationCountLocked_def)
qed

lemma ret_ok_retire:
  assumes ret: "ret_ok K Cl Rt T" and ids: "ids_ok K Cl" and cur: "(i, c) \<in> set Cl"
  shows "ret_ok K (AList.delete i Cl) (AList.update c (length T) Rt)
      (T @ [\<lparr>rt_conn = c, rt_done = False, rt_tcpDrained = [], rt_drainSent = False\<rparr>])" (is "ret_ok K ?Cl ?Rt ?T")
    and "map_of Rt c = None"
proof -
  note ok = ret_okD [OF ret]
  have c: "c < length K" "cc_added (K ! c)" "c \<in> snd ` set Cl"
    using ids_okD [OF ids cur] cur by (auto intro: rev_image_eqI)
  have other: "rt_conn (T ! u) \<noteq> c" if "u < length T" for u
    using ok(4) [OF that] c(3) by auto
  then have new: "c \<notin> rt_conn ` set T"
    by (metis imageE in_set_conv_nth)
  show none: "map_of Rt c = None"
  proof (cases "map_of Rt c")
    case (Some t)
    with ok(3) [OF map_of_SomeD [OF Some]] other [of t] show ?thesis by simp
  qed simp
  have gone: "c \<notin> snd ` set ?Cl"
  proof
    assume "c \<in> snd ` set ?Cl"
    then obtain a where "(a, c) \<in> set ?Cl" by auto
    then have a: "a \<noteq> i" "(a, c) \<in> set Cl" by (simp_all add: mem_delete)
    with ids_okD(2) [OF ids a(2)] ids_okD(2) [OF ids cur] show False by simp
  qed
  have sub: "snd ` set ?Cl \<subseteq> snd ` set Cl"
    by (force simp: mem_delete)
  have "u < length ?T \<and> rt_conn (?T ! u) = d" if "(d, u) \<in> set ?Rt" for d u
  proof (cases "d = c")
    case True
    with that ok(1) have "u = length T" by (simp add: mem_update)
    with True show ?thesis by simp
  next
    case False
    with that ok(1) have "(d, u) \<in> set Rt" by (simp add: mem_update)
    from ok(3) [OF this] show ?thesis by (simp add: nth_append)
  qed
  moreover have "rt_conn (?T ! u) < length K \<and> cc_added (K ! rt_conn (?T ! u)) \<and>
        rt_conn (?T ! u) \<notin> snd ` set ?Cl \<and>
        (map_of ?Rt (rt_conn (?T ! u)) = Some u \<or> rt_done (?T ! u) \<and> idle (K ! rt_conn (?T ! u)))"
    if "u < length ?T" for u
  proof (cases "u = length T")
    case True
    with c gone show ?thesis by (simp add: update_conv')
  next
    case False
    with that have u: "u < length T" by simp
    have "rt_conn (T ! u) \<notin> snd ` set ?Cl"
      using ok(4) [OF u] sub by blast
    with ok(4) [OF u] other [OF u] u show ?thesis
      by (simp add: nth_append update_conv')
  qed
  moreover have "distinct (map rt_conn ?T)"
    using ok(2) new by simp
  ultimately show "ret_ok K ?Cl ?Rt ?T"
    using distinct_keys_update [OF ok(1)] unfolding ret_ok_def by blast
qed

lemma BeginRetire_inv:
  assumes inv: "pool_inv p"
  shows "pool_inv (snd (BeginRetire (Some c) p))"
proof (cases "isCurrentLocked p (Some c)")
  case False
  with inv show ?thesis by (simp add: BeginRetire_def)
next
  case cur: True
  let ?i = "cc_ID (conn p c)" and ?K = "p_conns p" and ?Cl = "p_clients p" and ?T = "p_rets p"
  let ?k = "(?K ! c)\<lparr>cc_healthy := False\<rparr>" and ?t = "length ?T"
  let ?x = "\<lparr>rt_conn = c, rt_done = False, rt_tcpDrained = [], rt_drainSent = False\<rparr>"
  let ?K' = "?K[c := ?k]" and ?Cl' = "AList.delete ?i ?Cl" and ?Rt' = "AList.update c ?t (p_retiring p)"
  let ?p = "p\<lparr>p_conns := ?K', p_clients := ?Cl', p_rets := ?T @ [?x], p_retiring := ?Rt', p_cachedClients := None\<rparr>"
  have parts: "ids_ok ?K ?Cl" "resv_ok ?K ?Cl (p_reservations p) (p_resvs p) (p_serverPending p)"
    "ret_ok ?K ?Cl (p_retiring p) ?T" "traffic_ok ?K ?Cl (p_retiring p)" "drain_ok ?K ?T" "adm_ok ?K (p_adms p)"
    using inv by (simp_all add: pool_inv_def)
  have "map_of ?Cl ?i = Some c"
    using cur by (simp add: isCurrentLocked_def)
  note entry = this map_of_SomeD [OF this]
  have c: "c < length ?K"
    by (rule ids_okD(1) [OF parts(1) entry(2)])
  have k: "cc_ID ?k = cc_ID (?K ! c)" "cc_added (?K ! c) \<longrightarrow> cc_added ?k" "counts ?k = counts (?K ! c)"
    by (simp_all add: counts_def)
  note quiet = quiet_upd [OF c k]
  have ret': "ret_ok ?K' ?Cl' ?Rt' (?T @ [?x])" and none: "map_of (p_retiring p) c = None"
    using ret_ok_retire [OF quiet(3) [OF parts(3)] quiet(1) [OF parts(1)] entry(2)] by auto
  have ids': "ids_ok ?K' ?Cl'"
    by (rule ids_ok_delete [OF quiet(1) [OF parts(1)]])
  have "set (keys ?Cl') \<inter> set (keys (p_reservations p)) = {}"
    using resv_okD(2) [OF parts(2)] unfolding keys_delete by blast
  then have resv': "resv_ok ?K' ?Cl' (p_reservations p) (p_resvs p) (p_serverPending p)"
    by (rule resv_ok_clients [OF quiet(2) [OF parts(2)]])
  have traffic': "traffic_ok ?K' ?Cl' ?Rt'"
  proof -
    have keys': "fst ` set ?Rt' = insert c (fst ` set (p_retiring p))"
      using dom_update [of c ?t "p_retiring p"] by simp
    have "d \<in> snd ` set ?Cl' \<or> d \<in> fst ` set ?Rt'" if d: "d \<in> snd ` set ?Cl" for d
    proof -
      from d obtain j where j: "(j, d) \<in> set ?Cl" by auto
      show ?thesis
      proof (cases "j = ?i")
        case True
        with ids_okD(5) [OF parts(1) j] entry(1) have "d = c" by simp
        with keys' show ?thesis by simp
      next
        case False
        with j have "(j, d) \<in> set ?Cl'" by (simp add: mem_delete)
        then show ?thesis by (metis image_eqI snd_conv)
      qed
    qed
    with parts(4) keys' have "traffic_ok ?K ?Cl' ?Rt'"
      unfolding traffic_ok_def by blast
    then show ?thesis
      by (simp add: quiet(8))
  qed
  have "length ?Rt' = Suc (length (p_retiring p))" "Suc (length ?Cl') = length ?Cl"
    using length_update_new [OF none] length_delete [OF _ entry(1)] parts(1) by (simp_all add: ids_ok_def)
  then have gens': "clientGenerationCountLocked ?p = clientGenerationCountLocked p"
    by (simp add: clientGenerationCountLocked_def)
  have notified: "notified (tcp_load (conn ?p (rt_conn ((?T @ [?x]) ! u)))) ((?T @ [?x]) ! u)"
    if "u < length (?T @ [?x])" "u \<noteq> ?t" for u
  proof -
    have "drain_ok ?K' ?T"
      using parts(5) quiet(7) by simp
    then show ?thesis
      using that unfolding drain_ok_alt by (simp add: nth_append)
  qed
  define T' where "T' = p_rets (signalTCPDrainedLocked (Some ?t) ?p)"
  have drain': "drain_ok ?K' T'"
    using signal_drains [of ?t ?p, OF _ refl] notified by (simp add: T'_def)
  have ret'': "ret_ok ?K' ?Cl' ?Rt' T'"
    unfolding T'_def by (rule signal_frame(1)) (use ret' in simp_all)
  have "signalTCPDrainedLocked (Some ?t) ?p = ?p\<lparr>p_rets := T'\<rparr>"
    unfolding T'_def by (rule signal_frame(2) [of ?K' ?Cl' ?Rt']) (use ret' in simp_all)
  moreover have "snd (BeginRetire (Some c) p) = signalTCPDrainedLocked (Some ?t) ?p"
    using cur c by (simp add: BeginRetire_def Let_def upd_conn_def)
  ultimately have res: "snd (BeginRetire (Some c) p) = ?p\<lparr>p_rets := T'\<rparr>"
    by simp
  have "clientGenerationCountLocked (?p\<lparr>p_rets := T'\<rparr>) = clientGenerationCountLocked p"
    using gens' by (simp add: clientGenerationCountLocked_def)
  then show ?thesis
    using drain' ret'' ids' resv' traffic' quiet(4) [OF parts(6)] inv
    unfolding res pool_inv_def by (simp add: quiet(5,6) cache_ok_def)
qed

lemma Done_inv:
  assumes "pool_inv p" and "t < length (p_rets p)"
  shows "pool_inv (snd (Done (Some t) p))"
proof (cases "rt_done (p_rets p ! t) \<or> map_of (p_retiring p) (rt_conn (p_rets p ! t)) \<noteq> Some t")
  case True
  with assms(1) show ?thesis by (simp add: Done_def Let_def)
next
  case False
  let ?x = "(p_rets p ! t)\<lparr>rt_done := True\<rparr>"
  have inv: "ret_ok (p_conns p) (p_clients p) (p_retiring p) (p_rets p)" "drain_ok (p_conns p) (p_rets p)"
    using assms(1) by (simp_all add: pool_inv_def)
  have "ret_ok (p_conns p) (p_clients p) (p_retiring p) ((p_rets p)[t := ?x])"
    using assms(2) by (intro ret_ok_ret_upd [OF inv(1)]) simp_all
  moreover have "notified n ?x = notified n (p_rets p ! t)" for n
    by (simp add: notified_def)
  then have "drain_ok (p_conns p) ((p_rets p)[t := ?x])"
    using inv(2) assms(2) unfolding drain_ok_alt by (simp add: nth_list_update)
  ultimately have "pool_inv (upd_ret t (\<lambda>x. x\<lparr>rt_done := True\<rparr>) p)"
    using assms(1) by (simp add: pool_inv_def upd_ret_def clientGenerationCountLocked_def)
  with False finalize_inv show ?thesis
    by (simp add: Done_def Let_def)
qed

lemma BeginRetire_result: "fst (BeginRetire e p) = Some t \<Longrightarrow> t < length (p_rets (snd (BeginRetire e p)))"
  by (auto simp: BeginRetire_def Let_def signalTCPDrainedLocked_def upd_ret_def upd_conn_def split: if_splits)

lemma Remove_inv:
  assumes "pool_inv p"
  shows "pool_inv (snd (Remove (Some c) p))"
proof (cases "fst (BeginRetire (Some c) p)")
  case None
  with BeginRetire_inv [OF assms] show ?thesis by (simp add: Remove_def split_beta)
next
  case (Some t)
  with Done_inv [OF BeginRetire_inv [OF assms] BeginRetire_result [OF Some]] show ?thesis
    by (simp add: Remove_def split_beta)
qed

lemma TCPDrained_recv_inv:
  assumes "pool_inv p" and "t < length (p_rets p)"
  shows "pool_inv (snd (TCPDrained_recv t p))"
proof (cases "rt_tcpDrained (p_rets p ! t)")
  case Nil
  with assms(1) show ?thesis by (simp add: TCPDrained_recv_def)
next
  case (Cons v vs)
  let ?x = "(p_rets p ! t)\<lparr>rt_tcpDrained := vs\<rparr>"
  have inv: "ret_ok (p_conns p) (p_clients p) (p_retiring p) (p_rets p)" "drain_ok (p_conns p) (p_rets p)"
    using assms(1) by (simp_all add: pool_inv_def)
  have "ret_ok (p_conns p) (p_clients p) (p_retiring p) ((p_rets p)[t := ?x])"
    using assms(2) by (intro ret_ok_ret_upd [OF inv(1)]) simp_all
  moreover have "notified n (p_rets p ! t) \<Longrightarrow> notified n ?x" for n
    using Cons by (simp add: notified_def split: if_splits)
  then have "drain_ok (p_conns p) ((p_rets p)[t := ?x])"
    using inv(2) assms(2) unfolding drain_ok_alt by (simp add: nth_list_update)
  ultimately show ?thesis
    using assms(1) Cons by (simp add: TCPDrained_recv_def pool_inv_def upd_ret_def clientGenerationCountLocked_def)
qed

section \<open>Traffic\<close>

text \<open>The structural part of the invariant, without the traffic counters.\<close>

definition shape :: "ClientConn list \<Rightarrow> ConnectionPool \<Rightarrow> bool" where
  "shape K p \<longleftrightarrow> ids_ok K (p_clients p) \<and>
     resv_ok K (p_clients p) (p_reservations p) (p_resvs p) (p_serverPending p) \<and>
     ret_ok K (p_clients p) (p_retiring p) (p_rets p) \<and>
     traffic_ok K (p_clients p) (p_retiring p) \<and> adm_ok K (p_adms p)"

text \<open>A generation may become busy only while it is current.\<close>

lemma shape_upd:
  assumes "pool_inv p" and "c < length (p_conns p)" and "cc_ID k = cc_ID (conn p c)"
    and "cc_added k = cc_added (conn p c)"
    and "c \<in> snd ` set (p_clients p) \<or> (idle (conn p c) \<longrightarrow> idle k)"
  shows "shape ((p_conns p)[c := k]) p"
proof -
  let ?K = "p_conns p" and ?K' = "(p_conns p)[c := k]"
  have ev: "evolve ?K ?K'"
    using assms(2-4) by (intro evolve_upd) simp_all
  have idle': "idle (?K' ! d)" if "d < length ?K" "d \<notin> snd ` set (p_clients p)" "idle (?K ! d)" for d
    using assms(2,5) that by (cases "d = c") auto
  have "ids_ok ?K' (p_clients p)"
    by (rule ids_ok_evolve [OF _ ev]) (use assms(1) in \<open>simp add: pool_inv_def\<close>)
  moreover have "resv_ok ?K' (p_clients p) (p_reservations p) (p_resvs p) (p_serverPending p)"
    by (rule resv_ok_evolve [OF _ ev]) (use assms(1) in \<open>simp add: pool_inv_def\<close>)
  moreover have "ret_ok ?K' (p_clients p) (p_retiring p) (p_rets p)"
    by (rule ret_ok_evolve [OF _ ev idle']) (use assms(1) in \<open>simp_all add: pool_inv_def\<close>)
  moreover have "traffic_ok ?K' (p_clients p) (p_retiring p)"
    by (rule traffic_ok_evolve [of ?K]) (use assms(1) idle' in \<open>simp_all add: pool_inv_def\<close>)
  moreover have "adm_ok ?K' (p_adms p)"
    by (rule adm_ok_evolve [OF _ ev]) (use assms(1) in \<open>simp add: pool_inv_def\<close>)
  ultimately show ?thesis
    by (simp add: shape_def)
qed

lemma drain_ok_current:
  assumes "drain_ok K T" and "ret_ok K Cl Rt T" and "c < length K"
    and "c \<in> snd ` set Cl \<or> tcp_load k = tcp_load (K ! c)"
  shows "drain_ok (K[c := k]) T"
proof -
  have "tcp_load (K[c := k] ! rt_conn (T ! u)) = tcp_load (K ! rt_conn (T ! u))" if "u < length T" for u
    using ret_okD(4) [OF assms(2) that] assms(3,4) by (cases "rt_conn (T ! u) = c") auto
  with assms(1) show ?thesis
    unfolding drain_ok_alt by simp
qed

lemma leases_of_append:
  "leases_of (L @ [l]) c st = leases_of L c st + (if le_conn l = c \<and> le_state l = st then 1 else 0)"
  by (simp add: leases_of_def)

lemma leases_of_update: "i < length L \<Longrightarrow>
    leases_of (L[i := l]) c st = leases_of L c st
      - (if le_conn (L ! i) = c \<and> le_state (L ! i) = st then 1 else 0)
      + (if le_conn l = c \<and> le_state l = st then 1 else 0)"
  unfolding leases_of_def by (rule length_filter_update)

lemma leases_of_nonneg: "0 \<le> leases_of L c st"
  by (simp add: leases_of_def)

lemma leases_of_pos: "i < length L \<Longrightarrow> le_conn (L ! i) = c \<Longrightarrow> le_state (L ! i) = st \<Longrightarrow>
    1 \<le> leases_of L c st"
proof -
  assume "i < length L" "le_conn (L ! i) = c" "le_state (L ! i) = st"
  then have "L ! i \<in> set (filter (\<lambda>l. le_conn l = c \<and> le_state l = st) L)"
    by simp
  then show ?thesis
    unfolding leases_of_def by (cases "filter (\<lambda>l. le_conn l = c \<and> le_state l = st) L") auto
qed

lemma lease_okD:
  assumes "lease_ok K L"
  shows "\<And>i. i < length L \<Longrightarrow> le_conn (L ! i) < length K"
    and "\<And>c. c < length K \<Longrightarrow> cc_tcpPending (K ! c) = leases_of L c tcpLeasePending"
    and "\<And>c. c < length K \<Longrightarrow> cc_tcpActive (K ! c) = leases_of L c tcpLeaseActive"
    and "\<And>c. c < length K \<Longrightarrow> cc_ActiveConns (K ! c) = cc_tcpActive (K ! c)"
    and "\<And>c. c < length K \<Longrightarrow> 0 \<le> cc_udpSessions (K ! c)"
  using assms unfolding lease_ok_def by (auto simp del: in_set_conv_nth)

text \<open>How a lease and its generation move together.\<close>

lemma lease_ok_new:
  assumes "lease_ok K L" and "c < length K"
    and "k = (K ! c)\<lparr>cc_tcpPending := cc_tcpPending (K ! c) + 1\<rparr>"
  shows "lease_ok (K[c := k]) (L @ [\<lparr>le_conn = c, le_state = tcpLeasePending\<rparr>])"
  using assms unfolding lease_ok_def by (auto simp: leases_of_append nth_list_update)

lemma lease_ok_move:
  assumes "lease_ok K L" and "i < length L" and "c = le_conn (L ! i)"
    and "st = le_state (L ! i)" and "st \<noteq> st'"
    and "cc_tcpPending k = cc_tcpPending (K ! c) + dp" and "cc_tcpActive k = cc_tcpActive (K ! c) + da"
    and "cc_ActiveConns k = cc_ActiveConns (K ! c) + da" and "cc_udpSessions k = cc_udpSessions (K ! c)"
    and "dp = (if st' = tcpLeasePending then 1 else 0) - (if st = tcpLeasePending then 1 else 0)"
    and "da = (if st' = tcpLeaseActive then 1 else 0) - (if st = tcpLeaseActive then 1 else 0)"
  shows "lease_ok (K[c := k]) (L[i := (L ! i)\<lparr>le_state := st'\<rparr>])"
proof -
  note ok = lease_okD [OF assms(1)]
  have "le_conn l < length K" if "l \<in> set (L[i := (L ! i)\<lparr>le_state := st'\<rparr>])" for l
    using that assms(1,2) set_update_subset_insert [of L i] unfolding lease_ok_def by fastforce
  moreover have "cc_tcpPending (K[c := k] ! d) = leases_of (L[i := (L ! i)\<lparr>le_state := st'\<rparr>]) d tcpLeasePending \<and>
      cc_tcpActive (K[c := k] ! d) = leases_of (L[i := (L ! i)\<lparr>le_state := st'\<rparr>]) d tcpLeaseActive \<and>
      cc_ActiveConns (K[c := k] ! d) = cc_tcpActive (K[c := k] ! d) \<and> 0 \<le> cc_udpSessions (K[c := k] ! d)"
    if "d < length K" for d
    unfolding leases_of_update [OF assms(2)] using ok(2-5) [OF that] that assms(3-)
    by (cases "d = c") simp_all
  ultimately show ?thesis
    unfolding lease_ok_def by simp
qed

lemma caps_ok_upd:
  assumes "caps_ok K lim tc ps us"
    and "highWater tc \<le> highWater tc'" and "highWater tc' \<le> MaxTCPConnectionsPerGeneration lim"
    and "highWater ps \<le> highWater ps'" and "highWater ps' \<le> MaxPendingTCPSetupsPerGeneration lim"
    and "highWater us \<le> highWater us'" and "highWater us' \<le> MaxUDPSessionsPerGeneration lim"
    and "tcp_load k \<le> highWater tc'" and "cc_tcpPending k \<le> highWater ps'" and "cc_udpSessions k \<le> highWater us'"
  shows "caps_ok (K[c := k]) lim tc' ps' us'"
proof -
  have "cc_tcpPending (K[c := k] ! d) + cc_tcpActive (K[c := k] ! d) \<le> highWater tc' \<and>
      cc_tcpPending (K[c := k] ! d) \<le> highWater ps' \<and> cc_udpSessions (K[c := k] ! d) \<le> highWater us'"
    if "d < length K" for d
    using assms that unfolding caps_ok_def tcp_load_def by (cases "d = c") force+
  with assms show ?thesis
    unfolding caps_ok_def by simp
qed

lemma caps_okD: "caps_ok K lim tc ps us \<Longrightarrow> c < length K \<Longrightarrow>
    tcp_load (K ! c) \<le> highWater tc \<and> cc_tcpPending (K ! c) \<le> highWater ps \<and>
    cc_udpSessions (K ! c) \<le> highWater us \<and> highWater tc \<le> MaxTCPConnectionsPerGeneration lim \<and>
    highWater ps \<le> MaxPendingTCPSetupsPerGeneration lim \<and> highWater us \<le> MaxUDPSessionsPerGeneration lim"
  unfolding caps_ok_def tcp_load_def by auto

lemma pool_inv_parts:
  assumes "pool_inv p"
  shows "ids_ok (p_conns p) (p_clients p)"
    and "ret_ok (p_conns p) (p_clients p) (p_retiring p) (p_rets p)"
    and "traffic_ok (p_conns p) (p_clients p) (p_retiring p)"
    and "lease_ok (p_conns p) (p_leases p)"
    and "caps_ok (p_conns p) (p_limits p) (p_tcpConnections p) (p_pendingTCPSetups p) (p_udpSessions p)"
    and "drain_ok (p_conns p) (p_rets p)" and "adm_ok (p_conns p) (p_adms p)"
    and "cache_ok (p_cachedClients p) (p_clients p)"
  using assms by (simp_all add: pool_inv_def)

text \<open>Rebuilding the invariant after generation \<open>c\<close> became \<open>k\<close>.\<close>

lemma pool_inv_conn:
  assumes "pool_inv p" and "shape ((p_conns p)[c := k]) p"
    and "lease_ok ((p_conns p)[c := k]) L"
    and "caps_ok ((p_conns p)[c := k]) (p_limits p) tc ps us"
    and "drain_ok ((p_conns p)[c := k]) (p_rets p)"
  shows "pool_inv (p\<lparr>p_conns := (p_conns p)[c := k], p_leases := L, p_tcpConnections := tc,
                     p_pendingTCPSetups := ps, p_udpSessions := us\<rparr>)"
  using assms by (simp add: pool_inv_def shape_def clientGenerationCountLocked_def)

lemma RecordStream_inv:
  assumes "pool_inv p" and "l < length (p_leases p)"
  shows "pool_inv (RecordStream (Some l) sid env p)"
proof -
  let ?c = "le_conn (p_leases p ! l)"
  obtain v where r: "RecordStream (Some l) sid env p =
      p\<lparr>p_conns := (p_conns p)[?c := (conn p ?c)\<lparr>cc_tcpStreamID := v, cc_tcpOpened := True\<rparr>]\<rparr>"
    by (simp add: RecordStream_def Let_def upd_conn_def split_beta)
  have c: "?c < length (p_conns p)"
    by (rule lease_okD(1) [OF pool_inv_parts(4) [OF assms(1)] assms(2)])
  let ?k = "(conn p ?c)\<lparr>cc_tcpStreamID := v, cc_tcpOpened := True\<rparr>"
  have k: "cc_ID ?k = cc_ID (conn p ?c)" "cc_added (conn p ?c) \<longrightarrow> cc_added ?k" "counts ?k = counts (conn p ?c)"
    by (simp_all add: counts_def)
  note quiet = quiet_upd [OF c k]
  show ?thesis
    using assms(1) unfolding r pool_inv_def
    by (simp add: quiet clientGenerationCountLocked_def)
qed

lemma mark_inv:
  assumes "pool_inv p" and "isCurrentLocked p (Some c)"
  shows "pool_inv ((upd_conn c (\<lambda>k. k\<lparr>cc_healthy := h\<rparr>) p)\<lparr>p_cachedClients := None\<rparr>)"
proof -
  let ?k = "(conn p c)\<lparr>cc_healthy := h\<rparr>"
  have "map_of (p_clients p) (cc_ID (conn p c)) = Some c"
    using assms(2) by (simp add: isCurrentLocked_def)
  then have c: "c < length (p_conns p)"
    by (rule ids_okD(1) [OF pool_inv_parts(1) [OF assms(1)] map_of_SomeD])
  have k: "cc_ID ?k = cc_ID (conn p c)" "cc_added (conn p c) \<longrightarrow> cc_added ?k" "counts ?k = counts (conn p c)"
    by (simp_all add: counts_def)
  note quiet = quiet_upd [OF c k]
  show ?thesis
    using assms(1) unfolding upd_conn_def pool_inv_def
    by (simp add: quiet clientGenerationCountLocked_def cache_ok_def)
qed

lemma Mark_inv:
  assumes "pool_inv p"
  shows "pool_inv (snd (MarkHealthy (Some c) p))" and "pool_inv (snd (MarkUnhealthy (Some c) p))"
  using mark_inv [OF assms, of c] assms by (auto simp: MarkHealthy_def MarkUnhealthy_def)

lemma lease_Commit_inv:
  assumes "pool_inv p" and "l < length (p_leases p)"
  shows "pool_inv (snd (lease_Commit (Some l) p))"
proof (cases "le_state (p_leases p ! l) = tcpLeasePending")
  case False
  with assms(1) show ?thesis by (simp add: lease_Commit_def Let_def)
next
  case True
  let ?x = "p_leases p ! l" and ?L = "p_leases p" and ?K = "p_conns p"
  let ?c = "le_conn ?x"
  let ?k = "(?K ! ?c)\<lparr>cc_ActiveConns := cc_ActiveConns (?K ! ?c) + 1, cc_tcpActive := cc_tcpActive (?K ! ?c) + 1,
      cc_TotalConns := cc_TotalConns (?K ! ?c) + 1, cc_tcpPending := cc_tcpPending (?K ! ?c) - 1\<rparr>"
  note parts = pool_inv_parts [OF assms(1)]
  have c: "?c < length ?K"
    by (rule lease_okD(1) [OF parts(4) assms(2)])
  have pos: "1 \<le> cc_tcpPending (?K ! ?c)" "0 \<le> cc_tcpActive (?K ! ?c)"
    using leases_of_pos [OF assms(2) refl True] leases_of_nonneg lease_okD(2,3) [OF parts(4) c] by simp_all
  have shape': "shape (?K[?c := ?k]) p"
    using pos by (intro shape_upd [OF assms(1) c]) (auto simp: idle_def)
  have lease': "lease_ok (?K[?c := ?k]) (?L[l := ?x\<lparr>le_state := tcpLeaseActive\<rparr>])"
    by (rule lease_ok_move [OF parts(4) assms(2) refl refl, of _ _ "- 1" 1]) (use True in simp_all)
  have caps': "caps_ok (?K[?c := ?k]) (p_limits p) (p_tcpConnections p) (p_pendingTCPSetups p) (p_udpSessions p)"
    using caps_okD [OF parts(5) c] by (intro caps_ok_upd [OF parts(5)]) (auto simp: tcp_load_def)
  have drain': "drain_ok (?K[?c := ?k]) (p_rets p)"
    by (rule drain_ok_current [OF parts(6,2) c]) (simp add: tcp_load_def)
  have "snd (lease_Commit (Some l) p) = p\<lparr>p_conns := ?K[?c := ?k], p_leases := ?L[l := ?x\<lparr>le_state := tcpLeaseActive\<rparr>],
      p_tcpConnections := p_tcpConnections p, p_pendingTCPSetups := p_pendingTCPSetups p, p_udpSessions := p_udpSessions p\<rparr>"
    using True by (simp add: lease_Commit_def Let_def upd_lease_def upd_conn_def)
  with pool_inv_conn [OF assms(1) shape' lease' caps' drain'] show ?thesis
    by simp
qed

text \<open>The end of \<open>Release\<close>: after a lease of \<open>c\<close> is gone, the notification and the retirement
  catch up.\<close>

lemma release_finish:
  assumes inv: "pool_inv p" and c: "c < length (p_conns p)"
    and shape': "shape ((p_conns p)[c := k]) p" and lease': "lease_ok ((p_conns p)[c := k]) L"
    and caps': "caps_ok ((p_conns p)[c := k]) (p_limits p) (p_tcpConnections p) (p_pendingTCPSetups p) (p_udpSessions p)"
    and busy: "1 \<le> tcp_load (conn p c)" "\<not> idle (conn p c)"
    and q: "q = p\<lparr>p_conns := (p_conns p)[c := k], p_leases := L\<rparr>"
  shows "pool_inv (finalizeRetirementLocked c (signalTCPDrainedLocked (map_of (p_retiring q) c) q))"
proof (rule finalize_inv)
  let ?K' = "(p_conns p)[c := k]" and ?T = "p_rets p"
  note parts = pool_inv_parts [OF inv]
  show "pool_inv (signalTCPDrainedLocked (map_of (p_retiring q) c) q)"
  proof (cases "c \<in> snd ` set (p_clients p)")
    case True
    have "map_of (p_retiring p) c = None"
    proof (cases "map_of (p_retiring p) c")
      case (Some t)
      note t = ret_okD(3) [OF parts(2) map_of_SomeD [OF Some]]
      with ret_okD(4) [OF parts(2), of t] True show ?thesis by simp
    qed simp
    moreover have "drain_ok ?K' ?T"
      by (rule drain_ok_current [OF parts(6,2) c]) (simp add: True)
    then have "pool_inv q"
      using pool_inv_conn [OF inv shape' lease' caps'] by (simp add: q)
    ultimately show ?thesis
      by (simp add: signalTCPDrainedLocked_def q)
  next
    case False
    with parts(3) c busy(2) have "c \<in> fst ` set (p_retiring p)"
      unfolding traffic_ok_def by blast
    then obtain t where t: "map_of (p_retiring p) c = Some t"
      by (metis map_of_eq_None_iff not_None_eq)
    note tc = ret_okD(3) [OF parts(2) map_of_SomeD [OF t]]
    have other: "rt_conn (?T ! u) \<noteq> c" if "u < length ?T" "u \<noteq> t" for u
      using nth_eq_iff_index_eq [OF ret_okD(2) [OF parts(2)], of u t] tc that by simp
    have old: "notified (tcp_load (conn p (rt_conn (?T ! u)))) (?T ! u)" if "u < length ?T" for u
      using parts(6) that unfolding drain_ok_alt by blast
    have unsent: "\<not> rt_drainSent (?T ! t)" "rt_tcpDrained (?T ! t) = []"
      using old [of t] tc busy(1) by (auto simp: notified_def)
    define T' where "T' = p_rets (signalTCPDrainedLocked (Some t) q)"
    have rets: "p_rets q = ?T" and conns: "p_conns q = ?K'"
      by (simp_all add: q)
    have "drain_ok (p_conns q) T'"
      unfolding T'_def
    proof (rule signal_drains [OF _ rets [symmetric]])
      show "t < length (p_rets q)"
        using tc by (simp add: rets)
      show "notified (tcp_load (conn q (rt_conn (?T ! u)))) (?T ! u)" if "u < length ?T" "u \<noteq> t" for u
        using old [OF that(1)] other [OF that] by (simp add: conns)
    qed (use unsent in simp_all)
    moreover have "ret_ok ?K' (p_clients p) (p_retiring p) T'"
      unfolding T'_def by (rule signal_frame(1)) (use shape' tc in \<open>simp_all add: rets shape_def\<close>)
    moreover have "signalTCPDrainedLocked (Some t) q = q\<lparr>p_rets := T'\<rparr>"
      unfolding T'_def
      by (rule signal_frame(2) [of ?K' "p_clients p" "p_retiring p"]) (use shape' tc in \<open>simp_all add: rets shape_def\<close>)
    ultimately have "pool_inv (signalTCPDrainedLocked (Some t) q)"
      using inv shape' lease' caps' unfolding shape_def pool_inv_def
      by (simp add: q clientGenerationCountLocked_def)
    with t show ?thesis
      by (simp add: q)
  qed
qed

lemma lease_Release_inv:
  assumes "pool_inv p" and "l < length (p_leases p)"
  shows "pool_inv (snd (lease_Release (Some l) p))"
proof (cases "le_state (p_leases p ! l) = tcpLeaseReleased")
  case True
  with assms(1) show ?thesis by (simp add: lease_Release_def Let_def)
next
  case False
  let ?x = "p_leases p ! l" and ?L = "p_leases p" and ?K = "p_conns p"
  let ?c = "le_conn ?x" and ?x' = "(p_leases p ! l)\<lparr>le_state := tcpLeaseReleased\<rparr>"
  define k where "k = (if le_state ?x = tcpLeasePending
      then (?K ! ?c)\<lparr>cc_tcpPending := cc_tcpPending (?K ! ?c) - 1\<rparr>
      else (?K ! ?c)\<lparr>cc_ActiveConns := cc_ActiveConns (?K ! ?c) - 1, cc_tcpActive := cc_tcpActive (?K ! ?c) - 1\<rparr>)"
  note parts = pool_inv_parts [OF assms(1)]
  have c: "?c < length ?K"
    by (rule lease_okD(1) [OF parts(4) assms(2)])
  have st: "le_state ?x = tcpLeasePending \<or> le_state ?x = tcpLeaseActive"
    using False by (cases "le_state ?x") auto
  have counts: "cc_tcpPending (?K ! ?c) = leases_of ?L ?c tcpLeasePending"
    "cc_tcpActive (?K ! ?c) = leases_of ?L ?c tcpLeaseActive"
    using lease_okD(2,3) [OF parts(4) c] by simp_all
  have busy: "1 \<le> tcp_load (?K ! ?c)" "\<not> idle (?K ! ?c)"
    using st leases_of_pos [OF assms(2) refl refl] leases_of_nonneg [of ?L ?c tcpLeasePending]
      leases_of_nonneg [of ?L ?c tcpLeaseActive]
    by (auto simp: tcp_load_def idle_def counts)
  have shape': "shape (?K[?c := k]) p"
    using busy by (intro shape_upd [OF assms(1) c]) (simp_all add: k_def)
  have lease': "lease_ok (?K[?c := k]) (?L[l := ?x'])"
    by (rule lease_ok_move [OF parts(4) assms(2) refl refl,
          of _ _ "if le_state ?x = tcpLeasePending then - 1 else 0" "if le_state ?x = tcpLeasePending then 0 else - 1"])
      (use st in \<open>auto simp: k_def\<close>)
  have caps': "caps_ok (?K[?c := k]) (p_limits p) (p_tcpConnections p) (p_pendingTCPSetups p) (p_udpSessions p)"
    using caps_okD [OF parts(5) c] by (intro caps_ok_upd [OF parts(5)]) (auto simp: tcp_load_def k_def)
  define q where "q = p\<lparr>p_conns := ?K[?c := k], p_leases := ?L[l := ?x']\<rparr>"
  have "snd (lease_Release (Some l) p) =
      finalizeRetirementLocked ?c (signalTCPDrainedLocked (map_of (p_retiring q) ?c) q)"
    using st by (auto simp: lease_Release_def Let_def q_def k_def upd_conn_def upd_lease_def)
  with release_finish [OF assms(1) c shape' lease' caps' busy q_def] show ?thesis
    by simp
qed

section \<open>UDP sessions and TCP admission\<close>

text \<open>Fields the invariant does not read.\<close>

lemma pool_inv_frame [simp]:
  "pool_inv (p\<lparr>p_balancer := b\<rparr>) = pool_inv p"
  "pool_inv (p\<lparr>p_accountingFaults := n\<rparr>) = pool_inv p"
  "pool_inv (p\<lparr>p_tcpConnections := (p_tcpConnections p)\<lparr>drops := d\<rparr>\<rparr>) = pool_inv p"
  "pool_inv (p\<lparr>p_pendingTCPSetups := (p_pendingTCPSetups p)\<lparr>drops := d\<rparr>\<rparr>) = pool_inv p"
  "pool_inv (p\<lparr>p_udpSessions := (p_udpSessions p)\<lparr>drops := d\<rparr>\<rparr>) = pool_inv p"
  by (simp_all add: pool_inv_def clientGenerationCountLocked_def caps_ok_def)

lemma pool_inv_adms:
  "pool_inv p \<Longrightarrow> adm_ok (p_conns p) A \<Longrightarrow> pool_inv (p\<lparr>p_adms := A\<rparr>)"
  by (simp add: pool_inv_def clientGenerationCountLocked_def)

lemma lease_ok_udp:
  assumes "lease_ok K L" and "0 \<le> n"
  shows "lease_ok (K[c := (K ! c)\<lparr>cc_udpSessions := n\<rparr>]) L"
proof (cases "c < length K")
  case True
  with assms show ?thesis
    unfolding lease_ok_def by (simp add: nth_list_update)
qed (use assms in \<open>simp add: list_update_beyond\<close>)

lemma highWater_observe [simp]: "highWater (observe n s) = max n (highWater s)"
  by (simp add: observe_def)

text \<open>The candidates of a UDP reservation are current, eligible and have room.\<close>

lemma udpCandidates_mem:
  assumes "mset (rng (p_clients p)) = mset (p_clients p)" and "c \<in> set (snd (udpCandidates rng p))"
  shows "c \<in> snd ` set (p_clients p)" and "isEligible p (Some c) ''udp''"
    and "cc_udpSessions (conn p c) < MaxUDPSessionsPerGeneration (p_limits p)"
  using assms mset_eq_setD [OF assms(1)] by (auto simp: udpCandidates_def Let_def)

lemma current_lt: "pool_inv p \<Longrightarrow> c \<in> snd ` set (p_clients p) \<Longrightarrow> c < length (p_conns p)"
  using ids_okD(1) [OF pool_inv_parts(1)] by auto

text \<open>A new UDP session on a current generation with room.\<close>

lemma udp_session_inv:
  assumes "pool_inv p" and c: "c \<in> snd ` set (p_clients p)"
    and "cc_udpSessions (conn p c) < MaxUDPSessionsPerGeneration (p_limits p)"
    and k: "k = (conn p c)\<lparr>cc_udpSessions := cc_udpSessions (conn p c) + 1\<rparr>"
  shows "pool_inv (p\<lparr>p_conns := (p_conns p)[c := k],
      p_udpSessions := observe (cc_udpSessions (conn p c) + 1) (p_udpSessions p)\<rparr>)"
proof -
  note parts = pool_inv_parts [OF assms(1)]
  have lt: "c < length (p_conns p)"
    by (rule current_lt [OF assms(1) c])
  have shape': "shape ((p_conns p)[c := k]) p"
    using c by (intro shape_upd [OF assms(1) lt]) (simp_all add: k)
  have lease': "lease_ok ((p_conns p)[c := k]) (p_leases p)"
    unfolding k by (rule lease_ok_udp [OF parts(4)]) (use lease_okD(5) [OF parts(4) lt] in simp)
  have caps': "caps_ok ((p_conns p)[c := k]) (p_limits p) (p_tcpConnections p) (p_pendingTCPSetups p)
      (observe (cc_udpSessions (conn p c) + 1) (p_udpSessions p))"
    using caps_okD [OF parts(5) lt] assms(3)
    by (intro caps_ok_upd [OF parts(5)]) (auto simp: tcp_load_def k)
  have drain': "drain_ok ((p_conns p)[c := k]) (p_rets p)"
    by (rule drain_ok_current [OF parts(6,2) lt]) (simp add: c)
  from pool_inv_conn [OF assms(1) shape' lease' caps' drain'] show ?thesis
    by simp
qed

lemma ReserveUDP_cases:
  assumes "pool_inv p" and "mset (rng (p_clients p)) = mset (p_clients p)"
  obtains (refused) e b d where
      "ReserveUDP rng p = (Inl e, p\<lparr>p_balancer := b, p_udpSessions := (p_udpSessions p)\<lparr>drops := d\<rparr>\<rparr>)"
    | (session) c b where "c \<in> snd ` set (p_clients p)" and "isEligible p (Some c) ''udp''"
        and "cc_udpSessions (conn p c) < MaxUDPSessionsPerGeneration (p_limits p)"
        and "ReserveUDP rng p = (Inr c, p\<lparr>p_balancer := b, p_conns :=
          (p_conns p)[c := (conn p c)\<lparr>cc_udpSessions := cc_udpSessions (conn p c) + 1\<rparr>],
         p_udpSessions := observe (cc_udpSessions (conn p c) + 1) (p_udpSessions p)\<rparr>)"
proof (cases "\<exists>c b. c \<in> set (snd (udpCandidates rng p)) \<and>
    ReserveUDP rng p = (let p2 = upd_conn c (\<lambda>k. k\<lparr>cc_udpSessions := cc_udpSessions k + 1\<rparr>) (p\<lparr>p_balancer := b\<rparr>)
      in (Inr c, p2\<lparr>p_udpSessions := observe (cc_udpSessions (conn p2 c)) (p_udpSessions p2)\<rparr>))")
  case True
  then obtain c b where c: "c \<in> set (snd (udpCandidates rng p))"
    and r: "ReserveUDP rng p = (let p2 = upd_conn c (\<lambda>k. k\<lparr>cc_udpSessions := cc_udpSessions k + 1\<rparr>) (p\<lparr>p_balancer := b\<rparr>)
      in (Inr c, p2\<lparr>p_udpSessions := observe (cc_udpSessions (conn p2 c)) (p_udpSessions p2)\<rparr>))"
    by blast
  note mem = udpCandidates_mem [of rng, OF assms(2) c]
  with current_lt [OF assms(1) mem(1)] r show thesis
    by (intro session [of c b]) (simp_all add: upd_conn_def)
next
  case False
  then have "\<exists>e. ReserveUDP rng p = (Inl e, p\<lparr>p_balancer := p_balancer (snd (ReserveUDP rng p)),
      p_udpSessions := (p_udpSessions p)\<lparr>drops := drops (p_udpSessions (snd (ReserveUDP rng p)))\<rparr>\<rparr>)"
    by (auto simp: ReserveUDP_def Let_def split_beta split: sum.splits)
  with refused show thesis by blast
qed

lemma ReserveUDP_inv:
  assumes "pool_inv p" and "mset (rng (p_clients p)) = mset (p_clients p)"
  shows "pool_inv (snd (ReserveUDP rng p))"
  using assms(1) assms(2)
proof (cases rule: ReserveUDP_cases)
  case (refused e b d)
  with assms(1) pool_inv_frame(5) [of d "p\<lparr>p_balancer := b\<rparr>"] show ?thesis by simp
next
  case (session c b)
  with udp_session_inv [of "p\<lparr>p_balancer := b\<rparr>", OF _ _ _ refl] assms(1) show ?thesis
    by simp
qed

lemma ReleaseUDP_inv:
  assumes "pool_inv p" and lt: "c < length (p_conns p)"
  shows "pool_inv (snd (ReleaseUDP (Some c) p))"
proof (cases "cc_udpSessions (conn p c) \<le> 0")
  case True
  with assms(1) show ?thesis by (simp add: ReleaseUDP_def)
next
  case False
  let ?k = "(conn p c)\<lparr>cc_udpSessions := cc_udpSessions (conn p c) - 1\<rparr>"
  note parts = pool_inv_parts [OF assms(1)]
  have shape': "shape ((p_conns p)[c := ?k]) p"
    using False by (intro shape_upd [OF assms(1) lt]) (simp_all add: idle_def)
  have lease': "lease_ok ((p_conns p)[c := ?k]) (p_leases p)"
    by (rule lease_ok_udp [OF parts(4)]) (use False in simp)
  have caps': "caps_ok ((p_conns p)[c := ?k]) (p_limits p) (p_tcpConnections p) (p_pendingTCPSetups p) (p_udpSessions p)"
    using caps_okD [OF parts(5) lt] by (intro caps_ok_upd [OF parts(5)]) (auto simp: tcp_load_def)
  have drain': "drain_ok ((p_conns p)[c := ?k]) (p_rets p)"
    by (rule drain_ok_current [OF parts(6,2) lt]) (simp add: tcp_load_def)
  from pool_inv_conn [OF assms(1) shape' lease' caps' drain']
  have "pool_inv (upd_conn c (\<lambda>k. k\<lparr>cc_udpSessions := cc_udpSessions k - 1\<rparr>) p)"
    by (simp add: upd_conn_def)
  with finalize_inv False show ?thesis
    by (simp add: ReleaseUDP_def)
qed

text \<open>The membership cache holds exactly the current generations.\<close>

lemma clientSlice_mset:
  assumes "pool_inv p" and "mset (rng (p_clients p)) = mset (p_clients p)"
  shows "mset (fst (clientSliceLocked rng p)) = mset (map snd (p_clients p))"
  using pool_inv_parts(8) [OF assms(1)] arg_cong [OF assms(2), of "image_mset snd"]
  by (auto simp: clientSliceLocked_def cache_ok_def Let_def split: option.splits)

lemma clientSlice_inv:
  assumes "pool_inv p" and "mset (rng (p_clients p)) = mset (p_clients p)"
  shows "pool_inv (snd (clientSliceLocked rng p))"
proof -
  have p': "snd (clientSliceLocked rng p) = p\<lparr>p_cachedClients := Some (fst (clientSliceLocked rng p))\<rparr>"
    by (auto simp: clientSliceLocked_def Let_def split: option.splits)
  show ?thesis
    using assms(1) clientSlice_mset [of p rng, OF assms] unfolding p' pool_inv_def
    by (simp add: cache_ok_def clientGenerationCountLocked_def)
qed

lemma BeginTCPAdmission_inv:
  assumes "pool_inv p" and "mset (rng (p_clients p)) = mset (p_clients p)"
  shows "pool_inv (snd (BeginTCPAdmission rng p))"
proof -
  let ?s = "clientSliceLocked rng p"
  note inv' = clientSlice_inv [of p rng, OF assms]
  have frame: "p_conns (snd ?s) = p_conns p" "p_adms (snd ?s) = p_adms p" "p_clients (snd ?s) = p_clients p"
    by (simp_all add: clientSliceLocked_def Let_def split: option.splits)
  have "set (fst ?s) = snd ` set (p_clients p)"
    using mset_eq_setD [OF clientSlice_mset [of p rng, OF assms]] by simp
  then have "c < length (p_conns p)" if "c \<in> set (fst ?s)" for c
    using current_lt [OF assms(1)] that by simp
  then have "adm_ok (p_conns (snd ?s)) (p_adms (snd ?s) @ [\<lparr>ad_candidates = filter P (fst ?s), ad_next = 0,
      ad_balanced = False, ad_balanceErr = None\<rparr>])" for P
    using pool_inv_parts(7) [OF assms(1)] by (auto simp: adm_ok_def frame)
  with pool_inv_adms [OF inv'] inv' assms(1) show ?thesis
    by (simp add: BeginTCPAdmission_def Let_def split_beta)
qed

text \<open>Balancing only moves one candidate of the admission to the front.\<close>

lemma balanceAdmission_frame:
  assumes "a < length (p_adms p)"
  obtains b x where "balanceAdmission a p = p\<lparr>p_balancer := b, p_adms := (p_adms p)[a := x]\<rparr>"
    and "mset (ad_candidates x) = mset (ad_candidates (p_adms p ! a))"
    and "ad_next x = ad_next (p_adms p ! a)" and "ad_balanced x"
proof -
  let ?x = "p_adms p ! a"
  have swap: "mset ((cs[0 := cs ! k])[k := cs ! 0]) = mset cs" if "k < length cs" for cs :: "nat list" and k
    using mset_swap [of k cs 0] that by fastforce
  have pos: "length (takeWhile (\<lambda>d. d \<noteq> c) cs) < length cs" if "c \<in> set cs" for c and cs :: "nat list"
    using that by (induction cs) auto
  define b where "b = p_balancer (balanceAdmission a p)"
  define x where "x = p_adms (balanceAdmission a p) ! a"
  have "balanceAdmission a p = p\<lparr>p_balancer := b, p_adms := (p_adms p)[a := x]\<rparr>"
    using assms unfolding b_def x_def
    by (auto simp: balanceAdmission_def upd_adm_def Let_def split_beta split: sum.splits)
  moreover have "mset (ad_candidates x) = mset (ad_candidates ?x) \<and> ad_next x = ad_next ?x \<and> ad_balanced x"
    using assms unfolding x_def
    by (auto simp: balanceAdmission_def upd_adm_def Let_def split_beta swap pos split: sum.splits)
  ultimately show thesis using that by blast
qed

lemma usable_frame [simp]:
  "usable (p\<lparr>p_balancer := b\<rparr>) = usable p" "usable (p\<lparr>p_adms := A\<rparr>) = usable p"
  by (simp_all add: usable_def fun_eq_iff isCurrentLocked_def isEligible_def tcpCapacityErrorLocked_def)

lemma nextLoop_found:
  "nextLoop p cs n x y = (Some c, n', x', y') \<Longrightarrow> c \<in> set cs \<and> usable p c"
  by (induction p cs n x y rule: nextLoop.induct) (auto simp: usable_def split: if_splits option.splits)

text \<open>A new lease on a usable generation.\<close>

lemma tcp_lease_inv:
  assumes "pool_inv p" and use: "usable p c"
    and k: "k = (conn p c)\<lparr>cc_tcpPending := cc_tcpPending (conn p c) + 1\<rparr>"
  shows "pool_inv (p\<lparr>p_conns := (p_conns p)[c := k],
      p_leases := p_leases p @ [\<lparr>le_conn = c, le_state = tcpLeasePending\<rparr>],
      p_tcpConnections := observe (tcp_load k) (p_tcpConnections p),
      p_pendingTCPSetups := observe (cc_tcpPending k) (p_pendingTCPSetups p)\<rparr>)"
proof -
  note parts = pool_inv_parts [OF assms(1)]
  have c: "c \<in> snd ` set (p_clients p)"
    using use isCurrent_mem [OF parts(1)] by (simp add: usable_def)
  have lt: "c < length (p_conns p)"
    by (rule current_lt [OF assms(1) c])
  have room: "cc_tcpPending (conn p c) + cc_tcpActive (conn p c) < MaxTCPConnectionsPerGeneration (p_limits p)"
    "cc_tcpPending (conn p c) < MaxPendingTCPSetupsPerGeneration (p_limits p)"
    using use by (auto simp: usable_def tcpCapacityErrorLocked_def split: if_splits)
  have shape': "shape ((p_conns p)[c := k]) p"
    using c by (intro shape_upd [OF assms(1) lt]) (simp_all add: k)
  have lease': "lease_ok ((p_conns p)[c := k]) (p_leases p @ [\<lparr>le_conn = c, le_state = tcpLeasePending\<rparr>])"
    by (rule lease_ok_new [OF parts(4) lt k])
  have caps': "caps_ok ((p_conns p)[c := k]) (p_limits p) (observe (tcp_load k) (p_tcpConnections p))
      (observe (cc_tcpPending k) (p_pendingTCPSetups p)) (p_udpSessions p)"
    using caps_okD [OF parts(5) lt] room
    by (intro caps_ok_upd [OF parts(5)]) (auto simp: tcp_load_def k)
  have drain': "drain_ok ((p_conns p)[c := k]) (p_rets p)"
    by (rule drain_ok_current [OF parts(6,2) lt]) (simp add: c)
  from pool_inv_conn [OF assms(1) shape' lease' caps' drain'] show ?thesis
    by simp
qed

text \<open>The outcomes of \<open>Next\<close>: \<open>p'\<close> differs from \<open>p\<close> by the admission's own state only.\<close>

lemma Next_cases:
  assumes "a < length (p_adms p)" and "adm_ok (p_conns p) (p_adms p)"
  obtains (none) r d d' b x where "Next (Some a) p = (r, (p\<lparr>p_balancer := b, p_adms := (p_adms p)[a := x]\<rparr>)
        \<lparr>p_tcpConnections := (p_tcpConnections p)\<lparr>drops := d\<rparr>, p_pendingTCPSetups := (p_pendingTCPSetups p)\<lparr>drops := d'\<rparr>\<rparr>)"
      and "\<forall>l. r \<noteq> Inr (Some l)" and "mset (ad_candidates x) = mset (ad_candidates (p_adms p ! a))"
    | (lease) c b x k where "c \<in> set (ad_candidates (p_adms p ! a))" and "usable p c"
      and "k = (conn p c)\<lparr>cc_tcpPending := cc_tcpPending (conn p c) + 1\<rparr>"
      and "Next (Some a) p = (Inr (Some (length (p_leases p))), (p\<lparr>p_balancer := b, p_adms := (p_adms p)[a := x]\<rparr>)
        \<lparr>p_conns := (p_conns p)[c := k],
         p_leases := p_leases p @ [\<lparr>le_conn = c, le_state = tcpLeasePending\<rparr>],
         p_tcpConnections := observe (tcp_load k) (p_tcpConnections p),
         p_pendingTCPSetups := observe (cc_tcpPending k) (p_pendingTCPSetups p)\<rparr>)"
      and "mset (ad_candidates x) = mset (ad_candidates (p_adms p ! a))"
proof -
  let ?p1 = "if \<not> ad_balanced (p_adms p ! a) then balanceAdmission a p else p"
  obtain b x where p1: "?p1 = p\<lparr>p_balancer := b, p_adms := (p_adms p)[a := x]\<rparr>"
    and x: "mset (ad_candidates x) = mset (ad_candidates (p_adms p ! a))"
  proof (cases "ad_balanced (p_adms p ! a)")
    case True
    with that [of "p_adms p ! a" "p_balancer p"] show ?thesis by simp
  next
    case False
    with that balanceAdmission_frame [OF assms(1)] show ?thesis by (metis (full_types))
  qed
  show thesis
  proof (cases "p_accountingFaults p \<noteq> 0")
    case True
    then show thesis
      using none [of "Inl ErrAccountingFault" "drops (p_pendingTCPSetups p)" "drops (p_tcpConnections p)" "p_adms p ! a" "p_balancer p"]
      by (simp add: Next_def)
  next
    case ok: False
    obtain found nxt w s where loop: "nextLoop ?p1 (drop (ad_next x) (ad_candidates x)) (ad_next x) False False = (found, nxt, w, s)"
      by (metis prod_cases4)
    show thesis
    proof (cases "ad_balanceErr x")
      case (Some e)
      with ok assms(1) show thesis
        using none [of "Inl e" "drops (p_pendingTCPSetups p)" "drops (p_tcpConnections p)" x b] x
        by (simp add: Next_def Let_def p1)
    next
      case noerr: None
      let ?x = "x\<lparr>ad_next := nxt\<rparr>"
      show thesis
      proof (cases found)
        case None
        with ok noerr assms(1) loop x show thesis
          using none [of "fst (Next (Some a) p)" "drops (p_pendingTCPSetups (snd (Next (Some a) p)))"
              "drops (p_tcpConnections (snd (Next (Some a) p)))" ?x b]
          by (auto simp: Next_def Let_def p1 upd_adm_def)
      next
        case (Some c)
        have "c \<in> set (drop (ad_next x) (ad_candidates x))" and use: "usable p c"
          using nextLoop_found [OF loop [unfolded Some]] p1 by auto
        then have c: "c \<in> set (ad_candidates (p_adms p ! a))"
          using x set_drop_subset by (metis mset_eq_setD subsetD)
        then have "c < length (p_conns p)"
          using assms by (auto simp: adm_ok_def)
        with Some ok noerr assms(1) loop x use c show thesis
          using lease [of c _ ?x b, OF _ _ refl]
          by (simp add: Next_def Let_def p1 upd_adm_def upd_conn_def tcp_load_def)
      qed
    qed
  qed
qed

lemma Next_inv:
  assumes "pool_inv p" and "a < length (p_adms p)"
  shows "pool_inv (snd (Next (Some a) p))"
proof -
  note adm = pool_inv_parts(7) [OF assms(1)]
  have adm': "adm_ok (p_conns p) ((p_adms p)[a := x])"
    if "mset (ad_candidates x) = mset (ad_candidates (p_adms p ! a))" for x
    using adm mset_eq_setD [OF that] set_update_subset_insert [of "p_adms p" a x] assms(2)
    unfolding adm_ok_def by (metis insertE nth_mem subsetD)
  have inv': "pool_inv (p\<lparr>p_balancer := b, p_adms := (p_adms p)[a := x]\<rparr>)"
    if "mset (ad_candidates x) = mset (ad_candidates (p_adms p ! a))" for b x
    using pool_inv_adms [of "p\<lparr>p_balancer := b\<rparr>"] adm' [OF that] assms(1) by simp
  from assms(2) adm show ?thesis
  proof (cases rule: Next_cases)
    case (none r d d' b x)
    let ?p = "p\<lparr>p_balancer := b, p_adms := (p_adms p)[a := x]\<rparr>"
    have "pool_inv (?p\<lparr>p_tcpConnections := (p_tcpConnections ?p)\<lparr>drops := d\<rparr>\<rparr>)"
      unfolding pool_inv_frame by (rule inv' [OF none(3)])
    with none(1) pool_inv_frame(4) [of d' "?p\<lparr>p_tcpConnections := (p_tcpConnections ?p)\<lparr>drops := d\<rparr>\<rparr>"]
    show ?thesis by simp
  next
    case (lease c b x k)
    let ?p = "p\<lparr>p_balancer := b, p_adms := (p_adms p)[a := x]\<rparr>"
    have "usable ?p c"
      using lease(2) usable_frame(2) [of _ "p\<lparr>p_balancer := b\<rparr>"] by simp
    with tcp_lease_inv [OF inv' [OF lease(5)], of b c k] lease(3,4) show ?thesis
      by simp
  qed
qed

section \<open>Creation and the heartbeat\<close>

text \<open>A generation as the registration handler creates it: not added, all counters zero.\<close>

definition fresh :: "ClientConn \<Rightarrow> bool" where
  "fresh k \<longleftrightarrow> \<not> cc_added k \<and> cc_tcpPending k = 0 \<and> cc_tcpActive k = 0 \<and> cc_udpSessions k = 0 \<and>
     cc_ActiveConns k = 0"

definition limits_ok :: "Limits \<Rightarrow> bool" where
  "limits_ok lim \<longleftrightarrow> 0 \<le> MaxClientGenerations lim \<and> 0 \<le> MaxPendingRegistrations lim \<and>
     0 \<le> MaxTCPConnectionsPerGeneration lim \<and> 0 \<le> MaxPendingTCPSetupsPerGeneration lim \<and>
     0 \<le> MaxUDPSessionsPerGeneration lim"

lemma New_inv:
  assumes "limits_ok lim"
  shows "pool_inv (NewWithLimits [] b lim)"
  using assms
  by (simp add: pool_inv_def NewWithLimits_def ids_ok_def resv_ok_def ret_ok_def traffic_ok_def lease_ok_def
      caps_ok_def drain_ok_def cache_ok_def adm_ok_def within_def clientGenerationCountLocked_def limits_ok_def)

lemma alloc_inv:
  assumes "pool_inv p" and "fresh k"
  shows "pool_inv (p\<lparr>p_conns := p_conns p @ [k]\<rparr>)"
proof -
  let ?K = "p_conns p"
  note parts = pool_inv_parts [OF assms(1)] and ev = evolve_alloc [of ?K k]
  have "ids_ok (?K @ [k]) (p_clients p)"
    by (rule ids_ok_evolve [OF parts(1) ev])
  moreover have "resv_ok (?K @ [k]) (p_clients p) (p_reservations p) (p_resvs p) (p_serverPending p)"
    by (rule resv_ok_evolve [OF _ ev]) (use assms(1) in \<open>simp add: pool_inv_def\<close>)
  moreover have "ret_ok (?K @ [k]) (p_clients p) (p_retiring p) (p_rets p)"
    by (rule ret_ok_evolve [OF parts(2) ev]) (simp add: nth_append)
  moreover have "traffic_ok (?K @ [k]) (p_clients p) (p_retiring p)"
    using parts(3) assms(2) by (auto simp: traffic_ok_def nth_append fresh_def idle_def less_Suc_eq)
  moreover have "leases_of (p_leases p) (length ?K) st = 0" for st
    using parts(4) by (fastforce simp: leases_of_def lease_ok_def filter_empty_conv)
  then have "lease_ok (?K @ [k]) (p_leases p)"
    using parts(4) assms(2) by (auto simp: lease_ok_def nth_append fresh_def less_Suc_eq)
  moreover have "caps_ok (?K @ [k]) (p_limits p) (p_tcpConnections p) (p_pendingTCPSetups p) (p_udpSessions p)"
    using parts(5) assms(2) by (auto simp: caps_ok_def nth_append fresh_def less_Suc_eq)
  moreover have "rt_conn x < length ?K" if "x \<in> set (p_rets p)" for x
    using that ret_okD(4) [OF parts(2)] by (metis in_set_conv_nth)
  then have "drain_ok (?K @ [k]) (p_rets p)"
    by (intro drain_ok_evolve [OF parts(6)]) (simp add: nth_append)
  moreover have "adm_ok (?K @ [k]) (p_adms p)"
    by (rule adm_ok_evolve [OF parts(7) ev])
  ultimately show ?thesis
    using assms(1) by (simp add: pool_inv_def clientGenerationCountLocked_def)
qed

lemma heartbeat_inv:
  assumes "pool_inv p" and "c < length (p_conns p)"
  shows "pool_inv (upd_conn c (\<lambda>k. k\<lparr>cc_LastHeartbeat := n\<rparr>) p)"
proof -
  let ?k = "(conn p c)\<lparr>cc_LastHeartbeat := n\<rparr>"
  have k: "cc_ID ?k = cc_ID (conn p c)" "cc_added (conn p c) \<longrightarrow> cc_added ?k" "counts ?k = counts (conn p c)"
    by (simp_all add: counts_def)
  note quiet = quiet_upd [OF assms(2) k]
  show ?thesis
    using assms(1) unfolding upd_conn_def pool_inv_def
    by (simp add: quiet clientGenerationCountLocked_def)
qed

end
