(* ===== verification/Pool_Runs.thy ===== *)
theory Pool_Runs
  imports Pool_Invariant
begin

text \<open>
  Runs of the connection pool: every sequence of calls the server makes on one pool, in any
  order and with any pointers it was handed, and what holds in every state so reached. The
  properties are about the operations of \<^verbatim>\<open>server/pool/pool.go\<close>; a map visit is any
  permutation of the map.
\<close>

section \<open>The operations as steps\<close>

datatype pool_op =
    CreateConn ClientConn | Heartbeat nat int
  | DoBeginPending | DoReservationReserve nat nat | DoAbort nat | DoReserve nat | DoCommit nat | DoAdd nat
  | DoBeginRetire nat | DoTCPDrained nat | DoDone nat | DoRemove nat
  | DoReserveUDP map_range | DoReleaseUDP nat
  | DoBeginTCPAdmission map_range | DoNext nat | DoRecordStream nat int "int list"
  | DoLeaseCommit nat | DoLeaseRelease nat | DoMarkUnhealthy nat | DoMarkHealthy nat

fun pool_step :: "pool_op \<Rightarrow> ConnectionPool \<Rightarrow> ConnectionPool" where
  "pool_step (CreateConn k) p = p\<lparr>p_conns := p_conns p @ [k]\<rparr>"
| "pool_step (Heartbeat c n) p = upd_conn c (\<lambda>k. k\<lparr>cc_LastHeartbeat := n\<rparr>) p"
| "pool_step DoBeginPending p = snd (BeginPending p)"
| "pool_step (DoReservationReserve r c) p = snd (Reservation_Reserve (Some r) (Some c) p)"
| "pool_step (DoAbort r) p = snd (Abort (Some r) p)"
| "pool_step (DoReserve c) p = snd (pool_Reserve (Some c) p)"
| "pool_step (DoCommit r) p = snd (pool_Commit (Some r) p)"
| "pool_step (DoAdd c) p = snd (Add (Some c) p)"
| "pool_step (DoBeginRetire c) p = snd (BeginRetire (Some c) p)"
| "pool_step (DoTCPDrained t) p = snd (TCPDrained_recv t p)"
| "pool_step (DoDone t) p = snd (Done (Some t) p)"
| "pool_step (DoRemove c) p = snd (Remove (Some c) p)"
| "pool_step (DoReserveUDP rng) p = snd (ReserveUDP rng p)"
| "pool_step (DoReleaseUDP c) p = snd (ReleaseUDP (Some c) p)"
| "pool_step (DoBeginTCPAdmission rng) p = snd (BeginTCPAdmission rng p)"
| "pool_step (DoNext a) p = snd (Next (Some a) p)"
| "pool_step (DoRecordStream l sid env) p = RecordStream (Some l) sid env p"
| "pool_step (DoLeaseCommit l) p = snd (lease_Commit (Some l) p)"
| "pool_step (DoLeaseRelease l) p = snd (lease_Release (Some l) p)"
| "pool_step (DoMarkUnhealthy c) p = snd (MarkUnhealthy (Some c) p)"
| "pool_step (DoMarkHealthy c) p = snd (MarkHealthy (Some c) p)"

text \<open>A call is possible with pointers the pool has handed out, a fresh generation, and a
  map visit that sees every entry once.\<close>

fun op_valid :: "pool_op \<Rightarrow> ConnectionPool \<Rightarrow> bool" where
  "op_valid (CreateConn k) p = fresh k"
| "op_valid (Heartbeat c n) p = (c < length (p_conns p))"
| "op_valid DoBeginPending p = True"
| "op_valid (DoReservationReserve r c) p = (r < length (p_resvs p) \<and> c < length (p_conns p))"
| "op_valid (DoAbort r) p = (r < length (p_resvs p))"
| "op_valid (DoReserve c) p = (c < length (p_conns p))"
| "op_valid (DoCommit r) p = (r < length (p_resvs p))"
| "op_valid (DoAdd c) p = (c < length (p_conns p))"
| "op_valid (DoBeginRetire c) p = (c < length (p_conns p))"
| "op_valid (DoTCPDrained t) p = (t < length (p_rets p))"
| "op_valid (DoDone t) p = (t < length (p_rets p))"
| "op_valid (DoRemove c) p = (c < length (p_conns p))"
| "op_valid (DoReserveUDP rng) p = (mset (rng (p_clients p)) = mset (p_clients p))"
| "op_valid (DoReleaseUDP c) p = (c < length (p_conns p))"
| "op_valid (DoBeginTCPAdmission rng) p = (mset (rng (p_clients p)) = mset (p_clients p))"
| "op_valid (DoNext a) p = (a < length (p_adms p))"
| "op_valid (DoRecordStream l sid env) p = (l < length (p_leases p))"
| "op_valid (DoLeaseCommit l) p = (l < length (p_leases p))"
| "op_valid (DoLeaseRelease l) p = (l < length (p_leases p))"
| "op_valid (DoMarkUnhealthy c) p = (c < length (p_conns p))"
| "op_valid (DoMarkHealthy c) p = (c < length (p_conns p))"

inductive pool_reach :: "LoadBalancer \<Rightarrow> Limits \<Rightarrow> ConnectionPool \<Rightarrow> bool" for b lim where
  start: "pool_reach b lim (NewWithLimits [] b lim)"
| step: "pool_reach b lim p \<Longrightarrow> op_valid op p \<Longrightarrow> pool_reach b lim (pool_step op p)"

fun pool_run :: "pool_op list \<Rightarrow> ConnectionPool \<Rightarrow> ConnectionPool" where
  "pool_run [] p = p"
| "pool_run (op # ops) p = pool_run ops (pool_step op p)"

fun run_valid :: "pool_op list \<Rightarrow> ConnectionPool \<Rightarrow> bool" where
  "run_valid [] p = True"
| "run_valid (op # ops) p = (op_valid op p \<and> run_valid ops (pool_step op p))"

lemma pool_run_reach: "pool_reach b lim p \<Longrightarrow> run_valid ops p \<Longrightarrow> pool_reach b lim (pool_run ops p)"
  by (induction ops arbitrary: p) (simp_all add: pool_reach.step)

section \<open>The invariant in every reachable state\<close>

lemma BeginPending_inv: "pool_inv p \<Longrightarrow> pool_inv (snd (BeginPending p))"
  using beginPending_inv [of p] by (auto simp: BeginPending_def split: prod.splits sum.splits)

lemma pool_step_inv:
  assumes "pool_inv p" and "op_valid op p"
  shows "pool_inv (pool_step op p)"
  using assms
  by (cases op) (simp_all add: alloc_inv heartbeat_inv BeginPending_inv Reservation_Reserve_inv Abort_inv
      pool_Reserve_inv pool_Commit_inv Add_inv BeginRetire_inv TCPDrained_recv_inv Done_inv Remove_inv
      ReserveUDP_inv ReleaseUDP_inv BeginTCPAdmission_inv Next_inv RecordStream_inv lease_Commit_inv
      lease_Release_inv Mark_inv)

lemma pool_reach_inv:
  assumes "pool_reach b lim p" and "limits_ok lim"
  shows "pool_inv p"
  using assms by (induction rule: pool_reach.induct) (simp_all add: New_inv pool_step_inv)

text \<open>No operation changes the configured limits.\<close>

lemma limits_upd [simp]:
  "p_limits (upd_conn c f p) = p_limits p" "p_limits (upd_resv r g p) = p_limits p"
  "p_limits (upd_ret t h p) = p_limits p" "p_limits (upd_lease l i p) = p_limits p"
  "p_limits (upd_adm a j p) = p_limits p"
  by (simp_all add: upd_conn_def upd_resv_def upd_ret_def upd_lease_def upd_adm_def)

lemma limits_helpers [simp]:
  "p_limits (signalTCPDrainedLocked t p) = p_limits p"
  "p_limits (finalizeRetirementLocked c p) = p_limits p"
  "p_limits (snd (clientSliceLocked rng p)) = p_limits p"
  by (simp_all add: signalTCPDrainedLocked_def finalizeRetirementLocked_def clientSliceLocked_def Let_def
      split: option.splits)

lemma limits_registration [simp]:
  "p_limits (snd (beginPending p)) = p_limits p" "p_limits (snd (BeginPending p)) = p_limits p"
  "p_limits (snd (Reservation_Reserve r e p)) = p_limits p" "p_limits (snd (Abort r p)) = p_limits p"
  "p_limits (snd (pool_Commit r p)) = p_limits p"
  by (auto simp: beginPending_def BeginPending_def Reservation_Reserve_def Abort_def pool_Commit_def Let_def
      split: option.splits)

lemma limits_add [simp]:
  "p_limits (snd (pool_Reserve e p)) = p_limits p" "p_limits (snd (Add e p)) = p_limits p"
proof -
  show reserve: "p_limits (snd (pool_Reserve e q)) = p_limits q" for q
    by (simp add: pool_Reserve_def split_beta split: sum.split option.split)
  show "p_limits (snd (Add e p)) = p_limits p"
    by (simp add: Add_def reserve split_beta split: sum.split option.split)
qed

lemma limits_retire [simp]:
  "p_limits (snd (BeginRetire e p)) = p_limits p" "p_limits (snd (Done d p)) = p_limits p"
  "p_limits (snd (TCPDrained_recv t p)) = p_limits p" "p_limits (snd (Remove e p)) = p_limits p"
proof -
  show retire: "p_limits (snd (BeginRetire e p)) = p_limits p"
    by (simp add: BeginRetire_def Let_def)
  show owner: "p_limits (snd (Done d q)) = p_limits q" for d q
    by (simp add: Done_def Let_def split: option.split)
  show "p_limits (snd (TCPDrained_recv t p)) = p_limits p"
    by (simp add: TCPDrained_recv_def split: list.split)
  show "p_limits (snd (Remove e p)) = p_limits p"
    by (simp add: Remove_def retire owner split_beta split: option.split)
qed

lemma limits_traffic [simp]:
  "p_limits (snd (ReserveUDP rng p)) = p_limits p" "p_limits (snd (ReleaseUDP e p)) = p_limits p"
  "p_limits (snd (BeginTCPAdmission rng p)) = p_limits p" "p_limits (balanceAdmission a p) = p_limits p"
  "p_limits (RecordStream l sid env p) = p_limits p" "p_limits (snd (lease_Commit l p)) = p_limits p"
  "p_limits (snd (lease_Release l p)) = p_limits p" "p_limits (snd (MarkHealthy e p)) = p_limits p"
  "p_limits (snd (MarkUnhealthy e p)) = p_limits p"
  by (simp_all add: ReserveUDP_def ReleaseUDP_def BeginTCPAdmission_def balanceAdmission_def RecordStream_def
      lease_Commit_def lease_Release_def MarkHealthy_def MarkUnhealthy_def Let_def split_beta
      split: option.split sum.split tcpLeaseState.split)

lemma limits_next [simp]: "p_limits (snd (Next a p)) = p_limits p"
  by (simp add: Next_def Let_def split_beta split: option.split)

lemma pool_reach_limits:
  assumes "pool_reach b lim p"
  shows "p_limits p = lim"
  using assms
proof (induction rule: pool_reach.induct)
  case start
  show ?case by (simp add: NewWithLimits_def)
next
  case (step p op)
  then show ?case by (cases op) simp_all
qed

section \<open>Properties\<close>

text \<open>A short run used by the witnesses: two clients register, one TCP lease is taken and
  committed, and its generation retires while the lease is live.\<close>

definition demo_conn :: "string \<Rightarrow> ClientConn" where
  "demo_conn i = \<lparr>cc_ID = i, cc_LastHeartbeat = 0, cc_Capabilities = [''tcp'', ''udp''], cc_ActiveConns = 0,
     cc_TotalConns = 0, cc_tcpPending = 0, cc_tcpActive = 0, cc_udpSessions = 0, cc_tcpStreamID = 0,
     cc_tcpOpened = False, cc_healthy = False, cc_added = False\<rparr>"

definition demo_limits :: Limits where
  "demo_limits = \<lparr>MaxClientGenerations = 2, MaxPendingRegistrations = 2, MaxTCPConnectionsPerGeneration = 2,
     MaxPendingTCPSetupsPerGeneration = 1, MaxUDPSessionsPerGeneration = 1\<rparr>"

definition demo_start :: "pool_op list" where
  "demo_start = [CreateConn (demo_conn ''a''), CreateConn (demo_conn ''b''), DoAdd 0, DoAdd 1,
     DoBeginTCPAdmission (\<lambda>m. m)]"

definition demo_pool :: "pool_op list \<Rightarrow> ConnectionPool" where
  "demo_pool ops = pool_run ops (NewWithLimits [] LeastConnectionsBalancer demo_limits)"

lemma demo_reach:
  "run_valid ops (NewWithLimits [] LeastConnectionsBalancer demo_limits) \<Longrightarrow>
     pool_reach LeastConnectionsBalancer demo_limits (demo_pool ops)"
  unfolding demo_pool_def by (rule pool_run_reach [OF pool_reach.start])

lemma demo_limits_ok: "limits_ok demo_limits"
  by (simp add: limits_ok_def demo_limits_def)

definition demo_active :: "pool_op list" where
  "demo_active = demo_start @ [DoNext 0, DoRecordStream 0 4 [], DoLeaseCommit 0]"

definition demo_retired :: "pool_op list" where
  "demo_retired = demo_active @ [DoBeginRetire 0, DoDone 0]"

lemma demo_valid:
  "run_valid demo_start (NewWithLimits [] LeastConnectionsBalancer demo_limits)"
  "run_valid demo_active (NewWithLimits [] LeastConnectionsBalancer demo_limits)"
  "run_valid demo_retired (NewWithLimits [] LeastConnectionsBalancer demo_limits)"
  by code_simp+

lemmas demo_reaches = demo_valid [THEN demo_reach]

text \<open>C4: in every reachable pool the counters of a generation are the numbers of its pending and
  active TCP leases, the counter the balancer reads agrees with the active ones, and the pending
  registrations are the reservations neither committed nor aborted.\<close>

theorem pool_accounting:
  assumes "pool_reach b lim p" and "limits_ok lim"
  shows "p_serverPending p = int (length (filter (\<lambda>x. rs_state x = reservationPending \<or>
           rs_state x = reservationReserved) (p_resvs p))) \<and>
     (\<forall>c < length (p_conns p).
       cc_tcpPending (conn p c) = int (length (filter (\<lambda>l. le_conn l = c \<and> le_state l = tcpLeasePending) (p_leases p))) \<and>
       cc_tcpActive (conn p c) = int (length (filter (\<lambda>l. le_conn l = c \<and> le_state l = tcpLeaseActive) (p_leases p))) \<and>
       cc_ActiveConns (conn p c) = cc_tcpActive (conn p c))"
proof (rule conjI)
  note inv = pool_reach_inv [OF assms]
  show "p_serverPending p = int (length (filter (\<lambda>x. rs_state x = reservationPending \<or>
           rs_state x = reservationReserved) (p_resvs p)))"
    using inv by (simp add: pool_inv_def resv_ok_def is_open_def [abs_def])
qed (use pool_inv_parts(4) [OF pool_reach_inv [OF assms]] in \<open>unfold lease_ok_def leases_of_def, blast\<close>)

theorem pool_accounting_witness:
  "p_serverPending (demo_pool demo_active) = 0 \<and> cc_tcpActive (conn (demo_pool demo_active) 0) = 1"
proof -
  have "length (p_conns (demo_pool demo_active)) = 2" by code_simp
  moreover have "length (filter (\<lambda>l. le_conn l = 0 \<and> le_state l = tcpLeaseActive) (p_leases (demo_pool demo_active))) = 1"
    "length (filter (\<lambda>x. rs_state x = reservationPending \<or> rs_state x = reservationReserved)
       (p_resvs (demo_pool demo_active))) = 0"
    by code_simp+
  ultimately show ?thesis
    using pool_accounting [OF demo_reaches(2) demo_limits_ok] by simp
qed

text \<open>The generations a snapshot visits: every current and every retiring one, once.\<close>

lemma gens_distinct:
  assumes "pool_inv p" and "mset (rng (p_clients p)) = mset (p_clients p)"
  shows "distinct (map snd (rng (p_clients p)) @ map fst (p_retiring p))"
proof -
  note parts = pool_inv_parts [OF assms(1)]
  have "mset (map snd (rng (p_clients p))) = mset (map snd (p_clients p))"
    using assms(2) by simp
  with ids_ok_snd_distinct [OF parts(1)] have "distinct (map snd (rng (p_clients p)))"
    by (metis mset_eq_imp_distinct_iff)
  moreover have "distinct (map fst (p_retiring p))"
    using ret_okD(1) [OF parts(2)] by simp
  moreover have "c \<notin> snd ` set (p_clients p)" if "c \<in> fst ` set (p_retiring p)" for c
  proof -
    from that obtain t where "(c, t) \<in> set (p_retiring p)" by auto
    from ret_okD(3) [OF parts(2) this] ret_okD(4) [OF parts(2), of t] show ?thesis by auto
  qed
  ultimately show ?thesis
    using mset_eq_setD [OF assms(2)] by auto
qed

lemma gens_set:
  "mset (rng (p_clients p)) = mset (p_clients p) \<Longrightarrow>
     set (map snd (rng (p_clients p)) @ map fst (p_retiring p)) = snd ` set (p_clients p) \<union> fst ` set (p_retiring p)"
  using mset_eq_setD [of "rng (p_clients p)" "p_clients p"] by auto

lemma gens_lt:
  assumes "pool_inv p" and "c \<in> snd ` set (p_clients p) \<union> fst ` set (p_retiring p)"
  shows "c < length (p_conns p)"
  using assms(2)
proof
  assume "c \<in> fst ` set (p_retiring p)"
  then obtain t where t: "(c, t) \<in> set (p_retiring p)" by auto
  note ret = pool_inv_parts(2) [OF assms(1)]
  from ret_okD(3) [OF ret t] ret_okD(4) [OF ret, of t] show ?thesis by auto
qed (rule current_lt [OF assms(1)])

text \<open>Counting leases generation by generation misses none.\<close>

lemma sum_leases:
  assumes "distinct gens" and "\<And>l. l \<in> set L \<Longrightarrow> le_state l = st \<Longrightarrow> le_conn l \<in> set gens"
  shows "(\<Sum>c\<leftarrow>gens. leases_of L c st) = int (length (filter (\<lambda>l. le_state l = st) L))"
  using assms(2)
proof (induction L)
  case Nil
  show ?case by (simp add: leases_of_def)
next
  case (Cons l L)
  have split: "leases_of (l # L) c st = (if c = le_conn l \<and> le_state l = st then 1 else 0) + leases_of L c st" for c
    by (simp add: leases_of_def)
  have one: "(\<Sum>c\<leftarrow>gens. if c = le_conn l \<and> le_state l = st then 1 else 0 :: int) = (if le_state l = st then 1 else 0)"
    using assms(1) Cons.prems by (simp add: sum_list_distinct_conv_sum_set)
  show ?case
    using Cons unfolding split sum_list_addf one by simp
qed

lemma lease_gen:
  assumes "pool_inv p" and "l \<in> set (p_leases p)" and "le_state l = tcpLeasePending \<or> le_state l = tcpLeaseActive"
  shows "le_conn l \<in> snd ` set (p_clients p) \<union> fst ` set (p_retiring p)"
proof -
  note parts = pool_inv_parts [OF assms(1)]
  from assms(2) obtain i where i: "i < length (p_leases p)" "l = p_leases p ! i"
    by (metis in_set_conv_nth)
  note lt = lease_okD(1) [OF parts(4) i(1)]
  have "\<not> idle (conn p (le_conn l))"
    using leases_of_pos [OF i(1) refl refl] lease_okD(2,3) [OF parts(4) lt] assms(3) i(2) by (auto simp: idle_def)
  then show ?thesis
    using parts(3) lt i(2) unfolding traffic_ok_def by blast
qed

lemma foldl_max: "foldl (\<lambda>m c. max m (f c)) a cs \<le> (B::int) \<longleftrightarrow> a \<le> B \<and> (\<forall>c \<in> set cs. f c \<le> B)"
  by (induction cs arbitrary: a) auto

text \<open>C35: a capacity snapshot of a reachable pool counts every live TCP lease exactly once, whichever
  generation holds it, current or retiring, and in whichever order the map is visited.\<close>

theorem snapshot_counts_leases:
  assumes "pool_reach b lim p" and "limits_ok lim" and "mset (rng (p_clients p)) = mset (p_clients p)"
  shows "cs_TCPPending (pool_Snapshot rng p) = int (length (filter (\<lambda>l. le_state l = tcpLeasePending) (p_leases p))) \<and>
    cs_TCPActive (pool_Snapshot rng p) = int (length (filter (\<lambda>l. le_state l = tcpLeaseActive) (p_leases p)))"
proof -
  let ?gens = "map snd (rng (p_clients p)) @ map fst (p_retiring p)"
  note inv = pool_reach_inv [OF assms(1,2)]
  note gens = gens_distinct [of p rng, OF inv assms(3)] gens_set [of rng p, OF assms(3)]
  have lt: "c < length (p_conns p)" if "c \<in> set ?gens" for c
    using gens_lt [OF inv] that unfolding gens(2) by blast
  have "(\<Sum>c\<leftarrow>?gens. cc_tcpPending (conn p c)) = (\<Sum>c\<leftarrow>?gens. leases_of (p_leases p) c tcpLeasePending)"
    "(\<Sum>c\<leftarrow>?gens. cc_tcpActive (conn p c)) = (\<Sum>c\<leftarrow>?gens. leases_of (p_leases p) c tcpLeaseActive)"
    using lease_okD(2,3) [OF pool_inv_parts(4) [OF inv]] lt by (intro arg_cong [of _ _ sum_list] map_cong; blast)+
  moreover have "le_conn l \<in> set ?gens" if "l \<in> set (p_leases p)" "le_state l = tcpLeasePending \<or> le_state l = tcpLeaseActive" for l
    using lease_gen [OF inv that] unfolding gens(2) .
  ultimately have "(\<Sum>c\<leftarrow>?gens. cc_tcpPending (conn p c)) = int (length (filter (\<lambda>l. le_state l = tcpLeasePending) (p_leases p)))"
    "(\<Sum>c\<leftarrow>?gens. cc_tcpActive (conn p c)) = int (length (filter (\<lambda>l. le_state l = tcpLeaseActive) (p_leases p)))"
    using sum_leases [OF gens(1)] by metis+
  then show ?thesis
    by (simp add: pool_Snapshot_def Let_def)
qed

theorem snapshot_counts_leases_witness:
  "cs_TCPActive (pool_Snapshot rev (demo_pool demo_retired)) = 1"
proof -
  have "length (filter (\<lambda>l. le_state l = tcpLeaseActive) (p_leases (demo_pool demo_retired))) = 1"
    by code_simp
  then show ?thesis
    using snapshot_counts_leases [OF demo_reaches(3) demo_limits_ok, of rev] by simp
qed

text \<open>C28: the limits hold in every reachable pool: each figure of the snapshot is at most its
  high-water mark, which is at most the configured limit.\<close>

theorem capacity_within_limits:
  assumes "pool_reach b lim p" and "limits_ok lim" and "mset (rng (p_clients p)) = mset (p_clients p)"
    and "s \<in> {cs_PendingRegistrations (pool_Snapshot rng p), cs_ClientGenerations (pool_Snapshot rng p),
      cs_TCPConnectionsPerGeneration (pool_Snapshot rng p), cs_PendingTCPSetupsPerGeneration (pool_Snapshot rng p),
      cs_UDPSessionsPerGeneration (pool_Snapshot rng p)}"
  shows "ls_Current s \<le> ls_HighWater s \<and> ls_HighWater s \<le> ls_Limit s"
proof -
  let ?gens = "map snd (rng (p_clients p)) @ map fst (p_retiring p)"
  note inv = pool_reach_inv [OF assms(1,2)]
  note caps = pool_inv_parts(5) [OF inv]
  have lt: "c < length (p_conns p)" if "c \<in> set ?gens" for c
    using gens_lt [OF inv] that unfolding gens_set [of rng p, OF assms(3)] by blast
  have high: "foldl (\<lambda>m c. max m (f c)) 0 ?gens \<le> h" if "0 \<le> h" "\<And>c. c < length (p_conns p) \<Longrightarrow> f c \<le> h"
    for f :: "nat \<Rightarrow> int" and h
    unfolding foldl_max using that lt by blast
  have "0 \<le> highWater (p_tcpConnections p)" "0 \<le> highWater (p_pendingTCPSetups p)" "0 \<le> highWater (p_udpSessions p)"
    using caps by (simp_all add: caps_ok_def)
  note highs = this [THEN high]
  have "foldl (\<lambda>m c. max m (cc_tcpPending (conn p c) + cc_tcpActive (conn p c))) 0 ?gens \<le> highWater (p_tcpConnections p)"
    "foldl (\<lambda>m c. max m (cc_tcpPending (conn p c))) 0 ?gens \<le> highWater (p_pendingTCPSetups p)"
    "foldl (\<lambda>m c. max m (cc_udpSessions (conn p c))) 0 ?gens \<le> highWater (p_udpSessions p)"
    using caps_okD [OF caps] by (intro highs; simp add: tcp_load_def)+
  moreover have "highWater (p_tcpConnections p) \<le> MaxTCPConnectionsPerGeneration (p_limits p)"
    "highWater (p_pendingTCPSetups p) \<le> MaxPendingTCPSetupsPerGeneration (p_limits p)"
    "highWater (p_udpSessions p) \<le> MaxUDPSessionsPerGeneration (p_limits p)"
    using caps by (simp_all add: caps_ok_def)
  moreover have "within (p_serverPending p) (MaxPendingRegistrations (p_limits p)) (p_pendingRegistrations p)"
    "within (clientGenerationCountLocked p) (MaxClientGenerations (p_limits p)) (p_clientGenerations p)"
    using inv by (simp_all add: pool_inv_def)
  ultimately show ?thesis
    using assms(4) by (auto simp: pool_Snapshot_def Let_def capacity_snapshot_def within_def simp del: foldl_append)
qed

theorem capacity_within_limits_witness:
  "ls_HighWater (cs_ClientGenerations (pool_Snapshot rev (demo_pool demo_retired))) \<le> 2"
proof -
  have "ls_Limit (cs_ClientGenerations (pool_Snapshot rev (demo_pool demo_retired))) = 2"
    by code_simp
  then show ?thesis
    using capacity_within_limits [OF demo_reaches(3) demo_limits_ok, of rev
        "cs_ClientGenerations (pool_Snapshot rev (demo_pool demo_retired))"] by simp
qed

text \<open>C11: an ID names at most one current generation, which carries that ID, and a generation that
  began to retire is never current again; until its owner is done and its traffic is gone it still
  counts against the generation limit.\<close>

theorem retired_never_current:
  assumes "pool_reach b lim p" and "limits_ok lim" and "t < length (p_rets p)" and "c = rt_conn (p_rets p ! t)"
  shows "Get i p \<noteq> Some c \<and> (\<forall>d. Get i p = Some d \<longrightarrow> cc_ID (conn p d) = i \<and> isCurrentLocked p (Some d)) \<and>
    (map_of (p_retiring p) c = Some t \<or> rt_done (p_rets p ! t) \<and> cc_tcpPending (conn p c) = 0 \<and>
       cc_tcpActive (conn p c) = 0 \<and> cc_udpSessions (conn p c) = 0)"
proof -
  note parts = pool_inv_parts [OF pool_reach_inv [OF assms(1,2)]]
  note ret = ret_okD(4) [OF parts(2) assms(3)]
  have mem: "d \<in> snd ` set (p_clients p)" if "Get i p = Some d" for d
    using that map_of_SomeD [of "p_clients p" i d] by (force simp: Get_def)
  have "cc_ID (conn p d) = i \<and> isCurrentLocked p (Some d)" if "Get i p = Some d" for d
    using ids_okD(2) [OF parts(1) map_of_SomeD] isCurrent_mem [OF parts(1)] mem [OF that] that
    by (simp add: Get_def)
  with ret mem show ?thesis
    unfolding assms(4) by (auto simp: idle_def)
qed

theorem retired_never_current_witness:
  "Get ''a'' (demo_pool demo_retired) \<noteq> Some 0 \<and> map_of (p_retiring (demo_pool demo_retired)) 0 = Some 0"
proof -
  have "0 < length (p_rets (demo_pool demo_retired))" "0 = rt_conn (p_rets (demo_pool demo_retired) ! 0)"
    and live: "cc_tcpActive (conn (demo_pool demo_retired) 0) = 1"
    by code_simp+
  from retired_never_current [OF demo_reaches(3) demo_limits_ok this(1,2)] live show ?thesis
    by simp
qed

text \<open>C26: \<open>Next\<close> hands out a pending lease only on a candidate of the admission that is, at that moment,
  current, healthy, capable of TCP and below both per-generation limits, and it counts the lease there.\<close>

theorem next_lease_usable:
  assumes "pool_reach b lim p" and "limits_ok lim" and "a < length (p_adms p)"
    and "Next (Some a) p = (Inr (Some l), p')"
  shows "\<exists>c \<in> set (ad_candidates (p_adms p ! a)). lease_Client (Some l) p' = Some c \<and>
     le_state (p_leases p' ! l) = tcpLeasePending \<and> IsCurrentEligible (Some c) ''tcp'' p \<and>
     cc_tcpPending (conn p c) + cc_tcpActive (conn p c) < MaxTCPConnectionsPerGeneration lim \<and>
     cc_tcpPending (conn p c) < MaxPendingTCPSetupsPerGeneration lim \<and>
     cc_tcpPending (conn p' c) = cc_tcpPending (conn p c) + 1"
proof -
  note inv = pool_reach_inv [OF assms(1,2)]
  from assms(3) pool_inv_parts(7) [OF inv] show ?thesis
  proof (cases rule: Next_cases)
    case (none r d d' b x)
    with assms(4) show ?thesis by simp
  next
    case (lease c b x k)
    then have "c < length (p_conns p)"
      using isCurrent_mem [OF pool_inv_parts(1) [OF inv]] current_lt [OF inv] by (simp add: usable_def)
    with lease assms(4) pool_reach_limits [OF assms(1)] show ?thesis
      by (intro bexI [of _ c])
        (auto simp: lease_Client_def IsCurrentEligible_def usable_def tcpCapacityErrorLocked_def split: if_splits)
  qed
qed

theorem next_lease_usable_witness:
  "\<exists>c \<in> {0, 1}. IsCurrentEligible (Some c) ''tcp'' (demo_pool demo_start)"
proof -
  have a: "0 < length (p_adms (demo_pool demo_start))" "set (ad_candidates (p_adms (demo_pool demo_start) ! 0)) = {0, 1}"
    and "fst (Next (Some 0) (demo_pool demo_start)) = Inr (Some 0)"
    by code_simp+
  then have "Next (Some 0) (demo_pool demo_start) = (Inr (Some 0), snd (Next (Some 0) (demo_pool demo_start)))"
    by (metis prod.collapse)
  from next_lease_usable [OF demo_reaches(1) demo_limits_ok a(1) this] a(2) show ?thesis
    by blast
qed

text \<open>C27: \<open>ReserveUDP\<close> succeeds exactly when no accounting fault is recorded and a current client is healthy, capable of
  UDP and has a free session; the session is counted on such a client, and on no other. After a fault it is refused
  with nothing changed, and the balancer never answers outside the candidates it was given.\<close>

theorem reserve_udp_complete:
  assumes "pool_reach b lim p" and "limits_ok lim" and "mset (rng (p_clients p)) = mset (p_clients p)"
    and "MaxClientGenerations lim < 2 ^ 63"
  shows "((\<exists>c. fst (ReserveUDP rng p) = Inr c) \<longleftrightarrow> p_accountingFaults p = 0 \<and>
      (\<exists>c. IsCurrentEligible (Some c) ''udp'' p \<and> cc_udpSessions (conn p c) < MaxUDPSessionsPerGeneration lim)) \<and>
    (\<forall>c. fst (ReserveUDP rng p) = Inr c \<longrightarrow> IsCurrentEligible (Some c) ''udp'' p \<and>
       cc_udpSessions (conn (snd (ReserveUDP rng p)) c) = cc_udpSessions (conn p c) + 1 \<and>
       cc_udpSessions (conn (snd (ReserveUDP rng p)) c) \<le> MaxUDPSessionsPerGeneration lim \<and>
       (\<forall>d. d \<noteq> c \<longrightarrow> conn (snd (ReserveUDP rng p)) d = conn p d)) \<and>
    (p_accountingFaults p \<noteq> 0 \<longrightarrow> ReserveUDP rng p = (Inl ErrAccountingFault, p)) \<and>
    fst (ReserveUDP rng p) \<noteq> Inl OutsideUDPCandidates"
proof -
  note inv = pool_reach_inv [OF assms(1,2)] and lim = pool_reach_limits [OF assms(1)]
  note current = isCurrent_mem [OF pool_inv_parts(1) [OF inv]]
  let ?el = "snd (udpCandidates rng p)"
  have sound: "IsCurrentEligible (Some c) ''udp'' p \<and>
       cc_udpSessions (conn (snd (ReserveUDP rng p)) c) = cc_udpSessions (conn p c) + 1 \<and>
       cc_udpSessions (conn p c) < MaxUDPSessionsPerGeneration lim"
    if "fst (ReserveUDP rng p) = Inr c" for c
    using inv assms(3)
  proof (cases rule: ReserveUDP_cases)
    case (refused e b d)
    with that show ?thesis by simp
  next
    case (session d b)
    with that current current_lt [OF inv session(1)] lim show ?thesis
      by (auto simp: IsCurrentEligible_def)
  qed
  have "within (clientGenerationCountLocked p) (MaxClientGenerations lim) (p_clientGenerations p)"
    using inv by (simp add: pool_inv_def lim)
  then have "length (p_clients p) < 2 ^ 64"
    using assms(4) by (simp add: within_def clientGenerationCountLocked_def)
  moreover have "length ?el \<le> length (p_clients p)"
    using mset_eq_length [OF assms(3)] length_filter_le [of _ "map snd (rng (p_clients p))"]
    by (simp add: udpCandidates_def Let_def)
  ultimately have small: "length ?el < 2 ^ 64" by simp
  have healthy: "\<forall>c \<in> set ?el. cc_healthy (conn p c)"
    by (auto simp: udpCandidates_def Let_def isEligible_def split: if_splits)
  have complete: "\<exists>d. fst (ReserveUDP rng p) = Inr d" if some: "?el \<noteq> []" and ok: "p_accountingFaults p = 0"
  proof -
    obtain d where d: "d \<in> set ?el" "fst (Select (p_balancer p) (p_conns p) ?el) = Inr d"
      using balancer.select_healthy [OF some healthy small] by blast
    have "p_clients p \<noteq> []" "fst (udpCandidates rng p)"
      using some mset_eq_length [OF assms(3)] by (auto simp: udpCandidates_def Let_def filter_empty_conv)
    with d ok show ?thesis
      by (auto simp: ReserveUDP_def Let_def split_beta)
  qed
  have "?el \<noteq> []" if "IsCurrentEligible (Some c) ''udp'' p"
    "cc_udpSessions (conn p c) < MaxUDPSessionsPerGeneration lim" for c
  proof -
    have "c \<in> snd ` set (p_clients p)"
      using that(1) current by (simp add: IsCurrentEligible_def)
    then have "c \<in> set ?el"
      using that lim mset_eq_setD [OF assms(3)] by (auto simp: udpCandidates_def Let_def IsCurrentEligible_def)
    then show ?thesis by auto
  qed
  moreover have ok: "p_accountingFaults p = 0" if "fst (ReserveUDP rng p) = Inr c" for c
    using that by (cases "p_accountingFaults p = 0") (simp_all add: ReserveUDP_def)
  ultimately have iff: "(\<exists>c. fst (ReserveUDP rng p) = Inr c) \<longleftrightarrow> p_accountingFaults p = 0 \<and>
      (\<exists>c. IsCurrentEligible (Some c) ''udp'' p \<and> cc_udpSessions (conn p c) < MaxUDPSessionsPerGeneration lim)"
    using sound complete by blast
  have "fst (ReserveUDP rng p) \<noteq> Inl OutsideUDPCandidates"
  proof (cases "?el = [] \<or> p_accountingFaults p \<noteq> 0")
    case True
    then show ?thesis by (auto simp: ReserveUDP_def split_beta)
  qed (use complete in force)
  moreover have "cc_udpSessions (conn (snd (ReserveUDP rng p)) c) \<le> MaxUDPSessionsPerGeneration lim"
    if "fst (ReserveUDP rng p) = Inr c" for c
    using sound [OF that] by linarith
  moreover have "conn (snd (ReserveUDP rng p)) d = conn p d" if "fst (ReserveUDP rng p) = Inr c" "d \<noteq> c" for c d
    using that by (auto simp: ReserveUDP_def Let_def split_beta upd_conn_def split: if_splits sum.splits)
  moreover have "ReserveUDP rng p = (Inl ErrAccountingFault, p)" if "p_accountingFaults p \<noteq> 0"
    using that by (simp add: ReserveUDP_def)
  ultimately show ?thesis
    using sound iff by blast
qed

theorem reserve_udp_complete_witness:
  "\<exists>c. fst (ReserveUDP rev (demo_pool demo_retired)) = Inr c \<and> IsCurrentEligible (Some c) ''udp'' (demo_pool demo_retired)"
proof -
  have "p_accountingFaults (demo_pool demo_retired) = 0" "MaxClientGenerations demo_limits < 2 ^ 63"
    "IsCurrentEligible (Some 1) ''udp'' (demo_pool demo_retired)"
    "cc_udpSessions (conn (demo_pool demo_retired) 1) < MaxUDPSessionsPerGeneration demo_limits"
    by code_simp+
  then show ?thesis
    using reserve_udp_complete [OF demo_reaches(3) demo_limits_ok, of rev] by fastforce
qed

text \<open>C36: registering a client through \<open>Add\<close> succeeds exactly when the pool has no accounting fault, a
  pending slot and a generation slot are free, the ID is set and neither current nor reserved, and
  the generation was never added. Success makes the generation current and healthy; a refusal
  leaves the registered clients, the reservations and the pending count as they were.\<close>

theorem add_outcome:
  assumes "pool_reach b lim p" and "c < length (p_conns p)" and "i = cc_ID (conn p c)"
  shows "(fst (Add (Some c) p) = None \<longleftrightarrow> p_accountingFaults p = 0 \<and>
       p_serverPending p < MaxPendingRegistrations lim \<and> i \<noteq> [] \<and> Get i p = None \<and>
       map_of (p_reservations p) i = None \<and> \<not> cc_added (conn p c) \<and>
       clientGenerationCountLocked p < MaxClientGenerations lim) \<and>
     (if fst (Add (Some c) p) = None
      then Get i (snd (Add (Some c) p)) = Some c \<and> isCurrentLocked (snd (Add (Some c) p)) (Some c) \<and>
        cc_healthy (conn (snd (Add (Some c) p)) c) \<and> Count (snd (Add (Some c) p)) = Count p + 1
      else p_clients (snd (Add (Some c) p)) = p_clients p \<and> p_conns (snd (Add (Some c) p)) = p_conns p) \<and>
     p_serverPending (snd (Add (Some c) p)) = p_serverPending p \<and>
     map_of (p_reservations (snd (Add (Some c) p))) = map_of (p_reservations p)"
proof -
  note lim = pool_reach_limits [OF assms(1)]
  have gen: "clientGenerationCountLocked (p\<lparr>p_serverPending := n, p_pendingRegistrations := s, p_resvs := R\<rparr>) =
      clientGenerationCountLocked p" for n s R
    by (simp add: clientGenerationCountLocked_def)
  have restore: "map_of (p_reservations p) i = None \<Longrightarrow>
      (map_of (AList.update i r (p_reservations p)))(i := None) = map_of (p_reservations p)" for r
    by (rule ext) (simp add: update_conv')
  show ?thesis
    using assms(2) restore unfolding assms(3)
    by (simp add: Add_def pool_Reserve_def beginPending_def Reservation_Reserve_def pool_Commit_def Abort_def
        Let_def upd_resv_def upd_conn_def gen lim Get_def isCurrentLocked_def Count_def update_conv' delete_conv'
        length_update_new)
qed

theorem add_outcome_witness:
  "fst (Add (Some 1) (demo_pool (take 3 demo_start))) = None \<and>
   Get ''b'' (snd (Add (Some 1) (demo_pool (take 3 demo_start)))) = Some 1"
proof -
  let ?p = "demo_pool (take 3 demo_start)"
  have "run_valid (take 3 demo_start) (NewWithLimits [] LeastConnectionsBalancer demo_limits)"
    "1 < length (p_conns ?p)" "''b'' = cc_ID (conn ?p 1)"
    and free: "p_accountingFaults ?p = 0 \<and> p_serverPending ?p < MaxPendingRegistrations demo_limits \<and>
      Get ''b'' ?p = None \<and> map_of (p_reservations ?p) ''b'' = None \<and> \<not> cc_added (conn ?p 1) \<and>
      clientGenerationCountLocked ?p < MaxClientGenerations demo_limits"
    by code_simp+
  from add_outcome [OF demo_reach [OF this(1)] this(2,3)] free show ?thesis
    by (auto split: if_splits)
qed

text \<open>A released lease stays released whatever is called next.\<close>

lemma leases_upd [simp]:
  "p_leases (upd_conn c f p) = p_leases p" "p_leases (upd_resv r g p) = p_leases p"
  "p_leases (upd_ret t h p) = p_leases p" "p_leases (upd_adm a j p) = p_leases p"
  by (simp_all add: upd_conn_def upd_resv_def upd_ret_def upd_adm_def)

lemma leases_helpers [simp]:
  "p_leases (signalTCPDrainedLocked t p) = p_leases p"
  "p_leases (finalizeRetirementLocked c p) = p_leases p"
  "p_leases (snd (clientSliceLocked rng p)) = p_leases p"
  by (simp_all add: signalTCPDrainedLocked_def finalizeRetirementLocked_def clientSliceLocked_def Let_def
      split: option.splits)

lemma leases_registration [simp]:
  "p_leases (snd (beginPending p)) = p_leases p" "p_leases (snd (BeginPending p)) = p_leases p"
  "p_leases (snd (Reservation_Reserve r e p)) = p_leases p" "p_leases (snd (Abort r p)) = p_leases p"
  "p_leases (snd (pool_Commit r p)) = p_leases p"
  by (auto simp: beginPending_def BeginPending_def Reservation_Reserve_def Abort_def pool_Commit_def Let_def
      split: option.splits)

lemma leases_add [simp]:
  "p_leases (snd (pool_Reserve e p)) = p_leases p" "p_leases (snd (Add e p)) = p_leases p"
proof -
  show reserve: "p_leases (snd (pool_Reserve e q)) = p_leases q" for q
    by (simp add: pool_Reserve_def split_beta split: sum.split option.split)
  show "p_leases (snd (Add e p)) = p_leases p"
    by (simp add: Add_def reserve split_beta split: sum.split option.split)
qed

lemma leases_retire [simp]:
  "p_leases (snd (BeginRetire e p)) = p_leases p" "p_leases (snd (Done d p)) = p_leases p"
  "p_leases (snd (TCPDrained_recv t p)) = p_leases p" "p_leases (snd (Remove e p)) = p_leases p"
proof -
  show retire: "p_leases (snd (BeginRetire e p)) = p_leases p"
    by (simp add: BeginRetire_def Let_def)
  show owner: "p_leases (snd (Done d q)) = p_leases q" for d q
    by (simp add: Done_def Let_def split: option.split)
  show "p_leases (snd (TCPDrained_recv t p)) = p_leases p"
    by (simp add: TCPDrained_recv_def split: list.split)
  show "p_leases (snd (Remove e p)) = p_leases p"
    by (simp add: Remove_def retire owner split_beta split: option.split)
qed

lemma leases_traffic [simp]:
  "p_leases (snd (ReserveUDP rng p)) = p_leases p" "p_leases (snd (ReleaseUDP e p)) = p_leases p"
  "p_leases (snd (BeginTCPAdmission rng p)) = p_leases p" "p_leases (balanceAdmission a p) = p_leases p"
  "p_leases (RecordStream l sid env p) = p_leases p" "p_leases (snd (MarkHealthy e p)) = p_leases p"
  "p_leases (snd (MarkUnhealthy e p)) = p_leases p"
  by (simp_all add: ReserveUDP_def ReleaseUDP_def BeginTCPAdmission_def balanceAdmission_def RecordStream_def
      MarkHealthy_def MarkUnhealthy_def Let_def split_beta split: option.split sum.split)

lemma leases_next: "\<exists>ls. p_leases (snd (Next a p)) = p_leases p @ ls"
  by (simp add: Next_def Let_def split_beta split: option.split)

lemma lease_moves:
  "p_leases (snd (lease_Commit (Some l) p)) = (if le_state (p_leases p ! l) = tcpLeasePending
     then (p_leases p)[l := (p_leases p ! l)\<lparr>le_state := tcpLeaseActive\<rparr>] else p_leases p)"
  "p_leases (snd (lease_Release (Some l) p)) = (if le_state (p_leases p ! l) = tcpLeaseReleased
     then p_leases p else (p_leases p)[l := (p_leases p ! l)\<lparr>le_state := tcpLeaseReleased\<rparr>])"
  by (simp_all add: lease_Commit_def lease_Release_def Let_def upd_lease_def split: tcpLeaseState.split)

lemma released_step:
  assumes "l < length (p_leases p)" and "le_state (p_leases p ! l) = tcpLeaseReleased"
  shows "l < length (p_leases (pool_step op p)) \<and> le_state (p_leases (pool_step op p) ! l) = tcpLeaseReleased"
proof (cases op)
  case (DoNext a)
  with leases_next [of "Some a" p] assms show ?thesis by (auto simp: nth_append)
next
  case (DoLeaseCommit m)
  with assms show ?thesis by (cases "m = l") (simp_all add: lease_moves)
next
  case (DoLeaseRelease m)
  with assms show ?thesis by (cases "m = l") (simp_all add: lease_moves)
qed (use assms in simp_all)

lemma released_run:
  "l < length (p_leases p) \<Longrightarrow> le_state (p_leases p ! l) = tcpLeaseReleased \<Longrightarrow>
     l < length (p_leases (pool_run ops p)) \<and> le_state (p_leases (pool_run ops p) ! l) = tcpLeaseReleased"
  by (induction ops arbitrary: p) (simp_all add: released_step)

text \<open>C37: a lease gives its capacity back exactly once: the first \<open>Release\<close> reports success, and after any
  further calls another \<open>Release\<close> or \<open>Commit\<close> of it reports failure and changes nothing.\<close>

theorem release_once:
  assumes "l < length (p_leases p)" and "le_state (p_leases p ! l) \<noteq> tcpLeaseReleased"
    and "q = pool_run ops (snd (lease_Release (Some l) p))"
  shows "fst (lease_Release (Some l) p) \<and> lease_Release (Some l) q = (False, q) \<and> lease_Commit (Some l) q = (False, q)"
proof -
  have "le_state (p_leases q ! l) = tcpLeaseReleased"
    using released_run [of l "snd (lease_Release (Some l) p)" ops] assms by (simp add: lease_moves)
  then show ?thesis
    using assms(2) by (auto simp: lease_Release_def lease_Commit_def Let_def split: tcpLeaseState.splits)
qed

theorem release_once_witness:
  "fst (lease_Release (Some 0) (demo_pool demo_retired)) \<and>
   fst (lease_Release (Some 0) (pool_run [DoRemove 1] (snd (lease_Release (Some 0) (demo_pool demo_retired))))) = False"
proof -
  have "0 < length (p_leases (demo_pool demo_retired))"
    "le_state (p_leases (demo_pool demo_retired) ! 0) \<noteq> tcpLeaseReleased"
    by code_simp+
  from release_once [OF this refl, of "[DoRemove 1]"] show ?thesis
    by simp
qed

section \<open>The drain notification\<close>

text \<open>The messages a retirement's owner has taken from its channel in a run of the pool.\<close>

fun received :: "nat \<Rightarrow> pool_op list \<Rightarrow> ConnectionPool \<Rightarrow> int list" where
  "received t [] p = []"
| "received t (op # ops) p =
     (case op of
        DoTCPDrained u \<Rightarrow> (if u = t then (case fst (TCPDrained_recv u p) of None \<Rightarrow> [] | Some v \<Rightarrow> [v]) else [])
      | _ \<Rightarrow> []) @ received t ops (pool_step op p)"

definition fence_of :: "ClientConn \<Rightarrow> int" where
  "fence_of k = (if cc_tcpOpened k then cc_tcpStreamID k else - 1)"

abbreviation unsent :: "nat \<Rightarrow> Retirement" where
  "unsent c \<equiv> \<lparr>rt_conn = c, rt_done = False, rt_tcpDrained = [], rt_drainSent = False\<rparr>"

text \<open>A call leaves a retirement's channel alone or makes the one send into it.\<close>

definition advances :: "(nat \<Rightarrow> int) \<Rightarrow> Retirement \<Rightarrow> Retirement \<Rightarrow> bool" where
  "advances f x y \<longleftrightarrow> rt_conn y = rt_conn x \<and>
     (rt_drainSent y = rt_drainSent x \<and> rt_tcpDrained y = rt_tcpDrained x \<or>
      \<not> rt_drainSent x \<and> rt_drainSent y \<and> rt_tcpDrained y = rt_tcpDrained x @ [f (rt_conn x)])"

definition rets_advance :: "ConnectionPool \<Rightarrow> ConnectionPool \<Rightarrow> bool" where
  "rets_advance p q \<longleftrightarrow> length (p_rets p) \<le> length (p_rets q) \<and>
     (\<forall>t < length (p_rets q). advances (\<lambda>c. fence_of (conn q c))
        (if t < length (p_rets p) then p_rets p ! t else unsent (rt_conn (p_rets q ! t))) (p_rets q ! t))"

lemma advances_refl [simp]: "advances f x x"
  by (simp add: advances_def)

lemma rets_same: "p_rets q = p_rets p \<Longrightarrow> rets_advance p q"
  by (simp add: rets_advance_def)

lemma rets_cong:
  assumes "rets_advance q r" and "p_rets p = p_rets q" and "p_rets r' = p_rets r" and "p_conns r' = p_conns r"
  shows "rets_advance p r'"
  using assms(1) unfolding rets_advance_def assms(2-4) .

lemma rets_finalize [simp]:
  "p_rets (finalizeRetirementLocked c p) = p_rets p" "p_conns (finalizeRetirementLocked c p) = p_conns p"
  by (simp_all add: finalizeRetirementLocked_def split: option.split)

lemma rets_registration [simp]:
  "p_rets (snd (beginPending p)) = p_rets p" "p_rets (snd (BeginPending p)) = p_rets p"
  "p_rets (snd (Reservation_Reserve r e p)) = p_rets p" "p_rets (snd (Abort r p)) = p_rets p"
  "p_rets (snd (pool_Commit r p)) = p_rets p"
  by (auto simp: beginPending_def BeginPending_def Reservation_Reserve_def Abort_def pool_Commit_def Let_def
      upd_conn_def upd_resv_def split: option.splits)

lemma rets_add [simp]:
  "p_rets (snd (pool_Reserve e p)) = p_rets p" "p_rets (snd (Add e p)) = p_rets p"
proof -
  show reserve: "p_rets (snd (pool_Reserve e q)) = p_rets q" for q
    by (simp add: pool_Reserve_def split_beta split: sum.split option.split)
  show "p_rets (snd (Add e p)) = p_rets p"
    by (simp add: Add_def reserve split_beta split: sum.split option.split)
qed

lemma rets_traffic [simp]:
  "p_rets (snd (ReserveUDP rng p)) = p_rets p" "p_rets (snd (ReleaseUDP e p)) = p_rets p"
  "p_rets (snd (clientSliceLocked rng p)) = p_rets p"
  "p_rets (snd (BeginTCPAdmission rng p)) = p_rets p" "p_rets (balanceAdmission a p) = p_rets p"
  "p_rets (RecordStream l sid env p) = p_rets p" "p_rets (snd (lease_Commit l p)) = p_rets p"
  "p_rets (snd (MarkHealthy e p)) = p_rets p" "p_rets (snd (MarkUnhealthy e p)) = p_rets p"
  by (simp_all add: ReserveUDP_def ReleaseUDP_def clientSliceLocked_def BeginTCPAdmission_def balanceAdmission_def
      RecordStream_def lease_Commit_def MarkHealthy_def MarkUnhealthy_def Let_def split_beta upd_conn_def upd_adm_def
      upd_lease_def split: option.split sum.split tcpLeaseState.split)

lemma rets_next [simp]: "p_rets (snd (Next a p)) = p_rets p"
  by (simp add: Next_def Let_def split_beta upd_conn_def upd_adm_def split: option.split)

lemma nth_update_at: "j < length xs \<Longrightarrow> xs[i := x] ! j = (if i = j then x else xs ! j)"
  by simp

lemma signal_rets:
  "p_conns (signalTCPDrainedLocked (Some t) p) = p_conns p"
  "p_rets (signalTCPDrainedLocked (Some t) p) =
     (let x = p_rets p ! t; k = conn p (rt_conn x) in
      if rt_drainSent x \<or> cc_tcpPending k + cc_tcpActive k \<noteq> 0 then p_rets p
      else (p_rets p)[t := x\<lparr>rt_tcpDrained := rt_tcpDrained x @ [fence_of k], rt_drainSent := True\<rparr>])"
  by (simp_all add: signalTCPDrainedLocked_def fence_of_def Let_def upd_ret_def)

lemma signal_advance: "rets_advance p (signalTCPDrainedLocked tp p)"
proof (cases tp)
  case (Some t)
  then show ?thesis
    by (auto simp: rets_advance_def signal_rets Let_def nth_update_at advances_def)
qed (simp add: signalTCPDrainedLocked_def rets_same)

lemma BeginRetire_advance: "rets_advance p (snd (BeginRetire e p))"
proof (cases "isCurrentLocked p e")
  case True
  define q where "q = (upd_conn (the e) (\<lambda>k. k\<lparr>cc_healthy := False\<rparr>) p)\<lparr>
      p_clients := AList.delete (cc_ID (conn (upd_conn (the e) (\<lambda>k. k\<lparr>cc_healthy := False\<rparr>) p) (the e))) (p_clients p),
      p_rets := p_rets p @ [unsent (the e)], p_retiring := AList.update (the e) (length (p_rets p)) (p_retiring p),
      p_cachedClients := None\<rparr>"
  have "snd (BeginRetire e p) = signalTCPDrainedLocked (Some (length (p_rets p))) q"
    using True by (simp add: BeginRetire_def Let_def q_def upd_conn_def)
  moreover have q: "p_rets q = p_rets p @ [unsent (the e)]"
    by (simp add: q_def)
  ultimately show ?thesis
    by (auto simp: rets_advance_def signal_rets Let_def nth_update_at advances_def nth_append)
qed (simp add: BeginRetire_def rets_same)

lemma done_rets:
  "p_conns (snd (Done t q)) = p_conns q" "length (p_rets (snd (Done t q))) = length (p_rets q)"
  "u < length (p_rets q) \<Longrightarrow> rt_conn (p_rets (snd (Done t q)) ! u) = rt_conn (p_rets q ! u) \<and>
     rt_drainSent (p_rets (snd (Done t q)) ! u) = rt_drainSent (p_rets q ! u) \<and>
     rt_tcpDrained (p_rets (snd (Done t q)) ! u) = rt_tcpDrained (p_rets q ! u)"
  by (simp_all add: Done_def Let_def upd_ret_def nth_update_at split: option.split)

lemma Done_advance:
  assumes "rets_advance p q"
  shows "rets_advance p (snd (Done t q))"
  unfolding rets_advance_def done_rets(1,2)
proof (intro conjI allI impI)
  show "length (p_rets p) \<le> length (p_rets q)"
    using assms by (simp add: rets_advance_def)
  fix u
  assume u: "u < length (p_rets q)"
  show "advances (\<lambda>c. fence_of (conn q c))
      (if u < length (p_rets p) then p_rets p ! u else unsent (rt_conn (p_rets (snd (Done t q)) ! u)))
      (p_rets (snd (Done t q)) ! u)"
    using assms [unfolded rets_advance_def, THEN conjunct2, rule_format, OF u] done_rets(3) [OF u, of t]
    by (cases "u < length (p_rets p)") (simp_all add: advances_def)
qed

lemma lease_Release_advance: "rets_advance p (snd (lease_Release (Some l) p))"
proof -
  let ?c = "le_conn (p_leases p ! l)"
  have "rets_advance p (finalizeRetirementLocked ?c (signalTCPDrainedLocked rp q))"
    if "p_rets q = p_rets p" for q rp
    using signal_advance [of q rp] by (rule rets_cong) (simp_all add: that)
  then show ?thesis
    by (simp add: lease_Release_def Let_def upd_conn_def upd_lease_def rets_same split: tcpLeaseState.split)
qed

lemma step_advance:
  assumes "\<forall>t. op \<noteq> DoTCPDrained t"
  shows "rets_advance p (pool_step op p)"
proof (cases op)
  case (DoRemove c)
  then show ?thesis
    using BeginRetire_advance [of p "Some c"] Done_advance [of p "snd (BeginRetire (Some c) p)"]
    by (auto simp: Remove_def split_beta split: option.split)
qed (use assms in \<open>simp_all add: rets_same BeginRetire_advance Done_advance lease_Release_advance upd_conn_def\<close>)

lemma recv_step:
  assumes "u < length (p_rets p)"
  shows "length (p_rets (pool_step (DoTCPDrained u) p)) = length (p_rets p)"
    and "t < length (p_rets p) \<Longrightarrow> rt_drainSent (p_rets (pool_step (DoTCPDrained u) p) ! t) = rt_drainSent (p_rets p ! t)"
    and "t < length (p_rets p) \<Longrightarrow>
      received t [DoTCPDrained u] p @ rt_tcpDrained (p_rets (pool_step (DoTCPDrained u) p) ! t) = rt_tcpDrained (p_rets p ! t)"
    and "\<not> t < length (p_rets p) \<Longrightarrow> received t [DoTCPDrained u] p = []"
  using assms by (auto simp: TCPDrained_recv_def upd_ret_def nth_list_update split: list.split)

lemma received_snoc: "received t (ops @ [op]) p = received t ops p @ received t [op] (pool_run ops p)"
  by (induction ops arbitrary: p) simp_all

text \<open>What was received and what still waits is one message once it was sent, and none before.\<close>

lemma sent_once:
  assumes "run_valid ops (NewWithLimits [] b lim)" and "limits_ok lim" and "p = pool_run ops (NewWithLimits [] b lim)"
  shows "(t < length (p_rets p) \<longrightarrow>
       length (received t ops (NewWithLimits [] b lim) @ rt_tcpDrained (p_rets p ! t)) = of_bool (rt_drainSent (p_rets p ! t))) \<and>
     (\<not> t < length (p_rets p) \<longrightarrow> received t ops (NewWithLimits [] b lim) = [])"
  using assms(1,3)
proof (induction ops arbitrary: p rule: rev_induct)
  case Nil
  then show ?case by (simp add: NewWithLimits_def)
next
  case (snoc op ops)
  define q where "q = pool_run ops (NewWithLimits [] b lim)"
  have run: "run_valid (xs @ ys) r \<longleftrightarrow> run_valid xs r \<and> run_valid ys (pool_run xs r)"
    "pool_run (xs @ ys) r = pool_run ys (pool_run xs r)" for xs ys r
    by (induction xs arbitrary: r) simp_all
  have valid: "op_valid op q" and p: "p = pool_step op q" and prev: "run_valid ops (NewWithLimits [] b lim)"
    using snoc.prems by (simp_all add: run q_def)
  note IH = snoc.IH [OF prev q_def]
  show ?case
  proof (cases "\<exists>u. op = DoTCPDrained u")
    case True
    then obtain u where u: "op = DoTCPDrained u" "u < length (p_rets q)"
      using valid by auto
    note step = recv_step [OF u(2), folded u(1), folded p]
    show ?thesis
    proof (cases "t < length (p_rets q)")
      case True
      then have "length (received t [op] q) + length (rt_tcpDrained (p_rets p ! t)) = length (rt_tcpDrained (p_rets q ! t))"
        using step(3) by (metis length_append)
      then show ?thesis
        using True IH step(1) step(2) [OF True] unfolding received_snoc q_def [symmetric] length_append
        by (simp add: add.assoc del: received.simps)
    qed (use IH step(1,4) in \<open>simp add: received_snoc q_def [symmetric] del: received.simps\<close>)
  next
    case False
    then have "received t [op] q = []"
      by (cases op) simp_all
    with False IH step_advance [of op q] show ?thesis
      unfolding received_snoc q_def [symmetric] p by (auto simp: rets_advance_def advances_def split: if_splits)
  qed
qed

text \<open>C38: the drain notification of a retirement is sent exactly once, at the call that leaves its generation without
  a TCP lease. In every run, the messages its owner has received together with those waiting in the channel are one
  message if every lease of the generation is released and none otherwise, so the send under the lock always finds
  room in the channel of capacity one. When a call sends it (the release of the last lease, or the retirement of a
  generation without one), the channel holds the stream ID of the last opened stream, or -1 if none was opened.\<close>

theorem drain_notification:
  assumes "run_valid ops (NewWithLimits [] b lim)" and "limits_ok lim" and "p = pool_run ops (NewWithLimits [] b lim)"
  shows "(\<forall>t < length (p_rets p).
      let c = rt_conn (p_rets p ! t); drained = (\<forall>l \<in> set (p_leases p). le_conn l = c \<longrightarrow> le_state l = tcpLeaseReleased) in
      rt_drainSent (p_rets p ! t) = drained \<and>
      length (received t ops (NewWithLimits [] b lim) @ rt_tcpDrained (p_rets p ! t)) = (if drained then 1 else 0)) \<and>
    (\<forall>op t. op_valid op p \<and> t < length (p_rets (pool_step op p)) \<and> rt_drainSent (p_rets (pool_step op p) ! t) \<and>
       \<not> (t < length (p_rets p) \<and> rt_drainSent (p_rets p ! t)) \<longrightarrow>
       (let k = conn (pool_step op p) (rt_conn (p_rets (pool_step op p) ! t)) in
        rt_tcpDrained (p_rets (pool_step op p) ! t) = [if cc_tcpOpened k then cc_tcpStreamID k else - 1]))"
proof -
  have "pool_reach b lim p"
    using assms(1,3) pool_run_reach [OF pool_reach.start] by simp
  note parts = pool_inv_parts [OF pool_reach_inv [OF this assms(2)]]
  have n: "notified (cc_tcpPending (conn p c) + cc_tcpActive (conn p c)) (p_rets p ! t)"
    if "t < length (p_rets p)" "c = rt_conn (p_rets p ! t)" for t c
    using parts(6) that by (simp add: drain_ok_def)
  have sent: "rt_drainSent (p_rets p ! t) \<longleftrightarrow> (\<forall>l \<in> set (p_leases p). le_conn l = c \<longrightarrow> le_state l = tcpLeaseReleased)"
    if t: "t < length (p_rets p)" "c = rt_conn (p_rets p ! t)" for t c
  proof -
    have lt: "c < length (p_conns p)"
      using ret_okD(4) [OF parts(2) t(1)] t(2) by simp
    have "cc_tcpPending (conn p c) + cc_tcpActive (conn p c) = 0 \<longleftrightarrow>
        leases_of (p_leases p) c tcpLeasePending = 0 \<and> leases_of (p_leases p) c tcpLeaseActive = 0"
      unfolding lease_okD(2,3) [OF parts(4) lt]
      using leases_of_nonneg [of "p_leases p" c tcpLeasePending] leases_of_nonneg [of "p_leases p" c tcpLeaseActive]
      by linarith
    also have "\<dots> \<longleftrightarrow> (\<forall>l \<in> set (p_leases p). le_conn l = c \<longrightarrow> le_state l = tcpLeaseReleased)"
      unfolding leases_of_def by (auto simp: filter_empty_conv intro: tcpLeaseState.exhaust)
    finally show ?thesis
      using n [OF t] by (simp add: notified_def)
  qed
  have count: "length (received t ops (NewWithLimits [] b lim) @ rt_tcpDrained (p_rets p ! t)) =
      (if rt_drainSent (p_rets p ! t) then 1 else 0)" if "t < length (p_rets p)" for t
    using sent_once [OF assms(1,2,3), of t] that by simp
  have fence: "rt_tcpDrained (p_rets (pool_step op p) ! t) =
      [fence_of (conn (pool_step op p) (rt_conn (p_rets (pool_step op p) ! t)))]"
    if "op_valid op p" and t: "t < length (p_rets (pool_step op p))" "rt_drainSent (p_rets (pool_step op p) ! t)"
      "\<not> (t < length (p_rets p) \<and> rt_drainSent (p_rets p ! t))" for op t
  proof (cases "\<exists>u. op = DoTCPDrained u")
    case True
    with that recv_step(1) [of _ p] recv_step(2) [of _ p t] show ?thesis by auto
  next
    case False
    then have "rets_advance p (pool_step op p)"
      by (intro step_advance) blast
    moreover have "rt_tcpDrained (p_rets p ! t) = []" if "t < length (p_rets p)"
      using n [OF that refl] t(3) that by (simp add: notified_def split: if_splits)
    ultimately show ?thesis
      using t by (auto simp: rets_advance_def advances_def split: if_splits)
  qed
  show ?thesis
    using sent [OF _ refl] count fence unfolding Let_def fence_of_def by simp
qed

theorem drain_notification_witness:
  "rt_drainSent (p_rets (demo_pool demo_retired) ! 0) = False \<and>
   rt_tcpDrained (p_rets (pool_step (DoLeaseRelease 0) (demo_pool demo_retired)) ! 0) = [4] \<and>
   length (received 0 (demo_retired @ [DoLeaseRelease 0, DoTCPDrained 0]) (NewWithLimits [] LeastConnectionsBalancer demo_limits) @
     rt_tcpDrained (p_rets (demo_pool (demo_retired @ [DoLeaseRelease 0, DoTCPDrained 0])) ! 0)) = 1"
proof -
  let ?p0 = "NewWithLimits [] LeastConnectionsBalancer demo_limits" and ?drained = "demo_retired @ [DoLeaseRelease 0, DoTCPDrained 0]"
  have v: "run_valid demo_retired ?p0" "run_valid ?drained ?p0" "0 < length (p_rets (demo_pool demo_retired))"
    "op_valid (DoLeaseRelease 0) (demo_pool demo_retired)"
    by code_simp+
  have s: "0 < length (p_rets (pool_step (DoLeaseRelease 0) (demo_pool demo_retired)))"
    "rt_drainSent (p_rets (pool_step (DoLeaseRelease 0) (demo_pool demo_retired)) ! 0)"
    "\<not> rt_drainSent (p_rets (demo_pool demo_retired) ! 0)"
    "cc_tcpOpened (conn (pool_step (DoLeaseRelease 0) (demo_pool demo_retired))
       (rt_conn (p_rets (pool_step (DoLeaseRelease 0) (demo_pool demo_retired)) ! 0)))"
    "cc_tcpStreamID (conn (pool_step (DoLeaseRelease 0) (demo_pool demo_retired))
       (rt_conn (p_rets (pool_step (DoLeaseRelease 0) (demo_pool demo_retired)) ! 0))) = 4"
    by code_simp+
  have e: "0 < length (p_rets (demo_pool ?drained))" "rt_drainSent (p_rets (demo_pool ?drained) ! 0)"
    by code_simp+
  note first = drain_notification [OF v(1) demo_limits_ok, of "demo_pool demo_retired"]
    and last = drain_notification [OF v(2) demo_limits_ok, of "demo_pool ?drained"]
  have "rt_tcpDrained (p_rets (pool_step (DoLeaseRelease 0) (demo_pool demo_retired)) ! 0) = [4]"
    using first [THEN conjunct2, rule_format, of "DoLeaseRelease 0" 0] v(4) s
    by (simp add: demo_pool_def Let_def)
  moreover have "length (received 0 ?drained ?p0 @ rt_tcpDrained (p_rets (demo_pool ?drained) ! 0)) = 1"
    using last [THEN conjunct1, rule_format, OF _ e(1)] e(2) unfolding Let_def
    by (metis demo_pool_def)
  ultimately show ?thesis
    using s(3) by simp
qed

end
