(* ===== verification/Wire_Message.thy ===== *)
theory Wire_Message
  imports Prelude
begin

text \<open>
  The messages of the control protocol and the negotiation rules, \<^verbatim>\<open>protocol/message.go\<close>.

  The structs are records with the Go field names behind a prefix; a nil pointer is \<open>None\<close>.
  The validation functions return \<open>None\<close> for a nil error and otherwise the error as a value.
\<close>

section \<open>Messages\<close>

definition MsgTypeRegister :: byte where [qmux_defs]: "MsgTypeRegister = 0x01"
definition MsgTypeRegisterAck :: byte where [qmux_defs]: "MsgTypeRegisterAck = 0x02"
definition MsgTypeHeartbeat :: byte where [qmux_defs]: "MsgTypeHeartbeat = 0x03"
definition MsgTypeNewConn :: byte where [qmux_defs]: "MsgTypeNewConn = 0x04"
definition MsgTypeDrainRequest :: byte where [qmux_defs]: "MsgTypeDrainRequest = 0x05"
definition MsgTypeConnClose :: byte where [qmux_defs]: "MsgTypeConnClose = 0x06"
definition MsgTypeDrainComplete :: byte where [qmux_defs]: "MsgTypeDrainComplete = 0x07"
definition MsgTypeNewConnAck :: byte where [qmux_defs]: "MsgTypeNewConnAck = 0x08"
definition MsgTypeMeshRegister :: byte where [qmux_defs]: "MsgTypeMeshRegister = 0x09"
definition MsgTypeMeshRegisterAck :: byte where [qmux_defs]: "MsgTypeMeshRegisterAck = 0x0A"
definition MsgTypeMeshBegin :: byte where [qmux_defs]: "MsgTypeMeshBegin = 0x0B"
definition MsgTypeMeshChunk :: byte where [qmux_defs]: "MsgTypeMeshChunk = 0x0C"
definition MsgTypeMeshPath :: byte where [qmux_defs]: "MsgTypeMeshPath = 0x0D"
definition MsgTypeMeshWithdraw :: byte where [qmux_defs]: "MsgTypeMeshWithdraw = 0x0E"
definition MsgTypeMeshEnd :: byte where [qmux_defs]: "MsgTypeMeshEnd = 0x0F"
definition MsgTypeMeshReady :: byte where [qmux_defs]: "MsgTypeMeshReady = 0x10"
definition MsgTypeError :: byte where [qmux_defs]: "MsgTypeError = 0xFF"

record RegisterAuth =
  ra_Scheme :: string
  ra_Proof :: "byte list"

record RegisterMsg =
  rm_ClientID :: string
  rm_Version :: string
  rm_Capabilities :: "string list"
  rm_Auth :: "RegisterAuth option"

record RegisterAckMsg =
  rk_Success :: bool
  rk_Message :: string
  rk_ServerVersion :: string
  rk_SelectedCapabilities :: "string list"
  rk_SelectedAuthScheme :: string

definition MeshProtocolVersion :: string where [qmux_defs]: "MeshProtocolVersion = ''1.0''"
definition CapabilityMeshSessionV1 :: string where [qmux_defs]: "CapabilityMeshSessionV1 = ''mesh-session-v1''"
definition MeshRoleClient :: string where [qmux_defs]: "MeshRoleClient = ''client''"
definition MeshRolePeer :: string where [qmux_defs]: "MeshRolePeer = ''peer''"
definition MeshStateStaged :: string where [qmux_defs]: "MeshStateStaged = ''staged''"
definition MeshStateAccepted :: string where [qmux_defs]: "MeshStateAccepted = ''accepted''"

record MeshRegister =
  mr_Version :: string
  mr_Capabilities :: "string list"
  mr_Role :: string
  mr_TargetServerID :: string
  mr_PeerServerID :: string
  mr_InstanceID :: string
  mr_GroupID :: string
  mr_Auth :: "RegisterAuth option"

record MeshRegisterAck =
  mk_Success :: bool
  mk_Message :: string
  mk_State :: string
  mk_ServerID :: string
  mk_Role :: string
  mk_SelectedVersion :: string
  mk_SelectedCapabilities :: "string list"
  mk_SelectedAuthScheme :: string

text \<open>The remaining message structs; \<open>int64\<close> fields are HOL integers.\<close>

record NewConnMsg =
  nc_ConnID :: u64
  nc_Protocol :: string
  nc_SourceAddr :: string
  nc_DestAddr :: string
  nc_Timestamp :: int

record ConnCloseMsg =
  cl_ConnID :: u64
  cl_Reason :: string

record ErrorMsg =
  em_Code :: u32
  em_Message :: string

definition ProtocolVersion :: string where [qmux_defs]: "ProtocolVersion = ''2.0''"
definition CapabilityUDPWireV2 :: string where [qmux_defs]: "CapabilityUDPWireV2 = ''udp-wire-v2''"
definition CapabilityTCPDrainV1 :: string where [qmux_defs]: "CapabilityTCPDrainV1 = ''tcp-drain-v1''"

datatype message_error =
    IncompatibleVersion string string | MissingCapability string | RegistrationFailed string
  | AckAuthScheme string string | AckServerID string string | AckRole string string | AckState string
  | UnrequestedCapability string | CapabilityEmpty | DuplicateCapability string
  | VersionRequired | TargetServerIDRequired | ClientIdentityRequired | ClientCarriesPeer
  | PeerServerIDRequired | PeerCarriesClient | InvalidRole string | AckIdentityRequired
  | WrappedAck message_error | WrappedRequested message_error

section \<open>Negotiation\<close>

definition HasCapability :: "string list \<Rightarrow> string \<Rightarrow> bool" where
  "HasCapability capabilities capability \<longleftrightarrow> capability \<in> set capabilities"

definition ValidateRegistration :: "string \<Rightarrow> string list \<Rightarrow> message_error option" where
  "ValidateRegistration version capabilities =
     (if version \<noteq> ProtocolVersion then Some (IncompatibleVersion version ProtocolVersion)
      else if \<not> HasCapability capabilities CapabilityUDPWireV2 then Some (MissingCapability CapabilityUDPWireV2)
      else None)"

text \<open>The loop of \<open>SelectCapabilities\<close>: \<open>seen\<close> is the set already selected.\<close>

fun selectLoop :: "string list \<Rightarrow> string list \<Rightarrow> string list \<Rightarrow> string list \<Rightarrow> string list" where
  "selectLoop supported [] seen selected = selected"
| "selectLoop supported (capability # rest) seen selected =
     (if capability \<in> set seen then selectLoop supported rest seen selected
      else if HasCapability supported capability
      then selectLoop supported rest (capability # seen) (selected @ [capability])
      else selectLoop supported rest seen selected)"

definition SelectCapabilities :: "string list \<Rightarrow> string list \<Rightarrow> string list" where
  "SelectCapabilities requested supported = selectLoop supported requested [] []"

definition ValidateRegisterAck :: "RegisterAckMsg \<Rightarrow> message_error option" where
  "ValidateRegisterAck ack =
     (if \<not> rk_Success ack then Some (RegistrationFailed (rk_Message ack))
      else map_option WrappedAck (ValidateRegistration (rk_ServerVersion ack) (rk_SelectedCapabilities ack)))"

definition ValidateRegisterAckWithAuth :: "RegisterAckMsg \<Rightarrow> string \<Rightarrow> message_error option" where
  "ValidateRegisterAckWithAuth ack expectedAuthScheme =
     (case ValidateRegisterAck ack of Some err \<Rightarrow> Some err
      | None \<Rightarrow> if rk_SelectedAuthScheme ack \<noteq> expectedAuthScheme
                then Some (AckAuthScheme (rk_SelectedAuthScheme ack) expectedAuthScheme) else None)"

definition MeshCapabilities :: "string list" where
  "MeshCapabilities = [CapabilityMeshSessionV1]"

fun validateCapabilitiesLoop :: "string list \<Rightarrow> string list \<Rightarrow> message_error option" where
  "validateCapabilitiesLoop seen [] = None"
| "validateCapabilitiesLoop seen (capability # rest) =
     (if capability = [] then Some CapabilityEmpty
      else if capability \<in> set seen then Some (DuplicateCapability capability)
      else validateCapabilitiesLoop (capability # seen) rest)"

definition validateCapabilities :: "string list \<Rightarrow> message_error option" where
  "validateCapabilities capabilities = validateCapabilitiesLoop [] capabilities"

definition ValidateMeshRegistration :: "string \<Rightarrow> string list \<Rightarrow> message_error option" where
  "ValidateMeshRegistration version capabilities =
     (if version \<noteq> MeshProtocolVersion then Some (IncompatibleVersion version MeshProtocolVersion)
      else case validateCapabilities capabilities of Some err \<Rightarrow> Some err
      | None \<Rightarrow> if \<not> HasCapability capabilities CapabilityMeshSessionV1
                then Some (MissingCapability CapabilityMeshSessionV1) else None)"

fun unrequested :: "string list \<Rightarrow> string list \<Rightarrow> message_error option" where
  "unrequested requestedCapabilities [] = None"
| "unrequested requestedCapabilities (selected # rest) =
     (if \<not> HasCapability requestedCapabilities selected then Some (UnrequestedCapability selected)
      else unrequested requestedCapabilities rest)"

definition ValidateMeshRegisterAck :: "MeshRegisterAck \<Rightarrow> string \<Rightarrow> string \<Rightarrow> string \<Rightarrow> string list \<Rightarrow>
    message_error option" where
  "ValidateMeshRegisterAck ack expectedServerID expectedRole expectedAuthScheme requestedCapabilities =
     (if \<not> mk_Success ack then Some (RegistrationFailed (mk_Message ack))
      else if mk_ServerID ack \<noteq> expectedServerID then Some (AckServerID (mk_ServerID ack) expectedServerID)
      else if mk_Role ack \<noteq> expectedRole then Some (AckRole (mk_Role ack) expectedRole)
      else case ValidateMeshRegistration (mk_SelectedVersion ack) (mk_SelectedCapabilities ack) of
        Some err \<Rightarrow> Some (WrappedAck err)
      | None \<Rightarrow>
        if mk_SelectedAuthScheme ack \<noteq> expectedAuthScheme
        then Some (AckAuthScheme (mk_SelectedAuthScheme ack) expectedAuthScheme)
        else if mk_State ack \<noteq> MeshStateStaged \<and> mk_State ack \<noteq> MeshStateAccepted
        then Some (AckState (mk_State ack))
        else case validateCapabilities requestedCapabilities of
          Some err \<Rightarrow> Some (WrappedRequested err)
        | None \<Rightarrow> unrequested requestedCapabilities (mk_SelectedCapabilities ack))"

definition validateMeshRegisterShape :: "MeshRegister \<Rightarrow> message_error option" where
  "validateMeshRegisterShape r =
     (if mr_Version r = [] then Some VersionRequired
      else if mr_TargetServerID r = [] then Some TargetServerIDRequired
      else case validateCapabilities (mr_Capabilities r) of Some err \<Rightarrow> Some err
      | None \<Rightarrow>
        if mr_Role r = MeshRoleClient then
          (if mr_InstanceID r = [] \<or> mr_GroupID r = [] then Some ClientIdentityRequired
           else if mr_PeerServerID r \<noteq> [] then Some ClientCarriesPeer else None)
        else if mr_Role r = MeshRolePeer then
          (if mr_PeerServerID r = [] then Some PeerServerIDRequired
           else if mr_InstanceID r \<noteq> [] \<or> mr_GroupID r \<noteq> [] then Some PeerCarriesClient else None)
        else Some (InvalidRole (mr_Role r)))"

definition validateMeshRegisterAckShape :: "MeshRegisterAck \<Rightarrow> message_error option" where
  "validateMeshRegisterAckShape ack =
     (case validateCapabilities (mk_SelectedCapabilities ack) of Some err \<Rightarrow> Some err
      | None \<Rightarrow>
        if \<not> mk_Success ack then None
        else if mk_ServerID ack = [] \<or> mk_SelectedVersion ack = [] then Some AckIdentityRequired
        else if mk_State ack \<noteq> MeshStateStaged \<and> mk_State ack \<noteq> MeshStateAccepted
        then Some (AckState (mk_State ack))
        else if mk_Role ack \<noteq> MeshRoleClient \<and> mk_Role ack \<noteq> MeshRolePeer
        then Some (InvalidRole (mk_Role ack))
        else None)"

section \<open>What the rules accept\<close>

text \<open>Reversing around \<open>remdups\<close> keeps the first of equal elements.\<close>

definition firsts :: "'a list \<Rightarrow> 'a list" where
  "firsts xs = rev (remdups (rev xs))"

lemma firsts_Nil [simp]: "firsts [] = []"
  by (simp add: firsts_def)

lemma remdups_snoc: "remdups (xs @ [x]) = filter (\<lambda>y. y \<noteq> x) (remdups xs) @ [x]"
  by (induction xs) auto

lemma firsts_Cons [simp]: "firsts (x # xs) = x # filter (\<lambda>y. y \<noteq> x) (firsts xs)"
  by (simp add: firsts_def remdups_snoc rev_filter)

lemma set_firsts [simp]: "set (firsts xs) = set xs"
  by (simp add: firsts_def)

lemma distinct_firsts [simp]: "distinct (firsts xs)"
  by (simp add: firsts_def)

lemma selectLoop_eq:
  "selectLoop supported requested seen selected =
     selected @ filter (\<lambda>c. c \<in> set supported \<and> c \<notin> set seen) (firsts requested)"
proof (induction supported requested seen selected rule: selectLoop.induct)
  case (2 supported c rest seen selected)
  have "filter (\<lambda>d. d \<in> set supported \<and> d \<notin> set seen) (filter (\<lambda>d. d \<noteq> c) (firsts rest)) =
      filter (\<lambda>d. d \<in> set supported \<and> d \<notin> set (c # seen)) (firsts rest)"
    by (simp add: conj_commute conj_left_commute)
  moreover have "filter (\<lambda>d. d \<in> set supported \<and> d \<notin> set (c # seen)) (firsts rest) =
      filter (\<lambda>d. d \<in> set supported \<and> d \<notin> set seen) (firsts rest)"
    if "c \<in> set seen \<or> c \<notin> set supported"
    using that by (intro filter_cong) auto
  ultimately show ?case
    using 2 by (auto simp: HasCapability_def)
qed simp

lemma SelectCapabilities_eq:
  "SelectCapabilities requested supported = filter (\<lambda>c. c \<in> set supported) (firsts requested)"
  by (simp add: SelectCapabilities_def selectLoop_eq)

lemma validateCapabilitiesLoop_None:
  "validateCapabilitiesLoop seen cs = None \<longleftrightarrow> [] \<notin> set cs \<and> distinct cs \<and> set cs \<inter> set seen = {}"
  by (induction seen cs rule: validateCapabilitiesLoop.induct) auto

lemma validateCapabilities_None: "validateCapabilities cs = None \<longleftrightarrow> [] \<notin> set cs \<and> distinct cs"
  by (simp add: validateCapabilities_def validateCapabilitiesLoop_None)

lemma unrequested_None: "unrequested requested cs = None \<longleftrightarrow> set cs \<subseteq> set requested"
  by (induction requested cs rule: unrequested.induct) (auto simp: HasCapability_def)

lemma ValidateMeshRegistration_None:
  "ValidateMeshRegistration v cs = None \<longleftrightarrow>
     v = MeshProtocolVersion \<and> [] \<notin> set cs \<and> distinct cs \<and> CapabilityMeshSessionV1 \<in> set cs"
  using validateCapabilities_None [of cs]
  by (auto simp: ValidateMeshRegistration_def HasCapability_def split: option.splits)

lemma ValidateMeshRegisterAck_None:
  "ValidateMeshRegisterAck ack sid role scheme requested = None \<longleftrightarrow>
     mk_Success ack \<and> mk_ServerID ack = sid \<and> mk_Role ack = role \<and>
     ValidateMeshRegistration (mk_SelectedVersion ack) (mk_SelectedCapabilities ack) = None \<and>
     mk_SelectedAuthScheme ack = scheme \<and> mk_State ack \<in> {MeshStateStaged, MeshStateAccepted} \<and>
     validateCapabilities requested = None \<and> set (mk_SelectedCapabilities ack) \<subseteq> set requested"
  by (auto simp: ValidateMeshRegisterAck_def unrequested_None split: option.splits)

text \<open>C39: negotiation agrees. When the server accepts a registration and answers with its own version and
  the capabilities it selects, the client accepts the answer; what is selected is the requested
  capabilities both sides support, each once and in the order of the request.\<close>

theorem negotiation_agrees:
  assumes "ValidateRegistration version requested = None" and "CapabilityUDPWireV2 \<in> set supported"
    and "rk_Success ack" and "rk_ServerVersion ack = ProtocolVersion"
    and "rk_SelectedCapabilities ack = SelectCapabilities requested supported"
    and "rk_SelectedAuthScheme ack = scheme"
  shows "ValidateRegisterAckWithAuth ack scheme = None \<and>
    rk_SelectedCapabilities ack = filter (\<lambda>c. c \<in> set supported) (rev (remdups (rev requested)))"
proof -
  have "CapabilityUDPWireV2 \<in> set requested"
    using assms(1) by (auto simp: ValidateRegistration_def HasCapability_def split: if_splits)
  then have "CapabilityUDPWireV2 \<in> set (SelectCapabilities requested supported)"
    using assms(2) by (simp add: SelectCapabilities_eq)
  then have "ValidateRegisterAckWithAuth ack scheme = None"
    using assms(3-6)
    by (simp add: ValidateRegisterAckWithAuth_def ValidateRegisterAck_def ValidateRegistration_def HasCapability_def)
  then show ?thesis
    by (simp add: assms(5) SelectCapabilities_eq firsts_def)
qed

theorem negotiation_agrees_witness:
  "SelectCapabilities [''tcp'', ''udp-wire-v2'', ''x'', ''tcp''] [''udp-wire-v2'', ''tcp''] = [''tcp'', ''udp-wire-v2''] \<and>
   ValidateRegisterAckWithAuth \<lparr>rk_Success = True, rk_Message = ''registered'', rk_ServerVersion = ''2.0'',
     rk_SelectedCapabilities = SelectCapabilities [''tcp'', ''udp-wire-v2'', ''x'', ''tcp''] [''udp-wire-v2'', ''tcp''],
     rk_SelectedAuthScheme = ''s''\<rparr> ''s'' = None"
proof -
  have "ValidateRegistration ''2.0'' [''tcp'', ''udp-wire-v2'', ''x'', ''tcp''] = None"
    "CapabilityUDPWireV2 \<in> set [''udp-wire-v2'', ''tcp'']"
    by (simp_all add: ValidateRegistration_def HasCapability_def qmux_defs)
  from negotiation_agrees [OF this, of "\<lparr>rk_Success = True, rk_Message = ''registered'', rk_ServerVersion = ''2.0'',
     rk_SelectedCapabilities = SelectCapabilities [''tcp'', ''udp-wire-v2'', ''x'', ''tcp''] [''udp-wire-v2'', ''tcp''],
     rk_SelectedAuthScheme = ''s''\<rparr>" "''s''"]
  show ?thesis by (auto simp: qmux_defs)
qed

end
