(* ===== verification/Wire_Codec.thy ===== *)
theory Wire_Codec
  imports Wire_Message
begin

text \<open>
  Framing of control messages, \<^verbatim>\<open>protocol/codec.go\<close>, and the mesh control records,
  \<^verbatim>\<open>protocol/mesh_control.go\<close>: one type byte, a big-endian length, the payload.

  A reader is the bytes still to come and the error that follows them; a writer is a function
  that tells how many bytes of a buffer it takes and with which error, and the stream it
  appends to. The JSON text of a payload is reflection over the Go structs: \<open>marshal\<close> and
  \<open>unmarshal\<close> are parameters, used with the one law that a marshalled value is read back. The
  JSON tokenizer of the strict drain decoders is a parameter as well, and so is the largest
  QUIC stream number. Pooled write buffers start empty and are left out.
\<close>

section \<open>Readers and writers\<close>

datatype io_error = EOF | ErrUnexpectedEOF | ErrShortWrite | IOFailure nat

record reader =
  rd_data :: "byte list"
  rd_fail :: io_error

text \<open>\<^verbatim>\<open>io.ReadFull\<close>.\<close>

definition ReadFull :: "nat \<Rightarrow> reader \<Rightarrow> (io_error + byte list) \<times> reader" where
  "ReadFull n r =
     (if n \<le> length (rd_data r) then (Inr (take n (rd_data r)), r\<lparr>rd_data := drop n (rd_data r)\<rparr>)
      else (Inl (if rd_data r \<noteq> [] \<and> rd_fail r = EOF then ErrUnexpectedEOF else rd_fail r),
            r\<lparr>rd_data := []\<rparr>))"

type_synonym writer = "byte list \<Rightarrow> nat \<times> io_error option"

datatype token_end = TokensEOF | TokensError

datatype token = BeginObject | EndObject | StringToken string | NumberToken "int option" | OtherToken

text \<open>A JSON decoder is what it will still return; \<open>NumberToken None\<close> is a number for which
  \<open>Int\<close> fails.\<close>

type_synonym decoder = "token list \<times> token_end"

fun ReadToken :: "decoder \<Rightarrow> (token_end + token) \<times> decoder" where
  "ReadToken ([], e) = (Inl e, ([], e))"
| "ReadToken (t # ts, e) = (Inr t, (ts, e))"

section \<open>Payloads\<close>

record MeshBegin =
  mb_Revision :: u64
  mb_Groups :: u32
  mb_Paths :: u32
  mb_GroupBytes :: u64

record MeshChunk =
  mc_Sequence :: u64
  mc_Record :: u32
  mc_Total :: u32
  mc_Offset :: u32
  mc_Digest :: "byte list"
  mc_Data :: "byte list"

record MeshPath =
  mp_Sequence :: u64
  mp_PathID :: string
  mp_GroupID :: string
  mp_RuleVersion :: u64
  mp_TerminalServerID :: string
  mp_Servers :: "string list"
  mp_Generation :: u64

record MeshWithdraw =
  mw_Sequence :: u64
  mw_PathID :: string

record MeshEnd =
  me_Groups :: u32
  me_Paths :: u32
  me_GroupBytes :: u64
  me_FinalSequence :: u64

text \<open>\<open>any\<close> where a payload is expected. \<open>HeartbeatMsg\<close>, \<open>DrainCompleteMsg\<close>, \<open>NewConnAckMsg\<close> and
  \<open>MeshReady\<close> have one field, \<open>DrainRequestMsg\<close> has none.\<close>

datatype payload =
    Register RegisterMsg | RegisterAck RegisterAckMsg | HeartbeatP int | NewConn NewConnMsg
  | DrainRequest | DrainComplete int | NewConnAck u64 | ConnClose ConnCloseMsg | ErrorP ErrorMsg
  | MeshRegisterP MeshRegister | MeshRegisterAckP MeshRegisterAck
  | Begin MeshBegin | Chunk MeshChunk | Path MeshPath | Withdraw MeshWithdraw | End MeshEnd | Ready string

text \<open>The Go type a decoder is given to fill, named by its message type.\<close>

fun payload_type :: "payload \<Rightarrow> byte" where
  "payload_type (Register _) = MsgTypeRegister"
| "payload_type (RegisterAck _) = MsgTypeRegisterAck"
| "payload_type (HeartbeatP _) = MsgTypeHeartbeat"
| "payload_type (NewConn _) = MsgTypeNewConn"
| "payload_type DrainRequest = MsgTypeDrainRequest"
| "payload_type (DrainComplete _) = MsgTypeDrainComplete"
| "payload_type (NewConnAck _) = MsgTypeNewConnAck"
| "payload_type (ConnClose _) = MsgTypeConnClose"
| "payload_type (ErrorP _) = MsgTypeError"
| "payload_type (MeshRegisterP _) = MsgTypeMeshRegister"
| "payload_type (MeshRegisterAckP _) = MsgTypeMeshRegisterAck"
| "payload_type (Begin _) = MsgTypeMeshBegin"
| "payload_type (Chunk _) = MsgTypeMeshChunk"
| "payload_type (Path _) = MsgTypeMeshPath"
| "payload_type (Withdraw _) = MsgTypeMeshWithdraw"
| "payload_type (End _) = MsgTypeMeshEnd"
| "payload_type (Ready _) = MsgTypeMeshReady"

type_synonym marshal = "payload \<Rightarrow> byte list option"
type_synonym unmarshal = "byte \<Rightarrow> byte list \<Rightarrow> payload option"

datatype codec_error =
    MarshalPayload | WriteFailed io_error | ReadHeader io_error | PayloadTooLarge nat nat
  | ReadPayload io_error | UnexpectedType byte byte | UnmarshalPayload | Shape message_error
  | DrainToken token_end | NotAnObject | NotClosed | TrailingToken | TrailingData
  | MissingFence | UnknownMember | FenceNotInteger | InvalidFenceNumber | InvalidFence int
  | InvalidChunk | InvalidPath | InvalidWithdraw | InvalidReady string | UnsupportedControl

section \<open>Writing\<close>

definition MaxPayloadSize :: u32 where [qmux_defs]: "MaxPayloadSize = 10 * 1024 * 1024"
definition MaxRegistrationPayloadSize :: u32 where [qmux_defs]: "MaxRegistrationPayloadSize = 4 * 1024"
definition MaxNewConnAckPayloadSize :: u32 where [qmux_defs]: "MaxNewConnAckPayloadSize = 4 * 1024"
definition MaxNewConnPayloadSize :: u32 where [qmux_defs]: "MaxNewConnPayloadSize = 4 * 1024"
definition MaxControlPayloadSize :: u32 where [qmux_defs]: "MaxControlPayloadSize = 4 * 1024"
definition MaxMeshChunkDataSize :: nat where [qmux_defs]: "MaxMeshChunkDataSize = 2 * 1024"

definition writeEncodedMessage :: "writer \<Rightarrow> byte \<Rightarrow> byte list \<Rightarrow> byte list \<Rightarrow> codec_error option \<times> byte list" where
  "writeEncodedMessage w msgType data stream =
     (let buf = msgType # PutUint32 (of_nat (length data)) @ data;
          (n, err) = w buf;
          stream' = stream @ take n buf
      in case err of Some e \<Rightarrow> (Some (WriteFailed e), stream')
         | None \<Rightarrow> if n \<noteq> length buf then (Some (WriteFailed ErrShortWrite), stream') else (None, stream'))"

text \<open>\<open>WriteMessage\<close> repeats the body of \<open>writeEncodedMessage\<close> after marshalling.\<close>

definition WriteMessage :: "marshal \<Rightarrow> writer \<Rightarrow> byte \<Rightarrow> payload \<Rightarrow> byte list \<Rightarrow> codec_error option \<times> byte list" where
  "WriteMessage marshal w msgType payload stream =
     (case marshal payload of None \<Rightarrow> (Some MarshalPayload, stream)
      | Some data \<Rightarrow> writeEncodedMessage w msgType data stream)"

definition writeMessageLimited :: "marshal \<Rightarrow> writer \<Rightarrow> byte \<Rightarrow> payload \<Rightarrow> u32 \<Rightarrow> byte list \<Rightarrow>
    codec_error option \<times> byte list" where
  "writeMessageLimited marshal w msgType payload maxPayloadSize stream =
     (case marshal payload of None \<Rightarrow> (Some MarshalPayload, stream)
      | Some data \<Rightarrow>
        if length data > unat maxPayloadSize
        then (Some (PayloadTooLarge (length data) (unat maxPayloadSize)), stream)
        else writeEncodedMessage w msgType data stream)"

section \<open>Reading\<close>

definition ReadMessageLimited :: "u32 \<Rightarrow> reader \<Rightarrow> (codec_error + byte \<times> byte list) \<times> reader" where
  "ReadMessageLimited maxPayloadSize r =
     (case ReadFull 5 r of (Inl err, r1) \<Rightarrow> (Inl (ReadHeader err), r1)
      | (Inr header, r1) \<Rightarrow>
        let msgType = header ! 0; len = Uint32 (drop 1 header) in
        if len > maxPayloadSize then (Inl (PayloadTooLarge (unat len) (unat maxPayloadSize)), r1)
        else (case ReadFull (unat len) r1 of (Inl err, r2) \<Rightarrow> (Inl (ReadPayload err), r2)
              | (Inr payload, r2) \<Rightarrow> (Inr (msgType, payload), r2)))"

definition ReadMessage :: "reader \<Rightarrow> (codec_error + byte \<times> byte list) \<times> reader" where
  "ReadMessage r = ReadMessageLimited MaxPayloadSize r"

definition DecodeMessage :: "unmarshal \<Rightarrow> byte \<Rightarrow> byte list \<Rightarrow> codec_error + payload" where
  "DecodeMessage unmarshal target payload =
     (case unmarshal target payload of None \<Rightarrow> Inl UnmarshalPayload | Some msg \<Rightarrow> Inr msg)"

definition ReadTypedMessageLimited :: "unmarshal \<Rightarrow> byte \<Rightarrow> u32 \<Rightarrow> reader \<Rightarrow> (codec_error + payload) \<times> reader" where
  "ReadTypedMessageLimited unmarshal expectedType maxPayloadSize r =
     (case ReadMessageLimited maxPayloadSize r of (Inl err, r1) \<Rightarrow> (Inl err, r1)
      | (Inr (msgType, payload), r1) \<Rightarrow>
        if msgType \<noteq> expectedType then (Inl (UnexpectedType msgType expectedType), r1)
        else (DecodeMessage unmarshal expectedType payload, r1))"

definition ReadTypedMessage :: "unmarshal \<Rightarrow> byte \<Rightarrow> reader \<Rightarrow> (codec_error + payload) \<times> reader" where
  "ReadTypedMessage unmarshal expectedType r = ReadTypedMessageLimited unmarshal expectedType MaxPayloadSize r"

section \<open>Drain messages\<close>

definition ValidateDrainFence :: "int \<Rightarrow> int \<Rightarrow> codec_error option" where
  "ValidateDrainFence varintMax fence =
     (if fence = - 1 \<or> fence \<ge> 1 \<and> fence \<le> varintMax \<and> fence mod 4 = 1 then None
      else Some (InvalidFence fence))"

definition drainObjectStart :: "decoder \<Rightarrow> codec_error option \<times> decoder" where
  "drainObjectStart d =
     (case ReadToken d of (Inl err, d1) \<Rightarrow> (Some (DrainToken err), d1)
      | (Inr t, d1) \<Rightarrow> if t \<noteq> BeginObject then (Some NotAnObject, d1) else (None, d1))"

definition drainObjectEnd :: "decoder \<Rightarrow> codec_error option \<times> decoder" where
  "drainObjectEnd d =
     (case ReadToken d of (Inl err, d1) \<Rightarrow> (Some (DrainToken err), d1)
      | (Inr t, d1) \<Rightarrow>
        if t \<noteq> EndObject then (Some NotClosed, d1)
        else (case ReadToken d1 of
                (Inr _, d2) \<Rightarrow> (Some TrailingToken, d2)
              | (Inl TokensEOF, d2) \<Rightarrow> (None, d2)
              | (Inl TokensError, d2) \<Rightarrow> (Some TrailingData, d2)))"

definition DecodeDrainRequest :: "(byte list \<Rightarrow> decoder) \<Rightarrow> byte list \<Rightarrow> codec_error option" where
  "DecodeDrainRequest NewDecoder payload =
     (case drainObjectStart (NewDecoder payload) of (Some err, _) \<Rightarrow> Some err
      | (None, d) \<Rightarrow> fst (drainObjectEnd d))"

definition DecodeDrainComplete :: "(byte list \<Rightarrow> decoder) \<Rightarrow> int \<Rightarrow> byte list \<Rightarrow> codec_error + int" where
  "DecodeDrainComplete NewDecoder varintMax payload =
     (case drainObjectStart (NewDecoder payload) of (Some err, _) \<Rightarrow> Inl err
      | (None, d) \<Rightarrow>
        (case ReadToken d of (Inl err, _) \<Rightarrow> Inl (DrainToken err)
         | (Inr name, d1) \<Rightarrow>
           if name = EndObject then Inl MissingFence
           else if name \<noteq> StringToken ''AcceptFence'' then Inl UnknownMember
           else (case ReadToken d1 of (Inl err, _) \<Rightarrow> Inl (DrainToken err)
                 | (Inr (NumberToken None), _) \<Rightarrow> Inl InvalidFenceNumber
                 | (Inr (NumberToken (Some acceptFence)), d2) \<Rightarrow>
                     (case drainObjectEnd d2 of (Some err, _) \<Rightarrow> Inl err
                      | (None, _) \<Rightarrow> (case ValidateDrainFence varintMax acceptFence of
                                        Some err \<Rightarrow> Inl err | None \<Rightarrow> Inr acceptFence))
                 | (Inr _, _) \<Rightarrow> Inl FenceNotInteger)))"

section \<open>Typed messages\<close>

definition WriteRegisterWithAuth :: "marshal \<Rightarrow> writer \<Rightarrow> string \<Rightarrow> string \<Rightarrow> string list \<Rightarrow> RegisterAuth option \<Rightarrow>
    byte list \<Rightarrow> codec_error option \<times> byte list" where
  "WriteRegisterWithAuth marshal w clientID version capabilities auth stream =
     WriteMessage marshal w MsgTypeRegister
       (Register \<lparr>rm_ClientID = clientID, rm_Version = version, rm_Capabilities = capabilities, rm_Auth = auth\<rparr>) stream"

definition WriteRegisterAckWithAuth :: "marshal \<Rightarrow> writer \<Rightarrow> bool \<Rightarrow> string \<Rightarrow> string \<Rightarrow> string list \<Rightarrow> string \<Rightarrow>
    byte list \<Rightarrow> codec_error option \<times> byte list" where
  "WriteRegisterAckWithAuth marshal w success message serverVersion selectedCapabilities selectedAuthScheme stream =
     WriteMessage marshal w MsgTypeRegisterAck
       (RegisterAck \<lparr>rk_Success = success, rk_Message = message, rk_ServerVersion = serverVersion,
          rk_SelectedCapabilities = selectedCapabilities, rk_SelectedAuthScheme = selectedAuthScheme\<rparr>) stream"

definition WriteHeartbeat :: "marshal \<Rightarrow> writer \<Rightarrow> int \<Rightarrow> byte list \<Rightarrow> codec_error option \<times> byte list" where
  "WriteHeartbeat marshal w timestamp stream = WriteMessage marshal w MsgTypeHeartbeat (HeartbeatP timestamp) stream"

definition WriteDrainRequest :: "marshal \<Rightarrow> writer \<Rightarrow> byte list \<Rightarrow> codec_error option \<times> byte list" where
  "WriteDrainRequest marshal w stream = WriteMessage marshal w MsgTypeDrainRequest DrainRequest stream"

definition WriteDrainComplete :: "marshal \<Rightarrow> int \<Rightarrow> writer \<Rightarrow> int \<Rightarrow> byte list \<Rightarrow> codec_error option \<times> byte list" where
  "WriteDrainComplete marshal varintMax w acceptFence stream =
     (case ValidateDrainFence varintMax acceptFence of Some err \<Rightarrow> (Some err, stream)
      | None \<Rightarrow> WriteMessage marshal w MsgTypeDrainComplete (DrainComplete acceptFence) stream)"

definition WriteNewConn :: "marshal \<Rightarrow> writer \<Rightarrow> u64 \<Rightarrow> string \<Rightarrow> string \<Rightarrow> string \<Rightarrow> int \<Rightarrow> byte list \<Rightarrow>
    codec_error option \<times> byte list" where
  "WriteNewConn marshal w connID protocol sourceAddr destAddr timestamp stream =
     WriteMessage marshal w MsgTypeNewConn
       (NewConn \<lparr>nc_ConnID = connID, nc_Protocol = protocol, nc_SourceAddr = sourceAddr, nc_DestAddr = destAddr,
          nc_Timestamp = timestamp\<rparr>) stream"

definition WriteNewConnAck :: "marshal \<Rightarrow> writer \<Rightarrow> u64 \<Rightarrow> byte list \<Rightarrow> codec_error option \<times> byte list" where
  "WriteNewConnAck marshal w connID stream = WriteMessage marshal w MsgTypeNewConnAck (NewConnAck connID) stream"

definition WriteConnClose :: "marshal \<Rightarrow> writer \<Rightarrow> u64 \<Rightarrow> string \<Rightarrow> byte list \<Rightarrow> codec_error option \<times> byte list" where
  "WriteConnClose marshal w connID reason stream =
     WriteMessage marshal w MsgTypeConnClose (ConnClose \<lparr>cl_ConnID = connID, cl_Reason = reason\<rparr>) stream"

definition WriteError :: "marshal \<Rightarrow> writer \<Rightarrow> u32 \<Rightarrow> string \<Rightarrow> byte list \<Rightarrow> codec_error option \<times> byte list" where
  "WriteError marshal w code message stream =
     WriteMessage marshal w MsgTypeError (ErrorP \<lparr>em_Code = code, em_Message = message\<rparr>) stream"

definition WriteMeshRegister :: "marshal \<Rightarrow> writer \<Rightarrow> MeshRegister \<Rightarrow> byte list \<Rightarrow> codec_error option \<times> byte list" where
  "WriteMeshRegister marshal w registration stream =
     (case validateMeshRegisterShape registration of Some err \<Rightarrow> (Some (Shape err), stream)
      | None \<Rightarrow> writeMessageLimited marshal w MsgTypeMeshRegister (MeshRegisterP registration)
                  MaxRegistrationPayloadSize stream)"

definition WriteMeshRegisterAck :: "marshal \<Rightarrow> writer \<Rightarrow> MeshRegisterAck \<Rightarrow> byte list \<Rightarrow>
    codec_error option \<times> byte list" where
  "WriteMeshRegisterAck marshal w ack stream =
     (case validateMeshRegisterAckShape ack of Some err \<Rightarrow> (Some (Shape err), stream)
      | None \<Rightarrow> writeMessageLimited marshal w MsgTypeMeshRegisterAck (MeshRegisterAckP ack)
                  MaxRegistrationPayloadSize stream)"

definition readMeshPayload :: "byte \<Rightarrow> reader \<Rightarrow> (codec_error + byte list) \<times> reader" where
  "readMeshPayload expectedType r =
     (case ReadMessageLimited MaxRegistrationPayloadSize r of (Inl err, r1) \<Rightarrow> (Inl err, r1)
      | (Inr (msgType, payload), r1) \<Rightarrow>
        if msgType \<noteq> expectedType then (Inl (UnexpectedType msgType expectedType), r1) else (Inr payload, r1))"

text \<open>\<open>strict\<close> is \<open>json.Unmarshal\<close> with unknown members rejected; a target of one struct type yields
  a value of that type.\<close>

definition ReadMeshRegister :: "unmarshal \<Rightarrow> reader \<Rightarrow> (codec_error + MeshRegister) \<times> reader" where
  "ReadMeshRegister strict r =
     (case readMeshPayload MsgTypeMeshRegister r of (Inl err, r1) \<Rightarrow> (Inl err, r1)
      | (Inr payload, r1) \<Rightarrow>
        (case strict MsgTypeMeshRegister payload of
           Some (MeshRegisterP registration) \<Rightarrow>
             (case validateMeshRegisterShape registration of Some err \<Rightarrow> (Inl (Shape err), r1)
              | None \<Rightarrow> (Inr registration, r1))
         | _ \<Rightarrow> (Inl UnmarshalPayload, r1)))"

definition ReadMeshRegisterAck :: "unmarshal \<Rightarrow> reader \<Rightarrow> (codec_error + MeshRegisterAck) \<times> reader" where
  "ReadMeshRegisterAck strict r =
     (case readMeshPayload MsgTypeMeshRegisterAck r of (Inl err, r1) \<Rightarrow> (Inl err, r1)
      | (Inr payload, r1) \<Rightarrow>
        (case strict MsgTypeMeshRegisterAck payload of
           Some (MeshRegisterAckP ack) \<Rightarrow>
             (case validateMeshRegisterAckShape ack of Some err \<Rightarrow> (Inl (Shape err), r1)
              | None \<Rightarrow> (Inr ack, r1))
         | _ \<Rightarrow> (Inl UnmarshalPayload, r1)))"

section \<open>Mesh control\<close>

text \<open>The checks of \<open>MarshalMeshControlFrame\<close>: the type byte, or the record that is refused.\<close>

fun control_kind :: "payload \<Rightarrow> codec_error + byte" where
  "control_kind (Begin _) = Inr MsgTypeMeshBegin"
| "control_kind (Chunk v) =
     (if length (mc_Data v) = 0 \<or> length (mc_Data v) > MaxMeshChunkDataSize \<or> mc_Total v = 0 \<or>
         mc_Offset v \<ge> mc_Total v \<or> unat (mc_Offset v) + length (mc_Data v) > unat (mc_Total v) \<or>
         mc_Offset v = 0 \<and> length (mc_Digest v) \<noteq> 32 \<or> mc_Offset v \<noteq> 0 \<and> length (mc_Digest v) \<noteq> 0
      then Inl InvalidChunk else Inr MsgTypeMeshChunk)"
| "control_kind (Path v) =
     (if mp_PathID v = [] \<or> mp_GroupID v = [] \<or> mp_RuleVersion v = 0 \<or> mp_TerminalServerID v = [] \<or>
         length (mp_Servers v) = 0
      then Inl InvalidPath else Inr MsgTypeMeshPath)"
| "control_kind (Withdraw v) = (if mw_PathID v = [] then Inl InvalidWithdraw else Inr MsgTypeMeshWithdraw)"
| "control_kind (End _) = Inr MsgTypeMeshEnd"
| "control_kind (Ready state) =
     (if state \<noteq> MeshStateStaged \<and> state \<noteq> MeshStateAccepted then Inl (InvalidReady state)
      else Inr MsgTypeMeshReady)"
| "control_kind _ = Inl UnsupportedControl"

definition MarshalMeshControlFrame :: "marshal \<Rightarrow> payload \<Rightarrow> codec_error + byte list" where
  "MarshalMeshControlFrame marshal message =
     (case control_kind message of Inl err \<Rightarrow> Inl err
      | Inr kind \<Rightarrow>
        (case marshal message of None \<Rightarrow> Inl MarshalPayload
         | Some payload \<Rightarrow>
           if length payload > unat MaxControlPayloadSize
           then Inl (PayloadTooLarge (length payload) (unat MaxControlPayloadSize))
           else Inr (kind # PutUint32 (of_nat (length payload)) @ payload)))"

definition WriteMeshControl :: "marshal \<Rightarrow> writer \<Rightarrow> payload \<Rightarrow> byte list \<Rightarrow> codec_error option \<times> byte list" where
  "WriteMeshControl marshal w message stream =
     (case MarshalMeshControlFrame marshal message of Inl err \<Rightarrow> (Some err, stream)
      | Inr frame \<Rightarrow>
        let (n, err) = w frame; stream' = stream @ take n frame in
        (case err of Some e \<Rightarrow> (Some (WriteFailed e), stream')
         | None \<Rightarrow> if n \<noteq> length frame then (Some (WriteFailed ErrShortWrite), stream') else (None, stream')))"

definition DecodeMeshControl :: "marshal \<Rightarrow> unmarshal \<Rightarrow> byte \<Rightarrow> byte list \<Rightarrow> codec_error + payload" where
  "DecodeMeshControl marshal strict kind payload =
     (if kind \<notin> {MsgTypeMeshBegin, MsgTypeMeshChunk, MsgTypeMeshPath, MsgTypeMeshWithdraw, MsgTypeMeshEnd,
                 MsgTypeMeshReady}
      then Inl UnsupportedControl
      else case strict kind payload of None \<Rightarrow> Inl UnmarshalPayload
      | Some message \<Rightarrow>
        (case MarshalMeshControlFrame marshal message of Inl err \<Rightarrow> Inl err | Inr _ \<Rightarrow> Inr message))"

definition ReadMeshControl :: "marshal \<Rightarrow> unmarshal \<Rightarrow> reader \<Rightarrow> (codec_error + payload) \<times> reader" where
  "ReadMeshControl marshal strict r =
     (case ReadMessageLimited MaxControlPayloadSize r of (Inl err, r1) \<Rightarrow> (Inl err, r1)
      | (Inr (kind, payload), r1) \<Rightarrow> (DecodeMeshControl marshal strict kind payload, r1))"

section \<open>Frames\<close>

definition frame :: "byte \<Rightarrow> byte list \<Rightarrow> byte list" where
  "frame t p = t # PutUint32 (of_nat (length p)) @ p"

text \<open>A writer that takes everything.\<close>

abbreviation full_write :: writer where
  "full_write \<equiv> \<lambda>buf. (length buf, None)"

lemma length_frame [simp]: "length (frame t p) = 5 + length p"
  by (simp add: frame_def)

lemma writeEncodedMessage_full [simp]: "writeEncodedMessage full_write t p s = (None, s @ frame t p)"
  by (simp add: writeEncodedMessage_def Let_def frame_def)

lemma unat_len: "length p \<le> unat (m :: u32) \<Longrightarrow> unat (of_nat (length p) :: u32) = length p"
  using unsigned_less [of m, where ?'a = nat] by (simp add: unat_of_nat)

lemma ReadMessageLimited_frame:
  assumes "rd_data r = frame t p @ rest" and "length p \<le> unat m"
  shows "ReadMessageLimited m r = (Inr (t, p), r\<lparr>rd_data := rest\<rparr>)"
proof -
  have "take 5 (rd_data r) = t # PutUint32 (of_nat (length p))" "drop 5 (rd_data r) = p @ rest"
    using assms(1) by (simp_all add: frame_def numeral_eq_Suc)
  moreover have "\<not> m < of_nat (length p)"
    using assms(2) unat_len [OF assms(2)] by (simp add: word_less_nat_alt)
  ultimately show ?thesis
    using assms(1) by (simp add: ReadMessageLimited_def ReadFull_def Let_def unat_len [OF assms(2)])
qed

lemma ReadMessageLimited_ok:
  assumes "ReadMessageLimited m r = (Inr (t, p), r')"
  shows "length p \<le> unat m" and "rd_data r = frame t p @ rd_data r'" and "rd_fail r' = rd_fail r"
proof -
  let ?h = "take 5 (rd_data r)" and ?l = "Uint32 (drop 1 (take 5 (rd_data r)))"
  have r: "5 \<le> length (rd_data r)" "\<not> m < ?l" "unat ?l \<le> length (rd_data r) - 5"
    "t = ?h ! 0" "p = take (unat ?l) (drop 5 (rd_data r))" "r' = r\<lparr>rd_data := drop (unat ?l) (drop 5 (rd_data r))\<rparr>"
    using assms by (auto simp: ReadMessageLimited_def ReadFull_def Let_def split: if_splits)
  then have len: "length p = unat ?l"
    by simp
  have "?h = t # drop 1 ?h"
    using r(1,4) by (cases "rd_data r") simp_all
  moreover have "drop 1 ?h = PutUint32 (of_nat (length p))"
    using PutUint32_Uint32 [of "drop 1 ?h"] r(1) len by simp
  ultimately have "?h @ p = frame t p"
    by (simp add: frame_def)
  moreover have "rd_data r = ?h @ p @ rd_data r'"
    using take_app_drop3 [of 5 "rd_data r" "unat ?l"] r(5,6) by (simp add: add.commute)
  ultimately show "rd_data r = frame t p @ rd_data r'"
    by (simp add: append_assoc [symmetric] del: append_assoc)
  show "length p \<le> unat m" "rd_fail r' = rd_fail r"
    using r(2,6) len by (simp_all add: word_le_nat_alt [symmetric] not_less)
qed

text \<open>C13: a message is read exactly when the stream starts with its frame and its payload is within the
  limit, and then exactly the frame is consumed; in every case no more than the header and a
  payload of the limit is taken, so an oversized length is refused before its payload is read.\<close>

theorem read_message_exact:
  "(ReadMessageLimited m r = (Inr (t, p), r') \<longleftrightarrow>
      length p \<le> unat m \<and> rd_data r = t # PutUint32 (of_nat (length p)) @ p @ rd_data r' \<and> rd_fail r' = rd_fail r) \<and>
   (\<exists>k \<le> 5 + unat m. rd_data (snd (ReadMessageLimited m r)) = drop k (rd_data r)) \<and>
   (fst (ReadMessageLimited m r) = Inl (PayloadTooLarge n (unat m)) \<longrightarrow>
      unat m < n \<and> rd_data (snd (ReadMessageLimited m r)) = drop 5 (rd_data r))"
proof (intro conjI)
  show "ReadMessageLimited m r = (Inr (t, p), r') \<longleftrightarrow>
      length p \<le> unat m \<and> rd_data r = t # PutUint32 (of_nat (length p)) @ p @ rd_data r' \<and> rd_fail r' = rd_fail r"
  proof
    assume "ReadMessageLimited m r = (Inr (t, p), r')"
    from ReadMessageLimited_ok [OF this] show "length p \<le> unat m \<and>
        rd_data r = t # PutUint32 (of_nat (length p)) @ p @ rd_data r' \<and> rd_fail r' = rd_fail r"
      by (simp add: frame_def)
  next
    assume *: "length p \<le> unat m \<and> rd_data r = t # PutUint32 (of_nat (length p)) @ p @ rd_data r' \<and> rd_fail r' = rd_fail r"
    then have "ReadMessageLimited m r = (Inr (t, p), r\<lparr>rd_data := rd_data r'\<rparr>)"
      by (intro ReadMessageLimited_frame) (simp_all add: frame_def)
    with * show "ReadMessageLimited m r = (Inr (t, p), r')" by simp
  qed
next
  have all: "drop k (rd_data r) = []" if "length (rd_data r) \<le> k" for k
    using that by simp
  have le: "unat l \<le> unat m" if "\<not> m < l" for l
    using that by (simp add: word_less_nat_alt)
  show "\<exists>k \<le> 5 + unat m. rd_data (snd (ReadMessageLimited m r)) = drop k (rd_data r)"
  proof (cases "5 \<le> length (rd_data r)")
    case False
    then show ?thesis
      using all [of "5 + unat m"] by (intro exI [of _ "5 + unat m"]) (simp add: ReadMessageLimited_def ReadFull_def)
  next
    case True
    let ?l = "Uint32 (drop 1 (take 5 (rd_data r)))"
    have "rd_data (snd (ReadMessageLimited m r)) = drop (if m < ?l then 5 else 5 + unat ?l) (rd_data r)"
      using True by (simp add: ReadMessageLimited_def ReadFull_def Let_def add.commute)
    then show ?thesis
      using le [of ?l] by (intro exI [of _ "if m < ?l then 5 else 5 + unat ?l"]) simp
  qed
next
  show "fst (ReadMessageLimited m r) = Inl (PayloadTooLarge n (unat m)) \<longrightarrow>
      unat m < n \<and> rd_data (snd (ReadMessageLimited m r)) = drop 5 (rd_data r)"
    by (auto simp: ReadMessageLimited_def ReadFull_def Let_def word_less_nat_alt split: if_splits)
qed

theorem read_message_exact_witness:
  "fst (ReadMessageLimited 3 \<lparr>rd_data = [1, 0, 0, 0, 9, 7, 7], rd_fail = EOF\<rparr>) = Inl (PayloadTooLarge 9 3) \<and>
   rd_data (snd (ReadMessageLimited 3 \<lparr>rd_data = [1, 0, 0, 0, 9, 7, 7], rd_fail = EOF\<rparr>)) = [7, 7]"
proof -
  have "fst (ReadMessageLimited 3 \<lparr>rd_data = [1, 0, 0, 0, 9, 7, 7], rd_fail = EOF\<rparr>) = Inl (PayloadTooLarge 9 (unat (3 :: u32)))"
    by code_simp
  with read_message_exact [of 3 "\<lparr>rd_data = [1, 0, 0, 0, 9, 7, 7], rd_fail = EOF\<rparr>" 0 "[]" _ 9] show ?thesis
    by simp
qed

text \<open>Messages written one after the other, and read one after the other.\<close>

definition write_all :: "(byte \<times> byte list) list \<Rightarrow> byte list \<Rightarrow> byte list" where
  "write_all ms s = foldl (\<lambda>s (t, p). snd (writeEncodedMessage full_write t p s)) s ms"

fun read_all :: "u32 \<Rightarrow> nat \<Rightarrow> reader \<Rightarrow> (codec_error + byte \<times> byte list) list \<times> reader" where
  "read_all m 0 r = ([], r)"
| "read_all m (Suc n) r =
     (let (x, r1) = ReadMessageLimited m r; (xs, r2) = read_all m n r1 in (x # xs, r2))"

lemma write_all_eq: "write_all ms s = s @ concat (map (\<lambda>(t, p). frame t p) ms)"
  by (induction ms arbitrary: s) (auto simp: write_all_def)

lemma read_all_frames:
  "\<forall>(t, p) \<in> set ms. length p \<le> unat m \<Longrightarrow> rd_data r = concat (map (\<lambda>(t, p). frame t p) ms) @ rest \<Longrightarrow>
     read_all m (length ms) r = (map Inr ms, r\<lparr>rd_data := rest\<rparr>)"
proof (induction ms arbitrary: r)
  case (Cons a ms)
  obtain t p where a: "a = (t, p)" by (cases a)
  let ?r = "r\<lparr>rd_data := concat (map (\<lambda>(t, p). frame t p) ms) @ rest\<rparr>"
  have "ReadMessageLimited m r = (Inr (t, p), ?r)"
    using Cons.prems a by (intro ReadMessageLimited_frame) simp_all
  moreover have "read_all m (length ms) ?r = (map Inr ms, ?r\<lparr>rd_data := rest\<rparr>)"
    using Cons.prems(1) by (intro Cons.IH) simp_all
  ultimately show ?case
    using a by simp
qed simp

text \<open>C20: framing is self-delimiting. Messages written in sequence to a stream are read back in sequence,
  with their types and payloads, and what follows them is untouched.\<close>

theorem messages_roundtrip:
  assumes "\<forall>(t, p) \<in> set ms. length p \<le> unat m"
  shows "read_all m (length ms) \<lparr>rd_data = write_all ms [] @ rest, rd_fail = e\<rparr> =
    (map Inr ms, \<lparr>rd_data = rest, rd_fail = e\<rparr>)"
  using read_all_frames [OF assms, of "\<lparr>rd_data = write_all ms [] @ rest, rd_fail = e\<rparr>"]
  by (simp add: write_all_eq)

theorem messages_roundtrip_witness:
  "read_all 3 (length [(1 :: byte, [7, 8 :: byte]), (255, [])]) \<lparr>rd_data = write_all [(1, [7, 8]), (255, [])] [] @ [9], rd_fail = EOF\<rparr> =
     (map Inr [(1, [7, 8]), (255, [])], \<lparr>rd_data = [9], rd_fail = EOF\<rparr>)"
proof -
  have "\<forall>(t, p) \<in> set [(1 :: byte, [7, 8 :: byte]), (255, [])]. length p \<le> unat (3 :: u32)"
    by simp
  from messages_roundtrip [OF this] show ?thesis .
qed

section \<open>Mesh records\<close>

lemma control_kind_type: "control_kind m = Inr k \<Longrightarrow> k = payload_type m"
  by (cases m) (auto split: if_splits)

lemma control_kind_mem: "control_kind m = Inr k \<Longrightarrow> k \<in> {MsgTypeMeshBegin, MsgTypeMeshChunk, MsgTypeMeshPath,
    MsgTypeMeshWithdraw, MsgTypeMeshEnd, MsgTypeMeshReady}"
  by (cases m) (auto split: if_splits)

lemma MarshalMeshControlFrame_ok:
  "MarshalMeshControlFrame marshal m = Inr f \<longleftrightarrow>
     (\<exists>p. control_kind m = Inr (payload_type m) \<and> marshal m = Some p \<and> length p \<le> unat MaxControlPayloadSize \<and>
        f = frame (payload_type m) p)"
  using control_kind_type [of m]
  by (auto simp: MarshalMeshControlFrame_def frame_def split: sum.splits option.splits if_splits)

text \<open>A control record that was accepted has passed every check of the sender: the fields, the encoding and its size.\<close>

lemma ReadMeshControl_valid:
  assumes "fst (ReadMeshControl marshal strict r) = Inr m"
  shows "\<exists>f. MarshalMeshControlFrame marshal m = Inr f"
  using assms by (auto simp: ReadMeshControl_def DecodeMeshControl_def split: prod.splits sum.splits option.splits if_splits)

lemma WriteMeshControl_full:
  "MarshalMeshControlFrame marshal m = Inr f \<Longrightarrow> WriteMeshControl marshal full_write m s = (None, s @ f)"
  by (simp add: WriteMeshControl_def)

text \<open>C21: a mesh control record that is written is read back unchanged, whatever follows it; and a record is accepted
  only when its sender could have written it: its fields are valid, it has an encoding of at most the control
  payload size, and writing it appends exactly that frame.\<close>

theorem mesh_control_roundtrip:
  assumes json: "\<And>m p. marshal m = Some p \<Longrightarrow> strict (payload_type m) p = Some m"
  shows "(WriteMeshControl marshal full_write m s = (None, s') \<longrightarrow>
      (\<exists>f. s' = s @ f \<and> ReadMeshControl marshal strict \<lparr>rd_data = f @ rest, rd_fail = e\<rparr> =
         (Inr m, \<lparr>rd_data = rest, rd_fail = e\<rparr>))) \<and>
    (fst (ReadMeshControl marshal strict r) = Inr m \<longrightarrow>
      (\<exists>p. control_kind m = Inr (payload_type m) \<and> marshal m = Some p \<and> length p \<le> 4096 \<and>
         WriteMeshControl marshal full_write m s = (None, s @ frame (payload_type m) p)))"
proof (intro conjI impI)
  assume "WriteMeshControl marshal full_write m s = (None, s')"
  then obtain f where f: "MarshalMeshControlFrame marshal m = Inr f" "s' = s @ f"
    by (auto simp: WriteMeshControl_def split: sum.splits)
  then obtain p where p: "control_kind m = Inr (payload_type m)" "marshal m = Some p"
    "length p \<le> unat MaxControlPayloadSize" "f = frame (payload_type m) p"
    unfolding MarshalMeshControlFrame_ok by blast
  have "ReadMessageLimited MaxControlPayloadSize \<lparr>rd_data = f @ rest, rd_fail = e\<rparr> =
      (Inr (payload_type m, p), \<lparr>rd_data = rest, rd_fail = e\<rparr>)"
    using ReadMessageLimited_frame [of "\<lparr>rd_data = f @ rest, rd_fail = e\<rparr>", OF _ p(3)] p(4) by simp
  then have "ReadMeshControl marshal strict \<lparr>rd_data = f @ rest, rd_fail = e\<rparr> = (Inr m, \<lparr>rd_data = rest, rd_fail = e\<rparr>)"
    using control_kind_mem [OF p(1)] json [OF p(2)] f(1)
    by (simp add: ReadMeshControl_def DecodeMeshControl_def)
  with f(2) show "\<exists>f. s' = s @ f \<and> ReadMeshControl marshal strict \<lparr>rd_data = f @ rest, rd_fail = e\<rparr> =
      (Inr m, \<lparr>rd_data = rest, rd_fail = e\<rparr>)" by blast
next
  assume "fst (ReadMeshControl marshal strict r) = Inr m"
  then obtain f where f: "MarshalMeshControlFrame marshal m = Inr f"
    using ReadMeshControl_valid by blast
  then obtain p where p: "control_kind m = Inr (payload_type m)" "marshal m = Some p"
    "length p \<le> unat MaxControlPayloadSize" "f = frame (payload_type m) p"
    unfolding MarshalMeshControlFrame_ok by blast
  then show "\<exists>p. control_kind m = Inr (payload_type m) \<and> marshal m = Some p \<and> length p \<le> 4096 \<and>
      WriteMeshControl marshal full_write m s = (None, s @ frame (payload_type m) p)"
    using WriteMeshControl_full [OF f, of s] by (intro exI [of _ p]) (simp add: qmux_defs)
qed

text \<open>A JSON text for one of the record types, for the witness.\<close>

definition demo_marshal :: marshal where
  "demo_marshal m = (case m of Begin v \<Rightarrow>
       if mb_Groups v = 0 \<and> mb_Paths v = 0 \<and> mb_GroupBytes v = 0 then Some (PutUint64 (mb_Revision v)) else None
     | _ \<Rightarrow> None)"

definition demo_strict :: unmarshal where
  "demo_strict t p = Some (Begin \<lparr>mb_Revision = Uint64 p, mb_Groups = 0, mb_Paths = 0, mb_GroupBytes = 0\<rparr>)"

lemma demo_json: "demo_marshal m = Some p \<Longrightarrow> demo_strict (payload_type m) p = Some m"
  by (auto simp: demo_marshal_def demo_strict_def split: payload.splits if_splits)

definition demo_begin :: payload where
  "demo_begin = Begin \<lparr>mb_Revision = 7, mb_Groups = 0, mb_Paths = 0, mb_GroupBytes = 0\<rparr>"

theorem mesh_control_roundtrip_witness:
  "\<exists>f. snd (WriteMeshControl demo_marshal full_write demo_begin []) = f \<and>
     ReadMeshControl demo_marshal demo_strict \<lparr>rd_data = f @ [1], rd_fail = EOF\<rparr> =
       (Inr demo_begin, \<lparr>rd_data = [1], rd_fail = EOF\<rparr>) \<and> (\<exists>p. demo_marshal demo_begin = Some p \<and> length p \<le> 4096)"
proof -
  have "fst (WriteMeshControl demo_marshal full_write demo_begin []) = None"
    by code_simp
  then have w: "WriteMeshControl demo_marshal full_write demo_begin [] =
      (None, snd (WriteMeshControl demo_marshal full_write demo_begin []))"
    by (metis prod.collapse)
  obtain f where f: "snd (WriteMeshControl demo_marshal full_write demo_begin []) = [] @ f"
    "ReadMeshControl demo_marshal demo_strict \<lparr>rd_data = f @ [1], rd_fail = EOF\<rparr> = (Inr demo_begin, \<lparr>rd_data = [1], rd_fail = EOF\<rparr>)"
    using mesh_control_roundtrip [of demo_marshal demo_strict, OF demo_json] w by blast
  then have "fst (ReadMeshControl demo_marshal demo_strict \<lparr>rd_data = f @ [1], rd_fail = EOF\<rparr>) = Inr demo_begin"
    by simp
  then have "\<exists>p. demo_marshal demo_begin = Some p \<and> length p \<le> 4096"
    using mesh_control_roundtrip [of demo_marshal demo_strict, OF demo_json] by blast
  then show ?thesis
    using f by auto
qed

end
