(* ===== verification/Token.thy ===== *)
theory Token
  imports Prelude
begin

text \<open>
  Token authentication bound to the TLS session, \<^verbatim>\<open>auth/token/token.go\<close>, and the server's
  authenticators over it, \<^verbatim>\<open>server/auth/tokenauth/token.go\<close> and \<^verbatim>\<open>server/auth/mtls/mtls.go\<close>.

  HMAC-SHA512 is a parameter \<open>hmac\<close> (secret, then message) and the exporter of a TLS connection
  is a field of its state. The lemmas show that the bytes under the MAC determine every field
  of the registration, the keying material and the kind of proof.
\<close>

section \<open>Connection state and transcripts\<close>

record tls_state =
  ts_HandshakeComplete :: bool
  ts_Version :: nat
  ts_VerifiedChains :: "byte list list list"
  ts_ExportKeyingMaterial :: "string \<Rightarrow> nat \<Rightarrow> byte list option"

definition VersionTLS13 :: nat where [qmux_defs]: "VersionTLS13 = 0x0304"
definition Scheme :: string where [qmux_defs]: "Scheme = ''qmux-token-ekm-hmac-sha512-v1''"
definition ExporterLabel :: string where [qmux_defs]: "ExporterLabel = ''EXPERIMENTAL-QMux-token-auth-v1''"
definition MeshScheme :: string where [qmux_defs]: "MeshScheme = ''qmux-mesh-token-ekm-hmac-sha512-v1''"
definition MeshExporterLabel :: string where
  [qmux_defs]: "MeshExporterLabel = ''EXPERIMENTAL-QMux-mesh-token-auth-v1''"
definition MinSecretSize :: nat where [qmux_defs]: "MinSecretSize = 16"
definition ProofSize :: nat where [qmux_defs]: "ProofSize = 64"
definition proofDomain :: string where [qmux_defs]: "proofDomain = ''QMux token authentication proof''"
definition meshProofDomain :: string where [qmux_defs]: "meshProofDomain = ''QMux mesh token authentication proof''"
definition exporterLength :: nat where [qmux_defs]: "exporterLength = 32"

record Transcript =
  tr_ClientID :: string
  tr_Version :: string
  tr_Capabilities :: "string list"

record MeshTranscript =
  mt_Version :: string
  mt_Capabilities :: "string list"
  mt_Role :: string
  mt_TargetServerID :: string
  mt_PeerServerID :: string
  mt_InstanceID :: string
  mt_GroupID :: string

datatype token_error =
    SecretTooShort | HandshakeIncomplete | NotTLS13 nat | FieldTooLarge | TranscriptTooLarge | TooManyCapabilities
  | DuplicateTokenCapability string | ExportFailed | InvalidProofSize nat | InvalidProof
  | ProofMissing | ChainsMissing

type_synonym mac = "byte list \<Rightarrow> byte list \<Rightarrow> byte list"

section \<open>The canonical transcript\<close>

text \<open>A Go string is its bytes.\<close>

definition bytes_of :: "string \<Rightarrow> byte list" where
  "bytes_of s = map of_char s"

definition writeString :: "string \<Rightarrow> byte list" where
  "writeString value = PutUint32 (of_nat (length value)) @ bytes_of value"

text \<open>The \<open>uint64\<close> total never wraps: the guard is written out.\<close>

definition addEncodedLength :: "nat \<Rightarrow> nat \<Rightarrow> token_error + nat" where
  "addEncodedLength tot len =
     (if len > 2 ^ 32 - 1 then Inl FieldTooLarge
      else let encodedSize = 4 + len in
        if tot > 2 ^ 64 - 1 - encodedSize then Inl TranscriptTooLarge else Inr (tot + encodedSize))"

definition addEncodedStringSize :: "nat \<Rightarrow> string \<Rightarrow> token_error + nat" where
  "addEncodedStringSize tot value = addEncodedLength tot (length value)"

fun addFields :: "string list \<Rightarrow> nat \<Rightarrow> token_error + nat" where
  "addFields [] tot = Inr tot"
| "addFields (field # rest) tot =
     (case addEncodedStringSize tot field of Inl err \<Rightarrow> Inl err | Inr tot' \<Rightarrow> addFields rest tot')"

fun addCapabilities :: "string list \<Rightarrow> string list \<Rightarrow> nat \<Rightarrow> token_error + nat" where
  "addCapabilities seen [] tot = Inr tot"
| "addCapabilities seen (capability # rest) tot =
     (if capability \<in> set seen then Inl (DuplicateTokenCapability capability)
      else case addEncodedStringSize tot capability of Inl err \<Rightarrow> Inl err
        | Inr tot' \<Rightarrow> addCapabilities (capability # seen) rest tot')"

definition maxInt :: nat where
  "maxInt = 2 ^ 63 - 1"

definition marshalTokenTranscript :: "string list \<Rightarrow> string list \<Rightarrow> string list \<Rightarrow> token_error + byte list" where
  "marshalTokenTranscript prefix capabilities suffix =
     (case addFields (prefix @ suffix) 4 of Inl err \<Rightarrow> Inl err
      | Inr tot1 \<Rightarrow>
        if length capabilities > 2 ^ 32 - 1 then Inl TooManyCapabilities
        else case addCapabilities [] capabilities tot1 of Inl err \<Rightarrow> Inl err
        | Inr tot2 \<Rightarrow>
          if tot2 > maxInt then Inl TranscriptTooLarge
          else Inr (concat (map writeString prefix) @ PutUint32 (of_nat (length capabilities)) @
                    concat (map writeString capabilities) @ concat (map writeString suffix)))"

definition marshalTranscript :: "Transcript \<Rightarrow> token_error + byte list" where
  "marshalTranscript t =
     marshalTokenTranscript [proofDomain, Scheme, tr_ClientID t, tr_Version t] (tr_Capabilities t) []"

definition marshalMeshTranscript :: "MeshTranscript \<Rightarrow> token_error + byte list" where
  "marshalMeshTranscript t =
     marshalTokenTranscript [meshProofDomain, MeshScheme, mt_Version t] (mt_Capabilities t)
       [mt_Role t, mt_TargetServerID t, mt_PeerServerID t, mt_InstanceID t, mt_GroupID t]"

section \<open>Proofs\<close>

definition computeProof :: "mac \<Rightarrow> byte list \<Rightarrow> byte list \<Rightarrow> byte list \<Rightarrow> byte list" where
  "computeProof hmac secret canonical ekm = hmac secret (canonical @ ekm)"

definition Compute :: "mac \<Rightarrow> byte list \<Rightarrow> Transcript \<Rightarrow> tls_state \<Rightarrow> token_error + byte list" where
  "Compute hmac secret transcript state =
     (if length secret < MinSecretSize then Inl SecretTooShort
      else if \<not> ts_HandshakeComplete state then Inl HandshakeIncomplete
      else if ts_Version state \<noteq> VersionTLS13 then Inl (NotTLS13 (ts_Version state))
      else case marshalTranscript transcript of Inl err \<Rightarrow> Inl err
      | Inr canonical \<Rightarrow>
        (case ts_ExportKeyingMaterial state ExporterLabel exporterLength of None \<Rightarrow> Inl ExportFailed
         | Some ekm \<Rightarrow> Inr (computeProof hmac secret canonical ekm)))"

definition Verify :: "mac \<Rightarrow> byte list \<Rightarrow> Transcript \<Rightarrow> byte list \<Rightarrow> tls_state \<Rightarrow> token_error option" where
  "Verify hmac secret transcript prf state =
     (if length prf \<noteq> ProofSize then Some (InvalidProofSize (length prf))
      else case Compute hmac secret transcript state of Inl err \<Rightarrow> Some err
      | Inr expected \<Rightarrow> if prf \<noteq> expected then Some InvalidProof else None)"

definition computeWithExporter :: "mac \<Rightarrow> byte list \<Rightarrow> byte list \<Rightarrow> string \<Rightarrow> tls_state \<Rightarrow> token_error + byte list" where
  "computeWithExporter hmac secret canonical label state =
     (if length secret < MinSecretSize then Inl SecretTooShort
      else if \<not> ts_HandshakeComplete state then Inl HandshakeIncomplete
      else if ts_Version state \<noteq> VersionTLS13 then Inl (NotTLS13 (ts_Version state))
      else case ts_ExportKeyingMaterial state label exporterLength of None \<Rightarrow> Inl ExportFailed
      | Some ekm \<Rightarrow> Inr (computeProof hmac secret canonical ekm))"

definition ComputeMesh :: "mac \<Rightarrow> byte list \<Rightarrow> MeshTranscript \<Rightarrow> tls_state \<Rightarrow> token_error + byte list" where
  "ComputeMesh hmac secret transcript state =
     (case marshalMeshTranscript transcript of Inl err \<Rightarrow> Inl err
      | Inr canonical \<Rightarrow> computeWithExporter hmac secret canonical MeshExporterLabel state)"

definition VerifyMesh :: "mac \<Rightarrow> byte list \<Rightarrow> MeshTranscript \<Rightarrow> byte list \<Rightarrow> tls_state \<Rightarrow> token_error option" where
  "VerifyMesh hmac secret transcript prf state =
     (if length prf \<noteq> ProofSize then Some (InvalidProofSize (length prf))
      else case ComputeMesh hmac secret transcript state of Inl err \<Rightarrow> Some err
      | Inr expected \<Rightarrow> if prf \<noteq> expected then Some InvalidProof else None)"

section \<open>Authenticators\<close>

record AuthRegistration =
  ar_ClientID :: string
  ar_Version :: string
  ar_Capabilities :: "string list"
  ar_Scheme :: string
  ar_Proof :: "byte list"

record AuthMeshRegistration =
  am_Version :: string
  am_Capabilities :: "string list"
  am_Role :: string
  am_TargetServerID :: string
  am_PeerServerID :: string
  am_InstanceID :: string
  am_GroupID :: string
  am_Scheme :: string
  am_Proof :: "byte list"

datatype Auth = TokenAuth "byte list" | MTLSAuth

definition tokenauth_New :: "byte list \<Rightarrow> token_error + Auth" where
  "tokenauth_New secret = (if length secret < MinSecretSize then Inl SecretTooShort else Inr (TokenAuth secret))"

definition verifyTLS :: "tls_state \<Rightarrow> token_error option" where
  "verifyTLS state =
     (if \<not> ts_HandshakeComplete state then Some HandshakeIncomplete
      else if length (ts_VerifiedChains state) = 0 then Some ChainsMissing else None)"

definition auth_Verify :: "mac \<Rightarrow> Auth \<Rightarrow> tls_state \<Rightarrow> AuthRegistration \<Rightarrow> token_error option" where
  "auth_Verify hmac a state r =
     (case a of MTLSAuth \<Rightarrow> verifyTLS state
      | TokenAuth secret \<Rightarrow>
        if ar_Scheme r \<noteq> Scheme then Some ProofMissing
        else Verify hmac secret \<lparr>tr_ClientID = ar_ClientID r, tr_Version = ar_Version r,
               tr_Capabilities = ar_Capabilities r\<rparr> (ar_Proof r) state)"

definition auth_VerifyMesh :: "mac \<Rightarrow> Auth \<Rightarrow> tls_state \<Rightarrow> AuthMeshRegistration \<Rightarrow> token_error option" where
  "auth_VerifyMesh hmac a state r =
     (case a of MTLSAuth \<Rightarrow> verifyTLS state
      | TokenAuth secret \<Rightarrow>
        if am_Scheme r \<noteq> MeshScheme then Some ProofMissing
        else VerifyMesh hmac secret \<lparr>mt_Version = am_Version r, mt_Capabilities = am_Capabilities r,
               mt_Role = am_Role r, mt_TargetServerID = am_TargetServerID r, mt_PeerServerID = am_PeerServerID r,
               mt_InstanceID = am_InstanceID r, mt_GroupID = am_GroupID r\<rparr> (am_Proof r) state)"

definition SelectedScheme :: "Auth \<Rightarrow> string" where
  "SelectedScheme a = (case a of TokenAuth _ \<Rightarrow> Scheme | MTLSAuth \<Rightarrow> [])"

definition SelectedMeshScheme :: "Auth \<Rightarrow> string" where
  "SelectedMeshScheme a = (case a of TokenAuth _ \<Rightarrow> MeshScheme | MTLSAuth \<Rightarrow> [])"

section \<open>The transcript determines its fields\<close>

lemma unat_of_char: "unat (of_char c :: byte) = of_char c"
proof -
  have "unat (of_nat (of_char c) :: byte) = of_char c"
    by (simp add: unat_of_nat)
  then show ?thesis by (simp only: of_nat_of_char)
qed

lemma bytes_of_inject [simp]: "bytes_of s = bytes_of t \<longleftrightarrow> s = t"
proof
  assume "bytes_of s = bytes_of t"
  then have "map unat (bytes_of s) = map unat (bytes_of t)" by simp
  then have "map (of_char :: char \<Rightarrow> nat) s = map of_char t"
    by (simp add: bytes_of_def unat_of_char comp_def)
  then show "s = t"
    by (rule map_injective) (auto simp: inj_def)
qed simp

lemma length_bytes_of [simp]: "length (bytes_of s) = length s"
  by (simp add: bytes_of_def)

lemma of_nat32_inject:
  assumes "m < 2 ^ 32" and "n < 2 ^ 32"
  shows "(of_nat m :: u32) = of_nat n \<longleftrightarrow> m = n"
proof -
  have "unat (of_nat m :: u32) = m" "unat (of_nat n :: u32) = n"
    using assms by (simp_all add: unat_of_nat)
  then show ?thesis by metis
qed

lemma writeString_cancel:
  assumes "length s < 2 ^ 32" and "length t < 2 ^ 32" and "writeString s @ xs = writeString t @ ys"
  shows "s = t \<and> xs = ys"
proof -
  have "PutUint32 (of_nat (length s)) = PutUint32 (of_nat (length t))"
    and rest: "bytes_of s @ xs = bytes_of t @ ys"
    using assms(3) by (simp_all add: writeString_def append_eq_append_conv)
  then have "length s = length t"
    using assms(1,2) by (simp add: of_nat32_inject)
  with rest show ?thesis by (simp add: append_eq_append_conv)
qed

lemma writeStrings_cancel:
  assumes "length ss = length ts" and "\<forall>s \<in> set ss \<union> set ts. length s < 2 ^ 32"
    and "concat (map writeString ss) @ xs = concat (map writeString ts) @ ys"
  shows "ss = ts \<and> xs = ys"
  using assms
proof (induction ss ts rule: list_induct2)
  case (Cons s ss t ts)
  have "s = t \<and> concat (map writeString ss) @ xs = concat (map writeString ts) @ ys"
    using Cons.prems by (intro writeString_cancel) simp_all
  with Cons show ?case by simp
qed simp

lemma addFields_bound: "addFields fs tot = Inr n \<Longrightarrow> \<forall>f \<in> set fs. length f < 2 ^ 32"
  by (induction fs tot rule: addFields.induct)
    (auto simp: addEncodedStringSize_def addEncodedLength_def Let_def split: if_splits)

lemma addCapabilities_bound: "addCapabilities seen cs tot = Inr n \<Longrightarrow> \<forall>c \<in> set cs. length c < 2 ^ 32"
  by (induction seen cs tot rule: addCapabilities.induct)
    (auto simp: addEncodedStringSize_def addEncodedLength_def Let_def split: if_splits)

lemma marshalTokenTranscript_ok:
  assumes "marshalTokenTranscript p cs s = Inr b"
  shows "b = concat (map writeString p) @ PutUint32 (of_nat (length cs)) @ concat (map writeString cs) @
      concat (map writeString s)"
    and "\<forall>f \<in> set (p @ cs @ s). length f < 2 ^ 32" and "length cs < 2 ^ 32"
proof -
  obtain m n where mn: "addFields (p @ s) 4 = Inr m" "addCapabilities [] cs m = Inr n" and "length cs \<le> 2 ^ 32 - 1"
    and b: "b = concat (map writeString p) @ PutUint32 (of_nat (length cs)) @ concat (map writeString cs) @
      concat (map writeString s)"
    using assms by (auto simp: marshalTokenTranscript_def split: sum.splits if_splits)
  then show "b = concat (map writeString p) @ PutUint32 (of_nat (length cs)) @ concat (map writeString cs) @
      concat (map writeString s)" "length cs < 2 ^ 32"
    by simp_all
  show "\<forall>f \<in> set (p @ cs @ s). length f < 2 ^ 32"
    using addFields_bound [OF mn(1)] addCapabilities_bound [OF mn(2)] by auto
qed

text \<open>Two encodings with fields in the same places are equal only field by field, even with
  more bytes behind them.\<close>

lemma marshalTokenTranscript_cancel:
  assumes "marshalTokenTranscript p cs s = Inr b" and "marshalTokenTranscript p' cs' s' = Inr b'"
    and "length p = length p'" and "length s = length s'" and "b @ x = b' @ x'"
  shows "p = p' \<and> cs = cs' \<and> s = s' \<and> x = x'"
proof -
  note ok = marshalTokenTranscript_ok [OF assms(1)] and ok' = marshalTokenTranscript_ok [OF assms(2)]
  have p: "p = p' \<and> PutUint32 (of_nat (length cs)) @ concat (map writeString cs) @ concat (map writeString s) @ x =
      PutUint32 (of_nat (length cs')) @ concat (map writeString cs') @ concat (map writeString s') @ x'"
    using assms(3,5) ok(1,2) ok'(1,2) by (intro writeStrings_cancel) auto
  then have "PutUint32 (of_nat (length cs)) = PutUint32 (of_nat (length cs'))"
    and cs: "concat (map writeString cs) @ concat (map writeString s) @ x =
      concat (map writeString cs') @ concat (map writeString s') @ x'"
    by (simp_all add: append_eq_append_conv)
  then have "length cs = length cs'"
    using ok(3) ok'(3) by (simp add: of_nat32_inject)
  then have "cs = cs' \<and> concat (map writeString s) @ x = concat (map writeString s') @ x'"
    using cs ok(2) ok'(2) by (intro writeStrings_cancel) auto
  moreover from this have "s = s' \<and> x = x'"
    using assms(4) ok(2) ok'(2) by (intro writeStrings_cancel) auto
  ultimately show ?thesis using p by blast
qed

section \<open>What a proof commits to\<close>

text \<open>The bytes under the MAC: of an ordinary and of a mesh registration.\<close>

definition token_input :: "Transcript \<Rightarrow> tls_state \<Rightarrow> byte list option" where
  "token_input t state = (case marshalTranscript t of Inl _ \<Rightarrow> None
     | Inr canonical \<Rightarrow> map_option (\<lambda>ekm. canonical @ ekm) (ts_ExportKeyingMaterial state ExporterLabel exporterLength))"

definition mesh_token_input :: "MeshTranscript \<Rightarrow> tls_state \<Rightarrow> byte list option" where
  "mesh_token_input t state = (case marshalMeshTranscript t of Inl _ \<Rightarrow> None
     | Inr canonical \<Rightarrow> map_option (\<lambda>ekm. canonical @ ekm) (ts_ExportKeyingMaterial state MeshExporterLabel exporterLength))"

lemma token_input_inject:
  assumes "token_input t st = Some x" and "token_input t' st' = Some x"
  shows "t = t' \<and> ts_ExportKeyingMaterial st ExporterLabel exporterLength =
    ts_ExportKeyingMaterial st' ExporterLabel exporterLength"
proof -
  obtain b b' e e' where b: "marshalTranscript t = Inr b" "marshalTranscript t' = Inr b'"
    and e: "ts_ExportKeyingMaterial st ExporterLabel exporterLength = Some e"
      "ts_ExportKeyingMaterial st' ExporterLabel exporterLength = Some e'"
    and eq: "b @ e = b' @ e'"
    using assms by (auto simp: token_input_def split: sum.splits)
  from marshalTokenTranscript_cancel [OF b [unfolded marshalTranscript_def] _ _ eq] e show ?thesis
    by simp
qed

lemma mesh_token_input_inject:
  assumes "mesh_token_input t st = Some x" and "mesh_token_input t' st' = Some x"
  shows "t = t' \<and> ts_ExportKeyingMaterial st MeshExporterLabel exporterLength =
    ts_ExportKeyingMaterial st' MeshExporterLabel exporterLength"
proof -
  obtain b b' e e' where b: "marshalMeshTranscript t = Inr b" "marshalMeshTranscript t' = Inr b'"
    and e: "ts_ExportKeyingMaterial st MeshExporterLabel exporterLength = Some e"
      "ts_ExportKeyingMaterial st' MeshExporterLabel exporterLength = Some e'"
    and eq: "b @ e = b' @ e'"
    using assms by (auto simp: mesh_token_input_def split: sum.splits)
  from marshalTokenTranscript_cancel [OF b [unfolded marshalMeshTranscript_def] _ _ eq] e show ?thesis
    by simp
qed

text \<open>The two kinds of proof start with different domain strings.\<close>

lemma token_inputs_separate:
  assumes "token_input t st = Some x" and "mesh_token_input t' st' = Some y"
  shows "x \<noteq> y"
proof
  assume "x = y"
  obtain b e where x: "marshalTranscript t = Inr b" "x = b @ e"
    using assms(1) by (auto simp: token_input_def split: sum.splits)
  obtain b' e' where y: "marshalMeshTranscript t' = Inr b'" "y = b' @ e'"
    using assms(2) by (auto simp: mesh_token_input_def split: sum.splits)
  note b = x(1) y(1) and eq = \<open>x = y\<close> [unfolded x(2) y(2)]
  note ok = marshalTokenTranscript_ok(1) [OF b(1) [unfolded marshalTranscript_def]]
    and ok' = marshalTokenTranscript_ok(1) [OF b(2) [unfolded marshalMeshTranscript_def]]
  have "\<exists>r r'. writeString proofDomain @ r = writeString meshProofDomain @ r'"
    using eq unfolding ok ok' by (simp only: list.map concat.simps append_assoc) blast
  then obtain r r' where "writeString proofDomain @ r = writeString meshProofDomain @ r'"
    by blast
  then have "proofDomain = meshProofDomain"
    by (rule conjunct1 [OF writeString_cancel, rotated 2]) (simp_all add: qmux_defs)
  then show False
    by (simp add: qmux_defs)
qed

lemma Verify_iff:
  "Verify hmac secret t p st = None \<longleftrightarrow> length p = ProofSize \<and> MinSecretSize \<le> length secret \<and>
     ts_HandshakeComplete st \<and> ts_Version st = VersionTLS13 \<and>
     (\<exists>x. token_input t st = Some x \<and> p = hmac secret x)"
  by (auto simp: Verify_def Compute_def computeProof_def token_input_def split: sum.splits option.splits)

lemma VerifyMesh_iff:
  "VerifyMesh hmac secret t p st = None \<longleftrightarrow> length p = ProofSize \<and> MinSecretSize \<le> length secret \<and>
     ts_HandshakeComplete st \<and> ts_Version st = VersionTLS13 \<and>
     (\<exists>x. mesh_token_input t st = Some x \<and> p = hmac secret x)"
  by (auto simp: VerifyMesh_def ComputeMesh_def computeWithExporter_def computeProof_def mesh_token_input_def
      split: sum.splits option.splits)

section \<open>The canonical encoding, written out\<close>

text \<open>A field is its length in four bytes followed by its text; an encoding is refused exactly when a field or the list
  of capabilities does not fit its length, a capability is repeated, or the whole is too long for a buffer.\<close>

definition encoded_field :: "string \<Rightarrow> byte list" where
  "encoded_field f = PutUint32 (of_nat (length f)) @ map of_char f"

definition encoded :: "string list \<Rightarrow> string list \<Rightarrow> string list \<Rightarrow> byte list" where
  "encoded prefix capabilities suffix =
     concat (map encoded_field prefix) @ PutUint32 (of_nat (length capabilities)) @
     concat (map encoded_field capabilities) @ concat (map encoded_field suffix)"

definition encodable :: "string list \<Rightarrow> string list \<Rightarrow> string list \<Rightarrow> bool" where
  "encodable prefix capabilities suffix \<longleftrightarrow>
     list_all (\<lambda>f. length f < 2 ^ 32) (prefix @ capabilities @ suffix) \<and> length capabilities < 2 ^ 32 \<and>
     distinct capabilities \<and> length (encoded prefix capabilities suffix) < 2 ^ 63"

abbreviation field_sizes :: "string list \<Rightarrow> nat" where
  "field_sizes fs \<equiv> sum_list (map (\<lambda>f. 4 + length f) fs)"

lemma encoded_field_writeString: "encoded_field = writeString"
  by (rule ext) (simp add: encoded_field_def writeString_def bytes_of_def)

lemma length_encoded_fields: "length (concat (map encoded_field fs)) = field_sizes fs"
  by (induction fs) (simp_all add: encoded_field_def)

lemma length_encoded: "length (encoded p cs s) = 4 + field_sizes (p @ s) + field_sizes cs"
  by (simp add: encoded_def length_encoded_fields)

lemma addFields_iff:
  "tot < 2 ^ 64 \<Longrightarrow> addFields fs tot = Inr n \<longleftrightarrow>
     list_all (\<lambda>f. length f < 2 ^ 32) fs \<and> n = tot + field_sizes fs \<and> n < 2 ^ 64"
  by (induction fs arbitrary: tot) (auto simp: addEncodedStringSize_def addEncodedLength_def Let_def)

lemma addCapabilities_iff:
  "tot < 2 ^ 64 \<Longrightarrow> addCapabilities seen cs tot = Inr n \<longleftrightarrow>
     list_all (\<lambda>f. length f < 2 ^ 32) cs \<and> distinct cs \<and> set cs \<inter> set seen = {} \<and> n = tot + field_sizes cs \<and> n < 2 ^ 64"
  by (induction cs arbitrary: tot seen) (auto simp: addEncodedStringSize_def addEncodedLength_def Let_def)

lemma marshalTokenTranscript_iff:
  "marshalTokenTranscript p cs s = Inr b \<longleftrightarrow> encodable p cs s \<and> b = encoded p cs s"
proof
  assume m: "marshalTokenTranscript p cs s = Inr b"
  then obtain n1 n2 where n: "addFields (p @ s) 4 = Inr n1" "addCapabilities [] cs n1 = Inr n2" and c: "length cs \<le> 2 ^ 32 - 1"
    and max: "n2 \<le> maxInt" and b: "b = encoded p cs s"
    by (auto simp: marshalTokenTranscript_def encoded_def encoded_field_writeString split: sum.splits if_splits)
  have n1: "list_all (\<lambda>f. length f < 2 ^ 32) (p @ s)" "n1 = 4 + field_sizes (p @ s)" "n1 < 2 ^ 64"
    using n(1) addFields_iff [of 4 "p @ s" n1] by simp_all
  have n2: "list_all (\<lambda>f. length f < 2 ^ 32) cs" "distinct cs" "n2 = n1 + field_sizes cs"
    using n(2) addCapabilities_iff [OF n1(3), of "[]" cs n2] by simp_all
  have "length (encoded p cs s) < 2 ^ 63"
    using max n1(2) n2(3) by (simp add: length_encoded maxInt_def)
  then show "encodable p cs s \<and> b = encoded p cs s"
    using n1(1) n2(1,2) c b by (simp add: encodable_def)
next
  assume e: "encodable p cs s \<and> b = encoded p cs s"
  then have len: "4 + field_sizes (p @ s) + field_sizes cs < 2 ^ 63"
    using length_encoded [of p cs s] by (simp add: encodable_def)
  have n1: "addFields (p @ s) 4 = Inr (4 + field_sizes (p @ s))"
    using e len addFields_iff [of 4 "p @ s" "4 + field_sizes (p @ s)"] by (simp add: encodable_def)
  have n2: "addCapabilities [] cs (4 + field_sizes (p @ s)) = Inr (4 + field_sizes (p @ s) + field_sizes cs)"
    using e len addCapabilities_iff [of "4 + field_sizes (p @ s)" "[]" cs "4 + field_sizes (p @ s) + field_sizes cs"]
    by (simp add: encodable_def)
  show "marshalTokenTranscript p cs s = Inr b"
    unfolding marshalTokenTranscript_def n1 sum.case n2 using e len
    by (simp add: encodable_def maxInt_def encoded_def encoded_field_writeString)
qed

text \<open>The bytes a token proof authenticates, with the exported keying material \<open>ekm\<close> behind them.\<close>

definition proof_text :: "AuthRegistration \<Rightarrow> byte list \<Rightarrow> byte list option" where
  "proof_text r ekm =
     (let prefix = [''QMux token authentication proof'', ''qmux-token-ekm-hmac-sha512-v1'', ar_ClientID r, ar_Version r] in
      if encodable prefix (ar_Capabilities r) [] then Some (encoded prefix (ar_Capabilities r) [] @ ekm) else None)"

definition mesh_proof_text :: "AuthMeshRegistration \<Rightarrow> byte list \<Rightarrow> byte list option" where
  "mesh_proof_text r ekm =
     (let prefix = [''QMux mesh token authentication proof'', ''qmux-mesh-token-ekm-hmac-sha512-v1'', am_Version r];
          suffix = [am_Role r, am_TargetServerID r, am_PeerServerID r, am_InstanceID r, am_GroupID r] in
      if encodable prefix (am_Capabilities r) suffix then Some (encoded prefix (am_Capabilities r) suffix @ ekm) else None)"

lemma token_input_text:
  "token_input \<lparr>tr_ClientID = ar_ClientID r, tr_Version = ar_Version r, tr_Capabilities = ar_Capabilities r\<rparr> st = Some x \<longleftrightarrow>
     (\<exists>ekm. ts_ExportKeyingMaterial st ''EXPERIMENTAL-QMux-token-auth-v1'' 32 = Some ekm \<and> proof_text r ekm = Some x)"
proof -
  let ?p = "[''QMux token authentication proof'', ''qmux-token-ekm-hmac-sha512-v1'', ar_ClientID r, ar_Version r]"
  have m: "marshalTranscript \<lparr>tr_ClientID = ar_ClientID r, tr_Version = ar_Version r, tr_Capabilities = ar_Capabilities r\<rparr> = Inr b \<longleftrightarrow>
      encodable ?p (ar_Capabilities r) [] \<and> b = encoded ?p (ar_Capabilities r) []" for b
    unfolding marshalTranscript_def marshalTokenTranscript_iff by (simp add: proofDomain_def Scheme_def)
  have i: "token_input t st = Some x \<longleftrightarrow> (\<exists>b ekm. marshalTranscript t = Inr b \<and>
      ts_ExportKeyingMaterial st ExporterLabel exporterLength = Some ekm \<and> x = b @ ekm)" for t
    by (auto simp: token_input_def split: sum.splits)
  show ?thesis
    unfolding i m proof_text_def Let_def ExporterLabel_def exporterLength_def by auto
qed

lemma mesh_token_input_text:
  "mesh_token_input \<lparr>mt_Version = am_Version r, mt_Capabilities = am_Capabilities r, mt_Role = am_Role r,
       mt_TargetServerID = am_TargetServerID r, mt_PeerServerID = am_PeerServerID r, mt_InstanceID = am_InstanceID r,
       mt_GroupID = am_GroupID r\<rparr> st = Some x \<longleftrightarrow>
     (\<exists>ekm. ts_ExportKeyingMaterial st ''EXPERIMENTAL-QMux-mesh-token-auth-v1'' 32 = Some ekm \<and> mesh_proof_text r ekm = Some x)"
proof -
  let ?t = "\<lparr>mt_Version = am_Version r, mt_Capabilities = am_Capabilities r, mt_Role = am_Role r, mt_TargetServerID = am_TargetServerID r,
    mt_PeerServerID = am_PeerServerID r, mt_InstanceID = am_InstanceID r, mt_GroupID = am_GroupID r\<rparr>"
  let ?p = "[''QMux mesh token authentication proof'', ''qmux-mesh-token-ekm-hmac-sha512-v1'', am_Version r]"
  let ?s = "[am_Role r, am_TargetServerID r, am_PeerServerID r, am_InstanceID r, am_GroupID r]"
  have m: "marshalMeshTranscript ?t = Inr b \<longleftrightarrow> encodable ?p (am_Capabilities r) ?s \<and> b = encoded ?p (am_Capabilities r) ?s" for b
    unfolding marshalMeshTranscript_def marshalTokenTranscript_iff by (simp add: meshProofDomain_def MeshScheme_def)
  have i: "mesh_token_input t st = Some x \<longleftrightarrow> (\<exists>b ekm. marshalMeshTranscript t = Inr b \<and>
      ts_ExportKeyingMaterial st MeshExporterLabel exporterLength = Some ekm \<and> x = b @ ekm)" for t
    by (auto simp: mesh_token_input_def split: sum.splits)
  show ?thesis
    unfolding i m mesh_proof_text_def Let_def MeshExporterLabel_def exporterLength_def by auto
qed

text \<open>C22: a token authenticator accepts a registration exactly when it names the scheme, the secret has at least 16
  bytes, the connection is a completed TLS 1.3 handshake that exports keying material under the label of its
  kind, the registration is encodable (fields and capability list fit their lengths, no capability is repeated), and the proof is
  the 64 byte MAC of every field, in order and length-prefixed after the domain and scheme, followed by that
  material. The same for mesh registrations.\<close>

theorem token_verify_exact:
  "(auth_Verify hmac (TokenAuth secret) st r = None \<longleftrightarrow>
      ar_Scheme r = ''qmux-token-ekm-hmac-sha512-v1'' \<and> length (ar_Proof r) = 64 \<and> 16 \<le> length secret \<and>
      ts_HandshakeComplete st \<and> ts_Version st = 0x0304 \<and>
      (\<exists>ekm x. ts_ExportKeyingMaterial st ''EXPERIMENTAL-QMux-token-auth-v1'' 32 = Some ekm \<and> proof_text r ekm = Some x \<and>
         ar_Proof r = hmac secret x)) \<and>
   (auth_VerifyMesh hmac (TokenAuth secret) st u = None \<longleftrightarrow>
      am_Scheme u = ''qmux-mesh-token-ekm-hmac-sha512-v1'' \<and> length (am_Proof u) = 64 \<and> 16 \<le> length secret \<and>
      ts_HandshakeComplete st \<and> ts_Version st = 0x0304 \<and>
      (\<exists>ekm x. ts_ExportKeyingMaterial st ''EXPERIMENTAL-QMux-mesh-token-auth-v1'' 32 = Some ekm \<and> mesh_proof_text u ekm = Some x \<and>
         am_Proof u = hmac secret x))"
proof (rule conjI)
  show "auth_Verify hmac (TokenAuth secret) st r = None \<longleftrightarrow>
      ar_Scheme r = ''qmux-token-ekm-hmac-sha512-v1'' \<and> length (ar_Proof r) = 64 \<and> 16 \<le> length secret \<and>
      ts_HandshakeComplete st \<and> ts_Version st = 0x0304 \<and>
      (\<exists>ekm x. ts_ExportKeyingMaterial st ''EXPERIMENTAL-QMux-token-auth-v1'' 32 = Some ekm \<and> proof_text r ekm = Some x \<and>
         ar_Proof r = hmac secret x)"
    by (auto simp: auth_Verify_def Verify_iff token_input_text Scheme_def ProofSize_def MinSecretSize_def VersionTLS13_def)
  show "auth_VerifyMesh hmac (TokenAuth secret) st u = None \<longleftrightarrow>
      am_Scheme u = ''qmux-mesh-token-ekm-hmac-sha512-v1'' \<and> length (am_Proof u) = 64 \<and> 16 \<le> length secret \<and>
      ts_HandshakeComplete st \<and> ts_Version st = 0x0304 \<and>
      (\<exists>ekm x. ts_ExportKeyingMaterial st ''EXPERIMENTAL-QMux-mesh-token-auth-v1'' 32 = Some ekm \<and> mesh_proof_text u ekm = Some x \<and>
         am_Proof u = hmac secret x)"
    by (auto simp: auth_VerifyMesh_def VerifyMesh_iff mesh_token_input_text MeshScheme_def ProofSize_def MinSecretSize_def VersionTLS13_def)
qed

definition demo_state :: tls_state where
  "demo_state = \<lparr>ts_HandshakeComplete = True, ts_Version = 0x0304, ts_VerifiedChains = [],
     ts_ExportKeyingMaterial = (\<lambda>label n. Some (replicate n 7))\<rparr>"

definition demo_mac :: mac where
  "demo_mac k m = take 64 (m @ k @ replicate 64 0)"

definition demo_transcript :: Transcript where
  "demo_transcript = \<lparr>tr_ClientID = ''c'', tr_Version = ''2.0'', tr_Capabilities = [''tcp'']\<rparr>"

lemma demo_inputs:
  "token_input demo_transcript demo_state \<noteq> None"
proof -
  have "\<exists>b. marshalTranscript demo_transcript = Inr b"
    by (simp add: marshalTranscript_def marshalTokenTranscript_def addEncodedStringSize_def addEncodedLength_def
        maxInt_def demo_transcript_def qmux_defs)
  then show ?thesis
    by (auto simp: token_input_def demo_state_def)
qed

lemma demo_mac_length: "length (demo_mac k m) = ProofSize"
  by (simp add: demo_mac_def ProofSize_def)

text \<open>The proof a client computes passes the server's check of the same registration.\<close>

lemma Compute_Verify:
  assumes "\<And>k m. length (hmac k m) = ProofSize"
  shows "Compute hmac secret t st = Inr p \<Longrightarrow> Verify hmac secret t p st = None"
    and "ComputeMesh hmac secret u st = Inr q \<Longrightarrow> VerifyMesh hmac secret u q st = None"
proof -
  show "Verify hmac secret t p st = None" if "Compute hmac secret t st = Inr p"
    using that assms by (auto simp: Verify_def Compute_def computeProof_def split: if_splits sum.splits option.splits)
  show "VerifyMesh hmac secret u q st = None" if "ComputeMesh hmac secret u st = Inr q"
    using that assms by (auto simp: VerifyMesh_def ComputeMesh_def computeWithExporter_def computeProof_def split: if_splits sum.splits option.splits)
qed

text \<open>C23: a proof binds every field of its registration and the connection. Two accepted ordinary registrations, or two
  accepted mesh registrations, whose MAC inputs coincide are the same registration on the same keying material, and
  an ordinary and a mesh registration never have the same MAC input. So one proof accepted for two different
  registrations, of whatever kinds, or on connections with different keying material, is a collision of the MAC.\<close>

theorem token_proof_binds:
  assumes "Verify hmac secret t p st = None" and "Verify hmac secret t' p' st' = None"
    and "VerifyMesh hmac secret u q su = None" and "VerifyMesh hmac secret u' q' su' = None"
  shows "\<exists>x x' y y'. hmac secret x = p \<and> hmac secret x' = p' \<and> hmac secret y = q \<and> hmac secret y' = q' \<and>
    x \<noteq> y \<and>
    (x = x' \<longleftrightarrow> t = t' \<and> ts_ExportKeyingMaterial st ExporterLabel exporterLength =
       ts_ExportKeyingMaterial st' ExporterLabel exporterLength) \<and>
    (y = y' \<longleftrightarrow> u = u' \<and> ts_ExportKeyingMaterial su MeshExporterLabel exporterLength =
       ts_ExportKeyingMaterial su' MeshExporterLabel exporterLength)"
proof -
  obtain x x' y y' where i: "token_input t st = Some x" "token_input t' st' = Some x'"
    "mesh_token_input u su = Some y" "mesh_token_input u' su' = Some y'"
    and mac: "hmac secret x = p" "hmac secret x' = p'" "hmac secret y = q" "hmac secret y' = q'"
    using assms unfolding Verify_iff VerifyMesh_iff by blast
  have "x = x' \<longleftrightarrow> t = t' \<and> ts_ExportKeyingMaterial st ExporterLabel exporterLength =
      ts_ExportKeyingMaterial st' ExporterLabel exporterLength"
    using token_input_inject [OF i(1), of t' st'] i(1,2) by (auto simp: token_input_def split: sum.splits)
  moreover have "y = y' \<longleftrightarrow> u = u' \<and> ts_ExportKeyingMaterial su MeshExporterLabel exporterLength =
      ts_ExportKeyingMaterial su' MeshExporterLabel exporterLength"
    using mesh_token_input_inject [OF i(3), of u' su'] i(3,4) by (auto simp: mesh_token_input_def split: sum.splits)
  ultimately show ?thesis
    using mac token_inputs_separate [OF i(1,3)] by (intro exI conjI)
qed

definition demo_mesh_transcript :: MeshTranscript where
  "demo_mesh_transcript = \<lparr>mt_Version = ''1.0'', mt_Capabilities = [], mt_Role = ''peer'', mt_TargetServerID = ''s'',
     mt_PeerServerID = ''r'', mt_InstanceID = [], mt_GroupID = []\<rparr>"

lemma demo_mesh_inputs:
  "mesh_token_input demo_mesh_transcript demo_state \<noteq> None"
proof -
  have "\<exists>b. marshalMeshTranscript demo_mesh_transcript = Inr b"
    by (simp add: marshalMeshTranscript_def marshalTokenTranscript_def addEncodedStringSize_def addEncodedLength_def
        maxInt_def demo_mesh_transcript_def qmux_defs)
  then show ?thesis
    by (auto simp: mesh_token_input_def demo_state_def)
qed

theorem token_proof_binds_witness:
  "\<exists>p q x y. Verify demo_mac (replicate 16 1) demo_transcript p demo_state = None \<and>
     VerifyMesh demo_mac (replicate 16 1) demo_mesh_transcript q demo_state = None \<and>
     demo_mac (replicate 16 1) x = p \<and> demo_mac (replicate 16 1) y = q \<and> x \<noteq> y"
proof -
  obtain x y where xy: "token_input demo_transcript demo_state = Some x"
    "mesh_token_input demo_mesh_transcript demo_state = Some y"
    using demo_inputs demo_mesh_inputs by blast
  then have v: "Verify demo_mac (replicate 16 1) demo_transcript (demo_mac (replicate 16 1) x) demo_state = None"
    "VerifyMesh demo_mac (replicate 16 1) demo_mesh_transcript (demo_mac (replicate 16 1) y) demo_state = None"
    unfolding Verify_iff VerifyMesh_iff by (simp_all add: demo_mac_length demo_state_def qmux_defs)
  from token_proof_binds [OF v(1,1,2,2)] v show ?thesis by blast
qed

end
