(* ===== verification/Outbound.thy ===== *)
theory Outbound
  imports Prelude
begin

text \<open>
  The connection primitives shared by clients and mesh peers, \<^verbatim>\<open>internal/outbound\<close>: the slot for
  one published generation (\<open>Current\<close>), retry state and the single reconnect intent of an
  endpoint, the bounded jittered reconnect delay, and the stop/join/finish boundary of an owner.
  The zero value of a comparable type is \<open>None\<close>; durations are nanoseconds. Dialling, name
  resolution through the network and contexts are left out.
\<close>

section \<open>The published generation\<close>

type_synonym 'a Current = "'a option"

definition Current_Empty :: "'a Current \<Rightarrow> bool" where
  "Current_Empty c \<longleftrightarrow> c = None"

definition Current_Is :: "'a Current \<Rightarrow> 'a option \<Rightarrow> bool" where
  "Current_Is c expected \<longleftrightarrow> expected \<noteq> None \<and> c = expected"

definition Current_Replace :: "'a Current \<Rightarrow> 'a option \<Rightarrow> ('a option \<times> bool) \<times> 'a Current" where
  "Current_Replace c nxt = ((c, c \<noteq> None), nxt)"

definition Current_Publish :: "'a Current \<Rightarrow> 'a option \<Rightarrow> bool \<times> 'a Current" where
  "Current_Publish c nxt = (if nxt = None \<or> c \<noteq> None then (False, c) else (True, nxt))"

definition Current_Retire :: "'a Current \<Rightarrow> 'a option \<Rightarrow> bool \<times> 'a Current" where
  "Current_Retire c expected = (if \<not> Current_Is c expected then (False, c) else (True, None))"

definition Current_Take :: "'a Current \<Rightarrow> 'a option \<times> 'a Current" where
  "Current_Take c = (c, None)"

section \<open>Endpoints and retries\<close>

record Retry =
  rt_stage :: int
  rt_attempts :: u64

definition AdvanceRetry :: "int \<Rightarrow> int \<Rightarrow> Retry \<Rightarrow> Retry" where
  "AdvanceRetry stage maximum r = r\<lparr>rt_stage := min (stage + 1) maximum, rt_attempts := rt_attempts r + 1\<rparr>"

definition ResetRetry :: "Retry \<Rightarrow> Retry" where
  "ResetRetry r = r\<lparr>rt_stage := 0\<rparr>"

record 'a Endpoint =
  ep_current :: "'a option"
  ep_retry :: Retry
  ep_reconnecting :: bool

definition ClaimReconnect :: "'a option \<Rightarrow> 'a Endpoint \<Rightarrow> bool \<times> 'a Endpoint" where
  "ClaimReconnect expected e =
     (if ep_reconnecting e then (False, e)
      else if expected = None \<and> \<not> Current_Empty (ep_current e) then (False, e)
      else if expected \<noteq> None \<and> \<not> Current_Is (ep_current e) expected then (False, e)
      else (True, e\<lparr>ep_reconnecting := True\<rparr>))"

definition ReleaseReconnect :: "'a Endpoint \<Rightarrow> 'a Endpoint" where
  "ReleaseReconnect e = e\<lparr>ep_reconnecting := False\<rparr>"

definition RetireForReconnect :: "'a option \<Rightarrow> bool \<Rightarrow> 'a Endpoint \<Rightarrow> bool \<times> 'a Endpoint" where
  "RetireForReconnect expected isStable e =
     (case Current_Retire (ep_current e) expected of (False, _) \<Rightarrow> (False, e)
      | (True, c) \<Rightarrow>
        let e1 = e\<lparr>ep_current := c\<rparr>
        in (True, if isStable then e1\<lparr>ep_retry := ResetRetry (ep_retry e1)\<rparr> else e1))"

section \<open>The reconnect delay\<close>

definition InitialReconnectDelay :: int where [qmux_defs]: "InitialReconnectDelay = 5 * 10 ^ 9"
definition MaxReconnectDelay :: int where [qmux_defs]: "MaxReconnectDelay = 60 * 10 ^ 9"

text \<open>The doubling loop: it ends when the stage is used up or the cap is reached.\<close>

function delayLoop :: "int \<Rightarrow> int \<Rightarrow> int" where
  "delayLoop stage delayCap =
     (if stage > 0 \<and> delayCap < MaxReconnectDelay
      then delayLoop (stage - 1) (min (delayCap * 2) MaxReconnectDelay) else delayCap)"
  by pat_completeness auto

termination
  by (relation "measure (\<lambda>(stage, _). nat stage)") auto

declare delayLoop.simps [simp del]

definition ReconnectDelay :: "int \<Rightarrow> (int \<Rightarrow> int) \<Rightarrow> int" where
  "ReconnectDelay stage int64n =
     (let delayCap = delayLoop stage InitialReconnectDelay;
          half = delayCap div 2
      in half + int64n half)"

text \<open>Preferring IPv4; an address is marked by whether \<open>To4\<close> succeeds. Go panics on an empty list.\<close>

fun PreferredIP :: "('a \<Rightarrow> bool) \<Rightarrow> 'a list \<Rightarrow> 'a option" where
  "PreferredIP isV4 [] = None"
| "PreferredIP isV4 (a # as) =
     (case filter isV4 (a # as) of [] \<Rightarrow> Some a | b # _ \<Rightarrow> Some b)"

section \<open>Owners\<close>

text \<open>The calls an owner makes, in order. \<open>SetResource\<close> installs a new pair of callbacks, numbered
  by \<open>n\<close>; \<open>ow_done\<close> is whether the channel of \<open>Wait\<close> is closed.\<close>

datatype owner_event = CancelCalled | StopCalled nat | JoinCalled nat | DoneClosed

record Owner =
  ow_resource :: "nat option"
  ow_stopped :: bool
  ow_finished :: bool
  ow_log :: "owner_event list"

definition NewOwner :: Owner where
  "NewOwner = \<lparr>ow_resource = None, ow_stopped = False, ow_finished = False, ow_log = []\<rparr>"

definition SetResource :: "nat \<Rightarrow> Owner \<Rightarrow> Owner" where
  "SetResource n o1 =
     (let o2 = o1\<lparr>ow_resource := Some n\<rparr>
      in if ow_stopped o2 then o2\<lparr>ow_log := ow_log o2 @ [StopCalled n]\<rparr> else o2)"

definition Owner_Stop :: "Owner \<Rightarrow> Owner" where
  "Owner_Stop o1 =
     (if ow_stopped o1 then o1
      else o1\<lparr>ow_stopped := True,
              ow_log := ow_log o1 @ [CancelCalled] @
                (case ow_resource o1 of None \<Rightarrow> [] | Some n \<Rightarrow> [StopCalled n])\<rparr>)"

definition Owner_Join :: "Owner \<Rightarrow> Owner" where
  "Owner_Join o1 = o1\<lparr>ow_log := ow_log o1 @ (case ow_resource o1 of None \<Rightarrow> [] | Some n \<Rightarrow> [JoinCalled n])\<rparr>"

definition Finish :: "Owner \<Rightarrow> Owner" where
  "Finish o1 =
     (if ow_finished o1 then o1
      else let o2 = Owner_Join (Owner_Stop (o1\<lparr>ow_finished := True\<rparr>))
           in o2\<lparr>ow_log := ow_log o2 @ [DoneClosed]\<rparr>)"

section \<open>Lemmas\<close>

lemma Current_Publish_iff: "Current_Publish c (Some x) = (if c = None then (True, Some x) else (False, c))"
  by (simp add: Current_Publish_def)

lemma Current_Retire_eq: "snd (Current_Retire c (Some x)) = (if c = Some x then None else c)"
  by (simp add: Current_Retire_def Current_Is_def)

lemma delayLoop_eq:
  assumes "0 < d" and "d \<le> MaxReconnectDelay"
  shows "delayLoop stage d = min (d * 2 ^ nat stage) MaxReconnectDelay"
  using assms
proof (induction stage d rule: delayLoop.induct)
  case (1 stage d)
  show ?case
  proof (cases "stage > 0 \<and> d < MaxReconnectDelay")
    case True
    then have nat: "nat stage = Suc (nat (stage - 1))" by arith
    have pow: "(1::int) \<le> 2 ^ nat (stage - 1)" by simp
    have "delayLoop stage d = delayLoop (stage - 1) (min (d * 2) MaxReconnectDelay)"
      using True by (subst delayLoop.simps) simp
    also have "\<dots> = min (min (d * 2) MaxReconnectDelay * 2 ^ nat (stage - 1)) MaxReconnectDelay"
      using 1 True by (intro "1.IH") simp_all
    also have "\<dots> = min (d * 2 ^ nat stage) MaxReconnectDelay"
    proof (cases "d * 2 \<le> MaxReconnectDelay")
      case le: True
      then show ?thesis by (simp add: nat mult.assoc)
    next
      case False
      have "MaxReconnectDelay \<le> MaxReconnectDelay * 2 ^ nat (stage - 1)"
        by (simp add: MaxReconnectDelay_def)
      moreover have "(d * 2) * 1 \<le> (d * 2) * 2 ^ nat (stage - 1)"
        using 1(2) by (intro mult_left_mono pow) simp
      ultimately show ?thesis
        using False by (simp add: nat mult.assoc)
    qed
    finally show ?thesis .
  next
    case False
    then have "delayLoop stage d = d"
      by (subst delayLoop.simps) auto
    moreover have "d \<le> d * 2 ^ nat stage"
      using 1(2) by simp
    ultimately show ?thesis
      using False 1(3) by (cases "stage > 0") (simp_all add: min_def)
  qed
qed

text \<open>C40: the reconnect delay terminates with a value between half the cap and the cap of its stage, where
  the cap is five seconds doubled per stage and never more than a minute.\<close>

theorem reconnect_delay_bounds:
  assumes "\<And>n. 0 < n \<Longrightarrow> 0 \<le> int64n n \<and> int64n n < n" and "0 \<le> stage"
  shows "let c = min (5 * 10 ^ 9 * 2 ^ nat stage) (60 * 10 ^ 9)
    in c div 2 \<le> ReconnectDelay stage int64n \<and> ReconnectDelay stage int64n < c \<and>
       25 * 10 ^ 8 \<le> ReconnectDelay stage int64n \<and> ReconnectDelay stage int64n < 60 * 10 ^ 9"
proof -
  define c :: int where "c = min (5 * 10 ^ 9 * 2 ^ nat stage) (60 * 10 ^ 9)"
  have loop: "delayLoop stage InitialReconnectDelay = c"
    using delayLoop_eq [of InitialReconnectDelay stage] by (simp add: c_def qmux_defs)
  have c: "5000000000 \<le> c" "c \<le> 60000000000"
    by (simp_all add: c_def)
  then have half: "2500000000 \<le> c div 2" "2 * (c div 2) \<le> c"
    by presburger+
  then have "0 \<le> int64n (c div 2)" "int64n (c div 2) < c div 2"
    using assms(1) [of "c div 2"] by simp_all
  with half c show ?thesis
    unfolding ReconnectDelay_def Let_def loop c_def [symmetric] by simp
qed

theorem reconnect_delay_bounds_witness:
  "25 * 10 ^ 8 \<le> ReconnectDelay 2 (\<lambda>n. n - 1) \<and> ReconnectDelay 2 (\<lambda>n. n - 1) < 20 * 10 ^ 9"
  using reconnect_delay_bounds [of "\<lambda>n. n - 1" 2] by (simp add: Let_def)

end
