(* ===== verification/Mesh_Ledger.thy ===== *)
theory Mesh_Ledger
  imports Prelude
begin

text \<open>
  The ledger of mesh group declarations, \<^verbatim>\<open>mesh/declaration.go\<close>: canonical declarations are shared
  by reference count between the states that use them, within a limit on their number and
  their bytes, and a receiver reserves room before it has read a declaration.

  Records live in a list and a pointer is an index. SHA-256 is a parameter, and so is the
  strict parser of a canonical declaration (\<^verbatim>\<open>config.ParseMeshGroupCanonicalPolicyMeasured\<close>),
  which yields the group, its rule version and policy, the work it accounted for on the way and
  its peak. The waits on a context are the flags \<open>stop1\<close> and \<open>stop2\<close>.
\<close>

section \<open>State\<close>

type_synonym groupKey = "string \<times> u64"

record groupRecord =
  gr_key :: groupKey
  gr_policy :: string
  gr_digest :: "byte list"
  gr_bytes :: "byte list"
  gr_refs :: int

record declarationLedger =
  dl_heap :: "groupRecord list"
  dl_maxGroups :: int
  dl_maxBytes :: int
  dl_maxSingle :: int
  dl_groups :: int
  dl_bytes :: int
  dl_reserved :: int
  dl_reservedSize :: int
  dl_workBytes :: int
  dl_workPeak :: int
  dl_parsePeak :: int
  dl_records :: "(groupKey \<times> nat) list"
  dl_byDigest :: "(byte list \<times> nat list) list"

record declarationClaim =
  cm_candidate :: "nat option"
  cm_matched :: bool
  cm_reserved :: bool
  cm_size :: int
  cm_workSize :: int

datatype ledger_error =
    DeclarationLength nat int | LedgerContext | ParseFailed nat | GroupMismatch string string
  | errMeshGroupConflict | errMeshGroupCapacity

type_synonym parse = "byte list \<Rightarrow> (nat + string \<times> u64 \<times> string) \<times> int list \<times> int"
type_synonym sha256 = "byte list \<Rightarrow> byte list"

definition newDeclarationLedger :: "int \<Rightarrow> int \<Rightarrow> int \<Rightarrow> declarationLedger" where
  "newDeclarationLedger maxGroups maxBytes maxSingle =
     \<lparr>dl_heap = [], dl_maxGroups = maxGroups, dl_maxBytes = maxBytes, dl_maxSingle = maxSingle, dl_groups = 0,
      dl_bytes = 0, dl_reserved = 0, dl_reservedSize = 0, dl_workBytes = 0, dl_workPeak = 0, dl_parsePeak = 0,
      dl_records = [], dl_byDigest = []\<rparr>"

abbreviation grec :: "declarationLedger \<Rightarrow> nat \<Rightarrow> groupRecord" where
  "grec l r \<equiv> dl_heap l ! r"

definition add_refs :: "nat \<Rightarrow> int \<Rightarrow> declarationLedger \<Rightarrow> declarationLedger" where
  [qmux_defs]: "add_refs r n l = l\<lparr>dl_heap := (dl_heap l)[r := (grec l r)\<lparr>gr_refs := gr_refs (grec l r) + n\<rparr>]\<rparr>"

section \<open>Operations\<close>

definition canReserveLocked :: "int \<Rightarrow> declarationLedger \<Rightarrow> bool" where
  "canReserveLocked len l \<longleftrightarrow> dl_groups l + dl_reserved l < dl_maxGroups l \<and>
     len \<le> dl_maxBytes l - dl_bytes l - dl_reservedSize l"

definition bucket_of :: "declarationLedger \<Rightarrow> byte list \<Rightarrow> nat list" where
  "bucket_of l digest = (case map_of (dl_byDigest l) digest of None \<Rightarrow> [] | Some b \<Rightarrow> b)"

definition ledger_begin :: "u32 \<Rightarrow> byte list \<Rightarrow> declarationLedger \<Rightarrow>
    (ledger_error + declarationClaim) \<times> declarationLedger" where
  "ledger_begin len digest l =
     (if len = 0 \<or> int (unat len) > dl_maxSingle l
      then (Inl (DeclarationLength (unat len) (dl_maxSingle l)), l)
      else
        let claim = \<lparr>cm_candidate = None, cm_matched = False, cm_reserved = False, cm_size = int (unat len),
                     cm_workSize = 0\<rparr>;
            bucket = (if length digest = 32 then bucket_of l digest else [])
        in (case filter (\<lambda>r. length (gr_bytes (grec l r)) = unat len) bucket of
              r # _ \<Rightarrow> (Inr (claim\<lparr>cm_candidate := Some r, cm_matched := True\<rparr>), add_refs r 1 l)
            | [] \<Rightarrow>
              if canReserveLocked (int (unat len)) l
              then (Inr (claim\<lparr>cm_reserved := True\<rparr>),
                    l\<lparr>dl_reserved := dl_reserved l + 1, dl_reservedSize := dl_reservedSize l + int (unat len)\<rparr>)
              else (Inr claim, l)))"

text \<open>A receiver compares only chunks that lie inside the declared length, so the slice is in range.\<close>

definition claim_compare :: "u32 \<Rightarrow> byte list \<Rightarrow> declarationLedger \<Rightarrow> declarationClaim \<Rightarrow> declarationClaim" where
  "claim_compare offset data l claim =
     (case cm_candidate claim of None \<Rightarrow> claim
      | Some r \<Rightarrow>
        if cm_matched claim \<and> slice (unat offset) (unat offset + length data) (gr_bytes (grec l r)) \<noteq> data
        then claim\<lparr>cm_matched := False\<rparr> else claim)"

definition changeWork :: "int \<Rightarrow> declarationLedger \<Rightarrow> declarationLedger" where
  "changeWork n l = l\<lparr>dl_workBytes := dl_workBytes l + n, dl_workPeak := max (dl_workPeak l) (dl_workBytes l + n)\<rparr>"

text \<open>\<open>len\<close> is the sum of the capacities of the two buffers.\<close>

definition trackInput :: "int \<Rightarrow> declarationClaim \<Rightarrow> declarationLedger \<Rightarrow> declarationClaim \<times> declarationLedger" where
  "trackInput len claim l = (claim\<lparr>cm_workSize := len\<rparr>, changeWork len l)"

definition releaseWorkLocked :: "declarationClaim \<Rightarrow> declarationLedger \<Rightarrow> declarationClaim \<times> declarationLedger" where
  "releaseWorkLocked claim l =
     (claim\<lparr>cm_workSize := 0\<rparr>, l\<lparr>dl_workBytes := dl_workBytes l - cm_workSize claim\<rparr>)"

text \<open>A record no reference is left to leaves the two indexes.\<close>

definition releaseLocked :: "nat option \<Rightarrow> declarationLedger \<Rightarrow> declarationLedger" where
  "releaseLocked rp l =
     (case rp of None \<Rightarrow> l
      | Some r \<Rightarrow>
        let l1 = add_refs r (- 1) l; x = grec l1 r in
        if gr_refs x = 0 then
          let bucket = remove1 r (bucket_of l1 (gr_digest x))
          in l1\<lparr>dl_records := AList.delete (gr_key x) (dl_records l1),
                dl_byDigest := (if bucket = [] then AList.delete (gr_digest x) (dl_byDigest l1)
                                else AList.update (gr_digest x) bucket (dl_byDigest l1)),
                dl_groups := dl_groups l1 - 1, dl_bytes := dl_bytes l1 - int (length (gr_bytes x))\<rparr>
        else l1)"

definition ledger_release :: "nat option \<Rightarrow> declarationLedger \<Rightarrow> declarationLedger" where
  "ledger_release rp l = releaseLocked rp l"

definition ledger_retain :: "nat \<Rightarrow> declarationLedger \<Rightarrow> declarationLedger" where
  "ledger_retain r l = add_refs r 1 l"

definition claim_close :: "declarationClaim option \<Rightarrow> declarationLedger \<Rightarrow> declarationClaim option \<times> declarationLedger" where
  "claim_close cp l =
     (case cp of None \<Rightarrow> (None, l)
      | Some claim \<Rightarrow>
        let l1 = releaseLocked (cm_candidate claim) l;
            (claim1, l2) = releaseWorkLocked (claim\<lparr>cm_candidate := None\<rparr>) l1
        in if cm_reserved claim1
           then (Some (claim1\<lparr>cm_reserved := False\<rparr>),
                 l2\<lparr>dl_reserved := dl_reserved l2 - 1, dl_reservedSize := dl_reservedSize l2 - cm_size claim1\<rparr>)
           else (Some claim1, l2))"

text \<open>The insertion at the end of \<open>finish\<close>: \<open>capacity\<close> is the capacity of the input slice. An input
  with spare capacity is copied, which is accounted for while it lasts.\<close>

definition insertRecord :: "sha256 \<Rightarrow> groupKey \<Rightarrow> string \<Rightarrow> byte list \<Rightarrow> int \<Rightarrow> declarationClaim \<Rightarrow> declarationLedger \<Rightarrow>
    (ledger_error + nat) \<times> declarationClaim \<times> declarationLedger" where
  "insertRecord sha key policy input capacity claim l =
     (let normalizedBytes = (if capacity \<noteq> int (length input) then int (length input) else 0);
          l1 = (if capacity \<noteq> int (length input) then changeWork normalizedBytes l else l);
          len = int (length input)
      in if \<not> canReserveLocked len l1
         then (Inl errMeshGroupCapacity, claim, l1\<lparr>dl_workBytes := dl_workBytes l1 - normalizedBytes\<rparr>)
         else
           let r = length (dl_heap l1); digest = sha input;
               l2 = l1\<lparr>dl_heap := dl_heap l1 @ [\<lparr>gr_key = key, gr_policy = policy, gr_digest = digest,
                                                 gr_bytes = input, gr_refs = 1\<rparr>],
                       dl_records := AList.update key r (dl_records l1),
                       dl_byDigest := AList.update digest (bucket_of l1 digest @ [r]) (dl_byDigest l1),
                       dl_groups := dl_groups l1 + 1, dl_bytes := dl_bytes l1 + len,
                       dl_workBytes := dl_workBytes l1 - normalizedBytes\<rparr>;
               (claim', l3) = releaseWorkLocked claim l2
           in (Inr r, claim', l3))"

definition claim_finish :: "sha256 \<Rightarrow> parse \<Rightarrow> bool \<Rightarrow> bool \<Rightarrow> byte list \<Rightarrow> int \<Rightarrow> string \<Rightarrow> declarationClaim \<Rightarrow>
    declarationLedger \<Rightarrow> (ledger_error + nat) \<times> declarationClaim \<times> declarationLedger" where
  "claim_finish sha parse stop1 stop2 input capacity expectedGroup claim l0 =
     (if stop1 then (Inl LedgerContext, claim, l0)
      else
        let (res, work, peak) = parse input;
            l1 = foldl (\<lambda>l n. changeWork n l) l0 work;
            l = l1\<lparr>dl_parsePeak := max (dl_parsePeak l1) peak\<rparr>
        in if stop2 then (Inl LedgerContext, claim, l)
        else case res of Inl err \<Rightarrow> (Inl (ParseFailed err), claim, l)
        | Inr (groupID, version, policy) \<Rightarrow>
          if expectedGroup \<noteq> [] \<and> groupID \<noteq> expectedGroup
          then (Inl (GroupMismatch groupID expectedGroup), claim, l)
          else
            let key = (groupID, version) in
            if (case cm_candidate claim of None \<Rightarrow> False
                | Some r \<Rightarrow> cm_matched claim \<and> gr_bytes (grec l r) = input)
            then let (claim', l') = releaseWorkLocked (claim\<lparr>cm_candidate := None\<rparr>) l
                 in (Inr (the (cm_candidate claim)), claim', l')
            else
              let conflict = (case cm_candidate claim of None \<Rightarrow> False | Some r \<Rightarrow> gr_key (grec l r) = key);
                  l2 = releaseLocked (cm_candidate claim) l;
                  claim2 = claim\<lparr>cm_candidate := None\<rparr>
              in if conflict then (Inl errMeshGroupConflict, claim2, l2)
                 else case map_of (dl_records l2) key of
                   Some previous \<Rightarrow>
                     if gr_bytes (grec l2 previous) \<noteq> input then (Inl errMeshGroupConflict, claim2, l2)
                     else let (claim', l') = releaseWorkLocked claim2 (add_refs previous 1 l2)
                          in (Inr previous, claim', l')
                 | None \<Rightarrow>
                   let (claim3, l3) =
                         (if cm_reserved claim2
                          then (claim2\<lparr>cm_reserved := False\<rparr>,
                                l2\<lparr>dl_reserved := dl_reserved l2 - 1,
                                   dl_reservedSize := dl_reservedSize l2 - cm_size claim2\<rparr>)
                          else (claim2, l2))
                   in insertRecord sha key policy input capacity claim3 l3)"

definition ledger_snapshot :: "declarationLedger \<Rightarrow> int \<times> int" where
  "ledger_snapshot l = (dl_groups l + dl_reserved l, dl_bytes l + dl_reservedSize l)"

definition workSnapshot :: "declarationLedger \<Rightarrow> int \<times> int \<times> int" where
  "workSnapshot l = (dl_workBytes l, dl_workPeak l, dl_parsePeak l)"

section \<open>The invariant\<close>

text \<open>\<open>H\<close> is the multiset of references held outside, \<open>R\<close> the sizes reserved by open claims.\<close>

definition live_ok :: "sha256 \<Rightarrow> parse \<Rightarrow> nat multiset \<Rightarrow> groupRecord list \<Rightarrow> bool" where
  "live_ok sha parse H heap \<longleftrightarrow> (\<forall>r \<in># H. r < length heap \<and> gr_digest (heap ! r) = sha (gr_bytes (heap ! r)) \<and>
       fst (parse (gr_bytes (heap ! r))) = Inr (fst (gr_key (heap ! r)), snd (gr_key (heap ! r)), gr_policy (heap ! r))) \<and>
     (\<forall>r < length heap. gr_refs (heap ! r) = int (count H r))"

definition index_ok :: "nat multiset \<Rightarrow> groupRecord list \<Rightarrow> (groupKey \<times> nat) list \<Rightarrow> bool" where
  "index_ok H heap recs \<longleftrightarrow> distinct (keys recs) \<and>
     (\<forall>k r. (k, r) \<in> set recs \<longleftrightarrow> r \<in># H \<and> gr_key (heap ! r) = k)"

definition digest_ok :: "nat multiset \<Rightarrow> groupRecord list \<Rightarrow> declarationLedger \<Rightarrow> bool" where
  "digest_ok H heap l \<longleftrightarrow> (\<forall>d. distinct (bucket_of l d) \<and>
     (\<forall>r. r \<in> set (bucket_of l d) \<longleftrightarrow> r \<in># H \<and> gr_digest (heap ! r) = d))"

definition ledger_inv :: "sha256 \<Rightarrow> parse \<Rightarrow> nat multiset \<Rightarrow> int multiset \<Rightarrow> declarationLedger \<Rightarrow> bool" where
  "ledger_inv sha parse H R l \<longleftrightarrow> live_ok sha parse H (dl_heap l) \<and> index_ok H (dl_heap l) (dl_records l) \<and>
     digest_ok H (dl_heap l) l \<and> dl_groups l = int (length (dl_records l)) \<and>
     dl_bytes l = (\<Sum>e\<leftarrow>dl_records l. int (length (gr_bytes (grec l (snd e))))) \<and>
     dl_reserved l = int (size R) \<and> dl_reservedSize l = sum_mset R \<and>
     dl_groups l + dl_reserved l \<le> dl_maxGroups l \<and> dl_bytes l + dl_reservedSize l \<le> dl_maxBytes l"

section \<open>Every operation keeps the invariant\<close>

lemma bucket_of_frame:
  "dl_byDigest l' = dl_byDigest l \<Longrightarrow> bucket_of l' = bucket_of l"
  by (simp add: bucket_of_def fun_eq_iff)

lemma bucket_of_heap [simp]: "bucket_of (l\<lparr>dl_heap := h\<rparr>) = bucket_of l"
  by (rule bucket_of_frame) simp

lemma ledger_inv_frame:
  assumes "ledger_inv sha parse H R l" and "dl_heap l' = dl_heap l" and "dl_records l' = dl_records l"
    and "dl_byDigest l' = dl_byDigest l" and "dl_groups l' = dl_groups l" and "dl_bytes l' = dl_bytes l"
    and "dl_reserved l' = int (size R')" and "dl_reservedSize l' = sum_mset R'"
    and "dl_maxGroups l' = dl_maxGroups l" and "dl_maxBytes l' = dl_maxBytes l"
    and "dl_groups l + int (size R') \<le> dl_maxGroups l" and "dl_bytes l + sum_mset R' \<le> dl_maxBytes l"
  shows "ledger_inv sha parse H R' l'"
  using assms bucket_of_frame [OF assms(4)] unfolding ledger_inv_def digest_ok_def by simp

lemma ledger_inv_same:
  assumes "ledger_inv sha parse H R l" and "dl_heap l' = dl_heap l" and "dl_records l' = dl_records l"
    and "dl_byDigest l' = dl_byDigest l" and "dl_groups l' = dl_groups l" and "dl_bytes l' = dl_bytes l"
    and "dl_reserved l' = dl_reserved l" and "dl_reservedSize l' = dl_reservedSize l"
    and "dl_maxGroups l' = dl_maxGroups l" and "dl_maxBytes l' = dl_maxBytes l"
  shows "ledger_inv sha parse H R l'"
  using assms bucket_of_frame [OF assms(4)] unfolding ledger_inv_def digest_ok_def by simp

lemma changeWork_inv: "ledger_inv sha parse H R l \<Longrightarrow> ledger_inv sha parse H R (changeWork n l)"
  by (erule ledger_inv_same) (simp_all add: changeWork_def)

lemma work_inv: "ledger_inv sha parse H R l \<Longrightarrow> ledger_inv sha parse H R (l\<lparr>dl_workBytes := n\<rparr>)"
  by (erule ledger_inv_same) simp_all

lemma foldl_work_inv: "ledger_inv sha parse H R l \<Longrightarrow> ledger_inv sha parse H R (foldl (\<lambda>l n. changeWork n l) l ws)"
  by (induction ws arbitrary: l) (simp_all add: changeWork_inv)

lemma foldl_work_frame:
  "dl_heap (foldl (\<lambda>l n. changeWork n l) l ws) = dl_heap l"
  "dl_records (foldl (\<lambda>l n. changeWork n l) l ws) = dl_records l"
  by (induction ws arbitrary: l) (simp_all add: changeWork_def)

text \<open>What the invariant reads of a record does not change with its reference count.\<close>

definition attrs :: "groupRecord \<Rightarrow> groupKey \<times> string \<times> byte list \<times> byte list" where
  "attrs x = (gr_key x, gr_policy x, gr_digest x, gr_bytes x)"

lemma attrs_refs: "r < length heap \<Longrightarrow> attrs (heap[r := (heap ! r)\<lparr>gr_refs := n\<rparr>] ! s) = attrs (heap ! s)"
  by (cases "r = s") (simp_all add: attrs_def)

lemma attrsD:
  assumes "attrs x = attrs y"
  shows "gr_key x = gr_key y" and "gr_policy x = gr_policy y" and "gr_digest x = gr_digest y" and "gr_bytes x = gr_bytes y"
  using assms by (simp_all add: attrs_def)

lemma live_ok_attrs:
  assumes "live_ok sha parse H heap" and "length heap' = length heap"
    and "\<And>r. r < length heap \<Longrightarrow> attrs (heap' ! r) = attrs (heap ! r)" and "set_mset H' \<subseteq> set_mset H"
    and "\<forall>r < length heap'. gr_refs (heap' ! r) = int (count H' r)"
  shows "live_ok sha parse H' heap'"
proof -
  have "r < length heap' \<and> gr_digest (heap' ! r) = sha (gr_bytes (heap' ! r)) \<and>
       fst (parse (gr_bytes (heap' ! r))) = Inr (fst (gr_key (heap' ! r)), snd (gr_key (heap' ! r)), gr_policy (heap' ! r))"
    if "r \<in># H'" for r
  proof -
    have r: "r \<in># H" "r < length heap"
      using assms(1,4) that by (auto simp: live_ok_def)
    note eq = attrsD [OF assms(3) [OF r(2)]]
    show ?thesis
      unfolding eq using assms(1,2) r unfolding live_ok_def by simp
  qed
  with assms(5) show ?thesis
    unfolding live_ok_def by blast
qed

lemma index_okD:
  assumes "index_ok H heap recs"
  shows "distinct (keys recs)" and "\<And>k r. (k, r) \<in> set recs \<longleftrightarrow> r \<in># H \<and> gr_key (heap ! r) = k"
  using assms unfolding index_ok_def by blast+

lemma digest_okD:
  assumes "digest_ok H heap l"
  shows "\<And>d. distinct (bucket_of l d)" and "\<And>d r. r \<in> set (bucket_of l d) \<longleftrightarrow> r \<in># H \<and> gr_digest (heap ! r) = d"
  using assms unfolding digest_ok_def by blast+

lemma live_okD:
  assumes "live_ok sha parse H heap"
  shows "\<And>r. r \<in># H \<Longrightarrow> r < length heap" and "\<And>r. r < length heap \<Longrightarrow> gr_refs (heap ! r) = int (count H r)"
    and "\<And>r. r \<in># H \<Longrightarrow> gr_digest (heap ! r) = sha (gr_bytes (heap ! r))"
    and "\<And>r. r \<in># H \<Longrightarrow> fst (parse (gr_bytes (heap ! r))) =
      Inr (fst (gr_key (heap ! r)), snd (gr_key (heap ! r)), gr_policy (heap ! r))"
  using assms unfolding live_ok_def by blast+

lemma refs_ok:
  assumes "\<forall>r < length heap. gr_refs (heap ! r) = int (count H r)" and "r < length heap"
    and "int (count H' r) = int (count H r) + d" and "\<And>s. s \<noteq> r \<Longrightarrow> count H' s = count H s"
  shows "\<forall>s < length heap. gr_refs (heap[r := (heap ! r)\<lparr>gr_refs := gr_refs (heap ! r) + d\<rparr>] ! s) = int (count H' s)"
proof (intro allI impI)
  fix s assume "s < length heap"
  then show "gr_refs (heap[r := (heap ! r)\<lparr>gr_refs := gr_refs (heap ! r) + d\<rparr>] ! s) = int (count H' s)"
    using assms by (cases "s = r") simp_all
qed

lemma ledger_parts:
  assumes "ledger_inv sha parse H R l"
  shows "live_ok sha parse H (dl_heap l)" and "index_ok H (dl_heap l) (dl_records l)" and "digest_ok H (dl_heap l) l"
  using assms by (simp_all add: ledger_inv_def)

lemma live_lt: "ledger_inv sha parse H R l \<Longrightarrow> r \<in># H \<Longrightarrow> r < length (dl_heap l)"
  using ledger_parts(1) by (auto simp: live_ok_def)

text \<open>Counting one reference more or less, as long as the record stays referenced.\<close>

lemma add_refs_inv:
  assumes inv: "ledger_inv sha parse H R l" and r: "r \<in># H" and set: "set_mset H' = set_mset H"
    and "int (count H' r) = int (count H r) + d" and "\<And>s. s \<noteq> r \<Longrightarrow> count H' s = count H s"
  shows "ledger_inv sha parse H' R (add_refs r d l)"
proof -
  let ?h = "dl_heap l"
  define h' where "h' = ?h[r := (?h ! r)\<lparr>gr_refs := gr_refs (?h ! r) + d\<rparr>]"
  note parts = ledger_parts [OF inv]
  have lt: "r < length ?h"
    by (rule live_lt [OF inv r])
  have same: "attrs (h' ! s) = attrs (?h ! s)" for s
    unfolding h'_def by (rule attrs_refs [OF lt])
  have l': "add_refs r d l = l\<lparr>dl_heap := h'\<rparr>" and len: "length h' = length ?h"
    by (simp_all add: add_refs_def h'_def)
  have "\<forall>s < length ?h. gr_refs (h' ! s) = int (count H' s)"
    unfolding h'_def by (rule refs_ok [OF _ lt assms(4,5)]) (use live_okD(2) [OF parts(1)] in blast)
  then have "live_ok sha parse H' h'"
    by (intro live_ok_attrs [OF parts(1) len same]) (simp_all add: set len)
  moreover have "index_ok H' h' (dl_records l)"
    using index_okD [OF parts(2)] unfolding index_ok_def set attrsD(1) [OF same] by blast
  moreover have "digest_ok H' h' (l\<lparr>dl_heap := h'\<rparr>)"
    using digest_okD [OF parts(3)] unfolding digest_ok_def set attrsD(3) [OF same] by simp
  ultimately show ?thesis
    using inv unfolding l' ledger_inv_def by (simp add: attrsD(4) [OF same])
qed

lemma retain_inv:
  assumes "ledger_inv sha parse H R l" and "r \<in># H"
  shows "ledger_inv sha parse (add_mset r H) R (add_refs r 1 l)"
  by (rule add_refs_inv [OF assms]) (use assms(2) in auto)

lemma sum_delete:
  assumes "distinct (keys m)" and "map_of m k = Some v"
  shows "(\<Sum>e\<leftarrow>AList.delete k m. f (snd e)) = (\<Sum>e\<leftarrow>m. f (snd e)) - (f v :: int)"
proof -
  have "sum_mset (image_mset (\<lambda>e. f (snd e)) (mset m)) =
      f v + sum_mset (image_mset (\<lambda>e. f (snd e)) (mset (AList.delete k m)))"
    using mset_delete [OF assms] by simp
  then show ?thesis
    by (simp add: sum_mset_sum_list [symmetric])
qed

text \<open>Dropping the last reference.\<close>

lemma release_last:
  assumes inv: "ledger_inv sha parse H R l" and r: "count H r = 1"
  shows "ledger_inv sha parse (H - {#r#}) R (releaseLocked (Some r) l)"
proof -
  let ?h = "dl_heap l" and ?H = "H - {#r#}"
  define h' where "h' = ?h[r := (?h ! r)\<lparr>gr_refs := gr_refs (?h ! r) + - 1\<rparr>]"
  let ?k = "gr_key (?h ! r)" and ?d = "gr_digest (?h ! r)"
  let ?b = "remove1 r (bucket_of l ?d)"
  note parts = ledger_parts [OF inv]
  have mem: "r \<in># H" "r < length ?h"
    using r live_lt [OF inv] by (auto simp flip: count_greater_zero_iff)
  have set: "s \<in># ?H \<longleftrightarrow> s \<in># H \<and> s \<noteq> r" for s
    using r by (auto simp flip: count_greater_zero_iff)
  have same: "attrs (h' ! s) = attrs (?h ! s)" for s
    unfolding h'_def by (rule attrs_refs [OF mem(2)])
  note eqs = attrsD [OF same]
  have refs: "\<forall>s < length ?h. gr_refs (?h ! s) = int (count H s)"
    using live_okD(2) [OF parts(1)] by blast
  have zero: "gr_refs (?h ! r) = 1"
    using refs mem(2) r by simp
  note dist = index_okD(1) [OF parts(2)] and entry = index_okD(2) [OF parts(2)]
  have rec: "map_of (dl_records l) ?k = Some r"
    using mem(1) by (intro map_of_is_SomeI dist) (simp add: entry)
  define l' where "l' = l\<lparr>dl_heap := h', dl_records := AList.delete ?k (dl_records l),
      dl_byDigest := (if ?b = [] then AList.delete ?d (dl_byDigest l) else AList.update ?d ?b (dl_byDigest l)),
      dl_groups := dl_groups l - 1, dl_bytes := dl_bytes l - int (length (gr_bytes (?h ! r)))\<rparr>"
  have l': "releaseLocked (Some r) l = l'"
    using mem(2) zero by (simp add: releaseLocked_def add_refs_def Let_def l'_def h'_def bucket_of_def)
  have bucket: "bucket_of l' d = (if d = ?d then ?b else bucket_of l d)" for d
    by (simp add: l'_def bucket_of_def update_conv' delete_conv')
  have len: "length h' = length ?h"
    by (simp add: h'_def)
  have "int (count ?H r) = int (count H r) + - 1"
    using r by simp
  then have "\<forall>s < length ?h. gr_refs (h' ! s) = int (count ?H s)"
    unfolding h'_def by (rule refs_ok [OF refs mem(2)]) simp
  then have "live_ok sha parse ?H h'"
    by (intro live_ok_attrs [OF parts(1) len same]) (auto simp: set len)
  moreover have "index_ok ?H h' (AList.delete ?k (dl_records l))"
  proof -
    have uniq: "s = r" if "s \<in># H" "gr_key (?h ! s) = ?k" for s
      using map_of_is_SomeI [OF dist, of ?k s] entry that rec by simp
    have "(k, s) \<in> set (AList.delete ?k (dl_records l)) \<longleftrightarrow> s \<in># ?H \<and> gr_key (h' ! s) = k" for k s
      unfolding mem_delete entry set eqs using uniq by blast
    then show ?thesis
      unfolding index_ok_def using distinct_keys_delete [OF dist] by blast
  qed
  moreover have "digest_ok ?H h' l'"
  proof -
    note b = digest_okD [OF parts(3)]
    show ?thesis
      unfolding digest_ok_def bucket set eqs using b by (auto simp: set_remove1_eq [OF b(1)])
  qed
  moreover have "(\<Sum>e\<leftarrow>AList.delete ?k (dl_records l). int (length (gr_bytes (h' ! snd e)))) =
      dl_bytes l - int (length (gr_bytes (?h ! r)))"
  proof -
    have "(\<Sum>e\<leftarrow>AList.delete ?k (dl_records l). int (length (gr_bytes (h' ! snd e)))) =
        (\<Sum>e\<leftarrow>AList.delete ?k (dl_records l). int (length (gr_bytes (?h ! snd e))))"
      by (simp add: eqs)
    also have "\<dots> = (\<Sum>e\<leftarrow>dl_records l. int (length (gr_bytes (?h ! snd e)))) - int (length (gr_bytes (?h ! r)))"
      by (rule sum_delete [OF dist rec, of "\<lambda>s. int (length (gr_bytes (?h ! s)))"])
    finally show ?thesis
      using inv by (simp add: ledger_inv_def)
  qed
  moreover have "Suc (length (AList.delete ?k (dl_records l))) = length (dl_records l)"
    by (rule length_delete [OF dist rec])
  ultimately show ?thesis
    using inv unfolding l' ledger_inv_def by (simp add: l'_def)
qed

lemma release_inv:
  assumes inv: "ledger_inv sha parse H R l" and r: "r \<in># H"
  shows "ledger_inv sha parse (H - {#r#}) R (releaseLocked (Some r) l)"
proof (cases "count H r = 1")
  case True
  then show ?thesis by (rule release_last [OF inv])
next
  case False
  with r have gt: "1 < count H r"
    using count_greater_zero_iff [of H r] by linarith
  have "gr_refs (grec l r) = int (count H r)" "r < length (dl_heap l)"
    using ledger_parts(1) [OF inv] live_lt [OF inv r] by (simp_all add: live_ok_def)
  then have "releaseLocked (Some r) l = add_refs r (- 1) l"
    using gt by (simp add: releaseLocked_def add_refs_def Let_def)
  moreover have "set_mset (H - {#r#}) = set_mset H"
    using gt by (auto simp flip: count_greater_zero_iff split: if_splits)
  then have "ledger_inv sha parse (H - {#r#}) R (add_refs r (- 1) l)"
    using gt by (intro add_refs_inv [OF inv r]) auto
  ultimately show ?thesis by simp
qed

text \<open>The references and the room a claim holds.\<close>

definition held :: "declarationClaim \<Rightarrow> nat multiset" where
  "held claim = (case cm_candidate claim of None \<Rightarrow> {#} | Some r \<Rightarrow> {#r#})"

definition ledger_room :: "declarationClaim \<Rightarrow> int multiset" where
  "ledger_room claim = (if cm_reserved claim then {#cm_size claim#} else {#})"

lemma held_simps [simp]:
  "held (claim\<lparr>cm_candidate := None\<rparr>) = {#}" "held (claim\<lparr>cm_workSize := n\<rparr>) = held claim"
  "held (claim\<lparr>cm_reserved := b\<rparr>) = held claim" "held (claim\<lparr>cm_matched := b\<rparr>) = held claim"
  by (simp_all add: held_def)

lemma room_simps [simp]:
  "ledger_room (claim\<lparr>cm_candidate := c\<rparr>) = ledger_room claim" "ledger_room (claim\<lparr>cm_workSize := n\<rparr>) = ledger_room claim"
  "ledger_room (claim\<lparr>cm_reserved := False\<rparr>) = {#}" "ledger_room (claim\<lparr>cm_matched := b\<rparr>) = ledger_room claim"
  by (simp_all add: ledger_room_def)

lemma begin_inv:
  assumes inv: "ledger_inv sha parse H R l" and "ledger_begin len digest l = (Inr claim, l')"
  shows "ledger_inv sha parse (H + held claim) (R + ledger_room claim) l'"
proof -
  let ?c = "\<lparr>cm_candidate = None, cm_matched = False, cm_reserved = False, cm_size = int (unat len), cm_workSize = 0\<rparr>"
  let ?b = "if length digest = 32 then bucket_of l digest else []"
  let ?f = "filter (\<lambda>r. length (gr_bytes (grec l r)) = unat len) ?b"
  show ?thesis
  proof (cases ?f)
    case (Cons r rs)
    then have "r \<in> set ?f" by simp
    then have "r \<in> set (bucket_of l digest)"
      by (auto split: if_splits)
    then have "r \<in># H"
      using digest_okD(2) [OF ledger_parts(3) [OF inv]] by blast
    from retain_inv [OF inv this] show ?thesis
      using assms(2) Cons by (auto simp: ledger_begin_def Let_def held_def ledger_room_def split: if_splits)
  next
    case Nil
    show ?thesis
    proof (cases "canReserveLocked (int (unat len)) l")
      case True
      then have r: "claim = ?c\<lparr>cm_reserved := True\<rparr>"
        "l' = l\<lparr>dl_reserved := dl_reserved l + 1, dl_reservedSize := dl_reservedSize l + int (unat len)\<rparr>"
        using assms(2) Nil by (auto simp: ledger_begin_def Let_def split: if_splits)
      have "ledger_inv sha parse H (R + {#int (unat len)#}) l'"
        unfolding r(2) by (rule ledger_inv_frame [OF inv])
          (use inv True in \<open>simp_all add: ledger_inv_def canReserveLocked_def\<close>)
      then show ?thesis
        unfolding r(1) by (simp add: held_def ledger_room_def)
    next
      case False
      then show ?thesis
        using assms(2) Nil inv by (auto simp: ledger_begin_def Let_def held_def ledger_room_def split: if_splits)
    qed
  qed
qed

lemma unreserve_inv:
  assumes "ledger_inv sha parse H (R + {#n#}) l" and "0 \<le> n"
  shows "ledger_inv sha parse H R (l\<lparr>dl_reserved := dl_reserved l - 1, dl_reservedSize := dl_reservedSize l - n\<rparr>)"
  by (rule ledger_inv_frame [OF assms(1)]) (use assms in \<open>simp_all add: ledger_inv_def\<close>)

lemma release_held_inv:
  assumes "ledger_inv sha parse (H + held claim) R l"
  shows "ledger_inv sha parse H R (releaseLocked (cm_candidate claim) l)"
proof (cases "cm_candidate claim")
  case None
  with assms show ?thesis by (simp add: held_def releaseLocked_def)
next
  case (Some r)
  with release_inv [OF assms, of r] show ?thesis by (simp add: held_def)
qed

lemma close_inv:
  assumes "ledger_inv sha parse (H + held claim) (R + ledger_room claim) l" and "0 \<le> cm_size claim"
  shows "ledger_inv sha parse H R (snd (claim_close (Some claim) l))"
proof -
  let ?l = "releaseLocked (cm_candidate claim) l"
  let ?l2 = "?l\<lparr>dl_workBytes := dl_workBytes ?l - cm_workSize claim\<rparr>"
  have "ledger_inv sha parse H (R + ledger_room claim) ?l2"
    by (intro work_inv release_held_inv assms(1))
  moreover from this have "ledger_inv sha parse H R (?l2\<lparr>dl_reserved := dl_reserved ?l2 - 1,
      dl_reservedSize := dl_reservedSize ?l2 - cm_size claim\<rparr>)" if "cm_reserved claim"
    using unreserve_inv [of sha parse H R "cm_size claim" ?l2] assms(2) that by (simp add: ledger_room_def)
  ultimately show ?thesis
    by (cases "cm_reserved claim") (simp_all add: claim_close_def releaseWorkLocked_def Let_def ledger_room_def)
qed

text \<open>A new record.\<close>

lemma insert_new:
  assumes inv: "ledger_inv sha parse H R l" and new: "map_of (dl_records l) key = None"
    and parsed: "fst (parse input) = Inr (fst key, snd key, policy)" and fits: "canReserveLocked (int (length input)) l"
    and r: "r = length (dl_heap l)"
  shows "ledger_inv sha parse (add_mset r H) R
    (l\<lparr>dl_heap := dl_heap l @ [\<lparr>gr_key = key, gr_policy = policy, gr_digest = sha input, gr_bytes = input, gr_refs = 1\<rparr>],
       dl_records := AList.update key r (dl_records l),
       dl_byDigest := AList.update (sha input) (bucket_of l (sha input) @ [r]) (dl_byDigest l),
       dl_groups := dl_groups l + 1, dl_bytes := dl_bytes l + int (length input)\<rparr>)"
    (is "ledger_inv sha parse ?H R ?l")
proof -
  let ?x = "\<lparr>gr_key = key, gr_policy = policy, gr_digest = sha input, gr_bytes = input, gr_refs = 1\<rparr>"
  let ?h = "dl_heap l" and ?h' = "dl_heap l @ [?x]"
  note parts = ledger_parts [OF inv]
  have old: "?h' ! s = ?h ! s" "s \<noteq> r" if "s \<in># H" for s
    using live_okD(1) [OF parts(1) that] by (simp_all add: nth_append r)
  have cur: "?h' ! r = ?x"
    by (simp add: r)
  have fresh: "count H r = 0"
    using live_okD(1) [OF parts(1), of r] r by (metis count_inI less_irrefl)
  have "live_ok sha parse ?H ?h'"
  proof -
    have "gr_refs (?h' ! s) = int (count ?H s)" if "s < length ?h'" for s
      using live_okD(2) [OF parts(1), of s] that fresh by (cases "s = r") (simp_all add: nth_append r less_Suc_eq)
    moreover have "s < length ?h' \<and> gr_digest (?h' ! s) = sha (gr_bytes (?h' ! s)) \<and>
        fst (parse (gr_bytes (?h' ! s))) = Inr (fst (gr_key (?h' ! s)), snd (gr_key (?h' ! s)), gr_policy (?h' ! s))"
      if "s \<in># ?H" for s
    proof (cases "s = r")
      case True
      then show ?thesis using parsed by (simp add: r)
    next
      case False
      with that have s: "s \<in># H" by simp
      show ?thesis
        unfolding old(1) [OF s] using live_okD(1,3,4) [OF parts(1) s] by simp
    qed
    ultimately show ?thesis
      unfolding live_ok_def by blast
  qed
  moreover have "index_ok ?H ?h' (AList.update key r (dl_records l))"
  proof -
    note dist = index_okD(1) [OF parts(2)] and entry = index_okD(2) [OF parts(2)]
    have none: "(key, s) \<notin> set (dl_records l)" for s
      using new map_of_is_SomeI [OF dist, of key s] by auto
    have "(k, s) \<in> set (AList.update key r (dl_records l)) \<longleftrightarrow> s \<in># ?H \<and> gr_key (?h' ! s) = k" for k s
    proof (cases "s = r")
      case True
      moreover have "(k, r) \<notin> set (dl_records l)"
        using entry [of k r] fresh by (metis count_inI count_eq_zero_iff)
      ultimately show ?thesis
        using mem_update [OF dist, of k s key r] cur by auto
    next
      case False
      then have "s \<in># ?H \<and> gr_key (?h' ! s) = k \<longleftrightarrow> (k, s) \<in> set (dl_records l)"
        unfolding entry using old(1) by auto
      moreover have "(k, s) \<in> set (AList.update key r (dl_records l)) \<longleftrightarrow> (k, s) \<in> set (dl_records l)"
        using mem_update [OF dist, of k s key r] False none by auto
      ultimately show ?thesis by blast
    qed
    then show ?thesis
      unfolding index_ok_def using distinct_keys_update [OF dist] by blast
  qed
  moreover have "digest_ok ?H ?h' ?l"
  proof -
    note b = digest_okD [OF parts(3)]
    have bucket: "bucket_of ?l d = (if d = sha input then bucket_of l d @ [r] else bucket_of l d)" for d
      by (simp add: bucket_of_def update_conv')
    have notin: "r \<notin> set (bucket_of l d)" for d
      using b(2) [of r d] fresh by (metis count_eq_zero_iff)
    have "s \<in> set (bucket_of ?l d) \<longleftrightarrow> s \<in># ?H \<and> gr_digest (?h' ! s) = d" for s d
    proof (cases "s = r")
      case True
      then show ?thesis using notin [of d] cur by (simp add: bucket)
    next
      case False
      then show ?thesis using b(2) [of s d] old(1) [of s] by (auto simp: bucket)
    qed
    moreover have "distinct (bucket_of ?l d)" for d
      using b(1) [of d] notin [of d] by (auto simp: bucket)
    ultimately show ?thesis
      unfolding digest_ok_def by blast
  qed
  moreover have "(\<Sum>e\<leftarrow>AList.update key r (dl_records l). int (length (gr_bytes (?h' ! snd e)))) =
      dl_bytes l + int (length input)"
  proof -
    have "snd e \<in># H" if "e \<in> set (dl_records l)" for e
      using index_okD(2) [OF parts(2), of "fst e" "snd e"] that by simp
    then have eq: "(\<Sum>e\<leftarrow>dl_records l. int (length (gr_bytes (?h' ! snd e)))) = (\<Sum>e\<leftarrow>dl_records l. int (length (gr_bytes (?h ! snd e))))"
      using old(1) by (intro arg_cong [of _ _ sum_list] map_cong) simp_all
    have "mset (AList.update key r (dl_records l)) = add_mset (key, r) (mset (dl_records l))"
      using mset_update [OF index_okD(1) [OF parts(2)], of key r] delete_absent [OF new] by simp
    then have "(\<Sum>e\<leftarrow>AList.update key r (dl_records l). int (length (gr_bytes (?h' ! snd e)))) =
        int (length (gr_bytes (?h' ! r))) + (\<Sum>e\<leftarrow>dl_records l. int (length (gr_bytes (?h' ! snd e))))"
      by (simp flip: sum_mset_sum_list)
    then show ?thesis
      using inv unfolding eq cur by (simp add: ledger_inv_def)
  qed
  ultimately show ?thesis
    using inv fits length_update_new [OF new, of r]
    unfolding ledger_inv_def canReserveLocked_def by simp
qed

text \<open>What \<open>finish\<close> promises: the references and the ledger_room stay accounted for, and the record it returns
  holds exactly the input.\<close>

definition finished :: "sha256 \<Rightarrow> parse \<Rightarrow> nat multiset \<Rightarrow> int multiset \<Rightarrow> byte list \<Rightarrow> int \<Rightarrow>
    (ledger_error + nat) \<times> declarationClaim \<times> declarationLedger \<Rightarrow> bool" where
  "finished sha parse H R input n out \<longleftrightarrow> (case out of (res, claim, l) \<Rightarrow> cm_size claim = n \<and>
     (case res of Inl _ \<Rightarrow> ledger_inv sha parse (H + held claim) (R + ledger_room claim) l
      | Inr r \<Rightarrow> ledger_inv sha parse (add_mset r (H + held claim)) (R + ledger_room claim) l \<and> gr_bytes (grec l r) = input))"

lemma insertRecord_finished:
  assumes inv: "ledger_inv sha parse H R l" and new: "map_of (dl_records l) key = None"
    and parsed: "fst (parse input) = Inr (fst key, snd key, policy)" and empty: "held claim = {#}" "ledger_room claim = {#}"
  shows "finished sha parse H R input (cm_size claim) (insertRecord sha key policy input capacity claim l)"
proof -
  define n where "n = (if capacity \<noteq> int (length input) then int (length input) else 0)"
  define l1 where "l1 = (if capacity \<noteq> int (length input) then changeWork n l else l)"
  have inv1: "ledger_inv sha parse H R l1"
    unfolding l1_def using inv changeWork_inv [OF inv] by simp
  have new1: "map_of (dl_records l1) key = None"
    using new by (simp add: l1_def changeWork_def)
  show ?thesis
  proof (cases "canReserveLocked (int (length input)) l1")
    case False
    then have "insertRecord sha key policy input capacity claim l =
        (Inl errMeshGroupCapacity, claim, l1\<lparr>dl_workBytes := dl_workBytes l1 - n\<rparr>)"
      by (simp add: insertRecord_def Let_def l1_def n_def split: if_splits)
    with work_inv [OF inv1] show ?thesis
      by (simp add: finished_def empty)
  next
    case True
    let ?r = "length (dl_heap l1)"
    let ?l2 = "l1\<lparr>dl_heap := dl_heap l1 @ [\<lparr>gr_key = key, gr_policy = policy, gr_digest = sha input,
          gr_bytes = input, gr_refs = 1\<rparr>],
        dl_records := AList.update key ?r (dl_records l1),
        dl_byDigest := AList.update (sha input) (bucket_of l1 (sha input) @ [?r]) (dl_byDigest l1),
        dl_groups := dl_groups l1 + 1, dl_bytes := dl_bytes l1 + int (length input)\<rparr>"
    have "insertRecord sha key policy input capacity claim l =
        (Inr ?r, claim\<lparr>cm_workSize := 0\<rparr>, ?l2\<lparr>dl_workBytes := dl_workBytes l1 - n - cm_workSize claim\<rparr>)"
      using True by (simp add: insertRecord_def Let_def l1_def n_def releaseWorkLocked_def split: if_splits)
    with work_inv [OF insert_new [OF inv1 new1 parsed True refl]] show ?thesis
      by (simp add: finished_def empty)
  qed
qed

text \<open>The second half of \<open>finish\<close>, after the input has been parsed.\<close>

lemma match_finished:
  assumes inv: "ledger_inv sha parse (H + held claim) (R + ledger_room claim) l" and "cm_candidate claim = Some r"
    and "gr_bytes (grec l r) = input"
  shows "finished sha parse H R input (cm_size claim)
    (let (claim', l') = releaseWorkLocked (claim\<lparr>cm_candidate := None\<rparr>) l
     in (Inr (the (cm_candidate claim)), claim', l'))"
  using assms work_inv [OF inv] by (simp add: finished_def releaseWorkLocked_def held_def)

lemma previous_finished:
  assumes inv: "ledger_inv sha parse H (R + ledger_room claim) l" and "map_of (dl_records l) key = Some r"
    and "gr_bytes (grec l r) = input" and "held claim = {#}"
  shows "finished sha parse H R input (cm_size claim)
    (let (claim', l') = releaseWorkLocked claim (add_refs r 1 l) in (Inr r, claim', l'))"
proof -
  have r: "r \<in># H"
    using index_okD(2) [OF ledger_parts(2) [OF inv]] map_of_SomeD [OF assms(2)] by blast
  have "gr_bytes (dl_heap (add_refs r 1 l) ! r) = input"
    using live_lt [OF inv r] assms(3) by (simp add: add_refs_def)
  then show ?thesis
    using work_inv [OF retain_inv [OF inv r]] assms(4) by (simp add: finished_def releaseWorkLocked_def)
qed

lemma fresh_finished:
  assumes inv: "ledger_inv sha parse H (R + ledger_room claim) l" and none: "map_of (dl_records l) key = None"
    and parsed: "fst (parse input) = Inr (fst key, snd key, policy)" and empty: "held claim = {#}" and size: "0 \<le> cm_size claim"
  shows "finished sha parse H R input (cm_size claim)
    (let (claim3, l3) = (if cm_reserved claim then (claim\<lparr>cm_reserved := False\<rparr>, l\<lparr>dl_reserved := dl_reserved l - 1,
          dl_reservedSize := dl_reservedSize l - cm_size claim\<rparr>) else (claim, l))
     in insertRecord sha key policy input capacity claim3 l3)"
proof (cases "cm_reserved claim")
  case True
  have "ledger_inv sha parse H R (l\<lparr>dl_reserved := dl_reserved l - 1, dl_reservedSize := dl_reservedSize l - cm_size claim\<rparr>)"
    by (rule unreserve_inv) (use inv size True in \<open>simp_all add: ledger_room_def\<close>)
  from insertRecord_finished [OF this _ parsed, of "claim\<lparr>cm_reserved := False\<rparr>" capacity] none empty True show ?thesis
    by simp
next
  case False
  then have "ledger_inv sha parse H R l" "ledger_room claim = {#}"
    using inv by (simp_all add: ledger_room_def)
  from insertRecord_finished [OF this(1) none parsed empty this(2), of capacity] False show ?thesis
    by simp
qed

lemma finish_finished:
  assumes inv: "ledger_inv sha parse (H + held claim) (R + ledger_room claim) l0" and size: "0 \<le> cm_size claim"
  shows "finished sha parse H R input (cm_size claim)
    (claim_finish sha parse stop1 stop2 input capacity expectedGroup claim l0)"
proof (cases "stop1")
  case True
  with inv show ?thesis by (simp add: claim_finish_def finished_def)
next
  case run: False
  obtain res work peak where p: "parse input = (res, work, peak)" by (cases "parse input")
  define l where "l = (let l1 = foldl (\<lambda>l n. changeWork n l) l0 work in l1\<lparr>dl_parsePeak := max (dl_parsePeak l1) peak\<rparr>)"
  have inv1: "ledger_inv sha parse (H + held claim) (R + ledger_room claim) l"
    unfolding l_def Let_def by (rule ledger_inv_same [OF foldl_work_inv [OF inv, of work]]) simp_all
  have error: "finished sha parse H R input (cm_size claim) (Inl e, claim, l)" for e
    using inv1 by (simp add: finished_def)
  show ?thesis
  proof (cases "\<not> stop2 \<and> (\<exists>g v p. res = Inr (g, v, p) \<and> (expectedGroup = [] \<or> g = expectedGroup))")
    case False
    then have "\<exists>e. claim_finish sha parse stop1 stop2 input capacity expectedGroup claim l0 = (Inl e, claim, l)"
      using run p by (auto simp: claim_finish_def l_def Let_def split: sum.splits)
    with error show ?thesis by fastforce
  next
    case True
    then obtain g v policy where res: "res = Inr (g, v, policy)" "expectedGroup = [] \<or> g = expectedGroup" "\<not> stop2" by auto
    let ?l2 = "releaseLocked (cm_candidate claim) l" and ?c2 = "claim\<lparr>cm_candidate := None\<rparr>"
    have inv2: "ledger_inv sha parse H (R + ledger_room claim) ?l2"
      by (rule release_held_inv [OF inv1])
    have inv2': "ledger_inv sha parse H (R + ledger_room ?c2) ?l2" "held ?c2 = {#}" "cm_size ?c2 = cm_size claim"
      using inv2 by simp_all
    have conflict: "finished sha parse H R input (cm_size claim) (Inl e, ?c2, ?l2)" for e
      using inv2 by (simp add: finished_def)
    have previous: "finished sha parse H R input (cm_size claim)
        (let (claim', l') = releaseWorkLocked ?c2 (add_refs r 1 ?l2) in (Inr r, claim', l'))"
      if "map_of (dl_records ?l2) (g, v) = Some r" "gr_bytes (grec ?l2 r) = input" for r
      using previous_finished [OF inv2'(1) that inv2'(2)] by simp
    have parsed: "fst (parse input) = Inr (fst (g, v), snd (g, v), policy)"
      by (simp add: p res)
    have fresh: "finished sha parse H R input (cm_size claim)
        (let (claim3, l3) = (if cm_reserved ?c2 then (?c2\<lparr>cm_reserved := False\<rparr>, ?l2\<lparr>dl_reserved := dl_reserved ?l2 - 1,
              dl_reservedSize := dl_reservedSize ?l2 - cm_size ?c2\<rparr>) else (?c2, ?l2))
         in insertRecord sha (g, v) policy input capacity claim3 l3)"
      if "map_of (dl_records ?l2) (g, v) = None"
      using fresh_finished [OF inv2' (1) that parsed inv2'(2)] size by simp
    have ok: "(expectedGroup \<noteq> [] \<and> g \<noteq> expectedGroup) = False"
      using res(2) by blast
    have out: "claim_finish sha parse stop1 stop2 input capacity expectedGroup claim l0 =
       (if (case cm_candidate claim of None \<Rightarrow> False | Some r \<Rightarrow> cm_matched claim \<and> gr_bytes (grec l r) = input)
        then let (claim', l') = releaseWorkLocked ?c2 l in (Inr (the (cm_candidate claim)), claim', l')
        else if (case cm_candidate claim of None \<Rightarrow> False | Some r \<Rightarrow> gr_key (grec l r) = (g, v))
        then (Inl errMeshGroupConflict, ?c2, ?l2)
        else case map_of (dl_records ?l2) (g, v) of
          Some previous \<Rightarrow> if gr_bytes (grec ?l2 previous) \<noteq> input then (Inl errMeshGroupConflict, ?c2, ?l2)
            else let (claim', l') = releaseWorkLocked ?c2 (add_refs previous 1 ?l2) in (Inr previous, claim', l')
        | None \<Rightarrow> let (claim3, l3) = (if cm_reserved ?c2 then (?c2\<lparr>cm_reserved := False\<rparr>, ?l2\<lparr>dl_reserved := dl_reserved ?l2 - 1,
              dl_reservedSize := dl_reservedSize ?l2 - cm_size ?c2\<rparr>) else (?c2, ?l2))
            in insertRecord sha (g, v) policy input capacity claim3 l3)"
      using run res(3) by (simp only: claim_finish_def l_def p res(1) Let_def prod.case sum.case ok if_False)
    show ?thesis
      unfolding out
      using match_finished [OF inv1] conflict previous fresh
      by (cases "cm_candidate claim"; cases "map_of (dl_records ?l2) (g, v)") (auto simp del: Let_def)
  qed
qed

section \<open>Any use of the ledger\<close>

text \<open>The users of a ledger: the references they hold to records and the claims they have open. An operation
  names a claim or a reference by its position.\<close>

record ledger_use =
  lu_ledger :: declarationLedger
  lu_refs :: "nat list"
  lu_claims :: "declarationClaim list"

datatype ledger_op =
    Begin_claim u32 "byte list"
  | Compare_chunk nat u32 "byte list"
  | Track_input nat int
  | Finish_claim nat bool bool "byte list" int string
  | Close_claim nat
  | Retain_ref nat
  | Release_ref nat

definition drop_at :: "nat \<Rightarrow> 'a list \<Rightarrow> 'a list" where
  "drop_at i xs = take i xs @ drop (Suc i) xs"

fun ledger_step :: "sha256 \<Rightarrow> parse \<Rightarrow> ledger_op \<Rightarrow> ledger_use \<Rightarrow> ledger_use" where
  "ledger_step sha parse (Begin_claim len digest) u =
     (case ledger_begin len digest (lu_ledger u) of
        (Inl _, l) \<Rightarrow> u\<lparr>lu_ledger := l\<rparr>
      | (Inr claim, l) \<Rightarrow> u\<lparr>lu_ledger := l, lu_claims := lu_claims u @ [claim]\<rparr>)"
| "ledger_step sha parse (Compare_chunk i offset data) u =
     u\<lparr>lu_claims := (lu_claims u)[i := claim_compare offset data (lu_ledger u) (lu_claims u ! i)]\<rparr>"
| "ledger_step sha parse (Track_input i n) u =
     (case trackInput n (lu_claims u ! i) (lu_ledger u) of
        (claim, l) \<Rightarrow> u\<lparr>lu_ledger := l, lu_claims := (lu_claims u)[i := claim]\<rparr>)"
| "ledger_step sha parse (Finish_claim i stop1 stop2 input capacity expected) u =
     (case claim_finish sha parse stop1 stop2 input capacity expected (lu_claims u ! i) (lu_ledger u) of
        (res, claim, l) \<Rightarrow> u\<lparr>lu_ledger := l, lu_claims := (lu_claims u)[i := claim],
          lu_refs := lu_refs u @ (case res of Inl _ \<Rightarrow> [] | Inr r \<Rightarrow> [r])\<rparr>)"
| "ledger_step sha parse (Close_claim i) u =
     u\<lparr>lu_ledger := snd (claim_close (Some (lu_claims u ! i)) (lu_ledger u)), lu_claims := drop_at i (lu_claims u)\<rparr>"
| "ledger_step sha parse (Retain_ref i) u =
     u\<lparr>lu_ledger := ledger_retain (lu_refs u ! i) (lu_ledger u), lu_refs := lu_refs u @ [lu_refs u ! i]\<rparr>"
| "ledger_step sha parse (Release_ref i) u =
     u\<lparr>lu_ledger := ledger_release (Some (lu_refs u ! i)) (lu_ledger u), lu_refs := drop_at i (lu_refs u)\<rparr>"

fun ledger_op_valid :: "ledger_op \<Rightarrow> ledger_use \<Rightarrow> bool" where
  "ledger_op_valid (Begin_claim _ _) u \<longleftrightarrow> True"
| "ledger_op_valid (Compare_chunk i _ _) u \<longleftrightarrow> i < length (lu_claims u)"
| "ledger_op_valid (Track_input i _) u \<longleftrightarrow> i < length (lu_claims u)"
| "ledger_op_valid (Finish_claim i _ _ _ _ _) u \<longleftrightarrow> i < length (lu_claims u)"
| "ledger_op_valid (Close_claim i) u \<longleftrightarrow> i < length (lu_claims u)"
| "ledger_op_valid (Retain_ref i) u \<longleftrightarrow> i < length (lu_refs u)"
| "ledger_op_valid (Release_ref i) u \<longleftrightarrow> i < length (lu_refs u)"

inductive ledger_reach :: "sha256 \<Rightarrow> parse \<Rightarrow> int \<Rightarrow> int \<Rightarrow> int \<Rightarrow> ledger_use \<Rightarrow> bool" for sha parse mg mb ms where
  fresh_ledger: "ledger_reach sha parse mg mb ms
     \<lparr>lu_ledger = newDeclarationLedger mg mb ms, lu_refs = [], lu_claims = []\<rparr>"
| use_ledger: "ledger_reach sha parse mg mb ms u \<Longrightarrow> ledger_op_valid op u \<Longrightarrow>
     ledger_reach sha parse mg mb ms (ledger_step sha parse op u)"

definition use_ok :: "sha256 \<Rightarrow> parse \<Rightarrow> ledger_use \<Rightarrow> bool" where
  "use_ok sha parse u \<longleftrightarrow> ledger_inv sha parse (mset (lu_refs u) + \<Sum>\<^sub># (image_mset held (mset (lu_claims u))))
       (\<Sum>\<^sub># (image_mset ledger_room (mset (lu_claims u)))) (lu_ledger u) \<and> (\<forall>c \<in> set (lu_claims u). 0 \<le> cm_size c)"

lemma mset_nth: "i < length xs \<Longrightarrow> mset xs = add_mset (xs ! i) (mset (drop_at i xs))"
  by (subst id_take_nth_drop [of i xs]) (simp_all add: drop_at_def)

lemma mset_set: "i < length xs \<Longrightarrow> mset (xs[i := x]) = add_mset x (mset (drop_at i xs))"
  by (simp add: upd_conv_take_nth_drop drop_at_def)

lemma set_drop_at: "set (drop_at i xs) \<subseteq> set xs"
  by (auto simp: drop_at_def dest: in_set_takeD in_set_dropD)

text \<open>The invariant, with one claim set apart.\<close>

lemma use_ok_split:
  assumes "i < length (lu_claims u)"
  shows "use_ok sha parse u \<longleftrightarrow>
    ledger_inv sha parse (mset (lu_refs u) + \<Sum>\<^sub># (image_mset held (mset (drop_at i (lu_claims u)))) + held (lu_claims u ! i))
      (\<Sum>\<^sub># (image_mset ledger_room (mset (drop_at i (lu_claims u)))) + ledger_room (lu_claims u ! i)) (lu_ledger u) \<and>
    0 \<le> cm_size (lu_claims u ! i) \<and> (\<forall>c \<in> set (drop_at i (lu_claims u)). 0 \<le> cm_size c)"
proof -
  have m: "mset (lu_claims u) = add_mset (lu_claims u ! i) (mset (drop_at i (lu_claims u)))"
    by (rule mset_nth [OF assms])
  have "set (lu_claims u) = insert (lu_claims u ! i) (set (drop_at i (lu_claims u)))"
    using arg_cong [OF m, of set_mset] by simp
  then show ?thesis
    by (simp add: use_ok_def m ac_simps)
qed

lemma use_ok_set:
  assumes "i < length (lu_claims u)" and "lu_claims u' = (lu_claims u)[i := claim]"
    and "ledger_inv sha parse (mset (lu_refs u') + \<Sum>\<^sub># (image_mset held (mset (drop_at i (lu_claims u)))) + held claim)
      (\<Sum>\<^sub># (image_mset ledger_room (mset (drop_at i (lu_claims u)))) + ledger_room claim) (lu_ledger u')"
    and "0 \<le> cm_size claim" and "\<forall>c \<in> set (drop_at i (lu_claims u)). 0 \<le> cm_size c"
  shows "use_ok sha parse u'"
proof -
  have "drop_at i (lu_claims u') = drop_at i (lu_claims u)" "i < length (lu_claims u')" "lu_claims u' ! i = claim"
    using assms(1,2) by (simp_all add: drop_at_def)
  then show ?thesis
    unfolding use_ok_split [OF \<open>i < length (lu_claims u')\<close>] using assms(3-5) by simp
qed

lemma fresh_use_ok:
  assumes "0 \<le> mg" and "0 \<le> mb"
  shows "use_ok sha parse \<lparr>lu_ledger = newDeclarationLedger mg mb ms, lu_refs = [], lu_claims = []\<rparr>"
  using assms by (simp add: use_ok_def ledger_inv_def live_ok_def index_ok_def digest_ok_def newDeclarationLedger_def bucket_of_def)

lemma begin_size: "ledger_begin len digest l = (Inr claim, l') \<Longrightarrow> 0 \<le> cm_size claim"
  by (auto simp: ledger_begin_def Let_def split: if_splits list.splits)

lemma begin_error: "ledger_begin len digest l = (Inl e, l') \<Longrightarrow> l' = l"
  by (auto simp: ledger_begin_def Let_def split: if_splits list.splits)

lemma compare_same:
  "held (claim_compare offset data l claim) = held claim" "ledger_room (claim_compare offset data l claim) = ledger_room claim"
  "cm_size (claim_compare offset data l claim) = cm_size claim"
  by (simp_all add: claim_compare_def split: option.split)

lemma ledger_step_ok:
  assumes "use_ok sha parse u" and "ledger_op_valid op u"
  shows "use_ok sha parse (ledger_step sha parse op u)"
proof (cases op)
  case (Begin_claim len digest)
  obtain res l where b: "ledger_begin len digest (lu_ledger u) = (res, l)" by fastforce
  show ?thesis
  proof (cases res)
    case (Inl e)
    with b begin_error show ?thesis
      using assms(1) by (fastforce simp: Begin_claim)
  next
    case (Inr claim)
    with b have b: "ledger_begin len digest (lu_ledger u) = (Inr claim, l)" by simp
    from begin_inv [OF conjunct1 [OF assms(1) [unfolded use_ok_def]] b] show ?thesis
      using assms(1) b begin_size [OF b] by (simp add: Begin_claim use_ok_def ac_simps)
  qed
next
  case (Compare_chunk i offset data)
  then have i: "i < length (lu_claims u)" using assms(2) by simp
  show ?thesis
    using assms(1) i unfolding Compare_chunk use_ok_split [OF i]
    by (intro use_ok_set [OF i, where claim = "claim_compare offset data (lu_ledger u) (lu_claims u ! i)"])
      (simp_all add: compare_same)
next
  case (Track_input i n)
  then have i: "i < length (lu_claims u)" using assms(2) by simp
  show ?thesis
    using assms(1) i unfolding Track_input use_ok_split [OF i]
    by (intro use_ok_set [OF i, where claim = "(lu_claims u ! i)\<lparr>cm_workSize := n\<rparr>"])
      (simp_all add: trackInput_def changeWork_inv)
next
  case (Finish_claim i stop1 stop2 input capacity expected)
  then have i: "i < length (lu_claims u)" using assms(2) by simp
  let ?out = "claim_finish sha parse stop1 stop2 input capacity expected (lu_claims u ! i) (lu_ledger u)"
  obtain res claim l where out: "?out = (res, claim, l)" by (cases ?out)
  note ok = assms(1) [unfolded use_ok_split [OF i]]
  from finish_finished [OF conjunct1 [OF ok], of input stop1 stop2 capacity expected] ok show ?thesis
    unfolding Finish_claim out by (intro use_ok_set [OF i, where claim = claim]) (auto simp: out finished_def split: sum.splits)
next
  case (Close_claim i)
  then have i: "i < length (lu_claims u)" using assms(2) by simp
  note ok = assms(1) [unfolded use_ok_split [OF i]]
  from close_inv [OF conjunct1 [OF ok]] ok show ?thesis
    by (simp add: Close_claim use_ok_def)
next
  case (Retain_ref i)
  then have "lu_refs u ! i \<in> set (lu_refs u)" using assms(2) by simp
  with assms(1) retain_inv show ?thesis
    by (fastforce simp: Retain_ref use_ok_def ledger_retain_def)
next
  case (Release_ref i)
  then have i: "i < length (lu_refs u)" using assms(2) by simp
  from assms(1) release_inv [of _ _ "mset (lu_refs u) + _" _ _ "lu_refs u ! i"] show ?thesis
    by (fastforce simp: Release_ref use_ok_def ledger_release_def mset_nth [OF i])
qed

lemma ledger_reach_ok:
  assumes "ledger_reach sha parse mg mb ms u" and "0 \<le> mg" and "0 \<le> mb"
  shows "use_ok sha parse u"
  using assms(1) by induction (simp_all add: fresh_use_ok assms(2,3) ledger_step_ok)

lemma live_distinct:
  assumes inv: "ledger_inv sha parse H R l"
  shows "set_mset H = snd ` set (dl_records l)" and "distinct (map snd (dl_records l))"
proof -
  note entry = index_okD(2) [OF ledger_parts(2) [OF inv]] and dist = index_okD(1) [OF ledger_parts(2) [OF inv]]
  show "set_mset H = snd ` set (dl_records l)"
  proof (intro set_eqI iffI)
    show "r \<in> snd ` set (dl_records l)" if "r \<in># H" for r
      using entry [of "gr_key (grec l r)" r] that by (force simp: image_iff)
    show "r \<in># H" if "r \<in> snd ` set (dl_records l)" for r
      using that entry by auto
  qed
  have key: "fst e = gr_key (grec l (snd e))" if "e \<in> set (dl_records l)" for e
    using entry [of "fst e" "snd e"] that by simp
  have "inj_on snd (set (dl_records l))"
  proof (rule inj_onI)
    fix x y assume e: "x \<in> set (dl_records l)" "y \<in> set (dl_records l)" "snd x = snd y"
    show "x = y"
      by (rule prod_eqI) (simp_all only: key [OF e(1)] key [OF e(2)] e(3))
  qed
  then show "distinct (map snd (dl_records l))"
    using distinct_map [of fst "dl_records l"] distinct_map [of snd "dl_records l"] dist by simp
qed

lemma ledger_groups:
  assumes inv: "ledger_inv sha parse H R l"
  shows "dl_groups l = int (card (set_mset H))"
    and "dl_bytes l = (\<Sum>r \<in> set_mset H. int (length (gr_bytes (grec l r))))"
proof -
  note d = live_distinct [OF inv]
  have "card (set_mset H) = length (dl_records l)"
    unfolding d(1) using distinct_card [OF d(2)] by simp
  then show "dl_groups l = int (card (set_mset H))"
    using inv by (simp add: ledger_inv_def)
  have "dl_bytes l = (\<Sum>e\<leftarrow>dl_records l. int (length (gr_bytes (grec l (snd e)))))"
    using inv by (simp add: ledger_inv_def)
  also have "\<dots> = (\<Sum>r\<leftarrow>map snd (dl_records l). int (length (gr_bytes (grec l r))))"
    by (simp add: o_def)
  also have "\<dots> = (\<Sum>r \<in> set_mset H. int (length (gr_bytes (grec l r))))"
    unfolding sum_list_distinct_conv_sum_set [OF d(2)] d(1) by simp
  finally show "dl_bytes l = (\<Sum>r \<in> set_mset H. int (length (gr_bytes (grec l r))))" .
qed

text \<open>No operation changes the limits.\<close>

definition limits :: "declarationLedger \<Rightarrow> int \<times> int" where
  "limits l = (dl_maxGroups l, dl_maxBytes l)"

lemma limits_simps [simp]:
  "limits (add_refs r n l) = limits l" "limits (changeWork n l) = limits l"
  "limits (releaseLocked rp l) = limits l"
  "limits (snd (claim_close cp l)) = limits l"
  by (simp_all add: limits_def add_refs_def changeWork_def releaseLocked_def claim_close_def releaseWorkLocked_def
      Let_def split: option.split)

lemma limits_foldl [simp]: "limits (foldl (\<lambda>l n. changeWork n l) l ws) = limits l"
  by (induction ws arbitrary: l) simp_all

lemma limits_updates [simp]:
  "limits (l\<lparr>dl_workBytes := n\<rparr>) = limits l" "limits (l\<lparr>dl_parsePeak := n\<rparr>) = limits l"
  "limits (l\<lparr>dl_reserved := n, dl_reservedSize := m\<rparr>) = limits l"
  by (simp_all add: limits_def)

lemma limits_insert [simp]: "limits (snd (snd (insertRecord sha key policy input capacity claim l))) = limits l"
  by (simp add: insertRecord_def Let_def releaseWorkLocked_def limits_def changeWork_def)

lemma limits_begin: "ledger_begin len digest l = (res, l') \<Longrightarrow> limits l' = limits l"
  by (auto simp: ledger_begin_def Let_def limits_def add_refs_def split: if_splits list.splits)

lemma limits_finish: "limits (snd (snd (claim_finish sha parse stop1 stop2 input capacity expected claim l))) = limits l"
  by (simp add: claim_finish_def Let_def releaseWorkLocked_def split: prod.split sum.split option.split)

lemma limits_step: "limits (lu_ledger (ledger_step sha parse op u)) = limits (lu_ledger u)"
proof (cases op)
  case (Begin_claim len digest)
  then show ?thesis by (auto dest: limits_begin split: prod.split sum.split)
next
  case (Finish_claim i stop1 stop2 input capacity expected)
  then show ?thesis
    using limits_finish [of sha parse stop1 stop2 input capacity expected "lu_claims u ! i" "lu_ledger u"]
    by (fastforce split: prod.split)
qed (simp_all add: trackInput_def ledger_retain_def ledger_release_def)

lemma limits_reach: "ledger_reach sha parse mg mb ms u \<Longrightarrow> limits (lu_ledger u) = (mg, mb)"
  by (induction rule: ledger_reach.induct) (simp_all only: limits_step, simp add: limits_def newDeclarationLedger_def)

lemma room_nonneg: "(\<forall>c \<in> set cs. 0 \<le> cm_size c) \<Longrightarrow> 0 \<le> sum_mset (\<Sum>\<^sub># (image_mset ledger_room (mset cs)))"
  by (induction cs) (auto simp: ledger_room_def)

lemma snapshot_bounds:
  assumes inv: "ledger_inv sha parse H R l" and "0 \<le> sum_mset R"
  shows "fst (ledger_snapshot l) \<in> {0..dl_maxGroups l}" and "snd (ledger_snapshot l) \<in> {0..dl_maxBytes l}"
    and "H = {#} \<Longrightarrow> R = {#} \<Longrightarrow> ledger_snapshot l = (0, 0)"
proof -
  have "dl_groups l + int (size R) \<le> dl_maxGroups l" "dl_bytes l + sum_mset R \<le> dl_maxBytes l"
    and eqs: "dl_reserved l = int (size R)" "dl_reservedSize l = sum_mset R"
    using inv by (simp_all add: ledger_inv_def)
  moreover have "0 \<le> dl_bytes l"
    unfolding ledger_groups(2) [OF inv] by (rule sum_nonneg) simp
  ultimately show "fst (ledger_snapshot l) \<in> {0..dl_maxGroups l}" "snd (ledger_snapshot l) \<in> {0..dl_maxBytes l}"
    using assms(2) ledger_groups(1) [OF inv] by (simp_all add: ledger_snapshot_def)
  show "ledger_snapshot l = (0, 0)" if "H = {#}" "R = {#}"
    using that ledger_groups [OF inv] eqs by (simp add: ledger_snapshot_def)
qed

section \<open>A concrete use\<close>

fun ledger_run :: "sha256 \<Rightarrow> parse \<Rightarrow> ledger_op list \<Rightarrow> ledger_use \<Rightarrow> ledger_use" where
  "ledger_run sha parse [] u = u"
| "ledger_run sha parse (op # ops) u = ledger_run sha parse ops (ledger_step sha parse op u)"

fun ledger_run_valid :: "sha256 \<Rightarrow> parse \<Rightarrow> ledger_op list \<Rightarrow> ledger_use \<Rightarrow> bool" where
  "ledger_run_valid sha parse [] u \<longleftrightarrow> True"
| "ledger_run_valid sha parse (op # ops) u \<longleftrightarrow> ledger_op_valid op u \<and> ledger_run_valid sha parse ops (ledger_step sha parse op u)"

lemma ledger_run_reach:
  "ledger_reach sha parse mg mb ms u \<Longrightarrow> ledger_run_valid sha parse ops u \<Longrightarrow>
   ledger_reach sha parse mg mb ms (ledger_run sha parse ops u)"
  by (induction ops arbitrary: u) (simp_all add: use_ledger)

text \<open>The same declaration is received twice, and the second copy is recognized; a third one is begun.\<close>

definition sample_sha :: sha256 where
  "sample_sha b = replicate 32 7"

definition sample_parse :: parse where
  "sample_parse b = (if b = [] then Inl 0 else Inr (''g'', of_nat (length b), ''p''), [8, - 8], 8)"

definition sample_ledger :: ledger_use where
  "sample_ledger = ledger_run sample_sha sample_parse
     [Begin_claim 2 (replicate 32 7), Track_input 0 2, Finish_claim 0 False False [1, 2] 4 ''g'', Close_claim 0,
      Begin_claim 2 (replicate 32 7), Compare_chunk 0 0 [1, 2], Finish_claim 0 False False [1, 2] 2 [], Close_claim 0,
      Begin_claim 3 (replicate 32 7)]
     \<lparr>lu_ledger = newDeclarationLedger 4 100 50, lu_refs = [], lu_claims = []\<rparr>"

lemma sample_ledger_reach: "ledger_reach sample_sha sample_parse 4 100 50 sample_ledger"
  unfolding sample_ledger_def by (rule ledger_run_reach [OF fresh_ledger]) code_simp

lemma sample_ledger_refs: "lu_refs sample_ledger = [0, 0] \<and> ledger_snapshot (lu_ledger sample_ledger) = (2, 5) \<and>
    gr_bytes (grec (lu_ledger sample_ledger) 0) = [1, 2]"
  by code_simp

section \<open>Properties\<close>

text \<open>C9: However a declaration ledger is used, what it reports stays within its limits: the number
  of records it counts is exactly the number of distinct records that some reference or open claim
  still holds, the bytes are exactly theirs, and the ledger_room promised to open claims is included in the
  limits. Once every reference is released and every claim closed, nothing is left counted.\<close>

theorem ledger_accounting:
  assumes "ledger_reach sha parse maxGroups maxBytes maxSingle u" and "0 \<le> maxGroups" and "0 \<le> maxBytes"
  shows "(let l = lu_ledger u; live = set (lu_refs u) \<union> \<Union> (set_mset ` held ` set (lu_claims u)) in
     dl_groups l = int (card live) \<and> dl_bytes l = (\<Sum>r\<in>live. int (length (gr_bytes (grec l r)))) \<and>
     fst (ledger_snapshot l) \<in> {0..maxGroups} \<and> snd (ledger_snapshot l) \<in> {0..maxBytes} \<and>
     (lu_refs u = [] \<and> lu_claims u = [] \<longrightarrow> ledger_snapshot l = (0, 0)))"
proof -
  let ?l = "lu_ledger u" and ?H = "mset (lu_refs u) + \<Sum>\<^sub># (image_mset held (mset (lu_claims u)))"
  let ?R = "\<Sum>\<^sub># (image_mset ledger_room (mset (lu_claims u)))"
  note ok = ledger_reach_ok [OF assms]
  then have inv: "ledger_inv sha parse ?H ?R ?l" and sizes: "0 \<le> sum_mset ?R"
    by (simp_all add: use_ok_def room_nonneg)
  have live: "set_mset ?H = set (lu_refs u) \<union> \<Union> (set_mset ` held ` set (lu_claims u))"
    by (simp add: set_mset_Union_mset)
  have "dl_maxGroups ?l = maxGroups" "dl_maxBytes ?l = maxBytes"
    using limits_reach [OF assms(1)] by (simp_all add: limits_def)
  then have "fst (ledger_snapshot ?l) \<in> {0..maxGroups}" "snd (ledger_snapshot ?l) \<in> {0..maxBytes}"
    using snapshot_bounds(1,2) [OF inv sizes] by simp_all
  moreover have "ledger_snapshot ?l = (0, 0)" if "lu_refs u = [] \<and> lu_claims u = []"
    by (rule snapshot_bounds(3) [OF inv sizes]) (use that in simp_all)
  ultimately show ?thesis
    using ledger_groups [OF inv] unfolding Let_def live [symmetric] by blast
qed

theorem ledger_accounting_witness:
  "dl_groups (lu_ledger sample_ledger) = 1 \<and> dl_bytes (lu_ledger sample_ledger) = 2 \<and>
   fst (ledger_snapshot (lu_ledger sample_ledger)) \<in> {0..4}"
proof -
  have live: "set (lu_refs sample_ledger) \<union> \<Union> (set_mset ` held ` set (lu_claims sample_ledger)) = {0}"
    by code_simp
  show ?thesis
    using ledger_accounting [OF sample_ledger_reach, unfolded Let_def live] sample_ledger_refs by simp
qed

text \<open>C25: Declarations are shared canonically: two references to records of the same group version, or
  of the same bytes, are references to the same record, and a record's group, version and policy are
  the ones its bytes parse to.\<close>

theorem declarations_shared:
  assumes "ledger_reach sha parse maxGroups maxBytes maxSingle u" and "0 \<le> maxGroups" and "0 \<le> maxBytes"
    and "r \<in> set (lu_refs u)" and "s \<in> set (lu_refs u)"
  shows "(let x = grec (lu_ledger u) r; y = grec (lu_ledger u) s in
     (gr_key x = gr_key y \<longleftrightarrow> r = s) \<and> (gr_bytes x = gr_bytes y \<longleftrightarrow> r = s) \<and>
     fst (parse (gr_bytes x)) = Inr (fst (gr_key x), snd (gr_key x), gr_policy x))"
proof -
  let ?l = "lu_ledger u" and ?H = "mset (lu_refs u) + \<Sum>\<^sub># (image_mset held (mset (lu_claims u)))"
  let ?R = "\<Sum>\<^sub># (image_mset ledger_room (mset (lu_claims u)))"
  have inv: "ledger_inv sha parse ?H ?R ?l"
    using ledger_reach_ok [OF assms(1-3)] by (simp add: use_ok_def)
  have H: "r \<in># ?H" "s \<in># ?H"
    using assms(4,5) by simp_all
  note index = ledger_parts(2) [OF inv]
  note parsed = live_okD(4) [OF ledger_parts(1) [OF inv]]
  have key: "r = s" if "gr_key (grec ?l r) = gr_key (grec ?l s)"
  proof -
    have rec: "map_of (dl_records ?l) (gr_key (grec ?l x)) = Some x" if "x \<in># ?H" for x
      by (rule map_of_is_SomeI [OF index_okD(1) [OF index]]) (use that index_okD(2) [OF index] in blast)
    from rec [OF H(1)] rec [OF H(2)] show ?thesis
      unfolding that by simp
  qed
  moreover have "gr_key (grec ?l r) = gr_key (grec ?l s)" if "gr_bytes (grec ?l r) = gr_bytes (grec ?l s)"
    using parsed [OF H(1)] parsed [OF H(2)] that by (metis Inr_inject prod.inject prod.collapse)
  ultimately show ?thesis
    using parsed [OF H(1)] unfolding Let_def by blast
qed

theorem declarations_shared_witness:
  "fst (sample_parse (gr_bytes (grec (lu_ledger sample_ledger) 0))) =
     Inr (fst (gr_key (grec (lu_ledger sample_ledger) 0)), snd (gr_key (grec (lu_ledger sample_ledger) 0)),
       gr_policy (grec (lu_ledger sample_ledger) 0))"
  using declarations_shared [OF sample_ledger_reach, of 0 0] sample_ledger_refs by (simp add: Let_def)

end
