(* ===== verification/Tcp_Source.thy ===== *)
theory Tcp_Source
  imports Prelude
begin

text \<open>
  Admission of TCP flows at a mesh source, \<^verbatim>\<open>mesh/admission.go\<close>: a source is one ingress listener or
  the local tunnel, with its own limits on flows, pending setups and HTTP requests. Each unit in use is a
  lease, which is given back at most once.

  Sources and leases live in lists and a pointer is an index; the three lease types have the same
  two fields. Every operation holds \<^verbatim>\<open>source.mu\<close>; \<open>claim\<close> is one compare-and-swap, and
  the slot it claims is given back by \<open>settle\<close> later. The lemmas on the three lease classes are proved
  once, for any counter, high-water mark and limit (\<open>counted\<close>).
\<close>

section \<open>State\<close>

record MeshTCPCapacity =
  tc_MaxTCPConnections :: int
  tc_MaxTCPConnectionsPerGeneration :: int
  tc_MaxPendingTCPSetups :: int
  tc_MaxPendingTCPSetupsPerGeneration :: int

record tcpSource =
  ts_capacity :: MeshTCPCapacity
  ts_requestLimit :: int
  ts_closed :: bool
  ts_flows :: int
  ts_setups :: int
  ts_requests :: int
  ts_flowHigh :: int
  ts_setupHigh :: int
  ts_requestHigh :: int

record source_lease =
  le_source :: nat
  le_released :: bool

type_synonym flowLease = source_lease
type_synonym setupLease = source_lease
type_synonym requestLease = source_lease

datatype source_error =
    ErrSourceClosed | ErrSourceFlowCapacity | ErrSourceSetupCapacity | ErrSourceSetupReleased
  | ErrSourceRequestCapacity | ErrNotHTTPSource | ErrFlowReleased

record source_heap =
  sh_sources :: "tcpSource list"
  sh_flows :: "flowLease list"
  sh_setups :: "setupLease list"
  sh_requests :: "requestLease list"

record sourceSnapshot =
  ss_Closed :: bool
  ss_Flows :: int
  ss_Setups :: int
  ss_Requests :: int
  ss_FlowHigh :: int
  ss_SetupHigh :: int
  ss_RequestHigh :: int

abbreviation src :: "source_heap \<Rightarrow> nat \<Rightarrow> tcpSource" where
  "src h s \<equiv> sh_sources h ! s"

definition put_src :: "nat \<Rightarrow> tcpSource \<Rightarrow> source_heap \<Rightarrow> source_heap" where
  [qmux_defs]: "put_src s x h = h\<lparr>sh_sources := (sh_sources h)[s := x]\<rparr>"

section \<open>Operations\<close>

definition newTCPSource :: "MeshTCPCapacity \<Rightarrow> int \<Rightarrow> source_heap \<Rightarrow> nat \<times> source_heap" where
  "newTCPSource capacity requestLimit h =
     (length (sh_sources h),
      h\<lparr>sh_sources := sh_sources h @ [\<lparr>ts_capacity = capacity, ts_requestLimit = requestLimit, ts_closed = False,
        ts_flows = 0, ts_setups = 0, ts_requests = 0, ts_flowHigh = 0, ts_setupHigh = 0, ts_requestHigh = 0\<rparr>]\<rparr>)"

definition source_snapshot :: "nat \<Rightarrow> source_heap \<Rightarrow> sourceSnapshot" where
  "source_snapshot s h = (let x = src h s in
     \<lparr>ss_Closed = ts_closed x, ss_Flows = ts_flows x, ss_Setups = ts_setups x, ss_Requests = ts_requests x,
      ss_FlowHigh = ts_flowHigh x, ss_SetupHigh = ts_setupHigh x, ss_RequestHigh = ts_requestHigh x\<rparr>)"

definition source_close :: "nat \<Rightarrow> source_heap \<Rightarrow> source_heap" where
  "source_close s h = put_src s ((src h s)\<lparr>ts_closed := True\<rparr>) h"

definition beginFlow :: "nat \<Rightarrow> source_heap \<Rightarrow> (source_error + nat) \<times> source_heap" where
  "beginFlow s h =
     (let x = src h s in
      if ts_closed x then (Inl ErrSourceClosed, h)
      else if ts_flows x \<ge> tc_MaxTCPConnections (ts_capacity x) then (Inl ErrSourceFlowCapacity, h)
      else
        let n = ts_flows x + 1 in
        (Inr (length (sh_flows h)),
         (put_src s (x\<lparr>ts_flows := n, ts_flowHigh := max (ts_flowHigh x) n\<rparr>) h)
           \<lparr>sh_flows := sh_flows h @ [\<lparr>le_source = s, le_released = False\<rparr>]\<rparr>))"

definition flow_release :: "nat option \<Rightarrow> source_heap \<Rightarrow> bool \<times> source_heap" where
  "flow_release fp h =
     (case fp of None \<Rightarrow> (False, h)
      | Some f \<Rightarrow>
        let l = sh_flows h ! f; s = le_source l; x = src h s in
        if le_released l then (False, h)
        else (True, (put_src s (x\<lparr>ts_flows := ts_flows x - 1\<rparr>) h)
                \<lparr>sh_flows := (sh_flows h)[f := l\<lparr>le_released := True\<rparr>]\<rparr>))"

definition beginSetupLocked :: "nat \<Rightarrow> source_heap \<Rightarrow> (source_error + nat) \<times> source_heap" where
  "beginSetupLocked s h =
     (let x = src h s in
      if ts_setups x \<ge> tc_MaxPendingTCPSetups (ts_capacity x) then (Inl ErrSourceSetupCapacity, h)
      else
        let n = ts_setups x + 1 in
        (Inr (length (sh_setups h)),
         (put_src s (x\<lparr>ts_setups := n, ts_setupHigh := max (ts_setupHigh x) n\<rparr>) h)
           \<lparr>sh_setups := sh_setups h @ [\<lparr>le_source = s, le_released = False\<rparr>]\<rparr>))"

definition beginSetup :: "nat option \<Rightarrow> source_heap \<Rightarrow> (source_error + nat) \<times> source_heap" where
  "beginSetup fp h =
     (case fp of None \<Rightarrow> (Inl ErrFlowReleased, h)
      | Some f \<Rightarrow>
        let l = sh_flows h ! f; s = le_source l in
        if ts_closed (src h s) then (Inl ErrSourceClosed, h)
        else if le_released l then (Inl ErrFlowReleased, h)
        else beginSetupLocked s h)"

definition setup_claim :: "nat option \<Rightarrow> source_heap \<Rightarrow> bool \<times> source_heap" where
  "setup_claim lp h =
     (case lp of None \<Rightarrow> (False, h)
      | Some i \<Rightarrow>
        let l = sh_setups h ! i in
        if le_released l then (False, h)
        else (True, h\<lparr>sh_setups := (sh_setups h)[i := l\<lparr>le_released := True\<rparr>]\<rparr>))"

definition setup_live :: "nat option \<Rightarrow> source_heap \<Rightarrow> bool" where
  "setup_live lp h \<longleftrightarrow> (case lp of None \<Rightarrow> False | Some i \<Rightarrow> \<not> le_released (sh_setups h ! i))"

definition setup_release :: "nat option \<Rightarrow> source_heap \<Rightarrow> bool \<times> source_heap" where
  "setup_release lp h =
     (case lp of None \<Rightarrow> (False, h)
      | Some i \<Rightarrow>
        let l = sh_setups h ! i; s = le_source l; x = src h s in
        if le_released l then (False, h)
        else (True, (put_src s (x\<lparr>ts_setups := ts_setups x - 1\<rparr>) h)
                \<lparr>sh_setups := (sh_setups h)[i := l\<lparr>le_released := True\<rparr>]\<rparr>))"

definition setup_complete :: "nat option \<Rightarrow> source_heap \<Rightarrow> bool \<times> source_heap" where
  "setup_complete lp h = setup_release lp h"

definition setup_settle :: "nat \<Rightarrow> source_heap \<Rightarrow> source_heap" where
  "setup_settle i h =
     (let s = le_source (sh_setups h ! i); x = src h s in put_src s (x\<lparr>ts_setups := ts_setups x - 1\<rparr>) h)"

definition beginRequest :: "nat option \<Rightarrow> source_heap \<Rightarrow> (source_error + nat) \<times> source_heap" where
  "beginRequest fp h =
     (case fp of None \<Rightarrow> (Inl ErrFlowReleased, h)
      | Some f \<Rightarrow>
        let l = sh_flows h ! f; s = le_source l; x = src h s in
        if ts_closed x then (Inl ErrSourceClosed, h)
        else if le_released l then (Inl ErrFlowReleased, h)
        else if ts_requestLimit x = 0 then (Inl ErrNotHTTPSource, h)
        else if ts_requests x \<ge> ts_requestLimit x then (Inl ErrSourceRequestCapacity, h)
        else
          let n = ts_requests x + 1 in
          (Inr (length (sh_requests h)),
           (put_src s (x\<lparr>ts_requests := n, ts_requestHigh := max (ts_requestHigh x) n\<rparr>) h)
             \<lparr>sh_requests := sh_requests h @ [\<lparr>le_source = s, le_released = False\<rparr>]\<rparr>))"

definition request_release :: "nat option \<Rightarrow> source_heap \<Rightarrow> bool \<times> source_heap" where
  "request_release rp h =
     (case rp of None \<Rightarrow> (False, h)
      | Some i \<Rightarrow>
        let l = sh_requests h ! i; s = le_source l; x = src h s in
        if le_released l then (False, h)
        else (True, (put_src s (x\<lparr>ts_requests := ts_requests x - 1\<rparr>) h)
                \<lparr>sh_requests := (sh_requests h)[i := l\<lparr>le_released := True\<rparr>]\<rparr>))"

section \<open>The invariant\<close>

definition live :: "nat \<Rightarrow> source_lease list \<Rightarrow> int" where
  "live s ls = int (length (filter (\<lambda>l. le_source l = s \<and> \<not> le_released l) ls))"

text \<open>One lease class is counted right: \<open>H\<close> holds the sources of the slots that are claimed and not yet settled.\<close>

definition counted :: "(tcpSource \<Rightarrow> int) \<Rightarrow> (tcpSource \<Rightarrow> int) \<Rightarrow> (tcpSource \<Rightarrow> int) \<Rightarrow> nat multiset \<Rightarrow> source_lease list \<Rightarrow>
    tcpSource list \<Rightarrow> bool" where
  "counted cnt high lim H ls xs \<longleftrightarrow> (\<forall>l \<in> set ls. le_source l < length xs) \<and>
     (\<forall>s < length xs. cnt (xs ! s) = live s ls + int (count H s) \<and> cnt (xs ! s) \<le> high (xs ! s) \<and> high (xs ! s) \<le> lim (xs ! s))"

definition flow_limit :: "tcpSource \<Rightarrow> int" where
  "flow_limit x = tc_MaxTCPConnections (ts_capacity x)"

definition setup_limit :: "tcpSource \<Rightarrow> int" where
  "setup_limit x = tc_MaxPendingTCPSetups (ts_capacity x)"

definition source_inv :: "nat multiset \<Rightarrow> source_heap \<Rightarrow> bool" where
  "source_inv H h \<longleftrightarrow>
     counted ts_flows ts_flowHigh flow_limit {#} (sh_flows h) (sh_sources h) \<and>
     counted ts_setups ts_setupHigh setup_limit H (sh_setups h) (sh_sources h) \<and>
     counted ts_requests ts_requestHigh ts_requestLimit {#} (sh_requests h) (sh_sources h)"

lemma live_append [simp]: "live s (ls @ [l]) = live s ls + (if le_source l = s \<and> \<not> le_released l then 1 else 0)"
  by (simp add: live_def)

lemma live_release:
  assumes "i < length ls" and "\<not> le_released (ls ! i)"
  shows "live s (ls[i := (ls ! i)\<lparr>le_released := True\<rparr>]) = live s ls - (if le_source (ls ! i) = s then 1 else 0)"
  using assms unfolding live_def length_filter_update [OF assms(1)] by simp

lemma live_nonneg [simp]: "0 \<le> live s ls"
  by (simp add: live_def)

lemma countedD:
  assumes "counted cnt high lim H ls xs"
  shows "\<And>l. l \<in> set ls \<Longrightarrow> le_source l < length xs"
    and "\<And>s. s < length xs \<Longrightarrow> cnt (xs ! s) = live s ls + int (count H s)"
    and "\<And>s. s < length xs \<Longrightarrow> cnt (xs ! s) \<le> high (xs ! s)"
    and "\<And>s. s < length xs \<Longrightarrow> high (xs ! s) \<le> lim (xs ! s)"
  using assms unfolding counted_def by blast+

lemma countedI:
  assumes "\<And>l. l \<in> set ls \<Longrightarrow> le_source l < length xs"
    and "\<And>s. s < length xs \<Longrightarrow>
      cnt (xs ! s) = live s ls + int (count H s) \<and> cnt (xs ! s) \<le> high (xs ! s) \<and> high (xs ! s) \<le> lim (xs ! s)"
  shows "counted cnt high lim H ls xs"
  using assms unfolding counted_def by blast

lemma counted_updI:
  assumes "\<And>t. t < length xs \<Longrightarrow> cnt (xs[s := x] ! t) = live t ls + int (count H t) \<and>
      cnt (xs[s := x] ! t) \<le> high (xs[s := x] ! t) \<and> high (xs[s := x] ! t) \<le> lim (xs[s := x] ! t)"
    and "\<And>l. l \<in> set ls \<Longrightarrow> le_source l < length xs"
  shows "counted cnt high lim H ls (xs[s := x])"
  using assms unfolding counted_def length_list_update by blast

text \<open>What each kind of operation does to a class: nothing, a new lease, a lease given back, a slot claimed,
  a claimed slot settled, a new source.\<close>

lemma counted_frame:
  assumes "counted cnt high lim H ls xs" and "cnt x = cnt (xs ! s)" and "high x = high (xs ! s)" and "lim x = lim (xs ! s)"
  shows "counted cnt high lim H ls (xs[s := x])"
proof -
  note c = countedD [OF assms(1)]
  have "cnt (xs[s := x] ! t) = cnt (xs ! t)" "high (xs[s := x] ! t) = high (xs ! t)" "lim (xs[s := x] ! t) = lim (xs ! t)"
    if "t < length xs" for t
    using assms(2-4) that by (cases "t = s"; simp)+
  then show ?thesis
    using c by (intro countedI) simp_all
qed

lemma counted_begin:
  assumes "counted cnt high lim H ls xs" and "s < length xs" and "cnt x = cnt (xs ! s) + 1"
    and "high x = max (high (xs ! s)) (cnt x)" and "lim x = lim (xs ! s)" and "cnt (xs ! s) < lim (xs ! s)"
  shows "counted cnt high lim H (ls @ [\<lparr>le_source = s, le_released = False\<rparr>]) (xs[s := x])"
proof -
  note c = countedD [OF assms(1)]
  have "cnt (xs[s := x] ! t) = live t (ls @ [\<lparr>le_source = s, le_released = False\<rparr>]) + int (count H t) \<and>
      cnt (xs[s := x] ! t) \<le> high (xs[s := x] ! t) \<and> high (xs[s := x] ! t) \<le> lim (xs[s := x] ! t)" if "t < length xs" for t
    using c(2-4) [OF that] assms(2-6) by (cases "t = s") simp_all
  moreover have "le_source l < length xs" if "l \<in> set (ls @ [\<lparr>le_source = s, le_released = False\<rparr>])" for l
    using that c(1) assms(2) by auto
  ultimately show ?thesis
    by (rule counted_updI)
qed

lemma counted_release:
  assumes "counted cnt high lim H ls xs" and "i < length ls" and "\<not> le_released (ls ! i)" and "s = le_source (ls ! i)"
    and "cnt x = cnt (xs ! s) - 1" and "high x = high (xs ! s)" and "lim x = lim (xs ! s)"
  shows "counted cnt high lim H (ls[i := (ls ! i)\<lparr>le_released := True\<rparr>]) (xs[s := x])"
proof -
  note c = countedD [OF assms(1)]
  have s: "s < length xs"
    using c(1) assms(2,4) by simp
  have "cnt (xs[s := x] ! t) = live t (ls[i := (ls ! i)\<lparr>le_released := True\<rparr>]) + int (count H t) \<and>
      cnt (xs[s := x] ! t) \<le> high (xs[s := x] ! t) \<and> high (xs[s := x] ! t) \<le> lim (xs[s := x] ! t)" if "t < length xs" for t
    using c(2-4) [OF that] assms(4-7) s unfolding live_release [OF assms(2,3)] by (cases "t = s") auto
  moreover have "le_source l < length xs" if "l \<in> set (ls[i := (ls ! i)\<lparr>le_released := True\<rparr>])" for l
    using set_update_subset_insert [of ls i] that c(1) s assms(4) by fastforce
  ultimately show ?thesis
    by (rule counted_updI)
qed

lemma counted_claim:
  assumes "counted cnt high lim H ls xs" and "i < length ls" and "\<not> le_released (ls ! i)"
  shows "counted cnt high lim (add_mset (le_source (ls ! i)) H) (ls[i := (ls ! i)\<lparr>le_released := True\<rparr>]) xs"
proof -
  note c = countedD [OF assms(1)]
  have "cnt (xs ! t) = live t (ls[i := (ls ! i)\<lparr>le_released := True\<rparr>]) + int (count (add_mset (le_source (ls ! i)) H) t)"
    if "t < length xs" for t
    using c(2) [OF that] unfolding live_release [OF assms(2,3)] by auto
  moreover have "le_source l < length xs" if "l \<in> set (ls[i := (ls ! i)\<lparr>le_released := True\<rparr>])" for l
    using set_update_subset_insert [of ls i] that c(1) assms(2) by fastforce
  ultimately show ?thesis
    using c(3,4) by (intro countedI) blast+
qed

lemma counted_settle:
  assumes "counted cnt high lim (add_mset s H) ls xs" and "cnt x = cnt (xs ! s) - 1" and "high x = high (xs ! s)"
    and "lim x = lim (xs ! s)"
  shows "counted cnt high lim H ls (xs[s := x])"
proof -
  note c = countedD [OF assms(1)]
  have "cnt (xs[s := x] ! t) = live t ls + int (count H t) \<and> cnt (xs[s := x] ! t) \<le> high (xs[s := x] ! t) \<and>
      high (xs[s := x] ! t) \<le> lim (xs[s := x] ! t)" if "t < length xs" for t
    using c(2-4) [OF that] assms(2-4) that by (cases "t = s") simp_all
  with c(1) show ?thesis
    by (intro counted_updI)
qed

lemma counted_new:
  assumes "counted cnt high lim H ls xs" and "set_mset H \<subseteq> {..<length xs}" and "cnt x = 0" and "high x = 0" and "0 \<le> lim x"
  shows "counted cnt high lim H ls (xs @ [x])"
proof -
  note c = countedD [OF assms(1)]
  have "live (length xs) ls = 0"
    using c(1) by (fastforce simp: live_def filter_empty_conv)
  moreover have "count H (length xs) = 0"
    using assms(2) by (auto simp: count_eq_zero_iff)
  ultimately show ?thesis
    using c assms(3-5) by (intro countedI) (auto simp: nth_append less_Suc_eq)
qed

section \<open>Every operation keeps the invariant\<close>

lemmas frame_flows = counted_frame [where cnt = ts_flows and high = ts_flowHigh and lim = flow_limit]
lemmas frame_setups = counted_frame [where cnt = ts_setups and high = ts_setupHigh and lim = setup_limit]
lemmas frame_requests = counted_frame [where cnt = ts_requests and high = ts_requestHigh and lim = ts_requestLimit]

lemma source_invD:
  assumes "source_inv H h"
  shows "counted ts_flows ts_flowHigh flow_limit {#} (sh_flows h) (sh_sources h)"
    and "counted ts_setups ts_setupHigh setup_limit H (sh_setups h) (sh_sources h)"
    and "counted ts_requests ts_requestHigh ts_requestLimit {#} (sh_requests h) (sh_sources h)"
  using assms by (simp_all add: source_inv_def)

lemma source_close_inv: "source_inv H h \<Longrightarrow> source_inv H (source_close s h)"
  unfolding source_inv_def source_close_def put_src_def
  by (auto intro!: frame_flows frame_setups frame_requests simp: flow_limit_def setup_limit_def)

lemma beginFlow_inv:
  assumes "source_inv H h" and "s < length (sh_sources h)"
  shows "source_inv H (snd (beginFlow s h))"
  using assms(1) source_invD [OF assms(1)] assms(2) unfolding beginFlow_def Let_def
  by (auto simp: source_inv_def put_src_def flow_limit_def setup_limit_def intro!: frame_setups frame_requests counted_begin)

lemma beginSetupLocked_inv:
  assumes "source_inv H h" and "s < length (sh_sources h)"
  shows "source_inv H (snd (beginSetupLocked s h))"
  using assms(1) source_invD [OF assms(1)] assms(2) unfolding beginSetupLocked_def Let_def
  by (auto simp: source_inv_def put_src_def flow_limit_def setup_limit_def intro!: frame_flows frame_requests counted_begin)

lemma lease_source:
  assumes "source_inv H h"
  shows "f < length (sh_flows h) \<Longrightarrow> le_source (sh_flows h ! f) < length (sh_sources h)"
    and "i < length (sh_setups h) \<Longrightarrow> le_source (sh_setups h ! i) < length (sh_sources h)"
    and "j < length (sh_requests h) \<Longrightarrow> le_source (sh_requests h ! j) < length (sh_sources h)"
  using countedD(1) [OF source_invD(1) [OF assms]] countedD(1) [OF source_invD(2) [OF assms]]
    countedD(1) [OF source_invD(3) [OF assms]] by simp_all

lemma beginSetup_inv:
  assumes "source_inv H h" and "f < length (sh_flows h)"
  shows "source_inv H (snd (beginSetup (Some f) h))"
  using assms(1) beginSetupLocked_inv [OF assms(1) lease_source(1) [OF assms]] by (simp add: beginSetup_def Let_def)

lemma beginRequest_inv:
  assumes "source_inv H h" and "f < length (sh_flows h)"
  shows "source_inv H (snd (beginRequest (Some f) h))"
  using assms(1) source_invD [OF assms(1)] lease_source(1) [OF assms] unfolding beginRequest_def Let_def
  by (auto simp: source_inv_def put_src_def flow_limit_def setup_limit_def intro!: frame_flows frame_setups counted_begin)

lemma flow_release_inv:
  assumes "source_inv H h" and "f < length (sh_flows h)"
  shows "source_inv H (snd (flow_release (Some f) h))"
  using assms(1) source_invD [OF assms(1)] assms(2) unfolding flow_release_def Let_def
  by (auto simp: source_inv_def put_src_def flow_limit_def setup_limit_def intro!: frame_setups frame_requests counted_release)

lemma setup_release_inv:
  assumes "source_inv H h" and "i < length (sh_setups h)"
  shows "source_inv H (snd (setup_release (Some i) h))"
  using assms(1) source_invD [OF assms(1)] assms(2) unfolding setup_release_def Let_def
  by (auto simp: source_inv_def put_src_def flow_limit_def setup_limit_def intro!: frame_flows frame_requests counted_release)

lemma request_release_inv:
  assumes "source_inv H h" and "i < length (sh_requests h)"
  shows "source_inv H (snd (request_release (Some i) h))"
  using assms(1) source_invD [OF assms(1)] assms(2) unfolding request_release_def Let_def
  by (auto simp: source_inv_def put_src_def flow_limit_def setup_limit_def intro!: frame_flows frame_setups counted_release)

lemma setup_claim_inv:
  assumes "source_inv H h" and "i < length (sh_setups h)" and "setup_claim (Some i) h = (True, h')"
  shows "source_inv (add_mset (le_source (sh_setups h ! i)) H) h'"
  using assms(3) source_invD [OF assms(1)] counted_claim [OF _ assms(2)] unfolding setup_claim_def Let_def
  by (auto simp: source_inv_def split: if_splits)

lemma setup_settle_inv:
  assumes "source_inv (add_mset (le_source (sh_setups h ! i)) H) h"
  shows "source_inv H (setup_settle i h)"
  using source_invD [OF assms] unfolding setup_settle_def Let_def
  by (auto simp: source_inv_def put_src_def flow_limit_def setup_limit_def intro!: frame_flows frame_requests counted_settle [where cnt = ts_setups])

lemma newTCPSource_inv:
  assumes "source_inv H h" and "set_mset H \<subseteq> {..<length (sh_sources h)}" and "0 \<le> tc_MaxTCPConnections capacity"
    and "0 \<le> tc_MaxPendingTCPSetups capacity" and "0 \<le> limit"
  shows "source_inv H (snd (newTCPSource capacity limit h))"
  using source_invD [OF assms(1)] assms(2-5) unfolding newTCPSource_def
  by (auto simp: source_inv_def flow_limit_def setup_limit_def intro!: counted_new)

section \<open>Any use of the sources\<close>

text \<open>\<open>su_settling\<close> are the setup leases claimed by an acknowledgement that has not settled them yet.\<close>

record source_use =
  su_heap :: source_heap
  su_settling :: "nat list"

datatype source_op =
    New_source MeshTCPCapacity int | Close_source nat | Begin_flow nat | Release_flow nat | Begin_setup nat
  | Release_setup nat | Complete_setup nat | Claim_setup nat | Settle_setup | Begin_request nat | Release_request nat

fun source_step :: "source_op \<Rightarrow> source_use \<Rightarrow> source_use" where
  "source_step (New_source capacity limit) u = u\<lparr>su_heap := snd (newTCPSource capacity limit (su_heap u))\<rparr>"
| "source_step (Close_source s) u = u\<lparr>su_heap := source_close s (su_heap u)\<rparr>"
| "source_step (Begin_flow s) u = u\<lparr>su_heap := snd (beginFlow s (su_heap u))\<rparr>"
| "source_step (Release_flow f) u = u\<lparr>su_heap := snd (flow_release (Some f) (su_heap u))\<rparr>"
| "source_step (Begin_setup f) u = u\<lparr>su_heap := snd (beginSetup (Some f) (su_heap u))\<rparr>"
| "source_step (Release_setup i) u = u\<lparr>su_heap := snd (setup_release (Some i) (su_heap u))\<rparr>"
| "source_step (Complete_setup i) u = u\<lparr>su_heap := snd (setup_complete (Some i) (su_heap u))\<rparr>"
| "source_step (Claim_setup i) u =
     (case setup_claim (Some i) (su_heap u) of (claimed, h) \<Rightarrow>
        u\<lparr>su_heap := h, su_settling := (if claimed then i # su_settling u else su_settling u)\<rparr>)"
| "source_step Settle_setup u = u\<lparr>su_heap := setup_settle (hd (su_settling u)) (su_heap u), su_settling := tl (su_settling u)\<rparr>"
| "source_step (Begin_request f) u = u\<lparr>su_heap := snd (beginRequest (Some f) (su_heap u))\<rparr>"
| "source_step (Release_request i) u = u\<lparr>su_heap := snd (request_release (Some i) (su_heap u))\<rparr>"

fun source_op_valid :: "source_op \<Rightarrow> source_use \<Rightarrow> bool" where
  "source_op_valid (New_source capacity limit) u \<longleftrightarrow> 0 \<le> tc_MaxTCPConnections capacity \<and> 0 \<le> tc_MaxPendingTCPSetups capacity \<and> 0 \<le> limit"
| "source_op_valid (Close_source s) u \<longleftrightarrow> s < length (sh_sources (su_heap u))"
| "source_op_valid (Begin_flow s) u \<longleftrightarrow> s < length (sh_sources (su_heap u))"
| "source_op_valid (Release_flow f) u \<longleftrightarrow> f < length (sh_flows (su_heap u))"
| "source_op_valid (Begin_setup f) u \<longleftrightarrow> f < length (sh_flows (su_heap u))"
| "source_op_valid (Release_setup i) u \<longleftrightarrow> i < length (sh_setups (su_heap u))"
| "source_op_valid (Complete_setup i) u \<longleftrightarrow> i < length (sh_setups (su_heap u))"
| "source_op_valid (Claim_setup i) u \<longleftrightarrow> i < length (sh_setups (su_heap u))"
| "source_op_valid Settle_setup u \<longleftrightarrow> su_settling u \<noteq> []"
| "source_op_valid (Begin_request f) u \<longleftrightarrow> f < length (sh_flows (su_heap u))"
| "source_op_valid (Release_request i) u \<longleftrightarrow> i < length (sh_requests (su_heap u))"

definition settling_sources :: "source_use \<Rightarrow> nat multiset" where
  "settling_sources u = mset (map (\<lambda>i. le_source (sh_setups (su_heap u) ! i)) (su_settling u))"

definition source_use_ok :: "source_use \<Rightarrow> bool" where
  "source_use_ok u \<longleftrightarrow> source_inv (settling_sources u) (su_heap u) \<and> (\<forall>i \<in> set (su_settling u). i < length (sh_setups (su_heap u)))"

text \<open>A setup lease never moves to another source.\<close>

definition keeps_setups :: "source_heap \<Rightarrow> source_heap \<Rightarrow> bool" where
  "keeps_setups h h' \<longleftrightarrow> length (sh_setups h) \<le> length (sh_setups h') \<and>
     (\<forall>i < length (sh_setups h). le_source (sh_setups h' ! i) = le_source (sh_setups h ! i))"

lemma keeps_setups_same: "sh_setups h' = sh_setups h \<Longrightarrow> keeps_setups h h'"
  by (simp add: keeps_setups_def)

lemma keeps_setups_release:
  assumes "sh_setups h' = (sh_setups h)[i := (sh_setups h ! i)\<lparr>le_released := True\<rparr>]"
  shows "keeps_setups h h'"
proof -
  have "le_source ((sh_setups h)[i := (sh_setups h ! i)\<lparr>le_released := True\<rparr>] ! j) = le_source (sh_setups h ! j)"
    if "j < length (sh_setups h)" for j
    using that by (cases "j = i") simp_all
  with assms show ?thesis by (simp add: keeps_setups_def)
qed

lemma keeps_setups_append: "sh_setups h' = sh_setups h @ [l] \<Longrightarrow> keeps_setups h h'"
  by (simp add: keeps_setups_def nth_append)

lemma use_ok_keep:
  assumes "source_use_ok u" and "keeps_setups (su_heap u) h" and "source_inv (settling_sources u) h"
  shows "source_use_ok (u\<lparr>su_heap := h\<rparr>)"
proof -
  have "settling_sources (u\<lparr>su_heap := h\<rparr>) = settling_sources u"
    using assms(1,2) by (auto simp: settling_sources_def source_use_ok_def keeps_setups_def intro!: image_mset_cong)
  with assms show ?thesis
    by (force simp: source_use_ok_def keeps_setups_def)
qed

lemma setup_complete_inv:
  "source_inv H h \<Longrightarrow> i < length (sh_setups h) \<Longrightarrow> source_inv H (snd (setup_complete (Some i) h))"
  unfolding setup_complete_def by (rule setup_release_inv)

lemma keeps_setups_ops:
  "keeps_setups h (snd (newTCPSource capacity limit h))" "keeps_setups h (source_close s h)" "keeps_setups h (snd (beginFlow s h))"
  "keeps_setups h (snd (flow_release fp h))" "keeps_setups h (snd (beginRequest fp h))" "keeps_setups h (snd (request_release lp h))"
  "keeps_setups h (setup_settle i h)"
  by (simp_all add: keeps_setups_same newTCPSource_def source_close_def beginFlow_def flow_release_def beginRequest_def
      request_release_def setup_settle_def put_src_def Let_def split: option.split)

lemma keeps_setups_claim: "keeps_setups h (snd (setup_claim lp h))"
  by (auto simp: setup_claim_def Let_def keeps_setups_same intro!: keeps_setups_release split: option.split)

lemma keeps_setups_setup: "keeps_setups h (snd (setup_release lp h))" "keeps_setups h (snd (beginSetupLocked s h))"
  by (auto simp: setup_release_def beginSetupLocked_def put_src_def Let_def keeps_setups_same
      intro: keeps_setups_release keeps_setups_append split: option.split)

lemma keeps_setups_wrap [simp]:
  "keeps_setups h (snd (beginSetup fp h))" "keeps_setups h (snd (setup_complete lp h))"
  by (simp_all add: beginSetup_def setup_complete_def keeps_setups_setup Let_def keeps_setups_same split: option.split)

lemma source_step_ok:
  assumes ok: "source_use_ok u" and valid: "source_op_valid op u"
  shows "source_use_ok (source_step op u)"
proof (cases op)
  case (Claim_setup i)
  obtain b h where c: "setup_claim (Some i) (su_heap u) = (b, h)" by fastforce
  have keep: "keeps_setups (su_heap u) h"
    using keeps_setups_claim [of "su_heap u" "Some i"] c by simp
  show ?thesis
  proof (cases b)
    case True
    with c setup_claim_inv [of "settling_sources u" "su_heap u" i h] ok valid keep
    have "source_inv (add_mset (le_source (sh_setups (su_heap u) ! i)) (settling_sources u)) h"
      by (simp add: Claim_setup source_use_ok_def)
    moreover have "settling_sources (source_step op u) = add_mset (le_source (sh_setups (su_heap u) ! i)) (settling_sources u)"
      using ok valid keep True c by (auto simp: Claim_setup settling_sources_def source_use_ok_def keeps_setups_def intro!: image_mset_cong)
    ultimately show ?thesis
      using ok valid keep True c by (force simp: Claim_setup source_use_ok_def keeps_setups_def)
  next
    case False
    then have "h = su_heap u"
      using c by (auto simp: setup_claim_def Let_def split: if_splits)
    with False c ok show ?thesis by (simp add: Claim_setup)
  qed
next
  case Settle_setup
  then obtain i rest where i: "su_settling u = i # rest"
    using valid by (cases "su_settling u") auto
  have "source_inv (mset (map (\<lambda>i. le_source (sh_setups (su_heap u) ! i)) rest)) (setup_settle i (su_heap u))"
    using ok setup_settle_inv [of "su_heap u" i] by (simp add: source_use_ok_def settling_sources_def i)
  then show ?thesis
    using ok by (simp add: Settle_setup source_use_ok_def settling_sources_def i setup_settle_def put_src_def Let_def)
next
  case (New_source capacity limit)
  have "set_mset (settling_sources u) \<subseteq> {..<length (sh_sources (su_heap u))}"
    using ok lease_source(2) by (force simp: source_use_ok_def settling_sources_def)
  with New_source valid ok show ?thesis
    by (auto simp: source_use_ok_def [of u] intro!: use_ok_keep newTCPSource_inv keeps_setups_ops)
qed (use ok valid in \<open>auto simp: source_use_ok_def [of u] intro!: use_ok_keep source_close_inv beginFlow_inv flow_release_inv
    beginSetup_inv setup_release_inv setup_complete_inv beginRequest_inv request_release_inv keeps_setups_ops keeps_setups_setup keeps_setups_wrap\<close>)

interpretation source_machine: machine source_op_valid source_step source_use_ok
  by unfold_locales (rule source_step_ok)

section \<open>Property\<close>

definition no_sources :: source_use where
  "no_sources = \<lparr>su_heap = \<lparr>sh_sources = [], sh_flows = [], sh_setups = [], sh_requests = []\<rparr>, su_settling = []\<rparr>"

lemma no_sources_ok: "source_use_ok no_sources"
  by (simp add: no_sources_def source_use_ok_def settling_sources_def source_inv_def counted_def)

text \<open>C24: However flows, setups and requests begin and end at any number of sources, what a source reports
  is exactly what is in use: its flows and requests are the leases that were not given back, and its setups
  those leases and the slots an acknowledgement has claimed and not yet settled. No figure exceeds its
  high-water mark, nor that the configured limit.\<close>

theorem source_accounting:
  assumes "exec_ok source_op_valid source_step ops no_sources" and "u = exec source_step ops no_sources"
    and "s < length (sh_sources (su_heap u))"
  shows "(let x = src (su_heap u) s; snap = source_snapshot s (su_heap u) in
     ss_Flows snap = live s (sh_flows (su_heap u)) \<and>
     ss_Setups snap = live s (sh_setups (su_heap u)) + int (count (settling_sources u) s) \<and>
     ss_Requests snap = live s (sh_requests (su_heap u)) \<and>
     ss_Flows snap \<le> ss_FlowHigh snap \<and> ss_FlowHigh snap \<le> tc_MaxTCPConnections (ts_capacity x) \<and>
     ss_Setups snap \<le> ss_SetupHigh snap \<and> ss_SetupHigh snap \<le> tc_MaxPendingTCPSetups (ts_capacity x) \<and>
     ss_Requests snap \<le> ss_RequestHigh snap \<and> ss_RequestHigh snap \<le> ts_requestLimit x)"
proof -
  have "source_use_ok u"
    unfolding assms(2) by (rule source_machine.exec_inv [OF no_sources_ok assms(1)])
  then have inv: "source_inv (settling_sources u) (su_heap u)"
    by (simp add: source_use_ok_def)
  note flows = countedD(2-4) [OF source_invD(1) [OF inv] assms(3)]
    and setups = countedD(2-4) [OF source_invD(2) [OF inv] assms(3)]
    and requests = countedD(2-4) [OF source_invD(3) [OF inv] assms(3)]
  show ?thesis
    using flows setups requests by (simp add: source_snapshot_def Let_def flow_limit_def setup_limit_def)
qed

definition sample_capacity :: MeshTCPCapacity where
  "sample_capacity = \<lparr>tc_MaxTCPConnections = 2, tc_MaxTCPConnectionsPerGeneration = 2, tc_MaxPendingTCPSetups = 1,
     tc_MaxPendingTCPSetupsPerGeneration = 1\<rparr>"

definition sample_source_ops :: "source_op list" where
  "sample_source_ops = [New_source sample_capacity 3, Begin_flow 0, Begin_flow 0, Begin_flow 0, Begin_setup 0, Begin_setup 1,
     Begin_request 1, Claim_setup 0, Release_setup 0, Release_flow 0, Release_flow 0]"

theorem source_accounting_witness:
  "ss_Flows (source_snapshot 0 (su_heap (exec source_step sample_source_ops no_sources))) = 1 \<and>
   ss_Setups (source_snapshot 0 (su_heap (exec source_step sample_source_ops no_sources))) = 1 \<and>
   ss_FlowHigh (source_snapshot 0 (su_heap (exec source_step sample_source_ops no_sources))) \<le> 2"
proof -
  let ?u = "exec source_step sample_source_ops no_sources"
  have ok: "exec_ok source_op_valid source_step sample_source_ops no_sources"
    by code_simp
  have lt: "0 < length (sh_sources (su_heap ?u))"
    by code_simp
  have facts: "live 0 (sh_flows (su_heap ?u)) = 1" "live 0 (sh_setups (su_heap ?u)) = 0" "count (settling_sources ?u) 0 = 1"
    "tc_MaxTCPConnections (ts_capacity (src (su_heap ?u) 0)) = 2"
    by code_simp+
  from source_accounting [OF ok refl lt] show ?thesis
    unfolding Let_def facts by simp
qed

end
