(* ===== verification/Mesh_Registry.thy ===== *)
theory Mesh_Registry
  imports Prelude
begin

text \<open>
  The registry of mesh sessions, \<^verbatim>\<open>mesh/registry.go\<close>, with the part of \<^verbatim>\<open>mesh/selection.go\<close> that
  decides which generations may carry traffic. A session is a generation: pending, then prepared for a
  client instance or a peer, then current, retiring and done. An identity has at most one prepared and
  one current generation; two servers that dial each other at once are settled by an arbitration.

  Generations and arbitrations live in lists and a pointer is an index, \<open>None\<close> is nil. All generations
  belong to the one registry. Every operation runs under \<^verbatim>\<open>r.mu\<close>, so it is one step. The channels
  \<^verbatim>\<open>changed\<close> and \<^verbatim>\<open>groupChanged\<close> are replaced when they are closed: they are the number of times
  that happened, and \<open>rg_panicked\<close> records a close of a channel that is already closed. The callbacks of
  an owner are events of \<open>Stop\<close>. Numbers are never reused: identifiers are natural numbers.
\<close>

section \<open>State\<close>

datatype Role = RoleUnknown | RoleClient | RolePeer
datatype Direction = DirectionInbound | DirectionOutbound
datatype Phase = PhasePending | PhasePrepared | PhaseCurrent | PhaseRetiring | PhaseDone
datatype InstanceL7Health = InstanceL7Unknown | InstanceL7Healthy | InstanceL7Failed

datatype registry_error =
    ErrRegistryStopped | ErrPendingCapacity | ErrClientCapacity | ErrPeerCapacity | ErrStaleGeneration
  | ErrClientGroupConflict | ErrClientPrepared | ErrClientCurrent | ErrPeerPrepared | ErrPeerCurrent | ErrPeerSuppressed

record ForwardingEligibility =
  fe_SessionReady :: bool
  fe_DeclarationReady :: bool
  fe_L4Healthy :: bool

record generationTraffic =
  gt_pending :: int
  gt_active :: int
  gt_high :: int
  gt_setupHigh :: int

record Generation =
  gn_id :: nat
  gn_role :: Role
  gn_direction :: Direction
  gn_phase :: Phase
  gn_instanceID :: string
  gn_groupID :: string
  gn_peerID :: string
  gn_ruleVersion :: u64
  gn_forwarding :: ForwardingEligibility
  gn_l7Health :: InstanceL7Health
  gn_inflight :: int
  gn_traffic :: "(nat \<times> generationTraffic) list"

text \<open>The slots of a peer, which a client entry extends with its group.\<close>

record peerEntry =
  en_prepared :: "nat option"
  en_current :: "nat option"
  en_retiring :: "(nat \<times> nat) list"

record clientEntry = peerEntry +
  ce_groupID :: string

record groupRule =
  ru_version :: u64
  ru_policy :: string

record Arbitration =
  ar_id :: nat
  ar_peerID :: string
  ar_inbound :: nat
  ar_loser :: nat
  ar_loserReleased :: bool

record Registry =
  rg_closed :: bool
  rg_changed :: nat
  rg_nextID :: nat
  rg_nextArbID :: nat
  rg_maxPending :: int
  rg_maxClients :: int
  rg_maxPeers :: int
  rg_clientHigh :: int
  rg_peerHigh :: int
  rg_pendingHigh :: int
  rg_all :: "(nat \<times> nat) list"
  rg_clients :: "(string \<times> clientEntry) list"
  rg_peers :: "(string \<times> peerEntry) list"
  rg_arbitrations :: "(string \<times> nat) list"
  rg_groupAvailable :: "(string \<times> bool) list"
  rg_groupRules :: "(string \<times> groupRule) list"
  rg_groupChanged :: nat
  rg_groupClosed :: bool
  rg_roundRobin :: "(string \<times> u64) list"
  rg_panicked :: bool
  rg_gens :: "Generation list"
  rg_arbs :: "Arbitration list"

record RegistrySnapshot =
  rs_Closed :: bool
  rs_Pending :: int
  rs_PendingHighWater :: int
  rs_ClientPrepared :: int
  rs_ClientCurrent :: int
  rs_ClientRetiring :: int
  rs_ClientTotal :: int
  rs_ClientHighWater :: int
  rs_ClientBindings :: int
  rs_PeerPrepared :: int
  rs_PeerCurrent :: int
  rs_PeerRetiring :: int
  rs_PeerTotal :: int
  rs_PeerHighWater :: int
  rs_Arbitrations :: int

definition NewRegistry :: "int \<Rightarrow> int \<Rightarrow> int \<Rightarrow> Registry" where
  "NewRegistry maxPending maxClients maxPeers =
     \<lparr>rg_closed = False, rg_changed = 0, rg_nextID = 0, rg_nextArbID = 0, rg_maxPending = maxPending,
      rg_maxClients = maxClients, rg_maxPeers = maxPeers, rg_clientHigh = 0, rg_peerHigh = 0, rg_pendingHigh = 0,
      rg_all = [], rg_clients = [], rg_peers = [], rg_arbitrations = [], rg_groupAvailable = [], rg_groupRules = [],
      rg_groupChanged = 0, rg_groupClosed = False, rg_roundRobin = [], rg_panicked = False, rg_gens = [], rg_arbs = []\<rparr>"

abbreviation gen :: "Registry \<Rightarrow> nat \<Rightarrow> Generation" where
  "gen r g \<equiv> rg_gens r ! g"

abbreviation arb :: "Registry \<Rightarrow> nat \<Rightarrow> Arbitration" where
  "arb r a \<equiv> rg_arbs r ! a"

definition upd_gen :: "nat \<Rightarrow> (Generation \<Rightarrow> Generation) \<Rightarrow> Registry \<Rightarrow> Registry" where
  "upd_gen g f r = r\<lparr>rg_gens := (rg_gens r)[g := f (gen r g)]\<rparr>"

section \<open>Helpers under the lock\<close>

definition signalLocked :: "Registry \<Rightarrow> Registry" where
  "signalLocked r = r\<lparr>rg_changed := rg_changed r + 1\<rparr>"

definition countRoleLocked :: "Role \<Rightarrow> Registry \<Rightarrow> int" where
  "countRoleLocked role r = int (length (filter (\<lambda>(i, g). gn_role (gen r g) = role) (rg_all r)))"

definition countPhaseLocked :: "Role \<Rightarrow> Phase \<Rightarrow> Registry \<Rightarrow> int" where
  "countPhaseLocked role phase r =
     int (length (filter (\<lambda>(i, g). gn_role (gen r g) = role \<and> gn_phase (gen r g) = phase) (rg_all r)))"

definition updateRoleHighWaterLocked :: "Role \<Rightarrow> Registry \<Rightarrow> Registry" where
  "updateRoleHighWaterLocked role r =
     (let n = countRoleLocked role r in
      case role of
        RoleClient \<Rightarrow> r\<lparr>rg_clientHigh := max (rg_clientHigh r) n\<rparr>
      | RolePeer \<Rightarrow> r\<lparr>rg_peerHigh := max (rg_peerHigh r) n\<rparr>
      | RoleUnknown \<Rightarrow> r)"

definition in_all :: "nat \<Rightarrow> Registry \<Rightarrow> bool" where
  "in_all g r \<longleftrightarrow> map_of (rg_all r) (gn_id (gen r g)) = Some g"

definition isExactLocked :: "nat option \<Rightarrow> Role \<Rightarrow> Phase \<Rightarrow> Registry \<Rightarrow> bool" where
  "isExactLocked gp role phase r \<longleftrightarrow>
     (case gp of None \<Rightarrow> False
      | Some g \<Rightarrow> in_all g r \<and> gn_role (gen r g) = role \<and> gn_phase (gen r g) = phase)"

definition isExactArbitrationLocked :: "nat option \<Rightarrow> Registry \<Rightarrow> bool" where
  "isExactArbitrationLocked ap r \<longleftrightarrow>
     (case ap of None \<Rightarrow> False | Some a \<Rightarrow> map_of (rg_arbitrations r) (ar_peerID (arb r a)) = Some a)"

definition newGenerationLocked :: "Role \<Rightarrow> Direction \<Rightarrow> Phase \<Rightarrow> Registry \<Rightarrow> nat \<times> Registry" where
  "newGenerationLocked role direction phase r =
     (let i = rg_nextID r + 1; g = length (rg_gens r);
          x = \<lparr>gn_id = i, gn_role = role, gn_direction = direction, gn_phase = phase, gn_instanceID = [], gn_groupID = [],
               gn_peerID = [], gn_ruleVersion = 0,
               gn_forwarding = \<lparr>fe_SessionReady = False, fe_DeclarationReady = False, fe_L4Healthy = False\<rparr>,
               gn_l7Health = InstanceL7Unknown, gn_inflight = 0, gn_traffic = []\<rparr>
      in (g, r\<lparr>rg_nextID := i, rg_gens := rg_gens r @ [x], rg_all := AList.update i g (rg_all r)\<rparr>))"

definition removePendingLocked :: "nat \<Rightarrow> Registry \<Rightarrow> Registry" where
  "removePendingLocked g r = upd_gen g (\<lambda>x. x\<lparr>gn_phase := PhaseDone\<rparr>) r"

text \<open>Slots of an entry: \<open>outbound.Current.Retire\<close> clears only the exact generation.\<close>

definition unlink_slots :: "nat \<Rightarrow> 'a peerEntry_scheme \<Rightarrow> 'a peerEntry_scheme" where
  "unlink_slots g e =
     (let e1 = (if en_prepared e = Some g then e\<lparr>en_prepared := None\<rparr> else e)
      in if en_current e1 = Some g then e1\<lparr>en_current := None\<rparr> else e1)"

definition unlinkActiveLocked :: "nat \<Rightarrow> Registry \<Rightarrow> Registry" where
  "unlinkActiveLocked g r =
     (case gn_role (gen r g) of
        RoleClient \<Rightarrow>
          (case map_of (rg_clients r) (gn_instanceID (gen r g)) of None \<Rightarrow> r
           | Some e \<Rightarrow> r\<lparr>rg_clients := AList.update (gn_instanceID (gen r g)) (unlink_slots g e) (rg_clients r)\<rparr>)
      | RolePeer \<Rightarrow>
          (case map_of (rg_peers r) (gn_peerID (gen r g)) of None \<Rightarrow> r
           | Some e \<Rightarrow> r\<lparr>rg_peers := AList.update (gn_peerID (gen r g)) (unlink_slots g e) (rg_peers r)\<rparr>)
      | RoleUnknown \<Rightarrow> r)"

definition retire_slots :: "nat \<Rightarrow> nat \<Rightarrow> 'a peerEntry_scheme \<Rightarrow> 'a peerEntry_scheme" where
  "retire_slots i g e = e\<lparr>en_retiring := AList.update i g (en_retiring e)\<rparr>"

definition addRetiringLocked :: "nat \<Rightarrow> Registry \<Rightarrow> Registry" where
  "addRetiringLocked g r =
     (case gn_role (gen r g) of
        RoleClient \<Rightarrow>
          (case map_of (rg_clients r) (gn_instanceID (gen r g)) of None \<Rightarrow> r
           | Some e \<Rightarrow> r\<lparr>rg_clients := AList.update (gn_instanceID (gen r g)) (retire_slots (gn_id (gen r g)) g e) (rg_clients r)\<rparr>)
      | RolePeer \<Rightarrow>
          (case map_of (rg_peers r) (gn_peerID (gen r g)) of None \<Rightarrow> r
           | Some e \<Rightarrow> r\<lparr>rg_peers := AList.update (gn_peerID (gen r g)) (retire_slots (gn_id (gen r g)) g e) (rg_peers r)\<rparr>)
      | RoleUnknown \<Rightarrow> r)"

definition entry_empty :: "'a peerEntry_scheme \<Rightarrow> bool" where
  "entry_empty e \<longleftrightarrow> en_prepared e = None \<and> en_current e = None \<and> en_retiring e = []"

text \<open>The last part of \<open>removeLocked\<close>: the retiring slot, an entry with nothing left, and the token.\<close>

definition drop_slots :: "nat \<Rightarrow> string \<Rightarrow> (string \<times> 'a peerEntry_scheme) list \<Rightarrow> (string \<times> 'a peerEntry_scheme) list" where
  "drop_slots i k m =
     (case map_of m k of None \<Rightarrow> m
      | Some e \<Rightarrow>
        let e1 = e\<lparr>en_retiring := AList.delete i (en_retiring e)\<rparr>
        in if entry_empty e1 then AList.delete k m else AList.update k e1 m)"

definition dropGeneration :: "nat \<Rightarrow> Registry \<Rightarrow> Registry" where
  "dropGeneration g r0 =
     (let r = unlinkActiveLocked g r0; x = gen r g;
          r1 = (case gn_role x of
                  RoleClient \<Rightarrow> r\<lparr>rg_clients := drop_slots (gn_id x) (gn_instanceID x) (rg_clients r)\<rparr>
                | RolePeer \<Rightarrow> r\<lparr>rg_peers := drop_slots (gn_id x) (gn_peerID x) (rg_peers r)\<rparr>
                | RoleUnknown \<Rightarrow> r)
      in upd_gen g (\<lambda>x. x\<lparr>gn_phase := PhaseDone\<rparr>) (r1\<lparr>rg_all := AList.delete (gn_id x) (rg_all r1)\<rparr>))"

text \<open>The code ranges over the map in any order. In every reachable registry at most one arbitration has a given inbound
  generation (\<open>arbs_ok\<close> below), so the order does not matter; and the key of an entry is the peer of its arbitration,
  which the search repeats so that the recursion below visibly takes an entry out of the map.\<close>

definition arbitrationForInboundLocked :: "nat \<Rightarrow> Registry \<Rightarrow> nat option" where
  "arbitrationForInboundLocked g r =
     map_option snd (find (\<lambda>(k, a). ar_inbound (arb r a) = g \<and> k = ar_peerID (arb r a)) (rg_arbitrations r))"

text \<open>\<open>removeLocked\<close> and \<open>finishArbitrationLocked\<close> call each other: removing the inbound generation of an
  arbitration finishes it, which removes a loser that waits for the transfer. Each round takes one
  arbitration out of the map.\<close>

lemma arbitrationForInbound_Some:
  assumes "arbitrationForInboundLocked g r = Some a"
  shows "(ar_peerID (arb r a), a) \<in> set (rg_arbitrations r)" and "ar_inbound (arb r a) = g"
  using assms by (auto simp: arbitrationForInboundLocked_def find_Some_iff) (metis nth_mem)+

lemma length_delete_mem: "(k, v) \<in> set m \<Longrightarrow> length (AList.delete k m) < length m"
  by (auto simp: AList.delete_eq intro!: length_filter_less)

function removeLocked :: "nat option \<Rightarrow> Registry \<Rightarrow> bool \<times> Registry" where
  "removeLocked gp r =
     (case gp of None \<Rightarrow> (False, r)
      | Some g \<Rightarrow>
        if \<not> in_all g r then (False, r)
        else
          let r1 = (case arbitrationForInboundLocked g r of None \<Rightarrow> r
                    | Some a \<Rightarrow>
                      let r2 = r\<lparr>rg_arbitrations := AList.delete (ar_peerID (arb r a)) (rg_arbitrations r)\<rparr>
                      in signalLocked (if ar_loserReleased (arb r a)
                                       then snd (removeLocked (Some (ar_loser (arb r a))) r2) else r2))
          in (True, dropGeneration g r1))"
  by pat_completeness auto

termination
  by (relation "measure (\<lambda>(gp, r). length (rg_arbitrations r))")
    (auto intro: length_delete_mem dest: arbitrationForInbound_Some)

declare removeLocked.simps [simp del]

definition finishArbitrationLocked :: "nat \<Rightarrow> Registry \<Rightarrow> Registry" where
  "finishArbitrationLocked a r =
     (let r2 = r\<lparr>rg_arbitrations := AList.delete (ar_peerID (arb r a)) (rg_arbitrations r)\<rparr>
      in signalLocked (if ar_loserReleased (arb r a) then snd (removeLocked (Some (ar_loser (arb r a))) r2) else r2))"

lemma removeLocked_eq:
  "removeLocked gp r =
     (case gp of None \<Rightarrow> (False, r)
      | Some g \<Rightarrow>
        if \<not> in_all g r then (False, r)
        else (True, dropGeneration g
               (case arbitrationForInboundLocked g r of None \<Rightarrow> r | Some a \<Rightarrow> finishArbitrationLocked a r)))"
  by (subst removeLocked.simps) (simp add: finishArbitrationLocked_def Let_def split: option.split)

section \<open>Forwarding eligibility\<close>

definition MeshOutdatedClientPolicyApplyLatestRules :: string where
  "MeshOutdatedClientPolicyApplyLatestRules = ''apply_latest_rules''"

definition slot_current :: "nat \<Rightarrow> Registry \<Rightarrow> bool" where
  "slot_current g r \<longleftrightarrow>
     (case gn_role (gen r g) of
        RoleClient \<Rightarrow> (case map_of (rg_clients r) (gn_instanceID (gen r g)) of None \<Rightarrow> False | Some e \<Rightarrow> en_current e = Some g)
      | RolePeer \<Rightarrow> (case map_of (rg_peers r) (gn_peerID (gen r g)) of None \<Rightarrow> False | Some e \<Rightarrow> en_current e = Some g)
      | RoleUnknown \<Rightarrow> False)"

definition registry_isCurrentLocked :: "nat option \<Rightarrow> Registry \<Rightarrow> bool" where
  "registry_isCurrentLocked gp r \<longleftrightarrow>
     (case gp of None \<Rightarrow> False
      | Some g \<Rightarrow> \<not> rg_closed r \<and> in_all g r \<and> gn_phase (gen r g) = PhaseCurrent \<and> slot_current g r)"

definition isForwardingReadyLocked :: "nat option \<Rightarrow> Registry \<Rightarrow> bool" where
  "isForwardingReadyLocked gp r \<longleftrightarrow>
     registry_isCurrentLocked gp r \<and>
     (case gp of None \<Rightarrow> False
      | Some g \<Rightarrow>
        let x = gen r g; e = gn_forwarding x in
        fe_SessionReady e \<and> fe_DeclarationReady e \<and> fe_L4Healthy e \<and>
        (gn_role x \<noteq> RoleClient \<or>
         (case map_of (rg_groupRules r) (gn_groupID x) of None \<Rightarrow> False
          | Some rule \<Rightarrow> gn_ruleVersion x \<noteq> 0 \<and>
              (gn_ruleVersion x \<ge> ru_version rule \<or> ru_policy rule = MeshOutdatedClientPolicyApplyLatestRules))))"

definition GroupAvailability :: "string \<Rightarrow> Registry \<Rightarrow> bool" where
  "GroupAvailability groupID r \<longleftrightarrow> map_of (rg_groupAvailable r) groupID = Some True"

text \<open>Closing \<open>groupChanged\<close>: closing it again after \<open>Stop\<close> would be a panic.\<close>

definition closeGroupChanged :: "Registry \<Rightarrow> Registry" where
  "closeGroupChanged r = r\<lparr>rg_groupChanged := rg_groupChanged r + 1, rg_panicked := rg_panicked r \<or> rg_groupClosed r\<rparr>"

definition refreshGroupLocked :: "string \<Rightarrow> Registry \<Rightarrow> Registry" where
  "refreshGroupLocked groupID r =
     (let entries = filter (\<lambda>(k, e). ce_groupID e = groupID) (rg_clients r);
          available = list_ex (\<lambda>(k, e). en_current e \<noteq> None \<and> isForwardingReadyLocked (en_current e) r) entries;
          r1 = (if GroupAvailability groupID r \<noteq> available
                then closeGroupChanged (r\<lparr>rg_groupAvailable :=
                       (if available then AList.update groupID True (rg_groupAvailable r)
                        else AList.delete groupID (rg_groupAvailable r))\<rparr>)
                else r)
      in if entries = [] then r1\<lparr>rg_roundRobin := AList.delete groupID (rg_roundRobin r1)\<rparr> else r1)"

definition PublishForwarding :: "nat option \<Rightarrow> ForwardingEligibility \<Rightarrow> Registry \<Rightarrow> bool \<times> Registry" where
  "PublishForwarding gp eligibility r =
     (case gp of None \<Rightarrow> (False, r)
      | Some g \<Rightarrow>
        if \<not> registry_isCurrentLocked gp r then (False, r)
        else if gn_forwarding (gen r g) = eligibility then (True, r)
        else
          let r1 = upd_gen g (\<lambda>x. x\<lparr>gn_forwarding := eligibility\<rparr>) r;
              r2 = (if gn_role (gen r1 g) = RoleClient then refreshGroupLocked (gn_groupID (gen r1 g)) r1 else r1)
          in (True, signalLocked r2))"

definition publishL4Healthy :: "nat option \<Rightarrow> Registry \<Rightarrow> bool \<times> Registry" where
  "publishL4Healthy gp r =
     (case gp of None \<Rightarrow> (False, r)
      | Some g \<Rightarrow>
        if \<not> registry_isCurrentLocked gp r \<or> gn_role (gen r g) \<noteq> RoleClient then (False, r)
        else if \<not> fe_L4Healthy (gn_forwarding (gen r g)) then
          let r1 = upd_gen g (\<lambda>x. x\<lparr>gn_forwarding := (gn_forwarding x)\<lparr>fe_L4Healthy := True\<rparr>\<rparr>) r
          in (True, signalLocked (refreshGroupLocked (gn_groupID (gen r1 g)) r1))
        else (True, r))"

text \<open>The range check on the health value holds for every value of the datatype.\<close>

definition PublishInstanceL7Health :: "nat option \<Rightarrow> InstanceL7Health \<Rightarrow> Registry \<Rightarrow> bool \<times> Registry" where
  "PublishInstanceL7Health gp health r =
     (case gp of None \<Rightarrow> (False, r)
      | Some g \<Rightarrow>
        if \<not> registry_isCurrentLocked gp r \<or> gn_role (gen r g) \<noteq> RoleClient then (False, r)
        else (True, upd_gen g (\<lambda>x. x\<lparr>gn_l7Health := health\<rparr>) r))"

section \<open>Operations\<close>

definition BeginInbound :: "Registry \<Rightarrow> (registry_error + nat) \<times> Registry" where
  "BeginInbound r =
     (if rg_closed r then (Inl ErrRegistryStopped, r)
      else if countPhaseLocked RoleUnknown PhasePending r \<ge> rg_maxPending r then (Inl ErrPendingCapacity, r)
      else
        let (g, r1) = newGenerationLocked RoleUnknown DirectionInbound PhasePending r;
            pending = countPhaseLocked RoleUnknown PhasePending r1
        in (Inr g, signalLocked (r1\<lparr>rg_pendingHigh := max (rg_pendingHigh r1) pending\<rparr>)))"

definition empty_entry :: peerEntry where
  "empty_entry = \<lparr>en_prepared = None, en_current = None, en_retiring = []\<rparr>"

definition BeginOutboundPeer :: "string \<Rightarrow> Registry \<Rightarrow> (registry_error + nat) \<times> Registry" where
  "BeginOutboundPeer peerID r =
     (if rg_closed r then (Inl ErrRegistryStopped, r)
      else if map_of (rg_arbitrations r) peerID \<noteq> None then (Inl ErrPeerSuppressed, r)
      else
        let entry = map_of (rg_peers r) peerID in
        if (case entry of None \<Rightarrow> False | Some e \<Rightarrow> en_current e \<noteq> None) then (Inl ErrPeerCurrent, r)
        else if (case entry of None \<Rightarrow> False | Some e \<Rightarrow> en_prepared e \<noteq> None) then (Inl ErrPeerPrepared, r)
        else if countRoleLocked RolePeer r \<ge> rg_maxPeers r then (Inl ErrPeerCapacity, r)
        else
          let e = (case entry of None \<Rightarrow> empty_entry | Some e \<Rightarrow> e);
              (g, r1) = newGenerationLocked RolePeer DirectionOutbound PhasePrepared r;
              r2 = upd_gen g (\<lambda>x. x\<lparr>gn_peerID := peerID\<rparr>) r1;
              r3 = r2\<lparr>rg_peers := AList.update peerID (e\<lparr>en_prepared := Some g\<rparr>) (rg_peers r2)\<rparr>
          in (Inr g, signalLocked (updateRoleHighWaterLocked RolePeer r3)))"

definition PrepareClient :: "nat option \<Rightarrow> string \<Rightarrow> string \<Rightarrow> Registry \<Rightarrow> (registry_error + nat) \<times> Registry" where
  "PrepareClient gp instanceID groupID r =
     (if rg_closed r then (Inl ErrRegistryStopped, r)
      else if \<not> isExactLocked gp RoleUnknown PhasePending r then (Inl ErrStaleGeneration, r)
      else
        let g = the gp; entry = map_of (rg_clients r) instanceID in
        if (case entry of None \<Rightarrow> False | Some e \<Rightarrow> ce_groupID e \<noteq> groupID) then (Inl ErrClientGroupConflict, r)
        else if (case entry of None \<Rightarrow> False | Some e \<Rightarrow> en_current e \<noteq> None) then (Inl ErrClientCurrent, r)
        else if (case entry of None \<Rightarrow> False | Some e \<Rightarrow> en_prepared e \<noteq> None) then (Inl ErrClientPrepared, r)
        else if countRoleLocked RoleClient r \<ge> rg_maxClients r then (Inl ErrClientCapacity, r)
        else
          let e = (case entry of None \<Rightarrow> \<lparr>en_prepared = None, en_current = None, en_retiring = [], ce_groupID = groupID\<rparr> | Some e \<Rightarrow> e);
              r1 = removePendingLocked g r;
              r2 = upd_gen g (\<lambda>x. x\<lparr>gn_role := RoleClient, gn_phase := PhasePrepared, gn_instanceID := instanceID,
                     gn_groupID := groupID\<rparr>) r1;
              r3 = r2\<lparr>rg_clients := AList.update instanceID (e\<lparr>en_prepared := Some g\<rparr>) (rg_clients r2)\<rparr>
          in (Inr g, signalLocked (updateRoleHighWaterLocked RoleClient r3)))"

definition transferPendingToPeerLocked :: "nat \<Rightarrow> string \<Rightarrow> Registry \<Rightarrow> Registry" where
  "transferPendingToPeerLocked g peerID r =
     (let e = (case map_of (rg_peers r) peerID of None \<Rightarrow> empty_entry | Some e \<Rightarrow> e);
          r1 = removePendingLocked g r;
          r2 = upd_gen g (\<lambda>x. x\<lparr>gn_role := RolePeer, gn_phase := PhasePrepared, gn_peerID := peerID\<rparr>) r1;
          r3 = r2\<lparr>rg_peers := AList.update peerID (e\<lparr>en_prepared := Some g\<rparr>) (rg_peers r2)\<rparr>
      in signalLocked (updateRoleHighWaterLocked RolePeer r3))"

datatype prepared = Prepared_generation nat | Arbitrate nat

definition PreparePeer :: "nat option \<Rightarrow> string \<Rightarrow> bool \<Rightarrow> Registry \<Rightarrow> (registry_error + prepared) \<times> Registry" where
  "PreparePeer gp peerID preferredInbound r =
     (if rg_closed r then (Inl ErrRegistryStopped, r)
      else if \<not> isExactLocked gp RoleUnknown PhasePending r then (Inl ErrStaleGeneration, r)
      else if map_of (rg_arbitrations r) peerID \<noteq> None then (Inl ErrPeerPrepared, r)
      else
        let g = the gp; entry = map_of (rg_peers r) peerID in
        if (case entry of None \<Rightarrow> False | Some e \<Rightarrow> en_current e \<noteq> None) then (Inl ErrPeerCurrent, r)
        else case Option.bind entry en_prepared of
          Some loser \<Rightarrow>
            if preferredInbound \<and> gn_direction (gen r loser) = DirectionOutbound then
              let i = rg_nextArbID r + 1; a = length (rg_arbs r);
                  r1 = r\<lparr>rg_nextArbID := i,
                         rg_arbs := rg_arbs r @ [\<lparr>ar_id = i, ar_peerID = peerID, ar_inbound = g, ar_loser = loser, ar_loserReleased = False\<rparr>],
                         rg_arbitrations := AList.update peerID a (rg_arbitrations r)\<rparr>
              in (Inr (Arbitrate a), signalLocked r1)
            else (Inl ErrPeerPrepared, r)
        | None \<Rightarrow>
            if countRoleLocked RolePeer r \<ge> rg_maxPeers r then (Inl ErrPeerCapacity, r)
            else (Inr (Prepared_generation g), transferPendingToPeerLocked g peerID r))"

definition CompleteArbitration :: "nat option \<Rightarrow> Registry \<Rightarrow> (registry_error + nat) \<times> Registry" where
  "CompleteArbitration ap r =
     (case ap of None \<Rightarrow> (Inl ErrStaleGeneration, r)
      | Some a \<Rightarrow>
        let x = arb r a in
        if \<not> isExactArbitrationLocked ap r then (Inl ErrStaleGeneration, r)
        else if rg_closed r then (Inl ErrRegistryStopped, finishArbitrationLocked a r)
        else if \<not> isExactLocked (Some (ar_inbound x)) RoleUnknown PhasePending r \<or> \<not> ar_loserReleased x \<or>
                \<not> isExactLocked (Some (ar_loser x)) RolePeer PhaseRetiring r
        then (Inl ErrStaleGeneration, finishArbitrationLocked a r)
        else if (case map_of (rg_peers r) (ar_peerID x) of None \<Rightarrow> False
                 | Some e \<Rightarrow> en_prepared e \<noteq> None \<or> en_current e \<noteq> None)
        then (Inl ErrPeerCurrent, finishArbitrationLocked a r)
        else if countRoleLocked RolePeer r > rg_maxPeers r then (Inl ErrPeerCapacity, finishArbitrationLocked a r)
        else (Inr (ar_inbound x), transferPendingToPeerLocked (ar_inbound x) (ar_peerID x) (finishArbitrationLocked a r)))"

definition CancelArbitration :: "nat option \<Rightarrow> bool \<Rightarrow> Registry \<Rightarrow> bool \<times> Registry" where
  "CancelArbitration ap abortInbound r =
     (case ap of None \<Rightarrow> (False, r)
      | Some a \<Rightarrow>
        if \<not> isExactArbitrationLocked ap r then (False, r)
        else
          let r1 = finishArbitrationLocked a r
          in (True, if abortInbound then snd (removeLocked (Some (ar_inbound (arb r1 a))) r1) else r1))"

definition PeerSuppressed :: "string \<Rightarrow> Registry \<Rightarrow> bool" where
  "PeerSuppressed peerID r \<longleftrightarrow> map_of (rg_arbitrations r) peerID \<noteq> None"

text \<open>One round of \<open>WaitPeerDialable\<close>: \<open>Some\<close> is the answer, \<open>None\<close> that it waits for the channel \<open>changed\<close>.\<close>

definition peer_dialable :: "string \<Rightarrow> Registry \<Rightarrow> bool option" where
  "peer_dialable peerID r =
     (if rg_closed r then Some False
      else if map_of (rg_arbitrations r) peerID \<noteq> None \<or>
              (case map_of (rg_peers r) peerID of None \<Rightarrow> False | Some e \<Rightarrow> en_prepared e \<noteq> None \<or> en_current e \<noteq> None)
      then None else Some True)"

text \<open>Publishing in the slot: \<open>outbound.Current.Publish\<close> succeeds because the slot is empty.\<close>

definition commit_slots :: "nat \<Rightarrow> string \<Rightarrow> (string \<times> 'a peerEntry_scheme) list \<Rightarrow> (string \<times> 'a peerEntry_scheme) list option" where
  "commit_slots g k m =
     (case map_of m k of None \<Rightarrow> None
      | Some e \<Rightarrow>
        if en_prepared e \<noteq> Some g \<or> en_current e \<noteq> None then None
        else Some (AList.update k (e\<lparr>en_prepared := None, en_current := Some g\<rparr>) m))"

definition commitLocked :: "nat \<Rightarrow> Registry \<Rightarrow> bool \<times> Registry" where
  "commitLocked g r =
     (let x = gen r g;
          out = (case gn_role x of
                   RoleClient \<Rightarrow> map_option (\<lambda>m. r\<lparr>rg_clients := m\<rparr>) (commit_slots g (gn_instanceID x) (rg_clients r))
                 | RolePeer \<Rightarrow> map_option (\<lambda>m. r\<lparr>rg_peers := m\<rparr>) (commit_slots g (gn_peerID x) (rg_peers r))
                 | RoleUnknown \<Rightarrow> None)
      in case out of None \<Rightarrow> (False, r)
         | Some r1 \<Rightarrow> (True, signalLocked (upd_gen g (\<lambda>x. x\<lparr>gn_phase := PhaseCurrent\<rparr>) r1)))"

definition CommitReceiver :: "nat \<Rightarrow> Registry \<Rightarrow> (bool \<times> bool) \<times> Registry" where
  "CommitReceiver g r =
     (if \<not> isExactLocked (Some g) (gn_role (gen r g)) PhasePrepared r then ((False, rg_closed r), r)
      else case commitLocked g r of
        (False, r1) \<Rightarrow> ((False, rg_closed r1), r1)
      | (True, r1) \<Rightarrow> ((True, rg_closed r1), r1))"

definition CommitOutboundPeer :: "nat option \<Rightarrow> Registry \<Rightarrow> bool \<times> Registry" where
  "CommitOutboundPeer gp r =
     (if rg_closed r \<or> \<not> isExactLocked gp RolePeer PhasePrepared r then (False, r)
      else
        let g = the gp; peerID = gn_peerID (gen r g) in
        if (case map_of (rg_arbitrations r) peerID of None \<Rightarrow> False | Some a \<Rightarrow> ar_loser (arb r a) = g) then (False, r)
        else case commit_slots g peerID (rg_peers r) of None \<Rightarrow> (False, r)
          | Some m \<Rightarrow> (True, signalLocked (upd_gen g (\<lambda>x. x\<lparr>gn_phase := PhaseCurrent\<rparr>) (r\<lparr>rg_peers := m\<rparr>))))"

text \<open>Moving a generation to its retiring slot, as in \<open>registry_BeginRetire\<close> and \<open>Release\<close>.\<close>

definition toRetiring :: "nat \<Rightarrow> Registry \<Rightarrow> Registry" where
  "toRetiring g r = addRetiringLocked g (upd_gen g (\<lambda>x. x\<lparr>gn_phase := PhaseRetiring\<rparr>) (unlinkActiveLocked g r))"

definition registry_BeginRetire :: "nat option \<Rightarrow> Registry \<Rightarrow> bool \<times> Registry" where
  "registry_BeginRetire gp r =
     (case gp of None \<Rightarrow> (False, r)
      | Some g \<Rightarrow>
        if \<not> in_all g r then (False, r)
        else case gn_phase (gen r g) of
          PhaseRetiring \<Rightarrow> (True, r)
        | PhasePending \<Rightarrow> (False, r)
        | PhaseDone \<Rightarrow> (False, r)
        | _ \<Rightarrow>
          let r1 = toRetiring g r;
              r2 = (if gn_role (gen r1 g) = RoleClient then refreshGroupLocked (gn_groupID (gen r1 g)) r1 else r1)
          in (True, signalLocked r2))"

definition releaseToken :: "nat \<Rightarrow> Registry \<Rightarrow> bool \<times> Registry" where
  "releaseToken g r =
     (let groupID = (if gn_role (gen r g) = RoleClient then gn_groupID (gen r g) else []);
          (removed, r1) = removeLocked (Some g) r
      in if removed
         then (True, signalLocked (if groupID \<noteq> [] then refreshGroupLocked groupID r1 else r1))
         else (False, r1))"

definition Release :: "nat option \<Rightarrow> Registry \<Rightarrow> bool \<times> Registry" where
  "Release gp r =
     (case gp of None \<Rightarrow> (False, r)
      | Some g \<Rightarrow>
        case (if in_all g r then map_of (rg_arbitrations r) (gn_peerID (gen r g)) else None) of
          None \<Rightarrow> releaseToken g r
        | Some a \<Rightarrow>
            if ar_loser (arb r a) \<noteq> g then releaseToken g r
            else if ar_loserReleased (arb r a) then (False, r)
            else
              let r1 = (if gn_phase (gen r g) \<noteq> PhaseRetiring then toRetiring g r else r);
                  r2 = r1\<lparr>rg_arbs := (rg_arbs r1)[a := (arb r1 a)\<lparr>ar_loserReleased := True\<rparr>]\<rparr>
              in (True, signalLocked r2))"

definition IsCurrent :: "nat option \<Rightarrow> Registry \<Rightarrow> bool" where
  "IsCurrent gp r \<longleftrightarrow>
     (case gp of None \<Rightarrow> False | Some g \<Rightarrow> gn_phase (gen r g) = PhaseCurrent \<and> slot_current g r)"

definition HasPeerCurrent :: "string \<Rightarrow> Registry \<Rightarrow> bool" where
  "HasPeerCurrent peerID r \<longleftrightarrow> (case map_of (rg_peers r) peerID of None \<Rightarrow> False | Some e \<Rightarrow> en_current e \<noteq> None)"

definition registry_Snapshot :: "Registry \<Rightarrow> RegistrySnapshot" where
  "registry_Snapshot r =
     \<lparr>rs_Closed = rg_closed r, rs_Pending = countPhaseLocked RoleUnknown PhasePending r, rs_PendingHighWater = rg_pendingHigh r,
      rs_ClientPrepared = countPhaseLocked RoleClient PhasePrepared r, rs_ClientCurrent = countPhaseLocked RoleClient PhaseCurrent r,
      rs_ClientRetiring = countPhaseLocked RoleClient PhaseRetiring r, rs_ClientTotal = countRoleLocked RoleClient r,
      rs_ClientHighWater = rg_clientHigh r, rs_ClientBindings = int (length (rg_clients r)),
      rs_PeerPrepared = countPhaseLocked RolePeer PhasePrepared r, rs_PeerCurrent = countPhaseLocked RolePeer PhaseCurrent r,
      rs_PeerRetiring = countPhaseLocked RolePeer PhaseRetiring r, rs_PeerTotal = countRoleLocked RolePeer r,
      rs_PeerHighWater = rg_peerHigh r, rs_Arbitrations = int (length (rg_arbitrations r))\<rparr>"

text \<open>\<open>Stop\<close> in its two critical sections: the gate, which yields the generations to stop and join, and the
  removal after they were joined. In between other operations run. A second \<open>Stop\<close> only waits.\<close>

definition stopGate :: "Registry \<Rightarrow> nat list option \<times> Registry" where
  "stopGate r =
     (if rg_closed r then (None, r)
      else
        let r1 = closeGroupChanged (r\<lparr>rg_closed := True, rg_groupAvailable := []\<rparr>);
            r2 = signalLocked (r1\<lparr>rg_groupClosed := True, rg_arbitrations := []\<rparr>)
        in (Some (map snd (rg_all r2)), r2))"

definition stopFinish :: "nat list \<Rightarrow> Registry \<Rightarrow> Registry" where
  "stopFinish generations r = foldl (\<lambda>r g. snd (removeLocked (Some g) r)) r generations"

text \<open>The part of \<open>Server.commitClientGroup\<close> under the registry lock: the client becomes current with the
  declaration it staged; \<open>publish\<close> is whether that declaration becomes the rule of the group.\<close>

definition commitClientRule :: "nat \<Rightarrow> string \<Rightarrow> u64 \<Rightarrow> string \<Rightarrow> bool \<Rightarrow> Registry \<Rightarrow> (bool \<times> bool) \<times> Registry" where
  "commitClientRule g groupID version policy publish r =
     (if \<not> isExactLocked (Some g) RoleClient PhasePrepared r then ((False, rg_closed r), r)
      else case commitLocked g r of
        (False, r1) \<Rightarrow> ((False, rg_closed r1), r1)
      | (True, r1) \<Rightarrow>
        let r2 = upd_gen g (\<lambda>x. x\<lparr>gn_ruleVersion := version,
                   gn_forwarding := \<lparr>fe_SessionReady = True, fe_DeclarationReady = True, fe_L4Healthy = False\<rparr>\<rparr>) r1;
            r3 = (if publish
                  then r2\<lparr>rg_groupRules := AList.update groupID \<lparr>ru_version = version, ru_policy = policy\<rparr> (rg_groupRules r2)\<rparr>
                  else r2);
            r4 = refreshGroupLocked groupID r3
        in ((True, rg_closed r4), r4))"

end
