(* ===== verification/Mesh_Slots.thy ===== *)
theory Mesh_Slots
  imports Mesh_Registry
begin

text \<open>
  The slots of the mesh registry: the entry of an identity names exactly the generations of that
  identity, by phase. Clients and peers share these lemmas; \<open>R\<close> is the role and \<open>ident\<close> the field of a
  generation that names its identity. Each lemma is about one generation changing together with the
  entry of its identity.
\<close>

definition active :: "Generation \<Rightarrow> bool" where
  "active x \<longleftrightarrow> gn_phase x = PhasePrepared \<or> gn_phase x = PhaseCurrent \<or> gn_phase x = PhaseRetiring"

definition owns :: "Role \<Rightarrow> (Generation \<Rightarrow> string) \<Rightarrow> Generation list \<Rightarrow> string \<Rightarrow> Phase \<Rightarrow> nat \<Rightarrow> bool" where
  "owns R ident gs k ph g \<longleftrightarrow> g < length gs \<and> gn_role (gs ! g) = R \<and> gn_phase (gs ! g) = ph \<and> ident (gs ! g) = k"

definition entry_ok :: "Role \<Rightarrow> (Generation \<Rightarrow> string) \<Rightarrow> Generation list \<Rightarrow> string \<Rightarrow> 'a peerEntry_scheme \<Rightarrow> bool" where
  "entry_ok R ident gs k e \<longleftrightarrow>
     (\<forall>g. en_prepared e = Some g \<longleftrightarrow> owns R ident gs k PhasePrepared g) \<and>
     (\<forall>g. en_current e = Some g \<longleftrightarrow> owns R ident gs k PhaseCurrent g) \<and>
     distinct (keys (en_retiring e)) \<and>
     (\<forall>i g. (i, g) \<in> set (en_retiring e) \<longleftrightarrow> owns R ident gs k PhaseRetiring g \<and> i = Suc g)"

definition slots_ok :: "Role \<Rightarrow> (Generation \<Rightarrow> string) \<Rightarrow> Generation list \<Rightarrow> (string \<times> 'a peerEntry_scheme) list \<Rightarrow> bool" where
  "slots_ok R ident gs m \<longleftrightarrow> distinct (keys m) \<and>
     (\<forall>k e. (k, e) \<in> set m \<longrightarrow> entry_ok R ident gs k e \<and> \<not> entry_empty e) \<and>
     (\<forall>g < length gs. gn_role (gs ! g) = R \<and> active (gs ! g) \<longrightarrow> ident (gs ! g) \<in> set (keys m))"

lemma owns_update:
  "owns R ident (gs[g := x]) k ph h \<longleftrightarrow>
     (if h = g then g < length gs \<and> gn_role x = R \<and> gn_phase x = ph \<and> ident x = k else owns R ident gs k ph h)"
  by (auto simp: owns_def)

lemma entry_okD:
  assumes "entry_ok R ident gs k e"
  shows "\<And>g. en_prepared e = Some g \<longleftrightarrow> owns R ident gs k PhasePrepared g"
    and "\<And>g. en_current e = Some g \<longleftrightarrow> owns R ident gs k PhaseCurrent g"
    and "distinct (keys (en_retiring e))"
    and "\<And>i g. (i, g) \<in> set (en_retiring e) \<longleftrightarrow> owns R ident gs k PhaseRetiring g \<and> i = Suc g"
  using assms unfolding entry_ok_def by blast+

lemma entry_okI:
  assumes "\<And>g. en_prepared e = Some g \<longleftrightarrow> owns R ident gs k PhasePrepared g"
    and "\<And>g. en_current e = Some g \<longleftrightarrow> owns R ident gs k PhaseCurrent g"
    and "distinct (keys (en_retiring e))"
    and "\<And>i g. (i, g) \<in> set (en_retiring e) \<longleftrightarrow> owns R ident gs k PhaseRetiring g \<and> i = Suc g"
  shows "entry_ok R ident gs k e"
  using assms unfolding entry_ok_def by blast

lemma slots_okD:
  assumes "slots_ok R ident gs m"
  shows "distinct (keys m)" and "\<And>k e. (k, e) \<in> set m \<Longrightarrow> entry_ok R ident gs k e"
    and "\<And>k e. (k, e) \<in> set m \<Longrightarrow> \<not> entry_empty e"
    and "\<And>g. g < length gs \<Longrightarrow> gn_role (gs ! g) = R \<Longrightarrow> active (gs ! g) \<Longrightarrow> ident (gs ! g) \<in> set (keys m)"
  using assms unfolding slots_ok_def by blast+

lemma slots_okI:
  assumes "distinct (keys m)" and "\<And>k e. (k, e) \<in> set m \<Longrightarrow> entry_ok R ident gs k e"
    and "\<And>k e. (k, e) \<in> set m \<Longrightarrow> \<not> entry_empty e"
    and "\<And>g. g < length gs \<Longrightarrow> gn_role (gs ! g) = R \<Longrightarrow> active (gs ! g) \<Longrightarrow> ident (gs ! g) \<in> set (keys m)"
  shows "slots_ok R ident gs m"
  using assms unfolding slots_ok_def by blast

text \<open>Looking up an identity.\<close>

lemma slots_lookup:
  assumes "slots_ok R ident gs m"
  shows "map_of m k = Some e \<Longrightarrow> entry_ok R ident gs k e"
    and "map_of m k = None \<Longrightarrow> entry_empty e0 \<Longrightarrow> entry_ok R ident gs k e0"
proof -
  show "map_of m k = Some e \<Longrightarrow> entry_ok R ident gs k e"
    using slots_okD(2) [OF assms] map_of_SomeD by fast
  assume "map_of m k = None" and empty: "entry_empty e0"
  then have "\<not> owns R ident gs k ph g" if "ph \<in> {PhasePrepared, PhaseCurrent, PhaseRetiring}" for ph g
    using slots_okD(4) [OF assms, of g] that by (auto simp: owns_def active_def map_of_eq_None_iff)
  then show "entry_ok R ident gs k e0"
    using empty by (intro entry_okI) (simp_all add: entry_empty_def)
qed

lemma slots_find:
  assumes "slots_ok R ident gs m" and "g < length gs" and "gn_role (gs ! g) = R" and "active (gs ! g)"
  obtains e where "map_of m (ident (gs ! g)) = Some e" and "entry_ok R ident gs (ident (gs ! g)) e"
proof -
  from slots_okD(4) [OF assms] obtain e where e: "map_of m (ident (gs ! g)) = Some e"
    using map_of_eq_None_iff [of m "ident (gs ! g)"] by fastforce
  from that [OF e slots_lookup(1) [OF assms(1) e]] show ?thesis .
qed

text \<open>The entries of the other identities do not notice a change of one generation.\<close>

lemma entry_other:
  assumes "entry_ok R ident gs j e" and "j \<noteq> k" and "gn_role (gs ! g) = R \<Longrightarrow> active (gs ! g) \<Longrightarrow> ident (gs ! g) = k"
    and "gn_role x = R \<Longrightarrow> active x \<Longrightarrow> ident x = k"
  shows "entry_ok R ident (gs[g := x]) j e"
proof -
  have same: "owns R ident (gs[g := x]) j ph h \<longleftrightarrow> owns R ident gs j ph h"
    if "ph \<in> {PhasePrepared, PhaseCurrent, PhaseRetiring}" for ph h
    using assms(2-4) that unfolding owns_update by (auto simp: owns_def active_def)
  show ?thesis
    using entry_okD [OF assms(1)] by (intro entry_okI) (simp_all add: same)
qed

lemma entry_frame:
  assumes "entry_ok R ident gs j e" and "gn_role (gs ! g) = R \<Longrightarrow> \<not> active (gs ! g)" and "gn_role x = R \<Longrightarrow> \<not> active x"
  shows "entry_ok R ident (gs[g := x]) j e"
proof -
  have same: "owns R ident (gs[g := x]) j ph h \<longleftrightarrow> owns R ident gs j ph h"
    if "ph \<in> {PhasePrepared, PhaseCurrent, PhaseRetiring}" for ph h
    using assms(2,3) that unfolding owns_update by (auto simp: owns_def active_def)
  show ?thesis
    using entry_okD [OF assms(1)] by (intro entry_okI) (simp_all add: same)
qed

lemma slots_frame:
  assumes "slots_ok R ident gs m" and "gn_role (gs ! g) = R \<Longrightarrow> \<not> active (gs ! g)" and "gn_role x = R \<Longrightarrow> \<not> active x"
  shows "slots_ok R ident (gs[g := x]) m"
proof (rule slots_okI)
  show "ident (gs[g := x] ! h) \<in> set (keys m)"
    if "h < length (gs[g := x])" "gn_role (gs[g := x] ! h) = R" "active (gs[g := x] ! h)" for h
    using slots_okD(4) [OF assms(1), of h] that assms(3) by (cases "h = g") auto
  show "entry_ok R ident (gs[g := x]) k e" if "(k, e) \<in> set m" for k e
    by (rule entry_frame [OF slots_okD(2) [OF assms(1) that] assms(2,3)])
  show "distinct (keys m)"
    by (rule slots_okD(1) [OF assms(1)])
  show "\<not> entry_empty e" if "(k, e) \<in> set m" for k e
    by (rule slots_okD(3) [OF assms(1) that])
qed

lemma slots_same:
  assumes "slots_ok R ident gs m" and "gn_role x = gn_role (gs ! g)" and "gn_phase x = gn_phase (gs ! g)"
    and "ident x = ident (gs ! g)"
  shows "slots_ok R ident (gs[g := x]) m"
proof (rule slots_okI)
  have "owns R ident (gs[g := x]) k ph h \<longleftrightarrow> owns R ident gs k ph h" for k ph h
    using assms(2-4) by (cases "h = g") (simp_all add: owns_def cong: conj_cong)
  then have eq: "entry_ok R ident (gs[g := x]) j e \<longleftrightarrow> entry_ok R ident gs j e" for j and e :: "'a peerEntry_scheme"
    by (simp add: entry_ok_def)
  show "entry_ok R ident (gs[g := x]) k e" if "(k, e) \<in> set m" for k e
    unfolding eq by (rule slots_okD(2) [OF assms(1) that])
  show "ident (gs[g := x] ! h) \<in> set (keys m)"
    if "h < length (gs[g := x])" "gn_role (gs[g := x] ! h) = R" "active (gs[g := x] ! h)" for h
    using slots_okD(4) [OF assms(1), of h] that assms(2-4) by (cases "h = g") (auto simp: active_def)
  show "distinct (keys m)"
    by (rule slots_okD(1) [OF assms(1)])
  show "\<not> entry_empty e" if "(k, e) \<in> set m" for k e
    by (rule slots_okD(3) [OF assms(1) that])
qed

lemma slots_append:
  assumes "slots_ok R ident gs m" and "\<not> active x"
  shows "slots_ok R ident (gs @ [x]) m"
proof (rule slots_okI)
  have "owns R ident (gs @ [x]) k ph g \<longleftrightarrow> owns R ident gs k ph g" if "ph \<in> {PhasePrepared, PhaseCurrent, PhaseRetiring}" for k ph g
    using assms(2) that by (auto simp: owns_def nth_append active_def less_Suc_eq)
  then have eq: "entry_ok R ident (gs @ [x]) j e \<longleftrightarrow> entry_ok R ident gs j e" for j and e :: "'a peerEntry_scheme"
    by (simp add: entry_ok_def)
  show "entry_ok R ident (gs @ [x]) k e" if "(k, e) \<in> set m" for k e
    unfolding eq by (rule slots_okD(2) [OF assms(1) that])
  show "ident ((gs @ [x]) ! h) \<in> set (keys m)"
    if "h < length (gs @ [x])" "gn_role ((gs @ [x]) ! h) = R" "active ((gs @ [x]) ! h)" for h
  proof (cases "h = length gs")
    case False
    then show ?thesis
      using slots_okD(4) [OF assms(1), of h] that by (simp add: nth_append less_Suc_eq)
  qed (use that assms(2) in simp)
  show "distinct (keys m)"
    by (rule slots_okD(1) [OF assms(1)])
  show "\<not> entry_empty e" if "(k, e) \<in> set m" for k e
    by (rule slots_okD(3) [OF assms(1) that])
qed

text \<open>A generation changes, and with it the entry of its identity \<open>k\<close>.\<close>

lemma slots_change:
  assumes ok: "slots_ok R ident gs m" and old: "gn_role (gs ! g) = R \<Longrightarrow> active (gs ! g) \<Longrightarrow> ident (gs ! g) = k"
    and new: "gn_role x = R \<Longrightarrow> active x \<Longrightarrow> ident x = k"
    and e: "entry_ok R ident (gs[g := x]) k e" "\<not> entry_empty e"
  shows "slots_ok R ident (gs[g := x]) (AList.update k e m)"
proof (rule slots_okI)
  note dist = slots_okD(1) [OF ok]
  show "distinct (keys (AList.update k e m))"
    by (rule distinct_keys_update [OF dist])
  show "entry_ok R ident (gs[g := x]) j f" "\<not> entry_empty f" if "(j, f) \<in> set (AList.update k e m)" for j f
    using that e entry_other [OF slots_okD(2) [OF ok], of j f k g x] slots_okD(3) [OF ok, of j f] old new
    unfolding mem_update [OF dist] by (auto split: if_splits)
  show "ident (gs[g := x] ! h) \<in> set (keys (AList.update k e m))"
    if "h < length (gs[g := x])" "gn_role (gs[g := x] ! h) = R" "active (gs[g := x] ! h)" for h
    using slots_okD(4) [OF ok, of h] that new by (cases "h = g") (auto simp: dom_update dom_map_of_conv_image_fst [symmetric] update_conv')
qed

lemma slots_drop:
  assumes ok: "slots_ok R ident gs m" and old: "gn_role (gs ! g) = R \<Longrightarrow> active (gs ! g) \<Longrightarrow> ident (gs ! g) = k"
    and new: "gn_role x = R \<Longrightarrow> active x \<Longrightarrow> ident x = k"
    and e: "entry_ok R ident (gs[g := x]) k e" "entry_empty e"
  shows "slots_ok R ident (gs[g := x]) (AList.delete k m)"
proof (rule slots_okI)
  show "distinct (keys (AList.delete k m))"
    by (rule distinct_keys_delete [OF slots_okD(1) [OF ok]])
  show "entry_ok R ident (gs[g := x]) j f" "\<not> entry_empty f" if "(j, f) \<in> set (AList.delete k m)" for j f
    using that entry_other [OF slots_okD(2) [OF ok], of j f k g x] slots_okD(3) [OF ok, of j f] old new
    unfolding mem_delete by auto
  have none: "\<not> owns R ident (gs[g := x]) k ph h" if "ph \<in> {PhasePrepared, PhaseCurrent, PhaseRetiring}" for ph h
    using that entry_okD [OF e(1)] e(2) by (auto simp: entry_empty_def)
  show "ident (gs[g := x] ! h) \<in> set (keys (AList.delete k m))"
    if h: "h < length (gs[g := x])" "gn_role (gs[g := x] ! h) = R" "active (gs[g := x] ! h)" for h
  proof -
    have "ident (gs[g := x] ! h) \<noteq> k"
      using none h by (auto simp: owns_def active_def)
    moreover from this have "ident (gs[g := x] ! h) \<in> set (keys m)"
      using slots_okD(4) [OF ok, of h] h new by (cases "h = g") auto
    ultimately show ?thesis
      using keys_delete [of k m] by blast
  qed
qed

lemma owns_unique:
  assumes "entry_ok R ident gs k e"
  shows "owns R ident gs k PhasePrepared g \<Longrightarrow> owns R ident gs k PhasePrepared h \<Longrightarrow> g = h"
    and "owns R ident gs k PhaseCurrent g \<Longrightarrow> owns R ident gs k PhaseCurrent h \<Longrightarrow> g = h"
  using entry_okD(1,2) [OF assms] by (metis option.inject)+

text \<open>The four ways an entry changes.\<close>

lemma entry_prepare:
  assumes ok: "entry_ok R ident gs k e" and "g < length gs" and inactive: "gn_role (gs ! g) = R \<Longrightarrow> \<not> active (gs ! g)"
    and x: "gn_role x = R" "gn_phase x = PhasePrepared" "ident x = k" and free: "en_prepared e = None"
  shows "entry_ok R ident (gs[g := x]) k (e\<lparr>en_prepared := Some g\<rparr>)"
proof -
  have "\<not> owns R ident gs k ph g" if "ph \<in> {PhasePrepared, PhaseCurrent, PhaseRetiring}" for ph
    using inactive that by (auto simp: owns_def active_def)
  moreover have "\<not> owns R ident gs k PhasePrepared h" for h
    using entry_okD(1) [OF ok] free by simp
  ultimately show ?thesis
    using entry_okD(2-4) [OF ok] assms(2) x by (intro entry_okI) (auto simp: owns_update)
qed

lemma entry_commit:
  assumes ok: "entry_ok R ident gs k e" and "g < length gs"
    and x: "gn_role x = R" "gn_phase x = PhaseCurrent" "ident x = k" and "en_prepared e = Some g" and free: "en_current e = None"
  shows "entry_ok R ident (gs[g := x]) k (e\<lparr>en_prepared := None, en_current := Some g\<rparr>)"
proof (rule entry_okI)
  have none: "\<not> owns R ident gs k PhaseCurrent h" for h
    using entry_okD(2) [OF ok] free by simp
  have prep: "owns R ident gs k PhasePrepared h \<longleftrightarrow> h = g" for h
    using entry_okD(1) [OF ok, of h] assms(6) by auto
  have "\<not> owns R ident gs k PhaseRetiring g"
    using prep [of g] by (auto simp: owns_def)
  then show "(i, h) \<in> set (en_retiring (e\<lparr>en_prepared := None, en_current := Some g\<rparr>)) \<longleftrightarrow>
      owns R ident (gs[g := x]) k PhaseRetiring h \<and> i = Suc h" for i h
    using x by (auto simp: entry_okD(4) [OF ok] owns_update)
  show "distinct (keys (en_retiring (e\<lparr>en_prepared := None, en_current := Some g\<rparr>)))"
    by (simp add: entry_okD(3) [OF ok])
  show "en_prepared (e\<lparr>en_prepared := None, en_current := Some g\<rparr>) = Some h \<longleftrightarrow> owns R ident (gs[g := x]) k PhasePrepared h" for h
    using x by (simp add: owns_update prep)
  show "en_current (e\<lparr>en_prepared := None, en_current := Some g\<rparr>) = Some h \<longleftrightarrow> owns R ident (gs[g := x]) k PhaseCurrent h" for h
    using x assms(2) by (auto simp: owns_update none)
qed

lemma unlink_slots_simps:
  "en_prepared (unlink_slots g e) = (if en_prepared e = Some g then None else en_prepared e)"
  "en_current (unlink_slots g e) = (if en_current e = Some g then None else en_current e)"
  "en_retiring (unlink_slots g e) = en_retiring e"
  by (simp_all add: unlink_slots_def Let_def)

lemma unlink_iff:
  assumes "entry_ok R ident gs k e"
  shows "en_prepared (unlink_slots g e) = Some h \<longleftrightarrow> owns R ident gs k PhasePrepared h \<and> h \<noteq> g"
    and "en_current (unlink_slots g e) = Some h \<longleftrightarrow> owns R ident gs k PhaseCurrent h \<and> h \<noteq> g"
proof -
  show "en_prepared (unlink_slots g e) = Some h \<longleftrightarrow> owns R ident gs k PhasePrepared h \<and> h \<noteq> g"
    unfolding unlink_slots_simps entry_okD(1) [OF assms, of h, symmetric] by auto
  show "en_current (unlink_slots g e) = Some h \<longleftrightarrow> owns R ident gs k PhaseCurrent h \<and> h \<noteq> g"
    unfolding unlink_slots_simps entry_okD(2) [OF assms, of h, symmetric] by auto
qed

lemma entry_retire:
  assumes ok: "entry_ok R ident gs k e" and "g < length gs" and live: "gn_phase (gs ! g) \<noteq> PhaseRetiring"
    and x: "gn_role x = R" "gn_phase x = PhaseRetiring" "ident x = k"
  shows "entry_ok R ident (gs[g := x]) k (retire_slots (Suc g) g (unlink_slots g e))"
proof (rule entry_okI)
  have not: "\<not> owns R ident gs k PhaseRetiring g"
    using live by (simp add: owns_def)
  show "(i, h) \<in> set (en_retiring (retire_slots (Suc g) g (unlink_slots g e))) \<longleftrightarrow>
      owns R ident (gs[g := x]) k PhaseRetiring h \<and> i = Suc h" for i h
    using not assms(2) x
    by (auto simp: retire_slots_def unlink_slots_simps mem_update [OF entry_okD(3) [OF ok]] entry_okD(4) [OF ok] owns_update)
  show "distinct (keys (en_retiring (retire_slots (Suc g) g (unlink_slots g e))))"
    by (simp add: retire_slots_def unlink_slots_simps distinct_keys_update entry_okD(3) [OF ok])
  show "en_prepared (retire_slots (Suc g) g (unlink_slots g e)) = Some h \<longleftrightarrow> owns R ident (gs[g := x]) k PhasePrepared h" for h
    using x by (auto simp: retire_slots_def unlink_iff [OF ok] owns_update)
  show "en_current (retire_slots (Suc g) g (unlink_slots g e)) = Some h \<longleftrightarrow> owns R ident (gs[g := x]) k PhaseCurrent h" for h
    using x by (auto simp: retire_slots_def unlink_iff [OF ok] owns_update)
qed

lemma entry_remove:
  assumes ok: "entry_ok R ident gs k e" and x: "\<not> active x"
  shows "entry_ok R ident (gs[g := x]) k ((unlink_slots g e)\<lparr>en_retiring := AList.delete (Suc g) (en_retiring e)\<rparr>)"
    (is "entry_ok _ _ _ _ ?e")
proof (rule entry_okI)
  show "(i, h) \<in> set (en_retiring ?e) \<longleftrightarrow> owns R ident (gs[g := x]) k PhaseRetiring h \<and> i = Suc h" for i h
    using x by (auto simp: mem_delete entry_okD(4) [OF ok] owns_update active_def)
  show "distinct (keys (en_retiring ?e))"
    by (simp add: distinct_keys_delete entry_okD(3) [OF ok])
  show "en_prepared ?e = Some h \<longleftrightarrow> owns R ident (gs[g := x]) k PhasePrepared h" for h
    using x by (auto simp: unlink_iff [OF ok] owns_update active_def)
  show "en_current ?e = Some h \<longleftrightarrow> owns R ident (gs[g := x]) k PhaseCurrent h" for h
    using x by (auto simp: unlink_iff [OF ok] owns_update active_def)
qed

section \<open>The maps of entries\<close>

lemma update_update [simp]: "AList.update k v (AList.update k w m) = AList.update k v m"
  by (induction m) auto

lemma delete_update_same [simp]: "AList.delete k (AList.update k v m) = AList.delete k m"
  by (induction m) (auto simp: AList.delete_eq)

lemma slots_prepare:
  assumes ok: "slots_ok R ident gs m" and g: "g < length gs" "gn_role (gs ! g) = R \<Longrightarrow> \<not> active (gs ! g)"
    and x: "gn_role x = R" "gn_phase x = PhasePrepared" "ident x = k"
    and e: "e = (case map_of m k of None \<Rightarrow> e0 | Some e \<Rightarrow> e)" "entry_empty e0" "en_prepared e = None"
  shows "slots_ok R ident (gs[g := x]) (AList.update k (e\<lparr>en_prepared := Some g\<rparr>) m)"
proof (rule slots_change [OF ok])
  have old: "entry_ok R ident gs k e"
    using slots_lookup [OF ok, of k] e by (cases "map_of m k") auto
  show "entry_ok R ident (gs[g := x]) k (e\<lparr>en_prepared := Some g\<rparr>)"
    by (rule entry_prepare [OF old g x e(3)])
  show "\<not> entry_empty (e\<lparr>en_prepared := Some g\<rparr>)"
    by (simp add: entry_empty_def)
qed (use g x in simp_all)

lemma slots_commit:
  assumes ok: "slots_ok R ident gs m" and g: "g < length gs" "gn_role (gs ! g) = R" "ident (gs ! g) = k"
    and x: "gn_role x = R" "gn_phase x = PhaseCurrent" "ident x = k" and m': "commit_slots g k m = Some m'"
  shows "slots_ok R ident (gs[g := x]) m'"
proof -
  from m' obtain e where e: "map_of m k = Some e" "en_prepared e = Some g" "en_current e = None"
      "m' = AList.update k (e\<lparr>en_prepared := None, en_current := Some g\<rparr>) m"
    by (auto simp: commit_slots_def split: option.splits if_splits)
  show ?thesis
    unfolding e(4)
  proof (rule slots_change [OF ok])
    show "entry_ok R ident (gs[g := x]) k (e\<lparr>en_prepared := None, en_current := Some g\<rparr>)"
      by (rule entry_commit [OF slots_lookup(1) [OF ok e(1)] g(1) x e(2,3)])
  qed (use g x in \<open>simp_all add: entry_empty_def\<close>)
qed

lemma slots_retire:
  assumes ok: "slots_ok R ident gs m" and g: "g < length gs" "ident (gs ! g) = k" "gn_phase (gs ! g) \<noteq> PhaseRetiring"
    and x: "gn_role x = R" "gn_phase x = PhaseRetiring" "ident x = k" and e: "map_of m k = Some e"
  shows "slots_ok R ident (gs[g := x]) (AList.update k (retire_slots (Suc g) g (unlink_slots g e)) m)"
proof (rule slots_change [OF ok])
  show "entry_ok R ident (gs[g := x]) k (retire_slots (Suc g) g (unlink_slots g e))"
    by (rule entry_retire [OF slots_lookup(1) [OF ok e] g(1,3) x])
  show "\<not> entry_empty (retire_slots (Suc g) g (unlink_slots g e))"
    by (simp add: entry_empty_def retire_slots_def)
qed (use g x in simp_all)

lemma slots_remove:
  assumes ok: "slots_ok R ident gs m" and g: "ident (gs ! g) = k" and x: "\<not> active x" and e: "map_of m k = Some e"
  shows "slots_ok R ident (gs[g := x]) (drop_slots (Suc g) k (AList.update k (unlink_slots g e) m))"
proof -
  let ?e = "(unlink_slots g e)\<lparr>en_retiring := AList.delete (Suc g) (en_retiring e)\<rparr>"
  have entry: "entry_ok R ident (gs[g := x]) k ?e"
    by (rule entry_remove [OF slots_lookup(1) [OF ok e] x])
  have eq: "drop_slots (Suc g) k (AList.update k (unlink_slots g e) m) = (if entry_empty ?e then AList.delete k m else AList.update k ?e m)"
    by (simp add: drop_slots_def Let_def unlink_slots_simps update_conv')
  show ?thesis
    unfolding eq using slots_drop [OF ok _ _ entry] slots_change [OF ok _ _ entry] g x by (cases "entry_empty ?e") simp_all
qed

end
