(* ===== verification/Mesh_Registry_Inv.thy ===== *)
theory Mesh_Registry_Inv
  imports Mesh_Slots
begin

text \<open>
  The invariant of the mesh registry and that every operation keeps it. \<open>struct\<close> is about the generations,
  their slots and the arbitrations, \<open>reg_caps\<close> about the limits; \<open>avail_ok\<close> says that the availability of a group is exactly
  whether it has a client that may carry traffic; \<open>gate_ok\<close> is about \<open>Stop\<close>.
\<close>

section \<open>The invariant\<close>

definition no_forwarding :: ForwardingEligibility where
  "no_forwarding = \<lparr>fe_SessionReady = False, fe_DeclarationReady = False, fe_L4Healthy = False\<rparr>"

definition reg_ids :: "nat \<Rightarrow> Generation list \<Rightarrow> (nat \<times> nat) list \<Rightarrow> bool" where
  "reg_ids n gs all \<longleftrightarrow> n = length gs \<and> (\<forall>g < length gs. gn_id (gs ! g) = Suc g) \<and> distinct (keys all) \<and>
     (\<forall>i g. (i, g) \<in> set all \<longleftrightarrow> g < length gs \<and> i = Suc g \<and> gn_phase (gs ! g) \<noteq> PhaseDone)"

definition gen_ok :: "Generation \<Rightarrow> bool" where
  "gen_ok x \<longleftrightarrow> (gn_phase x = PhasePending \<longrightarrow> gn_role x = RoleUnknown) \<and> (gn_role x = RoleUnknown \<longrightarrow> \<not> active x) \<and>
     (gn_phase x = PhasePending \<or> gn_phase x = PhasePrepared \<longrightarrow> gn_forwarding x = no_forwarding)"

definition group_ok :: "(string \<times> clientEntry) list \<Rightarrow> Generation \<Rightarrow> bool" where
  "group_ok clients x \<longleftrightarrow> (gn_role x = RoleClient \<and> active x \<longrightarrow> gn_groupID x \<noteq> [] \<and>
     (\<forall>e. map_of clients (gn_instanceID x) = Some e \<longrightarrow> ce_groupID e = gn_groupID x))"

definition arb_ok :: "Generation list \<Rightarrow> string \<Rightarrow> Arbitration \<Rightarrow> bool" where
  "arb_ok gs k a \<longleftrightarrow> ar_peerID a = k \<and> ar_inbound a < length gs \<and> gn_role (gs ! ar_inbound a) = RoleUnknown \<and>
     ar_loser a < length gs \<and> gn_role (gs ! ar_loser a) = RolePeer \<and> gn_peerID (gs ! ar_loser a) = k \<and>
     active (gs ! ar_loser a) \<and> (ar_loserReleased a \<longrightarrow> gn_phase (gs ! ar_loser a) = PhaseRetiring)"

definition arbs_ok :: "Generation list \<Rightarrow> Arbitration list \<Rightarrow> (string \<times> nat) list \<Rightarrow> bool" where
  "arbs_ok gs arbs m \<longleftrightarrow> distinct (keys m) \<and> (\<forall>k a. (k, a) \<in> set m \<longrightarrow> a < length arbs \<and> arb_ok gs k (arbs ! a)) \<and>
     (\<forall>k a j b. (k, a) \<in> set m \<and> (j, b) \<in> set m \<and> ar_inbound (arbs ! a) = ar_inbound (arbs ! b) \<longrightarrow> k = j)"

definition num :: "('a \<Rightarrow> bool) \<Rightarrow> 'a list \<Rightarrow> int" where
  "num P xs = int (length (filter P xs))"

abbreviation is_pending :: "Generation \<Rightarrow> bool" where
  "is_pending x \<equiv> gn_phase x = PhasePending"

abbreviation is_role :: "Role \<Rightarrow> Generation \<Rightarrow> bool" where
  "is_role R x \<equiv> gn_role x = R \<and> active x"

definition reg_caps :: "Registry \<Rightarrow> bool" where
  "reg_caps r \<longleftrightarrow> num is_pending (rg_gens r) \<le> rg_pendingHigh r \<and> rg_pendingHigh r \<le> rg_maxPending r \<and>
     num (is_role RoleClient) (rg_gens r) \<le> rg_clientHigh r \<and> rg_clientHigh r \<le> rg_maxClients r \<and>
     num (is_role RolePeer) (rg_gens r) \<le> rg_peerHigh r \<and> rg_peerHigh r \<le> rg_maxPeers r"

definition struct :: "Registry \<Rightarrow> bool" where
  "struct r \<longleftrightarrow> reg_ids (rg_nextID r) (rg_gens r) (rg_all r) \<and> (\<forall>x \<in> set (rg_gens r). gen_ok x \<and> group_ok (rg_clients r) x) \<and>
     slots_ok RoleClient gn_instanceID (rg_gens r) (rg_clients r) \<and> slots_ok RolePeer gn_peerID (rg_gens r) (rg_peers r) \<and>
     arbs_ok (rg_gens r) (rg_arbs r) (rg_arbitrations r)"

text \<open>A client that may carry the traffic of its group.\<close>

definition fwd_ready :: "(string \<times> groupRule) list \<Rightarrow> string \<Rightarrow> Generation \<Rightarrow> bool" where
  "fwd_ready rules grp x \<longleftrightarrow> gn_role x = RoleClient \<and> gn_phase x = PhaseCurrent \<and> gn_groupID x = grp \<and>
     fe_SessionReady (gn_forwarding x) \<and> fe_DeclarationReady (gn_forwarding x) \<and> fe_L4Healthy (gn_forwarding x) \<and>
     (\<exists>rule. map_of rules grp = Some rule \<and> gn_ruleVersion x \<noteq> 0 \<and>
        (gn_ruleVersion x \<ge> ru_version rule \<or> ru_policy rule = MeshOutdatedClientPolicyApplyLatestRules))"

definition avail_ok :: "Registry \<Rightarrow> bool" where
  "avail_ok r \<longleftrightarrow> (\<forall>grp. GroupAvailability grp r \<longleftrightarrow> \<not> rg_closed r \<and> (\<exists>x \<in> set (rg_gens r). fwd_ready (rg_groupRules r) grp x))"

definition gate_ok :: "Registry \<Rightarrow> bool" where
  "gate_ok r \<longleftrightarrow> \<not> rg_panicked r \<and> (rg_groupClosed r \<longleftrightarrow> rg_closed r) \<and> (rg_closed r \<longrightarrow> rg_arbitrations r = [])"

definition reg_inv :: "Registry \<Rightarrow> bool" where
  "reg_inv r \<longleftrightarrow> struct r \<and> reg_caps r \<and> avail_ok r \<and> gate_ok r"

section \<open>What the invariant says of the helpers\<close>

lemma structD:
  assumes "struct r"
  shows "reg_ids (rg_nextID r) (rg_gens r) (rg_all r)" and "\<And>x. x \<in> set (rg_gens r) \<Longrightarrow> gen_ok x"
    and "\<And>x. x \<in> set (rg_gens r) \<Longrightarrow> group_ok (rg_clients r) x"
    and "slots_ok RoleClient gn_instanceID (rg_gens r) (rg_clients r)" and "slots_ok RolePeer gn_peerID (rg_gens r) (rg_peers r)"
    and "arbs_ok (rg_gens r) (rg_arbs r) (rg_arbitrations r)"
  using assms by (simp_all add: struct_def)

lemma registry_ids_okD:
  assumes "reg_ids n gs all"
  shows "n = length gs" and "\<And>g. g < length gs \<Longrightarrow> gn_id (gs ! g) = Suc g" and "distinct (keys all)"
    and "\<And>i g. (i, g) \<in> set all \<longleftrightarrow> g < length gs \<and> i = Suc g \<and> gn_phase (gs ! g) \<noteq> PhaseDone"
  using assms unfolding reg_ids_def by blast+

lemma in_all_iff:
  assumes "struct r"
  shows "in_all g r \<longleftrightarrow> g < length (rg_gens r) \<and> gn_phase (gen r g) \<noteq> PhaseDone"
proof -
  note ids = registry_ids_okD [OF structD(1) [OF assms]]
  have "in_all g r \<longleftrightarrow> (gn_id (gen r g), g) \<in> set (rg_all r)"
    unfolding in_all_def using map_of_eq_Some_iff [OF ids(3)] by simp
  then show ?thesis
    using ids(2,4) by auto
qed

lemma isExact_iff:
  assumes "struct r"
  shows "isExactLocked (Some g) role phase r \<longleftrightarrow> g < length (rg_gens r) \<and> gn_phase (gen r g) \<noteq> PhaseDone \<and>
     gn_role (gen r g) = role \<and> gn_phase (gen r g) = phase"
  unfolding isExactLocked_def option.case in_all_iff [OF assms] by blast

text \<open>Counting over \<open>all\<close> is counting the generations that are not done.\<close>

lemma length_filter_upt: "length (filter (\<lambda>g. Q (xs ! g)) [0..<length xs]) = length (filter Q xs)"
proof -
  have "map ((!) xs) (filter (\<lambda>g. Q (xs ! g)) [0..<length xs]) = filter Q (map ((!) xs) [0..<length xs])"
    by (simp add: filter_map o_def)
  then show ?thesis
    by (metis length_map map_nth)
qed

lemma count_all:
  assumes "reg_ids n gs all"
  shows "int (length (filter (\<lambda>(i, g). P (gs ! g)) all)) = num (\<lambda>x. gn_phase x \<noteq> PhaseDone \<and> P x) gs"
proof -
  note ids = registry_ids_okD [OF assms]
  let ?G = "filter (\<lambda>g. gn_phase (gs ! g) \<noteq> PhaseDone) [0..<length gs]"
  have "set all = set (map (\<lambda>g. (Suc g, g)) ?G)"
    using ids(4) by (auto simp: set_eq_iff)
  moreover have "distinct all" "distinct (map (\<lambda>g. (Suc g, g)) ?G)"
    using ids(3) by (simp_all add: distinct_map inj_on_def)
  ultimately have "mset all = mset (map (\<lambda>g. (Suc g, g)) ?G)"
    using set_eq_iff_mset_eq_distinct by blast
  then have "mset (filter (\<lambda>(i, g). P (gs ! g)) all) = mset (filter (\<lambda>(i, g). P (gs ! g)) (map (\<lambda>g. (Suc g, g)) ?G))"
    unfolding mset_filter by (rule arg_cong)
  moreover have "filter (\<lambda>(i, g). P (gs ! g)) (map (\<lambda>g. (Suc g, g)) ?G) = map (\<lambda>g. (Suc g, g)) (filter (\<lambda>g. P (gs ! g)) ?G)"
    by (simp add: filter_map o_def)
  ultimately have "length (filter (\<lambda>(i, g). P (gs ! g)) all) = length (filter (\<lambda>g. P (gs ! g)) ?G)"
    using mset_eq_length by fastforce
  also have "\<dots> = length (filter (\<lambda>x. gn_phase x \<noteq> PhaseDone \<and> P x) gs)"
    using length_filter_upt [of "\<lambda>x. gn_phase x \<noteq> PhaseDone \<and> P x" gs] by (simp add: conj_commute)
  finally show ?thesis
    by (simp add: num_def)
qed

lemma gen_okD:
  assumes "gen_ok x"
  shows "gn_phase x = PhasePending \<Longrightarrow> gn_role x = RoleUnknown" and "gn_role x = RoleUnknown \<Longrightarrow> \<not> active x"
    and "gn_phase x = PhasePrepared \<Longrightarrow> gn_forwarding x = no_forwarding"
  using assms by (simp_all add: gen_ok_def)

lemma num_cong: "(\<And>x. x \<in> set xs \<Longrightarrow> P x = Q x) \<Longrightarrow> num P xs = num Q xs"
  by (simp add: num_def cong: filter_cong)

lemma num_append [simp]: "num P (xs @ [x]) = num P xs + (if P x then 1 else 0)"
  by (simp add: num_def)

lemma num_update: "i < length xs \<Longrightarrow> num P (xs[i := x]) = num P xs - (if P (xs ! i) then 1 else 0) + (if P x then 1 else 0)"
  unfolding num_def by (rule length_filter_update)

lemma live_cases: "gn_phase x \<noteq> PhaseDone \<longleftrightarrow> gn_phase x = PhasePending \<or> active x"
  by (cases "gn_phase x") (simp_all add: active_def)

lemma countRole_eq:
  assumes "struct r"
  shows "countRoleLocked RoleClient r = num (is_role RoleClient) (rg_gens r)"
    and "countRoleLocked RolePeer r = num (is_role RolePeer) (rg_gens r)"
    and "countPhaseLocked RoleUnknown PhasePending r = num is_pending (rg_gens r)"
proof -
  note count = count_all [OF structD(1) [OF assms]] and ok = structD(2) [OF assms]
  show "countRoleLocked RoleClient r = num (is_role RoleClient) (rg_gens r)"
    unfolding countRoleLocked_def count [of "\<lambda>x. gn_role x = RoleClient"]
    using gen_okD(1) [OF ok] by (intro num_cong) (auto simp: live_cases)
  show "countRoleLocked RolePeer r = num (is_role RolePeer) (rg_gens r)"
    unfolding countRoleLocked_def count [of "\<lambda>x. gn_role x = RolePeer"]
    using gen_okD(1) [OF ok] by (intro num_cong) (auto simp: live_cases)
  show "countPhaseLocked RoleUnknown PhasePending r = num is_pending (rg_gens r)"
    unfolding countPhaseLocked_def count [of "\<lambda>x. gn_role x = RoleUnknown \<and> gn_phase x = PhasePending"]
    using gen_okD(1) [OF ok] by (intro num_cong) auto
qed

lemma countPhase_eq:
  assumes "struct r" and "phase \<noteq> PhaseDone"
  shows "countPhaseLocked role phase r = num (\<lambda>x. gn_role x = role \<and> gn_phase x = phase) (rg_gens r)"
  unfolding countPhaseLocked_def count_all [OF structD(1) [OF assms(1)], of "\<lambda>x. gn_role x = role \<and> gn_phase x = phase"]
  by (rule num_cong) (use assms(2) in auto)

text \<open>A generation is the current one of its identity exactly when its phase says so.\<close>

lemma slot_current_iff:
  assumes "struct r" and "g < length (rg_gens r)" and "gn_phase (gen r g) = PhaseCurrent"
  shows "slot_current g r"
proof -
  have act: "active (gen r g)"
    using assms(3) by (simp add: active_def)
  then have "gn_role (gen r g) \<noteq> RoleUnknown"
    using gen_okD(2) [OF structD(2) [OF assms(1) nth_mem [OF assms(2)]]] by blast
  then consider "gn_role (gen r g) = RoleClient" | "gn_role (gen r g) = RolePeer"
    by (cases "gn_role (gen r g)") auto
  then show ?thesis
  proof cases
    case 1
    with slots_find [OF structD(4) [OF assms(1)] assms(2) 1 act] obtain e
      where e: "map_of (rg_clients r) (gn_instanceID (gen r g)) = Some e" "entry_ok RoleClient gn_instanceID (rg_gens r) (gn_instanceID (gen r g)) e"
      by blast
    then show ?thesis
      using 1 assms(2,3) entry_okD(2) [OF e(2), of g] by (simp add: slot_current_def owns_def)
  next
    case 2
    with slots_find [OF structD(5) [OF assms(1)] assms(2) 2 act] obtain e
      where e: "map_of (rg_peers r) (gn_peerID (gen r g)) = Some e" "entry_ok RolePeer gn_peerID (rg_gens r) (gn_peerID (gen r g)) e"
      by blast
    then show ?thesis
      using 2 assms(2,3) entry_okD(2) [OF e(2), of g] by (simp add: slot_current_def owns_def)
  qed
qed

lemma isCurrent_iff:
  assumes "struct r"
  shows "registry_isCurrentLocked (Some g) r \<longleftrightarrow> \<not> rg_closed r \<and> g < length (rg_gens r) \<and> gn_phase (gen r g) = PhaseCurrent"
  using slot_current_iff [OF assms, of g] unfolding registry_isCurrentLocked_def option.case in_all_iff [OF assms] by auto

lemma isForwardingReady_iff:
  assumes "struct r" and "gn_role (gen r g) = RoleClient"
  shows "isForwardingReadyLocked (Some g) r \<longleftrightarrow>
     \<not> rg_closed r \<and> g < length (rg_gens r) \<and> fwd_ready (rg_groupRules r) (gn_groupID (gen r g)) (gen r g)"
  unfolding isForwardingReadyLocked_def isCurrent_iff [OF assms(1)] fwd_ready_def Let_def option.case
  using assms(2) by (auto split: option.splits)

section \<open>Updates the invariant does not see\<close>

lemma struct_simps [simp]:
  "struct (r\<lparr>rg_changed := n\<rparr>) = struct r" "struct (r\<lparr>rg_groupAvailable := m\<rparr>) = struct r" "struct (r\<lparr>rg_groupRules := rs\<rparr>) = struct r"
  "struct (r\<lparr>rg_roundRobin := rr\<rparr>) = struct r" "struct (r\<lparr>rg_closed := b\<rparr>) = struct r" "struct (r\<lparr>rg_groupClosed := b\<rparr>) = struct r"
  "struct (r\<lparr>rg_groupChanged := n, rg_panicked := b\<rparr>) = struct r"
  by (simp_all add: struct_def)

lemma struct_signal [simp]: "struct (signalLocked r) = struct r"
  by (simp add: signalLocked_def)

lemma struct_closeGroup [simp]: "struct (closeGroupChanged r) = struct r"
  by (simp add: closeGroupChanged_def)

lemma GroupAvailability_simps [simp]:
  "GroupAvailability grp (r\<lparr>rg_gens := gs\<rparr>) = GroupAvailability grp r" "GroupAvailability grp (r\<lparr>rg_clients := cs\<rparr>) = GroupAvailability grp r"
  "GroupAvailability grp (r\<lparr>rg_peers := ps\<rparr>) = GroupAvailability grp r" "GroupAvailability grp (r\<lparr>rg_all := al\<rparr>) = GroupAvailability grp r"
  "GroupAvailability grp (r\<lparr>rg_changed := n\<rparr>) = GroupAvailability grp r"
  by (simp_all add: GroupAvailability_def)

text \<open>The part of the state that the availability of a group and the gate depend on.\<close>

definition gate_view :: "Registry \<Rightarrow> bool \<times> (string \<times> bool) list \<times> (string \<times> groupRule) list \<times> bool \<times> bool" where
  "gate_view r = (rg_closed r, rg_groupAvailable r, rg_groupRules r, rg_panicked r, rg_groupClosed r)"

lemma gate_viewD:
  assumes "gate_view r' = gate_view r"
  shows "rg_closed r' = rg_closed r" and "GroupAvailability grp r' = GroupAvailability grp r"
    and "rg_groupRules r' = rg_groupRules r" and "rg_panicked r' = rg_panicked r" and "rg_groupClosed r' = rg_groupClosed r"
  using assms by (simp_all add: gate_view_def GroupAvailability_def)

lemma signal_view [simp]: "gate_view (signalLocked r) = gate_view r"
  by (simp add: gate_view_def signalLocked_def)

lemma signal_simps [simp]:
  "rg_gens (signalLocked r) = rg_gens r" "rg_arbitrations (signalLocked r) = rg_arbitrations r" "rg_arbs (signalLocked r) = rg_arbs r"
  "rg_closed (signalLocked r) = rg_closed r" "rg_all (signalLocked r) = rg_all r" "rg_clients (signalLocked r) = rg_clients r"
  "rg_peers (signalLocked r) = rg_peers r"
  by (simp_all add: signalLocked_def)

lemma gate_ok_view: "gate_view r' = gate_view r \<Longrightarrow> (rg_closed r \<Longrightarrow> rg_arbitrations r' = []) \<Longrightarrow> gate_ok r \<Longrightarrow> gate_ok r'"
  by (simp add: gate_ok_def gate_view_def)

section \<open>Availability\<close>

definition group_ready :: "string \<Rightarrow> Registry \<Rightarrow> bool" where
  "group_ready grp r \<longleftrightarrow> \<not> rg_closed r \<and> (\<exists>x \<in> set (rg_gens r). fwd_ready (rg_groupRules r) grp x)"

lemma avail_ok_alt: "avail_ok r \<longleftrightarrow> (\<forall>grp. GroupAvailability grp r \<longleftrightarrow> group_ready grp r)"
  by (simp add: avail_ok_def group_ready_def)

definition avail_but :: "string \<Rightarrow> Registry \<Rightarrow> bool" where
  "avail_but grp r \<longleftrightarrow> (\<forall>h. h \<noteq> grp \<longrightarrow> (GroupAvailability h r \<longleftrightarrow> group_ready h r))"

lemma available_iff:
  assumes "struct r"
  shows "list_ex (\<lambda>(k, e). en_current e \<noteq> None \<and> isForwardingReadyLocked (en_current e) r)
      (filter (\<lambda>(k, e). ce_groupID e = grp) (rg_clients r)) \<longleftrightarrow> group_ready grp r" (is "?L \<longleftrightarrow> _")
proof
  assume ?L
  then obtain k e g where e: "(k, e) \<in> set (rg_clients r)" "ce_groupID e = grp" "en_current e = Some g" "isForwardingReadyLocked (Some g) r"
    by (auto simp: list_ex_iff)
  note slots = structD(4) [OF assms]
  have own: "owns RoleClient gn_instanceID (rg_gens r) k PhaseCurrent g"
    using entry_okD(2) [OF slots_okD(2) [OF slots e(1)], of g] e(3) by simp
  then have g: "g < length (rg_gens r)" "gn_role (gen r g) = RoleClient" "gn_instanceID (gen r g) = k" "active (gen r g)"
    by (simp_all add: owns_def active_def)
  have "map_of (rg_clients r) k = Some e"
    using map_of_is_SomeI [OF slots_okD(1) [OF slots] e(1)] .
  then have "gn_groupID (gen r g) = grp"
    using structD(3) [OF assms nth_mem [OF g(1)]] g e(2) by (simp add: group_ok_def)
  with isForwardingReady_iff [OF assms g(2)] e(4) g(1) show "group_ready grp r"
    unfolding group_ready_def by (metis nth_mem)
next
  assume "group_ready grp r"
  then obtain g where g: "\<not> rg_closed r" "g < length (rg_gens r)" "fwd_ready (rg_groupRules r) grp (gen r g)"
    by (auto simp: group_ready_def in_set_conv_nth)
  then have role: "gn_role (gen r g) = RoleClient" "active (gen r g)" "gn_phase (gen r g) = PhaseCurrent" "gn_groupID (gen r g) = grp"
    by (simp_all add: fwd_ready_def active_def)
  obtain e where e: "map_of (rg_clients r) (gn_instanceID (gen r g)) = Some e"
      "entry_ok RoleClient gn_instanceID (rg_gens r) (gn_instanceID (gen r g)) e"
    by (rule slots_find [OF structD(4) [OF assms] g(2) role(1,2)])
  have "en_current e = Some g"
    using entry_okD(2) [OF e(2), of g] g(2) role by (simp add: owns_def)
  moreover have "ce_groupID e = grp"
    using structD(3) [OF assms nth_mem [OF g(2)]] role e(1) by (simp add: group_ok_def)
  moreover have "isForwardingReadyLocked (Some g) r"
    using isForwardingReady_iff [OF assms role(1)] g role by simp
  ultimately show ?L
    using map_of_SomeD [OF e(1)] by (fastforce simp: list_ex_iff)
qed

lemma refresh_struct [simp]: "struct (refreshGroupLocked grp r) = struct r"
  by (simp add: refreshGroupLocked_def Let_def)

lemma refresh_fields [simp]:
  "rg_gens (refreshGroupLocked grp r) = rg_gens r" "rg_arbitrations (refreshGroupLocked grp r) = rg_arbitrations r"
  "rg_arbs (refreshGroupLocked grp r) = rg_arbs r" "rg_closed (refreshGroupLocked grp r) = rg_closed r"
  "rg_groupRules (refreshGroupLocked grp r) = rg_groupRules r" "rg_groupClosed (refreshGroupLocked grp r) = rg_groupClosed r"
  "rg_all (refreshGroupLocked grp r) = rg_all r"
  by (simp_all add: refreshGroupLocked_def Let_def closeGroupChanged_def)

lemma refresh_available:
  assumes "struct r"
  shows "GroupAvailability h (refreshGroupLocked grp r) \<longleftrightarrow> (if h = grp then group_ready grp r else GroupAvailability h r)"
  unfolding refreshGroupLocked_def Let_def available_iff [OF assms]
  by (auto simp: GroupAvailability_def closeGroupChanged_def update_conv' delete_conv')

lemma refresh_avail:
  assumes "struct r" and "avail_but grp r"
  shows "avail_ok (refreshGroupLocked grp r)"
  using assms(2) unfolding avail_ok_alt refresh_available [OF assms(1)] avail_but_def group_ready_def by simp

lemma refresh_gate:
  assumes "struct r" and "gate_ok r" and "rg_closed r \<Longrightarrow> \<not> GroupAvailability grp r"
  shows "gate_ok (refreshGroupLocked grp r)"
proof -
  have "rg_panicked (refreshGroupLocked grp r) = (rg_panicked r \<or> GroupAvailability grp r \<noteq> group_ready grp r \<and> rg_groupClosed r)"
    unfolding refreshGroupLocked_def Let_def available_iff [OF assms(1)]
    by (cases "GroupAvailability grp r = group_ready grp r") (simp_all add: closeGroupChanged_def)
  moreover have "rg_closed r \<Longrightarrow> \<not> group_ready grp r"
    by (simp add: group_ready_def)
  ultimately show ?thesis
    using assms(2,3) by (cases "rg_closed r") (simp_all add: gate_ok_def)
qed

lemma caps_simps [simp]:
  "reg_caps (r\<lparr>rg_changed := n\<rparr>) = reg_caps r" "reg_caps (r\<lparr>rg_groupAvailable := m\<rparr>) = reg_caps r"
  "reg_caps (r\<lparr>rg_roundRobin := rr\<rparr>) = reg_caps r" "reg_caps (r\<lparr>rg_groupChanged := n, rg_panicked := b\<rparr>) = reg_caps r"
  "reg_caps (r\<lparr>rg_groupRules := rs\<rparr>) = reg_caps r" "reg_caps (r\<lparr>rg_closed := b\<rparr>) = reg_caps r" "reg_caps (r\<lparr>rg_groupClosed := b\<rparr>) = reg_caps r"
  by (simp_all add: reg_caps_def)

lemma refresh_caps [simp]: "reg_caps (refreshGroupLocked grp r) = reg_caps r"
  by (simp add: refreshGroupLocked_def Let_def closeGroupChanged_def)

lemma signal_caps [simp]: "reg_caps (signalLocked r) = reg_caps r"
  by (simp add: signalLocked_def)

lemma refresh_inv:
  assumes "struct r" and "gate_ok r" and "avail_but grp r" and "rg_closed r \<Longrightarrow> \<not> GroupAvailability grp r"
    and "reg_caps r"
  shows "reg_inv (refreshGroupLocked grp r)"
  using assms refresh_avail refresh_gate by (simp add: reg_inv_def)

lemma signal_inv [simp]: "reg_inv (signalLocked r) = reg_inv r"
  by (simp add: reg_inv_def avail_ok_alt group_ready_def GroupAvailability_def gate_ok_def signalLocked_def)

section \<open>One generation changes\<close>

lemma all_nth_update:
  assumes "P x" and "\<And>h. h < length xs \<Longrightarrow> h \<noteq> g \<Longrightarrow> P (xs ! h)"
  shows "\<forall>y \<in> set (xs[g := x]). P y"
proof
  fix y assume "y \<in> set (xs[g := x])"
  then obtain h where "h < length xs" "y = xs[g := x] ! h"
    by (auto simp: in_set_conv_nth)
  with assms show "P y" by (cases "h = g") simp_all
qed

lemma ids_keep:
  assumes "reg_ids n gs all" and "gn_id x = Suc g" and "gn_phase (gs ! g) \<noteq> PhaseDone" and "gn_phase x \<noteq> PhaseDone"
  shows "reg_ids n (gs[g := x]) all"
proof -
  note ids = registry_ids_okD [OF assms(1)]
  have "gn_id (gs[g := x] ! h) = Suc h" if "h < length gs" for h
    using ids(2) [OF that] that assms(2) by (cases "h = g") simp_all
  moreover have "(i, h) \<in> set all \<longleftrightarrow> h < length gs \<and> i = Suc h \<and> gn_phase (gs[g := x] ! h) \<noteq> PhaseDone" for i h
    using ids(4) [of i h] assms(3,4) by (cases "h = g") auto
  ultimately show ?thesis
    using ids(1,3) unfolding reg_ids_def length_list_update by blast
qed

lemma ids_drop:
  assumes "reg_ids n gs all" and "gn_id x = Suc g" and "gn_phase x = PhaseDone"
  shows "reg_ids n (gs[g := x]) (AList.delete (Suc g) all)"
proof -
  note ids = registry_ids_okD [OF assms(1)]
  have "gn_id (gs[g := x] ! h) = Suc h" if "h < length gs" for h
    using ids(2) [OF that] that assms(2) by (cases "h = g") simp_all
  moreover have "(i, h) \<in> set (AList.delete (Suc g) all) \<longleftrightarrow> h < length gs \<and> i = Suc h \<and> gn_phase (gs[g := x] ! h) \<noteq> PhaseDone" for i h
    unfolding mem_delete using ids(4) [of i h] assms(3) by (cases "h = g") auto
  ultimately show ?thesis
    using ids(1) distinct_keys_delete [OF ids(3)] unfolding reg_ids_def length_list_update by blast
qed

lemma ids_new:
  assumes "reg_ids n gs all" and "gn_id x = Suc n" and "gn_phase x \<noteq> PhaseDone"
  shows "reg_ids (Suc n) (gs @ [x]) (AList.update (Suc n) (length gs) all)"
proof -
  note ids = registry_ids_okD [OF assms(1)]
  have "gn_id ((gs @ [x]) ! h) = Suc h" if "h < length (gs @ [x])" for h
    using ids(1) ids(2) [of h] that assms(2) by (auto simp: nth_append less_Suc_eq)
  moreover have "(i, h) \<in> set (AList.update (Suc n) (length gs) all) \<longleftrightarrow>
      h < length (gs @ [x]) \<and> i = Suc h \<and> gn_phase ((gs @ [x]) ! h) \<noteq> PhaseDone" for i h
    unfolding mem_update [OF ids(3)] using ids(1) ids(4) [of i h] assms(3) by (auto simp: nth_append less_Suc_eq)
  ultimately show ?thesis
    using ids(1) distinct_keys_update [OF ids(3)] unfolding reg_ids_def by simp
qed

lemma arbs_okD:
  assumes "arbs_ok gs arbs m"
  shows "distinct (keys m)" and "\<And>k a. (k, a) \<in> set m \<Longrightarrow> a < length arbs" and "\<And>k a. (k, a) \<in> set m \<Longrightarrow> arb_ok gs k (arbs ! a)"
    and "\<And>k a j b. (k, a) \<in> set m \<Longrightarrow> (j, b) \<in> set m \<Longrightarrow> ar_inbound (arbs ! a) = ar_inbound (arbs ! b) \<Longrightarrow> k = j"
  using assms unfolding arbs_ok_def by blast+

lemma arbs_upd:
  assumes ok: "arbs_ok gs arbs m"
    and inbound: "\<And>k a. (k, a) \<in> set m \<Longrightarrow> ar_inbound (arbs ! a) = g \<Longrightarrow> gn_role x = RoleUnknown"
    and loser: "\<And>k a. (k, a) \<in> set m \<Longrightarrow> ar_loser (arbs ! a) = g \<Longrightarrow> gn_role x = RolePeer \<and> gn_peerID x = gn_peerID (gs ! g) \<and> active x \<and>
      (gn_phase (gs ! g) = PhaseRetiring \<longrightarrow> gn_phase x = PhaseRetiring)"
  shows "arbs_ok (gs[g := x]) arbs m"
proof -
  have "arb_ok (gs[g := x]) k (arbs ! a)" if m: "(k, a) \<in> set m" for k a
  proof -
    have old: "arb_ok gs k (arbs ! a)"
      by (rule arbs_okD(3) [OF ok m])
    have "gn_role (gs[g := x] ! ar_inbound (arbs ! a)) = RoleUnknown"
      using old inbound [OF m] by (cases "ar_inbound (arbs ! a) = g") (simp_all add: arb_ok_def)
    moreover have "gn_role (gs[g := x] ! ar_loser (arbs ! a)) = RolePeer \<and> gn_peerID (gs[g := x] ! ar_loser (arbs ! a)) = k \<and>
        active (gs[g := x] ! ar_loser (arbs ! a)) \<and>
        (ar_loserReleased (arbs ! a) \<longrightarrow> gn_phase (gs[g := x] ! ar_loser (arbs ! a)) = PhaseRetiring)"
      using old loser [OF m] by (cases "ar_loser (arbs ! a) = g") (simp_all add: arb_ok_def)
    ultimately show ?thesis
      using old by (simp add: arb_ok_def)
  qed
  with arbs_okD(1,2,4) [OF ok] show ?thesis
    unfolding arbs_ok_def by blast
qed

text \<open>The role of a generation tells which side of an arbitration it can be.\<close>

lemma arbs_role:
  assumes "arbs_ok gs arbs m" and "(k, a) \<in> set m"
  shows "ar_inbound (arbs ! a) = g \<Longrightarrow> gn_role (gs ! g) = RoleUnknown" and "ar_loser (arbs ! a) = g \<Longrightarrow> gn_role (gs ! g) = RolePeer"
  using arbs_okD(3) [OF assms] by (auto simp: arb_ok_def)

lemma group_update:
  assumes "group_ok clients y" and "\<And>e0. map_of clients k = Some e0 \<Longrightarrow> ce_groupID e = ce_groupID e0"
    and "map_of clients k = None \<Longrightarrow> gn_role y = RoleClient \<Longrightarrow> active y \<Longrightarrow> gn_instanceID y = k \<Longrightarrow> False"
  shows "group_ok (AList.update k e clients) y"
  using assms by (cases "map_of clients k") (auto simp: group_ok_def update_conv')

lemma group_delete: "group_ok clients y \<Longrightarrow> group_ok (AList.delete k clients) y"
  by (auto simp: group_ok_def delete_conv')

lemma struct_upd:
  assumes ok: "struct r" and gens: "rg_gens r' = (rg_gens r)[g := x]" and "reg_ids (rg_nextID r') (rg_gens r') (rg_all r')"
    and "gen_ok x" and "group_ok (rg_clients r') x" and "\<And>h. h < length (rg_gens r) \<Longrightarrow> h \<noteq> g \<Longrightarrow> group_ok (rg_clients r') (gen r h)"
    and "slots_ok RoleClient gn_instanceID (rg_gens r') (rg_clients r')" and "slots_ok RolePeer gn_peerID (rg_gens r') (rg_peers r')"
    and "arbs_ok (rg_gens r') (rg_arbs r') (rg_arbitrations r')"
  shows "struct r'"
proof -
  have "\<forall>y \<in> set ((rg_gens r)[g := x]). gen_ok y \<and> group_ok (rg_clients r') y"
    using assms(4-6) structD(2) [OF ok] by (intro all_nth_update) simp_all
  then show ?thesis
    using assms(3,7-9) unfolding struct_def gens by blast
qed

end
