(* ===== verification/Mesh_Registry_Steps.thy ===== *)
theory Mesh_Registry_Steps
  imports Mesh_Registry_Inv
begin

text \<open>
  Every operation of the mesh registry keeps its invariant. Each section is one transition of a
  generation: what it does to the structure, to the counts, and to the availability of the groups.
\<close>

section \<open>Removing a generation\<close>

lemma upd_gen_simps [simp]:
  "rg_gens (upd_gen g f r) = (rg_gens r)[g := f (gen r g)]" "rg_nextID (upd_gen g f r) = rg_nextID r" "rg_all (upd_gen g f r) = rg_all r"
  "rg_clients (upd_gen g f r) = rg_clients r" "rg_peers (upd_gen g f r) = rg_peers r" "rg_arbs (upd_gen g f r) = rg_arbs r"
  "rg_arbitrations (upd_gen g f r) = rg_arbitrations r" "rg_closed (upd_gen g f r) = rg_closed r" "gate_view (upd_gen g f r) = gate_view r"
  by (simp_all add: upd_gen_def gate_view_def)

lemma active_role:
  assumes "struct r" and "g < length (rg_gens r)" and "gn_role (gen r g) \<noteq> RoleUnknown" and "gn_phase (gen r g) \<noteq> PhaseDone"
  shows "active (gen r g)"
  using gen_okD(1) [OF structD(2) [OF assms(1) nth_mem [OF assms(2)]]] assms(3,4) by (auto simp: live_cases)

lemma unknown_pending:
  assumes "struct r" and "g < length (rg_gens r)" and "gn_role (gen r g) = RoleUnknown"
  shows "\<not> active (gen r g)"
  using gen_okD(2) [OF structD(2) [OF assms(1) nth_mem [OF assms(2)]] assms(3)] .

lemma struct_gen_id: "struct r \<Longrightarrow> g < length (rg_gens r) \<Longrightarrow> gn_id (gen r g) = Suc g"
  using registry_ids_okD(2) [OF structD(1)] by blast

definition dropped :: "nat \<Rightarrow> Registry \<Rightarrow> Generation" where
  "dropped g r = (gen r g)\<lparr>gn_phase := PhaseDone\<rparr>"

lemma drop_client:
  assumes "struct r" and "g < length (rg_gens r)" and "gn_role (gen r g) = RoleClient" and "gn_phase (gen r g) \<noteq> PhaseDone"
  obtains e where "map_of (rg_clients r) (gn_instanceID (gen r g)) = Some e" and
    "dropGeneration g r = r\<lparr>rg_clients := drop_slots (Suc g) (gn_instanceID (gen r g))
         (AList.update (gn_instanceID (gen r g)) (unlink_slots g e) (rg_clients r)),
       rg_all := AList.delete (Suc g) (rg_all r), rg_gens := (rg_gens r)[g := dropped g r]\<rparr>"
proof -
  obtain e where e: "map_of (rg_clients r) (gn_instanceID (gen r g)) = Some e"
    by (rule slots_find [OF structD(4) [OF assms(1)] assms(2,3) active_role [OF assms(1,2)]]) (use assms(3,4) in simp_all)
  show ?thesis
    by (rule that [OF e])
      (use e assms struct_gen_id [OF assms(1,2)] in \<open>simp add: dropGeneration_def unlinkActiveLocked_def Let_def upd_gen_def dropped_def\<close>)
qed

lemma drop_peer:
  assumes "struct r" and "g < length (rg_gens r)" and "gn_role (gen r g) = RolePeer" and "gn_phase (gen r g) \<noteq> PhaseDone"
  obtains e where "map_of (rg_peers r) (gn_peerID (gen r g)) = Some e" and
    "dropGeneration g r = r\<lparr>rg_peers := drop_slots (Suc g) (gn_peerID (gen r g))
         (AList.update (gn_peerID (gen r g)) (unlink_slots g e) (rg_peers r)),
       rg_all := AList.delete (Suc g) (rg_all r), rg_gens := (rg_gens r)[g := dropped g r]\<rparr>"
proof -
  obtain e where e: "map_of (rg_peers r) (gn_peerID (gen r g)) = Some e"
    by (rule slots_find [OF structD(5) [OF assms(1)] assms(2,3) active_role [OF assms(1,2)]]) (use assms(3,4) in simp_all)
  show ?thesis
    by (rule that [OF e])
      (use e assms struct_gen_id [OF assms(1,2)] in \<open>simp add: dropGeneration_def unlinkActiveLocked_def Let_def upd_gen_def dropped_def\<close>)
qed

lemma drop_unknown:
  assumes "struct r" and "g < length (rg_gens r)" and "gn_role (gen r g) = RoleUnknown"
  shows "dropGeneration g r = r\<lparr>rg_all := AList.delete (Suc g) (rg_all r), rg_gens := (rg_gens r)[g := dropped g r]\<rparr>"
  using assms struct_gen_id [OF assms(1,2)] by (simp add: dropGeneration_def unlinkActiveLocked_def Let_def upd_gen_def dropped_def)

lemma dropped_simps [simp]:
  "gn_phase (dropped g r) = PhaseDone" "gn_role (dropped g r) = gn_role (gen r g)" "gn_peerID (dropped g r) = gn_peerID (gen r g)"
  "gn_id (dropped g r) = gn_id (gen r g)" "\<not> active (dropped g r)" "gen_ok (dropped g r)" "group_ok cs (dropped g r)"
  by (simp_all add: dropped_def active_def gen_ok_def group_ok_def)

lemma drop_slots_group:
  assumes "group_ok clients y" and "map_of clients k = Some e"
  shows "group_ok (drop_slots i k (AList.update k (unlink_slots g e) clients)) y"
proof -
  have "ce_groupID ((unlink_slots g e)\<lparr>en_retiring := xs\<rparr>) = ce_groupID e" for xs
    by (simp add: unlink_slots_def Let_def)
  then show ?thesis
    using assms by (auto simp: drop_slots_def Let_def update_conv' intro!: group_delete group_update)
qed

text \<open>What removing a generation does, for every role.\<close>

lemma drop_cases:
  assumes "struct r" and "g < length (rg_gens r)" and "gn_phase (gen r g) \<noteq> PhaseDone"
  obtains cs ps where "dropGeneration g r = r\<lparr>rg_clients := cs, rg_peers := ps, rg_all := AList.delete (Suc g) (rg_all r),
      rg_gens := (rg_gens r)[g := dropped g r]\<rparr>"
    and "slots_ok RoleClient gn_instanceID ((rg_gens r)[g := dropped g r]) cs"
    and "slots_ok RolePeer gn_peerID ((rg_gens r)[g := dropped g r]) ps"
    and "\<And>y. group_ok (rg_clients r) y \<Longrightarrow> group_ok cs y"
proof (cases "gn_role (gen r g)")
  case RoleUnknown
  note inactive = unknown_pending [OF assms(1,2) RoleUnknown]
  show ?thesis
  proof (rule that)
    show "dropGeneration g r = r\<lparr>rg_clients := rg_clients r, rg_peers := rg_peers r, rg_all := AList.delete (Suc g) (rg_all r),
        rg_gens := (rg_gens r)[g := dropped g r]\<rparr>"
      using drop_unknown [OF assms(1,2) RoleUnknown] by simp
  qed (use inactive structD(4,5) [OF assms(1)] in \<open>auto intro!: slots_frame\<close>)
next
  case RoleClient
  from drop_client [OF assms(1,2) RoleClient assms(3)] obtain e where
    e: "map_of (rg_clients r) (gn_instanceID (gen r g)) = Some e" and
    eq: "dropGeneration g r = r\<lparr>rg_clients := drop_slots (Suc g) (gn_instanceID (gen r g))
         (AList.update (gn_instanceID (gen r g)) (unlink_slots g e) (rg_clients r)),
       rg_all := AList.delete (Suc g) (rg_all r), rg_gens := (rg_gens r)[g := dropped g r]\<rparr>" .
  let ?cs = "drop_slots (Suc g) (gn_instanceID (gen r g)) (AList.update (gn_instanceID (gen r g)) (unlink_slots g e) (rg_clients r))"
  show ?thesis
  proof (rule that)
    show "dropGeneration g r = r\<lparr>rg_clients := ?cs, rg_peers := rg_peers r, rg_all := AList.delete (Suc g) (rg_all r),
        rg_gens := (rg_gens r)[g := dropped g r]\<rparr>"
      using eq by simp
    show "slots_ok RoleClient gn_instanceID ((rg_gens r)[g := dropped g r]) ?cs"
      by (rule slots_remove [OF structD(4) [OF assms(1)] refl _ e]) simp
    show "slots_ok RolePeer gn_peerID ((rg_gens r)[g := dropped g r]) (rg_peers r)"
      by (rule slots_frame [OF structD(5) [OF assms(1)]]) (simp_all add: RoleClient)
  qed (rule drop_slots_group [OF _ e])
next
  case RolePeer
  from drop_peer [OF assms(1,2) RolePeer assms(3)] obtain e where
    e: "map_of (rg_peers r) (gn_peerID (gen r g)) = Some e" and
    eq: "dropGeneration g r = r\<lparr>rg_peers := drop_slots (Suc g) (gn_peerID (gen r g))
         (AList.update (gn_peerID (gen r g)) (unlink_slots g e) (rg_peers r)),
       rg_all := AList.delete (Suc g) (rg_all r), rg_gens := (rg_gens r)[g := dropped g r]\<rparr>" .
  let ?ps = "drop_slots (Suc g) (gn_peerID (gen r g)) (AList.update (gn_peerID (gen r g)) (unlink_slots g e) (rg_peers r))"
  show ?thesis
  proof (rule that)
    show "dropGeneration g r = r\<lparr>rg_clients := rg_clients r, rg_peers := ?ps, rg_all := AList.delete (Suc g) (rg_all r),
        rg_gens := (rg_gens r)[g := dropped g r]\<rparr>"
      using eq by simp
    show "slots_ok RolePeer gn_peerID ((rg_gens r)[g := dropped g r]) ?ps"
      by (rule slots_remove [OF structD(5) [OF assms(1)] refl _ e]) simp
    show "slots_ok RoleClient gn_instanceID ((rg_gens r)[g := dropped g r]) (rg_clients r)"
      by (rule slots_frame [OF structD(4) [OF assms(1)]]) (simp_all add: RolePeer)
  qed
qed

definition limits_view :: "Registry \<Rightarrow> int \<times> int \<times> int \<times> int \<times> int \<times> int" where
  "limits_view r = (rg_pendingHigh r, rg_clientHigh r, rg_peerHigh r, rg_maxPending r, rg_maxClients r, rg_maxPeers r)"

lemma drop_fields:
  assumes "struct r" and "g < length (rg_gens r)" and "gn_phase (gen r g) \<noteq> PhaseDone"
  shows "rg_gens (dropGeneration g r) = (rg_gens r)[g := dropped g r]" and "rg_arbs (dropGeneration g r) = rg_arbs r"
    and "rg_arbitrations (dropGeneration g r) = rg_arbitrations r" and "gate_view (dropGeneration g r) = gate_view r"
    and "rg_all (dropGeneration g r) = AList.delete (Suc g) (rg_all r)" and "limits_view (dropGeneration g r) = limits_view r"
  by (rule drop_cases [OF assms]; simp add: gate_view_def limits_view_def)+

text \<open>Removing is safe for a generation that no arbitration waits for.\<close>

lemma drop_struct:
  assumes ok: "struct r" and g: "g < length (rg_gens r)" "gn_phase (gen r g) \<noteq> PhaseDone"
    and arbs: "\<And>k a. (k, a) \<in> set (rg_arbitrations r) \<Longrightarrow> ar_loser (arb r a) \<noteq> g"
  shows "struct (dropGeneration g r)"
proof -
  obtain cs ps where eq: "dropGeneration g r = r\<lparr>rg_clients := cs, rg_peers := ps, rg_all := AList.delete (Suc g) (rg_all r),
      rg_gens := (rg_gens r)[g := dropped g r]\<rparr>"
    and slots: "slots_ok RoleClient gn_instanceID ((rg_gens r)[g := dropped g r]) cs"
      "slots_ok RolePeer gn_peerID ((rg_gens r)[g := dropped g r]) ps"
    and groups: "\<And>y. group_ok (rg_clients r) y \<Longrightarrow> group_ok cs y"
    by (rule drop_cases [OF ok g]) blast
  show ?thesis
  proof (rule struct_upd [OF ok, where g = g and x = "dropped g r"])
    show "reg_ids (rg_nextID (dropGeneration g r)) (rg_gens (dropGeneration g r)) (rg_all (dropGeneration g r))"
      unfolding eq using ids_drop [OF structD(1) [OF ok], of "dropped g r" g] struct_gen_id [OF ok g(1)] by simp
    show "arbs_ok (rg_gens (dropGeneration g r)) (rg_arbs (dropGeneration g r)) (rg_arbitrations (dropGeneration g r))"
      using arbs_upd [OF structD(6) [OF ok], of g "dropped g r"] arbs arbs_role(1) [OF structD(6) [OF ok]] by (auto simp: eq)
    show "group_ok (rg_clients (dropGeneration g r)) (gen r h)" if "h < length (rg_gens r)" for h
      using groups structD(3) [OF ok nth_mem [OF that]] by (simp add: eq)
  qed (use slots in \<open>simp_all add: eq\<close>)
qed

lemma caps_view:
  assumes "reg_caps r" and "limits_view r' = limits_view r" and "num is_pending (rg_gens r') \<le> num is_pending (rg_gens r)"
    and "num (is_role RoleClient) (rg_gens r') \<le> num (is_role RoleClient) (rg_gens r)"
    and "num (is_role RolePeer) (rg_gens r') \<le> num (is_role RolePeer) (rg_gens r)"
  shows "reg_caps r'"
  using assms by (simp add: reg_caps_def limits_view_def)

lemma num_le_update: "i < length xs \<Longrightarrow> (P x \<Longrightarrow> P (xs ! i)) \<Longrightarrow> num P (xs[i := x]) \<le> num P xs"
  by (auto simp: num_update)

lemma drop_caps:
  assumes "struct r" and "g < length (rg_gens r)" and "gn_phase (gen r g) \<noteq> PhaseDone" and "reg_caps r"
  shows "reg_caps (dropGeneration g r)"
  by (rule caps_view [OF assms(4)]) (use assms in \<open>auto simp: drop_fields intro!: num_le_update\<close>)

section \<open>Availability after one generation changed\<close>

lemma group_ready_upd:
  assumes "gate_view r' = gate_view r" and gens: "rg_gens r' = (rg_gens r)[g := x]"
    and "g < length (rg_gens r) \<Longrightarrow> \<not> fwd_ready (rg_groupRules r) h (gen r g)" and "\<not> fwd_ready (rg_groupRules r) h x"
  shows "group_ready h r' \<longleftrightarrow> group_ready h r"
proof -
  have "(\<exists>y \<in> set ((rg_gens r)[g := x]). fwd_ready (rg_groupRules r) h y) \<longleftrightarrow> (\<exists>y \<in> set (rg_gens r). fwd_ready (rg_groupRules r) h y)"
  proof
    assume "\<exists>y \<in> set ((rg_gens r)[g := x]). fwd_ready (rg_groupRules r) h y"
    then show "\<exists>y \<in> set (rg_gens r). fwd_ready (rg_groupRules r) h y"
      using set_update_subset_insert [of "rg_gens r" g x] assms(4) by blast
  next
    assume "\<exists>y \<in> set (rg_gens r). fwd_ready (rg_groupRules r) h y"
    then obtain i where i: "i < length (rg_gens r)" "fwd_ready (rg_groupRules r) h (gen r i)"
      by (auto simp: in_set_conv_nth)
    with assms(3) have "i \<noteq> g" by blast
    with i show "\<exists>y \<in> set ((rg_gens r)[g := x]). fwd_ready (rg_groupRules r) h y"
      by (metis length_list_update nth_list_update_neq nth_mem)
  qed
  then show ?thesis
    using gate_viewD(1,3) [OF assms(1)] unfolding group_ready_def gens by simp
qed

lemma avail_upd:
  assumes "avail_ok r" and "gate_view r' = gate_view r" and "rg_gens r' = (rg_gens r)[g := x]"
    and "\<And>h. g < length (rg_gens r) \<Longrightarrow> \<not> fwd_ready (rg_groupRules r) h (gen r g)" and "\<And>h. \<not> fwd_ready (rg_groupRules r) h x"
  shows "avail_ok r'"
  using assms(1) group_ready_upd [OF assms(2,3) assms(4,5)] gate_viewD(2) [OF assms(2)] unfolding avail_ok_alt by simp

lemma avail_but_upd:
  assumes "avail_ok r" and "gate_view r' = gate_view r" and "rg_gens r' = (rg_gens r)[g := x]"
    and "\<And>h. fwd_ready (rg_groupRules r) h (gen r g) \<Longrightarrow> h = grp" and "\<And>h. fwd_ready (rg_groupRules r) h x \<Longrightarrow> h = grp"
  shows "avail_but grp r'"
proof -
  have "group_ready h r' \<longleftrightarrow> group_ready h r" if "h \<noteq> grp" for h
    using assms(4,5) that by (intro group_ready_upd [OF assms(2,3)]) blast+
  then show ?thesis
    using assms(1) gate_viewD(2) [OF assms(2)] unfolding avail_ok_alt avail_but_def by simp
qed

lemma not_ready [simp]:
  "gn_role x \<noteq> RoleClient \<Longrightarrow> \<not> fwd_ready rules h x" "gn_phase x \<noteq> PhaseCurrent \<Longrightarrow> \<not> fwd_ready rules h x"
  by (simp_all add: fwd_ready_def)

section \<open>Finishing an arbitration\<close>

lemma arbs_delete: "arbs_ok gs arbs m \<Longrightarrow> arbs_ok gs arbs (AList.delete k m)"
  unfolding arbs_ok_def mem_delete by (metis distinct_keys_delete)

lemma struct_delete_arb:
  assumes "struct r"
  shows "struct (r\<lparr>rg_arbitrations := AList.delete k (rg_arbitrations r)\<rparr>)"
  using assms arbs_delete by (simp add: struct_def)

lemma inbound_none:
  assumes "struct r" and "gn_role (gen r g) \<noteq> RoleUnknown"
  shows "arbitrationForInboundLocked g r = None"
proof (cases "arbitrationForInboundLocked g r")
  case (Some a)
  then show ?thesis
    using arbitrationForInbound_Some [OF Some] arbs_role(1) [OF structD(6) [OF assms(1)]] assms(2) by blast
qed simp

text \<open>What finishing arbitration \<open>a\<close> leaves, and what else stays.\<close>

definition finished_gens :: "nat \<Rightarrow> Registry \<Rightarrow> Generation list" where
  "finished_gens a r =
     (if ar_loserReleased (arb r a) then (rg_gens r)[ar_loser (arb r a) := dropped (ar_loser (arb r a)) r] else rg_gens r)"

lemma finish_arb:
  assumes ok: "struct r" "reg_caps r" and a: "(ar_peerID (arb r a), a) \<in> set (rg_arbitrations r)"
  shows "struct (finishArbitrationLocked a r)" and "reg_caps (finishArbitrationLocked a r)"
    and "gate_view (finishArbitrationLocked a r) = gate_view r" and "rg_gens (finishArbitrationLocked a r) = finished_gens a r"
    and "rg_arbitrations (finishArbitrationLocked a r) = AList.delete (ar_peerID (arb r a)) (rg_arbitrations r)"
    and "rg_arbs (finishArbitrationLocked a r) = rg_arbs r"
    and "limits_view (finishArbitrationLocked a r) = limits_view r"
proof -
  let ?k = "ar_peerID (arb r a)" and ?l = "ar_loser (arb r a)"
  let ?r = "r\<lparr>rg_arbitrations := AList.delete ?k (rg_arbitrations r)\<rparr>"
  have arb: "arb_ok (rg_gens r) ?k (arb r a)"
    by (rule arbs_okD(3) [OF structD(6) [OF ok(1)] a])
  then have l: "?l < length (rg_gens ?r)" "gn_role (gen ?r ?l) = RolePeer" "gn_phase (gen ?r ?l) \<noteq> PhaseDone"
    by (simp_all add: arb_ok_def live_cases)
  have s: "struct ?r"
    by (rule struct_delete_arb [OF ok(1)])
  have other: "ar_loser (arb ?r b) \<noteq> ?l" if "(j, b) \<in> set (rg_arbitrations ?r)" for j b
    using that arbs_okD(3) [OF structD(6) [OF ok(1)], of j b] arb by (auto simp: mem_delete arb_ok_def)
  have rem: "snd (removeLocked (Some ?l) ?r) = dropGeneration ?l ?r"
    using inbound_none [OF s, of ?l] l in_all_iff [OF s, of ?l] by (simp add: removeLocked_eq [of "Some ?l"])
  have eq: "finishArbitrationLocked a r = signalLocked (if ar_loserReleased (arb r a) then dropGeneration ?l ?r else ?r)"
    unfolding finishArbitrationLocked_def Let_def rem ..
  note d = drop_fields [OF s l(1,3)]
  have caps: "reg_caps ?r"
    using ok(2) by (simp add: reg_caps_def)
  show "struct (finishArbitrationLocked a r)" "reg_caps (finishArbitrationLocked a r)"
    unfolding eq using s caps drop_struct [OF s l(1,3) other] drop_caps [OF s l(1,3) caps] by simp_all
  show "gate_view (finishArbitrationLocked a r) = gate_view r"
    unfolding eq signal_view using d(4) by (simp add: gate_view_def)
  show "rg_gens (finishArbitrationLocked a r) = finished_gens a r"
    unfolding eq finished_gens_def using d(1) by (simp add: dropped_def)
  show "rg_arbitrations (finishArbitrationLocked a r) = AList.delete (ar_peerID (arb r a)) (rg_arbitrations r)"
    unfolding eq using d(3) by simp
  show "rg_arbs (finishArbitrationLocked a r) = rg_arbs r"
    unfolding eq using d(2) by simp
  show "limits_view (finishArbitrationLocked a r) = limits_view r"
    unfolding eq using d(6) by (simp add: limits_view_def signalLocked_def)
qed

lemma avail_same: "avail_ok r \<Longrightarrow> gate_view r' = gate_view r \<Longrightarrow> rg_gens r' = rg_gens r \<Longrightarrow> avail_ok r'"
  by (simp add: avail_ok_alt group_ready_def gate_view_def GroupAvailability_def)

lemma finish_avail:
  assumes ok: "struct r" "reg_caps r" and a: "(ar_peerID (arb r a), a) \<in> set (rg_arbitrations r)" and "avail_ok r"
  shows "avail_ok (finishArbitrationLocked a r)"
proof (cases "ar_loserReleased (arb r a)")
  case True
  have "gn_role (gen r (ar_loser (arb r a))) = RolePeer"
    using arbs_role(2) [OF structD(6) [OF ok(1)] a] by simp
  then show ?thesis
    using finish_arb(3,4) [OF ok a] True
    by (intro avail_upd [OF assms(4), where g = "ar_loser (arb r a)" and x = "dropped (ar_loser (arb r a)) r"]) (simp_all add: finished_gens_def)
next
  case False
  then show ?thesis
    using avail_same [OF assms(4) finish_arb(3) [OF ok a]] finish_arb(4) [OF ok a] by (simp add: finished_gens_def)
qed

definition no_loser :: "nat \<Rightarrow> Registry \<Rightarrow> bool" where
  "no_loser g r \<longleftrightarrow> (\<forall>(k, a) \<in> set (rg_arbitrations r). ar_loser (arb r a) \<noteq> g)"

lemma no_loser_role: "struct r \<Longrightarrow> gn_role (gen r g) \<noteq> RolePeer \<Longrightarrow> no_loser g r"
  using arbs_role(2) [OF structD(6)] by (fastforce simp: no_loser_def)

lemma drop_inv:
  assumes ok: "struct r" "reg_caps r" and g: "g < length (rg_gens r)" "gn_phase (gen r g) \<noteq> PhaseDone" and "no_loser g r"
  shows "struct (dropGeneration g r)" and "reg_caps (dropGeneration g r)" and "gate_view (dropGeneration g r) = gate_view r"
    and "gn_role (gen r g) \<noteq> RoleClient \<Longrightarrow> avail_ok r \<Longrightarrow> avail_ok (dropGeneration g r)"
proof -
  note d = drop_fields [OF ok(1) g]
  show "struct (dropGeneration g r)"
    using assms(5) by (intro drop_struct [OF ok(1) g]) (auto simp: no_loser_def)
  show "reg_caps (dropGeneration g r)"
    by (rule drop_caps [OF ok(1) g ok(2)])
  show "gate_view (dropGeneration g r) = gate_view r"
    by (rule d(4))
  show "avail_ok (dropGeneration g r)" if "gn_role (gen r g) \<noteq> RoleClient" "avail_ok r"
    by (rule avail_upd [OF that(2) d(4,1)]) (use that(1) in simp_all)
qed

text \<open>Removing a generation no arbitration waits for.\<close>

lemma remove_inv:
  assumes ok: "struct r" "reg_caps r" and nl: "no_loser g r"
  shows "struct (snd (removeLocked (Some g) r))" and "reg_caps (snd (removeLocked (Some g) r))"
    and "gate_view (snd (removeLocked (Some g) r)) = gate_view r"
    and "set (rg_arbitrations (snd (removeLocked (Some g) r))) \<subseteq> set (rg_arbitrations r)"
    and "gn_role (gen r g) \<noteq> RoleClient \<or> \<not> in_all g r \<Longrightarrow> avail_ok r \<Longrightarrow> avail_ok (snd (removeLocked (Some g) r))"
    and "gn_role (gen r g) = RoleClient \<Longrightarrow> in_all g r \<Longrightarrow> rg_gens (snd (removeLocked (Some g) r)) = (rg_gens r)[g := dropped g r]"
    and "in_all g r \<Longrightarrow> snd (removeLocked (Some g) r) = dropGeneration g
      (case arbitrationForInboundLocked g r of None \<Rightarrow> r | Some a \<Rightarrow> finishArbitrationLocked a r)"
proof -
  let ?r' = "snd (removeLocked (Some g) r)"
  show all: "?r' = dropGeneration g (case arbitrationForInboundLocked g r of None \<Rightarrow> r | Some a \<Rightarrow> finishArbitrationLocked a r)"
    if "in_all g r" using that by (simp add: removeLocked_eq [of "Some g"])
  have "struct ?r' \<and> reg_caps ?r' \<and> gate_view ?r' = gate_view r \<and> set (rg_arbitrations ?r') \<subseteq> set (rg_arbitrations r) \<and>
    ((gn_role (gen r g) \<noteq> RoleClient \<or> \<not> in_all g r) \<and> avail_ok r \<longrightarrow> avail_ok ?r') \<and>
    (gn_role (gen r g) = RoleClient \<and> in_all g r \<longrightarrow> rg_gens ?r' = (rg_gens r)[g := dropped g r])"
  proof (cases "in_all g r")
    case False
    then show ?thesis using ok by (simp add: removeLocked_eq [of "Some g"])
  next
    case True
    then have g: "g < length (rg_gens r)" "gn_phase (gen r g) \<noteq> PhaseDone"
      using in_all_iff [OF ok(1)] by simp_all
    show ?thesis
    proof (cases "arbitrationForInboundLocked g r")
      case None
      then show ?thesis
        using True all [OF True] drop_inv [OF ok g nl] drop_fields [OF ok(1) g] by simp
    next
      case (Some a)
      have a: "(ar_peerID (arb r a), a) \<in> set (rg_arbitrations r)" and role: "gn_role (gen r g) = RoleUnknown"
        using arbitrationForInbound_Some [OF Some] arbs_role(1) [OF structD(6) [OF ok(1)]] by blast+
      note f = finish_arb [OF ok a]
      have "ar_loser (arb r a) \<noteq> g"
        using nl a by (auto simp: no_loser_def)
      then have same: "rg_gens (finishArbitrationLocked a r) ! g = gen r g"
        by (simp add: f(4) finished_gens_def)
      have len: "length (rg_gens (finishArbitrationLocked a r)) = length (rg_gens r)"
        by (simp add: f(4) finished_gens_def)
      have nl': "no_loser g (finishArbitrationLocked a r)"
        using nl by (auto simp: no_loser_def f(5,6) mem_delete)
      note d = drop_inv [OF f(1,2), of g, unfolded same len, OF g nl']
        and df = drop_fields [OF f(1), of g, unfolded same len, OF g]
      show ?thesis
        using all [OF True] d df(3) f(3,5) finish_avail [OF ok a] role by (auto simp: Some mem_delete)
    qed
  qed
  then show "struct ?r'" "reg_caps ?r'" "gate_view ?r' = gate_view r" "set (rg_arbitrations ?r') \<subseteq> set (rg_arbitrations r)"
    "gn_role (gen r g) \<noteq> RoleClient \<or> \<not> in_all g r \<Longrightarrow> avail_ok r \<Longrightarrow> avail_ok ?r'"
    "gn_role (gen r g) = RoleClient \<Longrightarrow> in_all g r \<Longrightarrow> rg_gens ?r' = (rg_gens r)[g := dropped g r]"
    by blast+
qed

section \<open>New generations\<close>

lemma arbs_append:
  assumes "arbs_ok gs arbs m"
  shows "arbs_ok (gs @ [x]) arbs m"
proof -
  have "arb_ok (gs @ [x]) k a" if "arb_ok gs k a" for k a
    using that by (auto simp: arb_ok_def nth_append)
  then show ?thesis
    using arbs_okD(1-3) [OF assms] arbs_okD(4) [OF assms] unfolding arbs_ok_def by blast
qed

lemma struct_new:
  assumes ok: "struct r" and x: "gn_id x = Suc (rg_nextID r)" "gn_phase x = PhasePending" "gn_role x = RoleUnknown" "gn_forwarding x = no_forwarding"
  shows "struct (r\<lparr>rg_nextID := Suc (rg_nextID r), rg_gens := rg_gens r @ [x], rg_all := AList.update (Suc (rg_nextID r)) (length (rg_gens r)) (rg_all r)\<rparr>)"
proof -
  have "\<not> active x" "gen_ok x" "group_ok cs x" for cs
    using x by (simp_all add: active_def gen_ok_def group_ok_def)
  then show ?thesis
    using ids_new [OF structD(1) [OF ok], of x] structD(2,3) [OF ok] slots_append [OF structD(4) [OF ok]] slots_append [OF structD(5) [OF ok]]
      arbs_append [OF structD(6) [OF ok]] x
    unfolding struct_def by auto
qed

lemma avail_append:
  assumes "avail_ok r" and "gate_view r' = gate_view r" and gens: "rg_gens r' = rg_gens r @ [x]" and "\<And>h. \<not> fwd_ready (rg_groupRules r) h x"
  shows "avail_ok r'"
  using assms(1,4) gate_viewD [OF assms(2)] unfolding avail_ok_alt group_ready_def gens by auto

definition fresh_gen :: "nat \<Rightarrow> Role \<Rightarrow> Direction \<Rightarrow> Phase \<Rightarrow> Generation" where
  "fresh_gen i role direction phase =
     \<lparr>gn_id = i, gn_role = role, gn_direction = direction, gn_phase = phase, gn_instanceID = [], gn_groupID = [], gn_peerID = [],
      gn_ruleVersion = 0, gn_forwarding = no_forwarding, gn_l7Health = InstanceL7Unknown, gn_inflight = 0, gn_traffic = []\<rparr>"

lemma newGeneration_eq:
  "newGenerationLocked role direction phase r =
     (length (rg_gens r), r\<lparr>rg_nextID := Suc (rg_nextID r), rg_gens := rg_gens r @ [fresh_gen (Suc (rg_nextID r)) role direction phase],
        rg_all := AList.update (Suc (rg_nextID r)) (length (rg_gens r)) (rg_all r)\<rparr>)"
  by (simp add: newGenerationLocked_def Let_def fresh_gen_def no_forwarding_def)

lemma reg_invD:
  assumes "reg_inv r"
  shows "struct r" and "reg_caps r" and "avail_ok r" and "gate_ok r"
  using assms by (simp_all add: reg_inv_def)

lemma reg_invI: "struct r \<Longrightarrow> reg_caps r \<Longrightarrow> avail_ok r \<Longrightarrow> gate_ok r \<Longrightarrow> reg_inv r"
  by (simp add: reg_inv_def)

lemma gate_same:
  assumes "gate_ok r" and "gate_view r' = gate_view r" and "rg_arbitrations r' = rg_arbitrations r"
  shows "gate_ok r'"
  using assms by (simp add: gate_ok_def gate_view_def)

lemma gate_fewer:
  assumes "gate_ok r" and "gate_view r' = gate_view r" and "set (rg_arbitrations r') \<subseteq> set (rg_arbitrations r)"
  shows "gate_ok r'"
  using assms by (auto simp: gate_ok_def gate_view_def)

lemma BeginInbound_inv:
  assumes inv: "reg_inv r"
  shows "reg_inv (snd (BeginInbound r))"
proof (cases "rg_closed r \<or> countPhaseLocked RoleUnknown PhasePending r \<ge> rg_maxPending r")
  case True
  then show ?thesis using inv by (auto simp: BeginInbound_def)
next
  case False
  note ok = reg_invD [OF inv]
  let ?x = "fresh_gen (Suc (rg_nextID r)) RoleUnknown DirectionInbound PhasePending"
  let ?r = "r\<lparr>rg_nextID := Suc (rg_nextID r), rg_gens := rg_gens r @ [?x], rg_all := AList.update (Suc (rg_nextID r)) (length (rg_gens r)) (rg_all r)\<rparr>"
  let ?n = "countPhaseLocked RoleUnknown PhasePending ?r"
  let ?s = "?r\<lparr>rg_pendingHigh := max (rg_pendingHigh r) ?n\<rparr>"
  have eq: "snd (BeginInbound r) = signalLocked ?s"
    using False by (simp add: BeginInbound_def newGeneration_eq Let_def)
  have struct: "struct ?r"
    by (rule struct_new [OF ok(1)]) (simp_all add: fresh_gen_def)
  show ?thesis
    unfolding eq signal_inv
  proof (rule reg_invI)
    show "struct ?s"
      using struct by (simp add: struct_def)
    show "reg_caps ?s"
      using ok(2) False countRole_eq(3) [OF ok(1)] countRole_eq(3) [OF struct] by (auto simp: reg_caps_def fresh_gen_def active_def)
    show "avail_ok ?s"
      by (rule avail_append [OF ok(3), where x = ?x]) (simp_all add: gate_view_def fresh_gen_def)
    show "gate_ok ?s"
      by (rule gate_same [OF ok(4)]) (simp_all add: gate_view_def)
  qed
qed

section \<open>Preparing\<close>

definition not_inbound :: "nat \<Rightarrow> Registry \<Rightarrow> bool" where
  "not_inbound g r \<longleftrightarrow> (\<forall>(k, a) \<in> set (rg_arbitrations r). ar_inbound (arb r a) \<noteq> g)"

lemma prepare_peer_struct:
  assumes ok: "struct r" and g: "g < length (rg_gens r)" "gn_role (gen r g) = RoleUnknown" "gn_phase (gen r g) \<noteq> PhaseDone" and "not_inbound g r"
    and x: "gn_id x = Suc g" "gn_role x = RolePeer" "gn_phase x = PhasePrepared" "gn_peerID x = k" "gn_forwarding x = no_forwarding"
    and e: "e = (case map_of (rg_peers r) k of None \<Rightarrow> empty_entry | Some e \<Rightarrow> e)" "en_prepared e = None"
  shows "struct (r\<lparr>rg_gens := (rg_gens r)[g := x], rg_peers := AList.update k (e\<lparr>en_prepared := Some g\<rparr>) (rg_peers r)\<rparr>)" (is "struct ?r")
proof (rule struct_upd [OF ok, where g = g and x = x])
  note inactive = unknown_pending [OF ok g(1,2)]
  show "reg_ids (rg_nextID ?r) (rg_gens ?r) (rg_all ?r)"
    using ids_keep [OF structD(1) [OF ok], of x g] x g(3) by simp
  show "slots_ok RoleClient gn_instanceID (rg_gens ?r) (rg_clients ?r)"
    using slots_frame [OF structD(4) [OF ok], of g x] inactive x by simp
  show "slots_ok RolePeer gn_peerID (rg_gens ?r) (rg_peers ?r)"
    using slots_prepare [OF structD(5) [OF ok] g(1) _ x(2,3,4) e(1)] e(2) inactive by (simp add: entry_empty_def empty_entry_def)
  show "arbs_ok (rg_gens ?r) (rg_arbs ?r) (rg_arbitrations ?r)"
    using arbs_upd [OF structD(6) [OF ok], of g x] assms(5) arbs_role(2) [OF structD(6) [OF ok], of _ _ g] g(2) by (auto simp: not_inbound_def)
qed (use x structD(3) [OF ok] in \<open>simp_all add: gen_ok_def group_ok_def\<close>)

lemma prepare_client_struct:
  assumes ok: "struct r" and g: "g < length (rg_gens r)" "gn_role (gen r g) = RoleUnknown" "gn_phase (gen r g) \<noteq> PhaseDone" and "not_inbound g r"
    and x: "gn_id x = Suc g" "gn_role x = RoleClient" "gn_phase x = PhasePrepared" "gn_instanceID x = k" "gn_forwarding x = no_forwarding"
    and grp: "gn_groupID x = grp" "grp \<noteq> []"
    and e: "e = (case map_of (rg_clients r) k of None \<Rightarrow> e0 | Some e \<Rightarrow> e)" "en_prepared e = None" "ce_groupID e = grp" "entry_empty e0"
  shows "struct (r\<lparr>rg_gens := (rg_gens r)[g := x], rg_clients := AList.update k (e\<lparr>en_prepared := Some g\<rparr>) (rg_clients r)\<rparr>)" (is "struct ?r")
proof (rule struct_upd [OF ok, where g = g and x = x])
  note inactive = unknown_pending [OF ok g(1,2)] and slots = structD(4) [OF ok]
  show "reg_ids (rg_nextID ?r) (rg_gens ?r) (rg_all ?r)"
    using ids_keep [OF structD(1) [OF ok], of x g] x g(3) by simp
  show "slots_ok RolePeer gn_peerID (rg_gens ?r) (rg_peers ?r)"
    using slots_frame [OF structD(5) [OF ok], of g x] inactive x by simp
  show "slots_ok RoleClient gn_instanceID (rg_gens ?r) (rg_clients ?r)"
    using slots_prepare [OF slots g(1) _ x(2,3,4) e(1,4)] e(2) inactive by simp
  show "arbs_ok (rg_gens ?r) (rg_arbs ?r) (rg_arbitrations ?r)"
    using arbs_upd [OF structD(6) [OF ok], of g x] assms(5) arbs_role(2) [OF structD(6) [OF ok], of _ _ g] g(2) by (auto simp: not_inbound_def)
  show "group_ok (rg_clients ?r) x"
    using x grp e(3) by (simp add: group_ok_def update_conv')
  show "group_ok (rg_clients ?r) (gen r h)" if "h < length (rg_gens r)" "h \<noteq> g" for h
  proof -
    have "group_ok (AList.update k (e\<lparr>en_prepared := Some g\<rparr>) (rg_clients r)) (gen r h)"
    proof (rule group_update)
      show "group_ok (rg_clients r) (gen r h)"
        by (rule structD(3) [OF ok nth_mem [OF that(1)]])
      show "ce_groupID (e\<lparr>en_prepared := Some g\<rparr>) = ce_groupID e1" if "map_of (rg_clients r) k = Some e1" for e1
        using that e(1) by simp
      show False if "map_of (rg_clients r) k = None" "gn_role (gen r h) = RoleClient" "active (gen r h)" "gn_instanceID (gen r h) = k"
        using slots_okD(4) [OF slots \<open>h < length (rg_gens r)\<close> that(2,3)] that(1,4) by (simp add: map_of_eq_None_iff)
    qed
    then show ?thesis by simp
  qed
qed (use x in \<open>simp_all add: gen_ok_def\<close>)

text \<open>The shared end of preparing: the high-water mark of the role.\<close>

lemma high_peer_inv:
  assumes "struct r" and "avail_ok r" and "gate_ok r" and "num is_pending (rg_gens r) \<le> rg_pendingHigh r" and "rg_pendingHigh r \<le> rg_maxPending r"
    and "num (is_role RoleClient) (rg_gens r) \<le> rg_clientHigh r" and "rg_clientHigh r \<le> rg_maxClients r"
    and "rg_peerHigh r \<le> rg_maxPeers r" and "num (is_role RolePeer) (rg_gens r) \<le> rg_maxPeers r"
  shows "reg_inv (updateRoleHighWaterLocked RolePeer r)"
proof -
  have eq: "updateRoleHighWaterLocked RolePeer r = r\<lparr>rg_peerHigh := max (rg_peerHigh r) (num (is_role RolePeer) (rg_gens r))\<rparr>"
    by (simp add: updateRoleHighWaterLocked_def Let_def countRole_eq(2) [OF assms(1)])
  show ?thesis
    unfolding eq
  proof (rule reg_invI)
    show "avail_ok (r\<lparr>rg_peerHigh := max (rg_peerHigh r) (num (is_role RolePeer) (rg_gens r))\<rparr>)"
      by (rule avail_same [OF assms(2)]) (simp_all add: gate_view_def)
    show "gate_ok (r\<lparr>rg_peerHigh := max (rg_peerHigh r) (num (is_role RolePeer) (rg_gens r))\<rparr>)"
      by (rule gate_same [OF assms(3)]) (simp_all add: gate_view_def)
  qed (use assms in \<open>simp_all add: struct_def reg_caps_def\<close>)
qed

lemma high_client_inv:
  assumes "struct r" and "avail_ok r" and "gate_ok r" and "num is_pending (rg_gens r) \<le> rg_pendingHigh r" and "rg_pendingHigh r \<le> rg_maxPending r"
    and "num (is_role RolePeer) (rg_gens r) \<le> rg_peerHigh r" and "rg_peerHigh r \<le> rg_maxPeers r"
    and "rg_clientHigh r \<le> rg_maxClients r" and "num (is_role RoleClient) (rg_gens r) \<le> rg_maxClients r"
  shows "reg_inv (updateRoleHighWaterLocked RoleClient r)"
proof -
  have eq: "updateRoleHighWaterLocked RoleClient r = r\<lparr>rg_clientHigh := max (rg_clientHigh r) (num (is_role RoleClient) (rg_gens r))\<rparr>"
    by (simp add: updateRoleHighWaterLocked_def Let_def countRole_eq(1) [OF assms(1)])
  show ?thesis
    unfolding eq
  proof (rule reg_invI)
    show "avail_ok (r\<lparr>rg_clientHigh := max (rg_clientHigh r) (num (is_role RoleClient) (rg_gens r))\<rparr>)"
      by (rule avail_same [OF assms(2)]) (simp_all add: gate_view_def)
    show "gate_ok (r\<lparr>rg_clientHigh := max (rg_clientHigh r) (num (is_role RoleClient) (rg_gens r))\<rparr>)"
      by (rule gate_same [OF assms(3)]) (simp_all add: gate_view_def)
  qed (use assms in \<open>simp_all add: struct_def reg_caps_def\<close>)
qed

lemma pending_gen:
  assumes "struct r" and "g < length (rg_gens r)" and "gn_phase (gen r g) = PhasePending"
  shows "gn_role (gen r g) = RoleUnknown" and "gn_forwarding (gen r g) = no_forwarding" and "gn_id (gen r g) = Suc g"
  using structD(2) [OF assms(1) nth_mem [OF assms(2)]] assms(3) struct_gen_id [OF assms(1,2)] by (simp_all add: gen_ok_def)

lemma prepare_peer_inv:
  assumes inv: "reg_inv r" and g: "g < length (rg_gens r)" "gn_phase (gen r g) = PhasePending" and nb: "not_inbound g r"
    and e: "e = (case map_of (rg_peers r) k of None \<Rightarrow> empty_entry | Some e \<Rightarrow> e)" "en_prepared e = None"
    and x: "gn_id x = Suc g" "gn_role x = RolePeer" "gn_phase x = PhasePrepared" "gn_peerID x = k" "gn_forwarding x = no_forwarding"
    and cap: "num (is_role RolePeer) (rg_gens r) < rg_maxPeers r"
  shows "reg_inv (updateRoleHighWaterLocked RolePeer
    (r\<lparr>rg_gens := (rg_gens r)[g := x], rg_peers := AList.update k (e\<lparr>en_prepared := Some g\<rparr>) (rg_peers r)\<rparr>))" (is "reg_inv (updateRoleHighWaterLocked _ ?r)")
proof (rule high_peer_inv)
  note ok = reg_invD [OF inv] and p = pending_gen [OF reg_invD(1) [OF inv] g]
  show "struct ?r"
    by (rule prepare_peer_struct [OF ok(1) g(1) p(1) _ nb x e]) (simp add: g(2))
  show "avail_ok ?r"
    by (rule avail_upd [OF ok(3), where g = g and x = x]) (use p x in \<open>simp_all add: gate_view_def\<close>)
  show "gate_ok ?r"
    by (rule gate_same [OF ok(4)]) (simp_all add: gate_view_def)
qed (use reg_invD(2) [OF inv] g pending_gen [OF reg_invD(1) [OF inv] g] cap x in \<open>auto simp: reg_caps_def num_update [OF g(1)] active_def\<close>)

lemma prepare_client_inv:
  assumes inv: "reg_inv r" and g: "g < length (rg_gens r)" "gn_phase (gen r g) = PhasePending" and nb: "not_inbound g r"
    and x: "gn_id x = Suc g" "gn_role x = RoleClient" "gn_phase x = PhasePrepared" "gn_instanceID x = k" "gn_forwarding x = no_forwarding"
    and grp: "gn_groupID x = grp" "grp \<noteq> []"
    and e: "e = (case map_of (rg_clients r) k of None \<Rightarrow> e0 | Some e \<Rightarrow> e)" "en_prepared e = None" "ce_groupID e = grp" "entry_empty e0"
    and cap: "num (is_role RoleClient) (rg_gens r) < rg_maxClients r"
  shows "reg_inv (updateRoleHighWaterLocked RoleClient
    (r\<lparr>rg_gens := (rg_gens r)[g := x], rg_clients := AList.update k (e\<lparr>en_prepared := Some g\<rparr>) (rg_clients r)\<rparr>))" (is "reg_inv (updateRoleHighWaterLocked _ ?r)")
proof (rule high_client_inv)
  note ok = reg_invD [OF inv] and p = pending_gen [OF reg_invD(1) [OF inv] g]
  show "struct ?r"
    by (rule prepare_client_struct [OF ok(1) g(1) p(1) _ nb x grp e]) (simp add: g(2))
  show "avail_ok ?r"
    by (rule avail_upd [OF ok(3), where g = g and x = x]) (use p x in \<open>simp_all add: gate_view_def\<close>)
  show "gate_ok ?r"
    by (rule gate_same [OF ok(4)]) (simp_all add: gate_view_def)
qed (use reg_invD(2) [OF inv] g pending_gen [OF reg_invD(1) [OF inv] g] cap x in \<open>auto simp: reg_caps_def num_update [OF g(1)] active_def\<close>)

lemma transfer_inv:
  assumes inv: "reg_inv r" and g: "g < length (rg_gens r)" "gn_phase (gen r g) = PhasePending" and nb: "not_inbound g r"
    and free: "\<And>e. map_of (rg_peers r) k = Some e \<Longrightarrow> en_prepared e = None"
    and cap: "num (is_role RolePeer) (rg_gens r) < rg_maxPeers r"
  shows "reg_inv (transferPendingToPeerLocked g k r)"
proof -
  let ?x = "(gen r g)\<lparr>gn_role := RolePeer, gn_phase := PhasePrepared, gn_peerID := k\<rparr>"
  let ?e = "case map_of (rg_peers r) k of None \<Rightarrow> empty_entry | Some e \<Rightarrow> e"
  note p = pending_gen [OF reg_invD(1) [OF inv] g]
  have eq: "transferPendingToPeerLocked g k r = signalLocked (updateRoleHighWaterLocked RolePeer
      (r\<lparr>rg_gens := (rg_gens r)[g := ?x], rg_peers := AList.update k (?e\<lparr>en_prepared := Some g\<rparr>) (rg_peers r)\<rparr>))"
    using g by (simp add: transferPendingToPeerLocked_def Let_def removePendingLocked_def upd_gen_def)
  show ?thesis
    unfolding eq signal_inv
    by (rule prepare_peer_inv [OF inv g nb refl _ _ _ _ _ _ cap]) (use free p in \<open>auto simp: empty_entry_def split: option.split\<close>)
qed

lemma PrepareClient_inv:
  assumes inv: "reg_inv r" and nb: "not_inbound g r" and grp: "groupID \<noteq> []"
  shows "reg_inv (snd (PrepareClient (Some g) instanceID groupID r))"
proof (cases "fst (PrepareClient (Some g) instanceID groupID r)")
  case (Inl e)
  then have "snd (PrepareClient (Some g) instanceID groupID r) = r"
    by (auto simp: PrepareClient_def Let_def split: if_splits)
  with inv show ?thesis by simp
next
  case (Inr h)
  let ?x = "(gen r g)\<lparr>gn_role := RoleClient, gn_phase := PhasePrepared, gn_instanceID := instanceID, gn_groupID := groupID\<rparr>"
  let ?f = "\<lparr>en_prepared = None, en_current = None, en_retiring = [], ce_groupID = groupID\<rparr>"
  let ?e = "case map_of (rg_clients r) instanceID of None \<Rightarrow> ?f | Some e \<Rightarrow> e"
  note ok = reg_invD [OF inv]
  from Inr have c: "isExactLocked (Some g) RoleUnknown PhasePending r" "countRoleLocked RoleClient r < rg_maxClients r"
      "ce_groupID ?e = groupID" "en_prepared ?e = None"
    by (auto simp: PrepareClient_def Let_def split: if_splits option.splits)
  then have g: "g < length (rg_gens r)" "gn_phase (gen r g) = PhasePending"
    using isExact_iff [OF ok(1)] by auto
  note p = pending_gen [OF ok(1) g]
  have eq: "snd (PrepareClient (Some g) instanceID groupID r) = signalLocked (updateRoleHighWaterLocked RoleClient
      (r\<lparr>rg_gens := (rg_gens r)[g := ?x], rg_clients := AList.update instanceID (?e\<lparr>en_prepared := Some g\<rparr>) (rg_clients r)\<rparr>))"
    using Inr g by (simp add: PrepareClient_def Let_def removePendingLocked_def upd_gen_def split: if_splits)
  show ?thesis
    unfolding eq signal_inv
    by (rule prepare_client_inv [OF inv g nb _ _ _ _ _ _ grp refl c(4,3)])
      (use p c(2) countRole_eq(1) [OF ok(1)] in \<open>simp_all add: entry_empty_def\<close>)
qed

section \<open>Arbitrations\<close>

lemma finish_inv:
  assumes inv: "reg_inv r" and a: "(ar_peerID (arb r a), a) \<in> set (rg_arbitrations r)"
  shows "reg_inv (finishArbitrationLocked a r)"
proof (rule reg_invI)
  note ok = reg_invD [OF inv] and f = finish_arb [OF reg_invD(1,2) [OF inv] a]
  show "avail_ok (finishArbitrationLocked a r)"
    by (rule finish_avail [OF ok(1,2) a ok(3)])
  show "gate_ok (finishArbitrationLocked a r)"
    by (rule gate_fewer [OF ok(4) f(3)]) (auto simp: f(5) mem_delete)
qed (rule finish_arb(1,2) [OF reg_invD(1,2) [OF inv] a])+

lemma exact_arb: "isExactArbitrationLocked (Some a) r \<Longrightarrow> (ar_peerID (arb r a), a) \<in> set (rg_arbitrations r)"
  by (auto simp: isExactArbitrationLocked_def dest: map_of_SomeD)

lemma new_arb_struct:
  assumes ok: "struct r" and g: "g < length (rg_gens r)" "gn_role (gen r g) = RoleUnknown" and nb: "not_inbound g r"
    and e: "map_of (rg_peers r) k = Some e" "en_prepared e = Some l"
    and a: "ar_peerID a = k" "ar_inbound a = g" "ar_loser a = l" "\<not> ar_loserReleased a"
  shows "struct (r\<lparr>rg_arbs := rg_arbs r @ [a], rg_arbitrations := AList.update k (length (rg_arbs r)) (rg_arbitrations r)\<rparr>)"
proof -
  note arbs = arbs_okD [OF structD(6) [OF ok]]
  let ?arbs = "rg_arbs r @ [a]" and ?m = "AList.update k (length (rg_arbs r)) (rg_arbitrations r)"
  have l: "owns RolePeer gn_peerID (rg_gens r) k PhasePrepared l"
    using entry_okD(1) [OF slots_lookup(1) [OF structD(5) [OF ok] e(1)], of l] e(2) by simp
  have new: "arb_ok (rg_gens r) k a"
    using l g a by (simp add: arb_ok_def owns_def active_def)
  have old: "?arbs ! b = arb r b" if "(j, b) \<in> set (rg_arbitrations r)" for j b
    using arbs(2) [OF that] by (simp add: nth_append)
  have mem: "(j, b) \<in> set ?m \<longleftrightarrow> (if j = k then b = length (rg_arbs r) else (j, b) \<in> set (rg_arbitrations r))" for j b
    by (rule mem_update [OF arbs(1)])
  have inb: "ar_inbound (arb r b) \<noteq> g" if "(j, b) \<in> set (rg_arbitrations r)" for j b
    using nb that by (auto simp: not_inbound_def)
  have "arbs_ok (rg_gens r) ?arbs ?m"
    unfolding arbs_ok_def
  proof (intro conjI allI impI)
    show "distinct (keys ?m)"
      by (rule distinct_keys_update [OF arbs(1)])
    show "b < length ?arbs" if "(j, b) \<in> set ?m" for j b
      using that arbs(2) [of j b] unfolding mem by (auto split: if_splits)
    show "arb_ok (rg_gens r) j (?arbs ! b)" if "(j, b) \<in> set ?m" for j b
      using that arbs(3) [of j b] old [of j b] new unfolding mem by (auto split: if_splits)
    show "i = j" if "(i, b) \<in> set ?m \<and> (j, c) \<in> set ?m \<and> ar_inbound (?arbs ! b) = ar_inbound (?arbs ! c)" for i b j c
      using that arbs(4) [of i b j c] old [of i b] old [of j c] inb [of i b] inb [of j c] a(2) unfolding mem
      by (auto split: if_splits)
  qed
  then show ?thesis
    using ok by (simp add: struct_def)
qed

lemma PreparePeer_inv:
  assumes inv: "reg_inv r" and nb: "not_inbound g r"
  shows "reg_inv (snd (PreparePeer (Some g) peerID preferred r))"
proof (cases "fst (PreparePeer (Some g) peerID preferred r)")
  case (Inl e)
  then have "snd (PreparePeer (Some g) peerID preferred r) = r"
    by (auto simp: PreparePeer_def Let_def split: if_splits option.splits)
  with inv show ?thesis by simp
next
  case (Inr out)
  note ok = reg_invD [OF inv]
  from Inr have c: "isExactLocked (Some g) RoleUnknown PhasePending r" "\<not> rg_closed r"
    by (auto simp: PreparePeer_def split: if_splits)
  then have g: "g < length (rg_gens r)" "gn_phase (gen r g) = PhasePending" "gn_role (gen r g) = RoleUnknown"
    using isExact_iff [OF ok(1)] by auto
  show ?thesis
  proof (cases "Option.bind (map_of (rg_peers r) peerID) en_prepared")
    case None
    with Inr have "snd (PreparePeer (Some g) peerID preferred r) = transferPendingToPeerLocked g peerID r"
        "countRoleLocked RolePeer r < rg_maxPeers r"
      by (auto simp: PreparePeer_def Let_def split: if_splits)
    moreover have "en_prepared e = None" if "map_of (rg_peers r) peerID = Some e" for e
      using None that by simp
    ultimately show ?thesis
      using transfer_inv [OF inv g(1,2) nb, of peerID] countRole_eq(2) [OF ok(1)] by simp
  next
    case (Some l)
    then obtain e where e: "map_of (rg_peers r) peerID = Some e" "en_prepared e = Some l"
      by (cases "map_of (rg_peers r) peerID") auto
    let ?a = "\<lparr>ar_id = rg_nextArbID r + 1, ar_peerID = peerID, ar_inbound = g, ar_loser = l, ar_loserReleased = False\<rparr>"
    let ?r = "r\<lparr>rg_nextArbID := rg_nextArbID r + 1, rg_arbs := rg_arbs r @ [?a],
        rg_arbitrations := AList.update peerID (length (rg_arbs r)) (rg_arbitrations r)\<rparr>"
    have eq: "snd (PreparePeer (Some g) peerID preferred r) = signalLocked ?r"
      using Inr Some by (simp add: PreparePeer_def Let_def split: if_splits)
    show ?thesis
      unfolding eq signal_inv
    proof (rule reg_invI)
      show "struct ?r"
        using new_arb_struct [OF ok(1) g(1,3) nb e, of ?a] by (simp add: struct_def)
      show "avail_ok ?r"
        by (rule avail_same [OF ok(3)]) (simp_all add: gate_view_def)
    qed (use ok(2,4) c(2) in \<open>simp_all add: reg_caps_def gate_ok_def\<close>)
  qed
qed

lemma CancelArbitration_inv:
  assumes inv: "reg_inv r"
  shows "reg_inv (snd (CancelArbitration ap abort r))"
proof (cases "\<exists>a. ap = Some a \<and> isExactArbitrationLocked ap r")
  case False
  then have "snd (CancelArbitration ap abort r) = r"
    by (auto simp: CancelArbitration_def split: option.splits)
  with inv show ?thesis by simp
next
  case True
  then obtain a where ap: "ap = Some a" "isExactArbitrationLocked (Some a) r" by auto
  note a = exact_arb [OF ap(2)]
  let ?r = "finishArbitrationLocked a r" and ?g = "ar_inbound (arb r a)"
  note fin = finish_inv [OF inv a] and f = finish_arb [OF reg_invD(1,2) [OF inv] a]
  have role: "gn_role (gen ?r ?g) = RoleUnknown"
    using arbs_okD(3) [OF structD(6) [OF reg_invD(1) [OF inv]] a] by (auto simp: arb_ok_def f(4) finished_gens_def nth_list_update)
  have "no_loser ?g ?r"
    by (rule no_loser_role [OF reg_invD(1) [OF fin]]) (simp add: role)
  note rem = remove_inv [OF reg_invD(1,2) [OF fin] this]
  have "reg_inv (snd (removeLocked (Some ?g) ?r))"
    by (rule reg_invI [OF rem(1,2) rem(5) [OF _ reg_invD(3) [OF fin]] gate_fewer [OF reg_invD(4) [OF fin] rem(3,4)]]) (simp add: role)
  then show ?thesis
    using ap fin by (simp add: CancelArbitration_def Let_def f(6))
qed

lemma finished_owns:
  assumes "owns R ident (finished_gens a r) k ph h" and "ph \<noteq> PhaseDone"
  shows "owns R ident (rg_gens r) k ph h"
  using assms by (cases "h = ar_loser (arb r a)") (auto simp: finished_gens_def owns_def nth_list_update split: if_splits)

lemma CompleteArbitration_inv:
  assumes inv: "reg_inv r"
  shows "reg_inv (snd (CompleteArbitration ap r))"
proof (cases "\<exists>a. ap = Some a \<and> isExactArbitrationLocked ap r")
  case False
  then have "snd (CompleteArbitration ap r) = r"
    by (auto simp: CompleteArbitration_def Let_def split: option.splits)
  with inv show ?thesis by simp
next
  case True
  then obtain a where ap: "ap = Some a" "isExactArbitrationLocked (Some a) r" by auto
  note a = exact_arb [OF ap(2)] and ok = reg_invD [OF inv]
  let ?k = "ar_peerID (arb r a)" and ?g = "ar_inbound (arb r a)" and ?l = "ar_loser (arb r a)" and ?r = "finishArbitrationLocked a r"
  note fin = finish_inv [OF inv a] and f = finish_arb [OF reg_invD(1,2) [OF inv] a]
  have arb: "arb_ok (rg_gens r) ?k (arb r a)"
    by (rule arbs_okD(3) [OF structD(6) [OF ok(1)] a])
  show ?thesis
  proof (cases "fst (CompleteArbitration ap r)")
    case (Inl e)
    then have "snd (CompleteArbitration ap r) \<in> {r, ?r}"
      using ap by (auto simp: CompleteArbitration_def Let_def split: if_splits)
    with inv fin show ?thesis by auto
  next
    case (Inr h)
    then have c: "isExactLocked (Some ?g) RoleUnknown PhasePending r" "ar_loserReleased (arb r a)"
        "\<And>e. map_of (rg_peers r) ?k = Some e \<Longrightarrow> en_prepared e = None" "countRoleLocked RolePeer r \<le> rg_maxPeers r"
      and eq: "snd (CompleteArbitration ap r) = transferPendingToPeerLocked ?g ?k ?r"
      using ap by (auto simp: CompleteArbitration_def Let_def split: if_splits option.splits)
    have l: "?l < length (rg_gens r)" "is_role RolePeer (gen r ?l)"
      using arb by (simp_all add: arb_ok_def)
    have gens: "rg_gens ?r = (rg_gens r)[?l := dropped ?l r]"
      using c(2) f(4) by (simp add: finished_gens_def)
    have g: "?g < length (rg_gens r)" "gn_phase (gen r ?g) = PhasePending" "?g \<noteq> ?l"
      using isExact_iff [OF ok(1)] c(1) l(2) by auto
    show ?thesis
      unfolding eq
    proof (rule transfer_inv [OF fin])
      show "?g < length (rg_gens ?r)" "gn_phase (gen ?r ?g) = PhasePending"
        using g by (simp_all add: gens)
      show "not_inbound ?g ?r"
        using arbs_okD(4) [OF structD(6) [OF ok(1)] a] by (force simp: not_inbound_def f(5,6) mem_delete)
      show "en_prepared e = None" if e: "map_of (rg_peers ?r) ?k = Some e" for e
      proof (rule ccontr)
        assume "en_prepared e \<noteq> None"
        then obtain h where "owns RolePeer gn_peerID (rg_gens ?r) ?k PhasePrepared h"
          using entry_okD(1) [OF slots_lookup(1) [OF structD(5) [OF reg_invD(1) [OF fin]] e]] by auto
        then have h: "owns RolePeer gn_peerID (rg_gens r) ?k PhasePrepared h"
          using finished_owns f(4) by simp
        then obtain e' where e': "map_of (rg_peers r) ?k = Some e'" "entry_ok RolePeer gn_peerID (rg_gens r) ?k e'"
          using slots_find [OF structD(5) [OF ok(1)], of h] by (auto simp: owns_def active_def)
        then show False
          using c(3) [OF e'(1)] entry_okD(1) [OF e'(2), of h] h by simp
      qed
      show "num (is_role RolePeer) (rg_gens ?r) < rg_maxPeers ?r"
        using c(4) countRole_eq(2) [OF ok(1)] num_update [OF l(1), of "is_role RolePeer" "dropped ?l r"] l(2) f(7)
        by (simp add: gens limits_view_def)
    qed
  qed
qed

lemma BeginOutboundPeer_inv:
  assumes inv: "reg_inv r"
  shows "reg_inv (snd (BeginOutboundPeer peerID r))"
proof (cases "fst (BeginOutboundPeer peerID r)")
  case (Inl e)
  then have "snd (BeginOutboundPeer peerID r) = r"
    by (auto simp: BeginOutboundPeer_def Let_def split: if_splits prod.splits)
  with inv show ?thesis by simp
next
  case (Inr h)
  note ok = reg_invD [OF inv]
  let ?i = "Suc (rg_nextID r)" and ?g = "length (rg_gens r)"
  let ?e = "case map_of (rg_peers r) peerID of None \<Rightarrow> empty_entry | Some e \<Rightarrow> e"
  let ?y = "fresh_gen ?i RoleUnknown DirectionOutbound PhasePending"
  let ?x = "(fresh_gen ?i RolePeer DirectionOutbound PhasePrepared)\<lparr>gn_peerID := peerID\<rparr>"
  let ?q = "r\<lparr>rg_nextID := ?i, rg_gens := rg_gens r @ [?y], rg_all := AList.update ?i ?g (rg_all r)\<rparr>"
  let ?r = "?q\<lparr>rg_gens := (rg_gens ?q)[?g := ?x], rg_peers := AList.update peerID (?e\<lparr>en_prepared := Some ?g\<rparr>) (rg_peers ?q)\<rparr>"
  have eq: "snd (BeginOutboundPeer peerID r) = signalLocked (updateRoleHighWaterLocked RolePeer ?r)"
    using Inr by (auto simp: BeginOutboundPeer_def newGeneration_eq upd_gen_def Let_def split: if_splits)
  have c: "en_prepared ?e = None" "countRoleLocked RolePeer r < rg_maxPeers r"
    using Inr by (auto simp: BeginOutboundPeer_def Let_def empty_entry_def split: if_splits option.splits)
  have s0: "struct ?q"
    by (rule struct_new [OF ok(1)]) (simp_all add: fresh_gen_def)
  have len: "rg_nextID r = ?g"
    by (rule registry_ids_okD(1) [OF structD(1) [OF ok(1)]])
  have gens: "rg_gens ?r = rg_gens r @ [?x]"
    by simp
  have nb: "not_inbound ?g ?q"
    using arbs_okD(3) [OF structD(6) [OF ok(1)]] by (force simp: not_inbound_def arb_ok_def)
  show ?thesis
    unfolding eq signal_inv
  proof (rule high_peer_inv)
    show "struct ?r"
      by (rule prepare_peer_struct [OF s0 _ _ _ nb]) (use c(1) len in \<open>simp_all add: fresh_gen_def\<close>)
    show "avail_ok ?r"
      by (rule avail_append [OF ok(3) _ gens]) (simp_all add: gate_view_def fresh_gen_def)
    show "gate_ok ?r"
      by (rule gate_same [OF ok(4)]) (simp_all add: gate_view_def)
  qed (use ok(2) c(2) countRole_eq(2) [OF ok(1)] in \<open>simp_all add: reg_caps_def fresh_gen_def active_def\<close>)
qed

section \<open>Moving between the active phases\<close>

lemma move_client_struct:
  assumes ok: "struct r" and g: "g < length (rg_gens r)" "gn_role (gen r g) = RoleClient" "active (gen r g)"
    and x: "x = (gen r g)\<lparr>gn_phase := ph\<rparr>" "active x" "ph \<noteq> PhasePrepared"
    and e: "map_of (rg_clients r) (gn_instanceID (gen r g)) = Some e" "ce_groupID f = ce_groupID e"
    and slots: "slots_ok RoleClient gn_instanceID ((rg_gens r)[g := x]) (AList.update (gn_instanceID (gen r g)) f (rg_clients r))"
  shows "struct (r\<lparr>rg_gens := (rg_gens r)[g := x], rg_clients := AList.update (gn_instanceID (gen r g)) f (rg_clients r)\<rparr>)" (is "struct ?r")
proof (rule struct_upd [OF ok, where g = g and x = x])
  have groups: "group_ok (AList.update (gn_instanceID (gen r g)) f (rg_clients r)) y" if "group_ok (rg_clients r) y" for y
    by (rule group_update [OF that]) (use e in simp_all)
  show "reg_ids (rg_nextID ?r) (rg_gens ?r) (rg_all ?r)"
    using ids_keep [OF structD(1) [OF ok], of x g] x g struct_gen_id [OF ok g(1)] by (auto simp: active_def)
  show "slots_ok RolePeer gn_peerID (rg_gens ?r) (rg_peers ?r)"
    using slots_frame [OF structD(5) [OF ok], of g x] g x by simp
  show "arbs_ok (rg_gens ?r) (rg_arbs ?r) (rg_arbitrations ?r)"
    using arbs_upd [OF structD(6) [OF ok], of g x] arbs_role [OF structD(6) [OF ok], of _ _ g] g x by fastforce
  show "gen_ok x"
    using structD(2) [OF ok nth_mem [OF g(1)]] g x by (auto simp: gen_ok_def active_def)
  show "group_ok (rg_clients ?r) x"
    using groups [OF structD(3) [OF ok nth_mem [OF g(1)]]] g x by (simp add: group_ok_def)
  show "group_ok (rg_clients ?r) (gen r h)" if "h < length (rg_gens r)" "h \<noteq> g" for h
    using groups [OF structD(3) [OF ok nth_mem [OF that(1)]]] by simp
qed (use slots in simp_all)

lemma move_peer_struct:
  assumes ok: "struct r" and g: "g < length (rg_gens r)" "gn_role (gen r g) = RolePeer" "active (gen r g)"
    and x: "x = (gen r g)\<lparr>gn_phase := ph\<rparr>" "active x" "ph \<noteq> PhasePrepared" "gn_phase (gen r g) = PhaseRetiring \<Longrightarrow> ph = PhaseRetiring"
    and slots: "slots_ok RolePeer gn_peerID ((rg_gens r)[g := x]) ps"
  shows "struct (r\<lparr>rg_gens := (rg_gens r)[g := x], rg_peers := ps\<rparr>)" (is "struct ?r")
proof (rule struct_upd [OF ok, where g = g and x = x])
  show "reg_ids (rg_nextID ?r) (rg_gens ?r) (rg_all ?r)"
    using ids_keep [OF structD(1) [OF ok], of x g] x g struct_gen_id [OF ok g(1)] by (auto simp: active_def)
  show "slots_ok RoleClient gn_instanceID (rg_gens ?r) (rg_clients ?r)"
    using slots_frame [OF structD(4) [OF ok], of g x] g x by simp
  show "arbs_ok (rg_gens ?r) (rg_arbs ?r) (rg_arbitrations ?r)"
    using arbs_upd [OF structD(6) [OF ok], of g x] arbs_role(1) [OF structD(6) [OF ok], of _ _ g] g x by fastforce
  show "gen_ok x"
    using structD(2) [OF ok nth_mem [OF g(1)]] g x by (auto simp: gen_ok_def active_def)
qed (use slots structD(3) [OF ok] g x in \<open>simp_all add: group_ok_def\<close>)

lemma caps_move:
  assumes "reg_caps r" and "limits_view r' = limits_view r" and g: "g < length (rg_gens r)" and "rg_gens r' = (rg_gens r)[g := x]"
    and "gn_role x = gn_role (gen r g)" and "active x" and "active (gen r g)"
  shows "reg_caps r'"
  by (rule caps_view [OF assms(1,2)]) (use assms(4-7) g in \<open>auto simp: num_update active_def\<close>)

lemma no_forwarding_ready [simp]: "gn_forwarding x = no_forwarding \<Longrightarrow> \<not> fwd_ready rules h x"
  by (simp add: fwd_ready_def no_forwarding_def)

text \<open>Committing: the prepared generation becomes the current one; it carries no traffic yet.\<close>

definition current_gen :: "nat \<Rightarrow> Registry \<Rightarrow> Generation" where
  "current_gen g r = (gen r g)\<lparr>gn_phase := PhaseCurrent\<rparr>"

lemma commit_fields:
  assumes "commitLocked g r = (True, r')"
  shows "rg_gens r' = (rg_gens r)[g := current_gen g r]" and "gate_view r' = gate_view r" and "limits_view r' = limits_view r"
    and "rg_arbitrations r' = rg_arbitrations r" and "rg_arbs r' = rg_arbs r"
  using assms by (auto simp: commitLocked_def current_gen_def Let_def gate_view_def limits_view_def signalLocked_def upd_gen_def
      split: Role.splits option.splits)

lemma swap_gens:
  "r\<lparr>rg_clients := cs, rg_gens := gs\<rparr> = r\<lparr>rg_gens := gs, rg_clients := cs\<rparr>"
  "r\<lparr>rg_peers := ps, rg_gens := gs\<rparr> = r\<lparr>rg_gens := gs, rg_peers := ps\<rparr>"
  by simp_all

lemma commit_struct:
  assumes ok: "struct r" and g: "g < length (rg_gens r)" "gn_phase (gen r g) = PhasePrepared" and c: "commitLocked g r = (True, r')"
  shows "struct r'"
proof -
  have act: "active (gen r g)" "active (current_gen g r)"
    using g(2) by (simp_all add: active_def current_gen_def)
  have "gn_role (gen r g) \<noteq> RoleUnknown"
    using unknown_pending [OF ok g(1)] act by blast
  then consider "gn_role (gen r g) = RoleClient" | "gn_role (gen r g) = RolePeer"
    by (cases "gn_role (gen r g)") auto
  then show ?thesis
  proof cases
    case 1
    then obtain m where m: "commit_slots g (gn_instanceID (gen r g)) (rg_clients r) = Some m"
        and eq: "r' = signalLocked (r\<lparr>rg_clients := m, rg_gens := (rg_gens r)[g := current_gen g r]\<rparr>)"
      using c by (auto simp: commitLocked_def current_gen_def upd_gen_def Let_def split: option.splits)
    from m obtain e where e: "map_of (rg_clients r) (gn_instanceID (gen r g)) = Some e"
        "m = AList.update (gn_instanceID (gen r g)) (e\<lparr>en_prepared := None, en_current := Some g\<rparr>) (rg_clients r)"
      by (auto simp: commit_slots_def split: option.splits if_splits)
    have "slots_ok RoleClient gn_instanceID ((rg_gens r)[g := current_gen g r]) m"
      by (rule slots_commit [OF structD(4) [OF ok] g(1) 1 refl _ _ _ m]) (simp_all add: 1 current_gen_def)
    then show ?thesis
      unfolding eq struct_signal swap_gens unfolding e(2)
      by (intro move_client_struct [OF ok g(1) 1 act(1) current_gen_def act(2) _ e(1)]) simp_all
  next
    case 2
    then obtain m where m: "commit_slots g (gn_peerID (gen r g)) (rg_peers r) = Some m"
        and eq: "r' = signalLocked (r\<lparr>rg_peers := m, rg_gens := (rg_gens r)[g := current_gen g r]\<rparr>)"
      using c by (auto simp: commitLocked_def current_gen_def upd_gen_def Let_def split: option.splits)
    have "slots_ok RolePeer gn_peerID ((rg_gens r)[g := current_gen g r]) m"
      by (rule slots_commit [OF structD(5) [OF ok] g(1) 2 refl _ _ _ m]) (simp_all add: 2 current_gen_def)
    then show ?thesis
      unfolding eq struct_signal swap_gens
      by (intro move_peer_struct [OF ok g(1) 2 act(1) current_gen_def act(2)]) (simp_all add: g(2))
  qed
qed

lemma commit_inv:
  assumes inv: "reg_inv r" and g: "g < length (rg_gens r)" "gn_phase (gen r g) = PhasePrepared" and c: "commitLocked g r = (True, r')"
  shows "reg_inv r'"
proof (rule reg_invI)
  note ok = reg_invD [OF inv] and f = commit_fields [OF c]
  have fwd: "gn_forwarding (gen r g) = no_forwarding"
    using gen_okD(3) [OF structD(2) [OF ok(1) nth_mem [OF g(1)]] g(2)] .
  show "struct r'"
    by (rule commit_struct [OF ok(1) g c])
  show "reg_caps r'"
    by (rule caps_move [OF ok(2) f(3) g(1) f(1)]) (simp_all add: current_gen_def active_def g(2))
  show "avail_ok r'"
    by (rule avail_upd [OF ok(3) f(2,1)]) (simp_all add: fwd current_gen_def)
  show "gate_ok r'"
    by (rule gate_same [OF ok(4) f(2,4)])
qed

lemma commit_False: "commitLocked g r = (False, r') \<Longrightarrow> r' = r"
  by (auto simp: commitLocked_def Let_def split: Role.splits option.splits)

lemma CommitReceiver_inv:
  assumes inv: "reg_inv r"
  shows "reg_inv (snd (CommitReceiver g r))"
proof (cases "isExactLocked (Some g) (gn_role (gen r g)) PhasePrepared r")
  case False
  with inv show ?thesis by (simp add: CommitReceiver_def)
next
  case True
  then have g: "g < length (rg_gens r)" "gn_phase (gen r g) = PhasePrepared"
    using isExact_iff [OF reg_invD(1) [OF inv]] by auto
  obtain b r' where c: "commitLocked g r = (b, r')" by fastforce
  show ?thesis
  proof (cases b)
    case True
    with c commit_inv [OF inv g] \<open>isExactLocked _ _ _ _\<close> show ?thesis by (simp add: CommitReceiver_def)
  next
    case False
    with c commit_False [of g r r'] \<open>isExactLocked _ _ _ _\<close> inv show ?thesis by (simp add: CommitReceiver_def)
  qed
qed

lemma CommitOutboundPeer_inv:
  assumes inv: "reg_inv r"
  shows "reg_inv (snd (CommitOutboundPeer gp r))"
proof (cases "fst (CommitOutboundPeer gp r)")
  case False
  then have "snd (CommitOutboundPeer gp r) = r"
    by (auto simp: CommitOutboundPeer_def Let_def split: if_splits option.splits)
  with inv show ?thesis by simp
next
  case True
  then obtain g where g: "gp = Some g" "isExactLocked (Some g) RolePeer PhasePrepared r"
    by (auto simp: CommitOutboundPeer_def isExactLocked_def split: if_splits option.splits)
  then have g': "g < length (rg_gens r)" "gn_phase (gen r g) = PhasePrepared" "gn_role (gen r g) = RolePeer"
    using isExact_iff [OF reg_invD(1) [OF inv]] by auto
  have "commitLocked g r = (True, snd (CommitOutboundPeer gp r))"
    using True g g'(3) by (auto simp: CommitOutboundPeer_def commitLocked_def Let_def split: if_splits option.splits)
  then show ?thesis
    by (rule commit_inv [OF inv g'(1,2)])
qed

section \<open>Retiring and releasing\<close>

definition retiring_gen :: "nat \<Rightarrow> Registry \<Rightarrow> Generation" where
  "retiring_gen g r = (gen r g)\<lparr>gn_phase := PhaseRetiring\<rparr>"

lemma retire_cases:
  assumes ok: "struct r" and g: "g < length (rg_gens r)" "gn_phase (gen r g) \<noteq> PhaseDone" "gn_phase (gen r g) \<noteq> PhasePending"
    "gn_phase (gen r g) \<noteq> PhaseRetiring"
  shows "struct (toRetiring g r) \<and> rg_gens (toRetiring g r) = (rg_gens r)[g := retiring_gen g r] \<and> gate_view (toRetiring g r) = gate_view r \<and>
    limits_view (toRetiring g r) = limits_view r \<and> rg_arbitrations (toRetiring g r) = rg_arbitrations r \<and> rg_arbs (toRetiring g r) = rg_arbs r"
proof -
  have act: "active (gen r g)" "active (retiring_gen g r)"
    using g by (auto simp: live_cases retiring_gen_def active_def)
  have "gn_role (gen r g) \<noteq> RoleUnknown"
    using unknown_pending [OF ok g(1)] act by blast
  then consider "gn_role (gen r g) = RoleClient" | "gn_role (gen r g) = RolePeer"
    by (cases "gn_role (gen r g)") auto
  then show ?thesis
  proof cases
    case 1
    let ?k = "gn_instanceID (gen r g)"
    obtain e where e: "map_of (rg_clients r) ?k = Some e"
      by (rule slots_find [OF structD(4) [OF ok] g(1) 1 act(1)])
    let ?cs = "AList.update ?k (retire_slots (Suc g) g (unlink_slots g e)) (rg_clients r)"
    have eq: "toRetiring g r = r\<lparr>rg_gens := (rg_gens r)[g := retiring_gen g r], rg_clients := ?cs\<rparr>"
      using 1 e g(1) struct_gen_id [OF ok g(1)]
      by (simp add: toRetiring_def unlinkActiveLocked_def addRetiringLocked_def upd_gen_def retiring_gen_def update_conv')
    have "slots_ok RoleClient gn_instanceID ((rg_gens r)[g := retiring_gen g r]) ?cs"
      by (rule slots_retire [OF structD(4) [OF ok] g(1) refl g(4) _ _ _ e]) (simp_all add: 1 retiring_gen_def)
    then have "struct (toRetiring g r)"
      unfolding eq by (intro move_client_struct [OF ok g(1) 1 act(1) retiring_gen_def act(2) _ e])
        (simp_all add: retire_slots_def unlink_slots_def Let_def)
    then show ?thesis
      by (simp add: eq gate_view_def limits_view_def)
  next
    case 2
    let ?k = "gn_peerID (gen r g)"
    obtain e where e: "map_of (rg_peers r) ?k = Some e"
      by (rule slots_find [OF structD(5) [OF ok] g(1) 2 act(1)])
    let ?ps = "AList.update ?k (retire_slots (Suc g) g (unlink_slots g e)) (rg_peers r)"
    have eq: "toRetiring g r = r\<lparr>rg_gens := (rg_gens r)[g := retiring_gen g r], rg_peers := ?ps\<rparr>"
      using 2 e g(1) struct_gen_id [OF ok g(1)]
      by (simp add: toRetiring_def unlinkActiveLocked_def addRetiringLocked_def upd_gen_def retiring_gen_def update_conv')
    have "slots_ok RolePeer gn_peerID ((rg_gens r)[g := retiring_gen g r]) ?ps"
      by (rule slots_retire [OF structD(5) [OF ok] g(1) refl g(4) _ _ _ e]) (simp_all add: 2 retiring_gen_def)
    then have "struct (toRetiring g r)"
      unfolding eq by (intro move_peer_struct [OF ok g(1) 2 act(1) retiring_gen_def act(2)]) simp_all
    then show ?thesis
      by (simp add: eq gate_view_def limits_view_def)
  qed
qed

lemma closed_unavailable: "reg_inv r \<Longrightarrow> rg_closed r \<Longrightarrow> \<not> GroupAvailability grp r"
  by (simp add: reg_inv_def avail_ok_def)

text \<open>An operation that changes one generation and then refreshes its group.\<close>

lemma change_refresh_inv:
  assumes inv: "reg_inv r" and s: "struct r'" "reg_caps r'" and v: "gate_view r' = gate_view r"
    and gens: "rg_gens r' = (rg_gens r)[g := x]" and arbs: "set (rg_arbitrations r') \<subseteq> set (rg_arbitrations r)"
    and grp: "gn_groupID (gen r g) = grp" "gn_groupID x = grp"
  shows "reg_inv (refreshGroupLocked grp r')"
proof (rule refresh_inv [OF s(1) _ _ _ s(2)])
  show "gate_ok r'"
    by (rule gate_fewer [OF reg_invD(4) [OF inv] v arbs])
  show "avail_but grp r'"
    by (rule avail_but_upd [OF reg_invD(3) [OF inv] v gens]) (use grp in \<open>auto simp: fwd_ready_def\<close>)
  show "\<not> GroupAvailability grp r'" if "rg_closed r'"
    using closed_unavailable [OF inv] gate_viewD(1,2) [OF v] that by simp
qed

lemma retire_inv:
  assumes inv: "reg_inv r" and g: "g < length (rg_gens r)" "gn_phase (gen r g) \<noteq> PhaseDone" "gn_phase (gen r g) \<noteq> PhasePending"
    "gn_phase (gen r g) \<noteq> PhaseRetiring"
  shows "struct (toRetiring g r)" and "reg_caps (toRetiring g r)" and "gate_ok (toRetiring g r)"
    and "gn_role (gen r g) = RoleClient \<Longrightarrow> reg_inv (refreshGroupLocked (gn_groupID (gen r g)) (toRetiring g r))"
    and "gn_role (gen r g) \<noteq> RoleClient \<Longrightarrow> reg_inv (toRetiring g r)"
proof -
  note ok = reg_invD [OF inv]
  from retire_cases [OF ok(1) g] have t: "struct (toRetiring g r)" "rg_gens (toRetiring g r) = (rg_gens r)[g := retiring_gen g r]"
      "gate_view (toRetiring g r) = gate_view r" "limits_view (toRetiring g r) = limits_view r" "rg_arbitrations (toRetiring g r) = rg_arbitrations r"
    by blast+
  show "struct (toRetiring g r)" by (rule t(1))
  show caps: "reg_caps (toRetiring g r)"
    by (rule caps_move [OF ok(2) t(4) g(1) t(2)]) (use g in \<open>auto simp: retiring_gen_def active_def live_cases\<close>)
  show gate: "gate_ok (toRetiring g r)"
    by (rule gate_same [OF ok(4) t(3,5)])
  show "reg_inv (refreshGroupLocked (gn_groupID (gen r g)) (toRetiring g r))" if "gn_role (gen r g) = RoleClient"
    by (rule change_refresh_inv [OF inv t(1) caps t(3,2)]) (simp_all add: t(5) retiring_gen_def)
  show "reg_inv (toRetiring g r)" if "gn_role (gen r g) \<noteq> RoleClient"
    by (rule reg_invI [OF t(1) caps avail_upd [OF ok(3) t(3,2)] gate]) (use that in \<open>simp_all add: retiring_gen_def\<close>)
qed

lemma registry_BeginRetire_inv:
  assumes inv: "reg_inv r"
  shows "reg_inv (snd (registry_BeginRetire gp r))"
proof (cases "\<exists>g. gp = Some g \<and> in_all g r \<and> (gn_phase (gen r g) = PhasePrepared \<or> gn_phase (gen r g) = PhaseCurrent)")
  case False
  then have "snd (registry_BeginRetire gp r) = r"
    by (auto simp: registry_BeginRetire_def split: option.splits Phase.splits)
  with inv show ?thesis by simp
next
  case True
  then obtain g where gp: "gp = Some g" and all: "in_all g r" and ph: "gn_phase (gen r g) = PhasePrepared \<or> gn_phase (gen r g) = PhaseCurrent" by blast
  have g: "g < length (rg_gens r)" "gn_phase (gen r g) \<noteq> PhaseDone" "gn_phase (gen r g) \<noteq> PhasePending" "gn_phase (gen r g) \<noteq> PhaseRetiring"
    using all in_all_iff [OF reg_invD(1) [OF inv], of g] ph by auto
  have "rg_gens (toRetiring g r) ! g = retiring_gen g r"
    using retire_cases [OF reg_invD(1) [OF inv] g] g(1) by simp
  then have gen: "gn_role (gen (toRetiring g r) g) = gn_role (gen r g)" "gn_groupID (gen (toRetiring g r) g) = gn_groupID (gen r g)"
    by (simp_all add: retiring_gen_def)
  have "snd (registry_BeginRetire gp r) = signalLocked (if gn_role (gen r g) = RoleClient
      then refreshGroupLocked (gn_groupID (gen r g)) (toRetiring g r) else toRetiring g r)"
    using ph by (elim disjE) (simp_all add: registry_BeginRetire_def Let_def gen gp all)
  then show ?thesis
    using retire_inv(4) [OF inv g] retire_inv(5) [OF inv g] by (cases "gn_role (gen r g) = RoleClient") simp_all
qed

lemma releaseToken_inv:
  assumes inv: "reg_inv r" and nl: "no_loser g r"
  shows "reg_inv (snd (releaseToken g r))"
proof -
  note ok = reg_invD [OF inv] and rem = remove_inv [OF reg_invD(1,2) [OF inv] nl]
  have fst: "fst (removeLocked (Some g) r) = in_all g r"
    by (simp add: removeLocked_eq [of "Some g"])
  show ?thesis
  proof (cases "gn_role (gen r g) = RoleClient \<and> in_all g r")
    case True
    then have g: "g < length (rg_gens r)" "gn_phase (gen r g) \<noteq> PhaseDone"
      using in_all_iff [OF ok(1)] by simp_all
    have act: "active (gen r g)"
      by (rule active_role [OF ok(1) g(1) _ g(2)]) (simp add: True)
    have "gn_groupID (gen r g) \<noteq> []"
      using structD(3) [OF ok(1) nth_mem [OF g(1)]] True act by (simp add: group_ok_def)
    then have "snd (releaseToken g r) = signalLocked (refreshGroupLocked (gn_groupID (gen r g)) (snd (removeLocked (Some g) r)))"
      using True fst by (simp add: releaseToken_def Let_def case_prod_beta)
    moreover have "reg_inv (refreshGroupLocked (gn_groupID (gen r g)) (snd (removeLocked (Some g) r)))"
      by (rule change_refresh_inv [OF inv rem(1,2,3) rem(6) rem(4)]) (use True in \<open>simp_all add: dropped_def\<close>)
    ultimately show ?thesis by simp
  next
    case False
    then have cond: "gn_role (gen r g) \<noteq> RoleClient \<or> \<not> in_all g r" by blast
    have "reg_inv (snd (removeLocked (Some g) r))"
      by (rule reg_invI [OF rem(1,2) rem(5) [OF cond ok(3)] gate_fewer [OF ok(4) rem(3,4)]])
    moreover have "snd (releaseToken g r) \<in> {signalLocked (snd (removeLocked (Some g) r)), snd (removeLocked (Some g) r)}"
      using cond fst by (auto simp: releaseToken_def Let_def case_prod_beta)
    ultimately show ?thesis by auto
  qed
qed

lemma loser_key:
  assumes "struct r" and "(k, a) \<in> set (rg_arbitrations r)" and "ar_loser (arb r a) = g"
  shows "map_of (rg_arbitrations r) (gn_peerID (gen r g)) = Some a" and "in_all g r" and "gn_role (gen r g) = RolePeer"
proof -
  have arb: "arb_ok (rg_gens r) k (arb r a)"
    by (rule arbs_okD(3) [OF structD(6) [OF assms(1)] assms(2)])
  then have "gn_peerID (gen r g) = k"
    using assms(3) by (simp add: arb_ok_def)
  then show "map_of (rg_arbitrations r) (gn_peerID (gen r g)) = Some a"
    using map_of_is_SomeI [OF arbs_okD(1) [OF structD(6) [OF assms(1)]] assms(2)] by simp
  show "in_all g r" "gn_role (gen r g) = RolePeer"
    using arb assms(3) in_all_iff [OF assms(1), of g] by (simp_all add: arb_ok_def live_cases)
qed

lemma released_struct:
  assumes ok: "struct r" and a: "gn_phase (gen r (ar_loser (arb r a))) = PhaseRetiring"
  shows "struct (r\<lparr>rg_arbs := (rg_arbs r)[a := (arb r a)\<lparr>ar_loserReleased := True\<rparr>]\<rparr>)"
proof -
  note arbs = arbs_okD [OF structD(6) [OF ok]]
  let ?arbs = "(rg_arbs r)[a := (arb r a)\<lparr>ar_loserReleased := True\<rparr>]"
  have same: "ar_inbound (?arbs ! b) = ar_inbound (arb r b)" if "b < length (rg_arbs r)" for b
    using that by (cases "b = a") simp_all
  have "arb_ok (rg_gens r) k (?arbs ! b)" if "(k, b) \<in> set (rg_arbitrations r)" for k b
    using arbs(2,3) [OF that] a by (cases "b = a") (simp_all add: arb_ok_def)
  moreover have "k = j" if "(k, b) \<in> set (rg_arbitrations r)" "(j, c) \<in> set (rg_arbitrations r)"
      "ar_inbound (?arbs ! b) = ar_inbound (?arbs ! c)" for k b j c
    using arbs(4) [OF that(1,2)] that(3) same [OF arbs(2) [OF that(1)]] same [OF arbs(2) [OF that(2)]] by simp
  ultimately have "arbs_ok (rg_gens r) ?arbs (rg_arbitrations r)"
    using arbs(1,2) unfolding arbs_ok_def length_list_update by blast
  then show ?thesis
    using ok by (simp add: struct_def)
qed

lemma released_inv:
  assumes inv: "reg_inv r" and a: "gn_phase (gen r (ar_loser (arb r a))) = PhaseRetiring"
  shows "reg_inv (r\<lparr>rg_arbs := (rg_arbs r)[a := (arb r a)\<lparr>ar_loserReleased := True\<rparr>]\<rparr>)"
proof (rule reg_invI)
  note ok = reg_invD [OF inv]
  let ?r = "r\<lparr>rg_arbs := (rg_arbs r)[a := (arb r a)\<lparr>ar_loserReleased := True\<rparr>]\<rparr>"
  show "struct ?r" by (rule released_struct [OF ok(1) a])
  show "reg_caps ?r" using ok(2) by (simp add: reg_caps_def)
  show "avail_ok ?r" by (rule avail_same [OF ok(3)]) (simp_all add: gate_view_def)
  show "gate_ok ?r" by (rule gate_same [OF ok(4)]) (simp_all add: gate_view_def)
qed

lemma Release_inv:
  assumes inv: "reg_inv r"
  shows "reg_inv (snd (Release gp r))"
proof (cases gp)
  case None
  with inv show ?thesis by (simp add: Release_def)
next
  case (Some g)
  note ok = reg_invD [OF inv]
  let ?arb = "if in_all g r then map_of (rg_arbitrations r) (gn_peerID (gen r g)) else None"
  show ?thesis
  proof (cases "\<exists>a. ?arb = Some a \<and> ar_loser (arb r a) = g")
    case False
    have "no_loser g r"
      unfolding no_loser_def
    proof clarify
      fix k a assume m: "(k, a) \<in> set (rg_arbitrations r)" and l: "g = ar_loser (arb r a)"
      from loser_key(1,2) [OF ok(1) m l [symmetric]] False l show False by simp
    qed
    moreover have "snd (Release gp r) = snd (releaseToken g r)"
      using Some False by (auto simp: Release_def split: option.splits)
    ultimately show ?thesis
      using releaseToken_inv [OF inv] by simp
  next
    case True
    then obtain a where a: "in_all g r" "map_of (rg_arbitrations r) (gn_peerID (gen r g)) = Some a" "ar_loser (arb r a) = g"
      by (auto split: if_splits)
    have role: "gn_role (gen r g) = RolePeer"
      by (rule loser_key(3) [OF ok(1) map_of_SomeD [OF a(2)] a(3)])
    have g: "g < length (rg_gens r)" "gn_phase (gen r g) \<noteq> PhaseDone"
      using in_all_iff [OF ok(1), of g] a(1) by simp_all
    have pend: "gn_phase (gen r g) \<noteq> PhasePending"
      using pending_gen(1) [OF ok(1) g(1)] role by auto
    let ?r = "if gn_phase (gen r g) \<noteq> PhaseRetiring then toRetiring g r else r"
    have r: "reg_inv ?r \<and> gn_phase (gen ?r g) = PhaseRetiring \<and> rg_arbs ?r = rg_arbs r"
    proof (cases "gn_phase (gen r g) = PhaseRetiring")
      case False
      then show ?thesis
        using retire_inv(5) [OF inv g pend False] retire_cases [OF ok(1) g pend False] role g(1) by (simp add: retiring_gen_def)
    qed (use inv in simp)
    have "snd (Release gp r) \<in> {r, signalLocked (?r\<lparr>rg_arbs := (rg_arbs ?r)[a := (arb ?r a)\<lparr>ar_loserReleased := True\<rparr>]\<rparr>)}"
      using Some a by (simp add: Release_def Let_def)
    moreover have "reg_inv (?r\<lparr>rg_arbs := (rg_arbs ?r)[a := (arb ?r a)\<lparr>ar_loserReleased := True\<rparr>]\<rparr>)"
      using r a(3) by (intro released_inv) auto
    ultimately show ?thesis
      using inv by auto
  qed
qed

section \<open>Publishing\<close>

lemma tweak_struct:
  assumes ok: "struct r" and g: "g < length (rg_gens r)" and x: "gn_role x = gn_role (gen r g)" "gn_phase x = gn_phase (gen r g)"
    "gn_id x = gn_id (gen r g)" "gn_peerID x = gn_peerID (gen r g)" "gn_instanceID x = gn_instanceID (gen r g)"
    "gn_groupID x = gn_groupID (gen r g)" and "gen_ok x" and r': "r' = r\<lparr>rg_gens := (rg_gens r)[g := x]\<rparr>"
  shows "struct r'"
proof -
  have act: "active x = active (gen r g)"
    using x by (simp add: active_def)
  have "reg_ids (rg_nextID r) ((rg_gens r)[g := x]) (rg_all r)"
  proof -
    note ids = registry_ids_okD [OF structD(1) [OF ok]]
    have "gn_id ((rg_gens r)[g := x] ! h) = Suc h" if "h < length (rg_gens r)" for h
      using ids(2) [OF that] that x by (cases "h = g") simp_all
    moreover have "gn_phase ((rg_gens r)[g := x] ! h) = gn_phase (gen r h)" for h
      using x g by (cases "h = g") simp_all
    ultimately show ?thesis
      using ids(1,3) ids(4) unfolding reg_ids_def length_list_update by simp
  qed
  moreover have "arbs_ok ((rg_gens r)[g := x]) (rg_arbs r) (rg_arbitrations r)"
  proof (rule arbs_upd [OF structD(6) [OF ok]])
    fix k a assume m: "(k, a) \<in> set (rg_arbitrations r)"
    show "gn_role x = RoleUnknown" if "ar_inbound (arb r a) = g"
      using arbs_role(1) [OF structD(6) [OF ok] m that] x by simp
    show "gn_role x = RolePeer \<and> gn_peerID x = gn_peerID (gen r g) \<and> active x \<and> (gn_phase (gen r g) = PhaseRetiring \<longrightarrow> gn_phase x = PhaseRetiring)"
      if "ar_loser (arb r a) = g"
      using arbs_okD(3) [OF structD(6) [OF ok] m] that x act by (simp add: arb_ok_def)
  qed
  moreover have "group_ok (rg_clients r) x"
    using structD(3) [OF ok nth_mem [OF g]] x act by (simp add: group_ok_def)
  ultimately show ?thesis
    unfolding r' using assms(9) structD(3) [OF ok] slots_same [OF structD(4) [OF ok] x(1,2,5)] slots_same [OF structD(5) [OF ok] x(1,2,4)]
    by (intro struct_upd [OF ok, where g = g and x = x]) simp_all
qed

lemma tweak_caps:
  assumes "reg_caps r" and "g < length (rg_gens r)" and "gn_role x = gn_role (gen r g)" and "gn_phase x = gn_phase (gen r g)"
  shows "reg_caps (r\<lparr>rg_gens := (rg_gens r)[g := x]\<rparr>)"
  using assms by (simp add: reg_caps_def num_update active_def)

lemma tweak_inv:
  assumes inv: "reg_inv r" and g: "g < length (rg_gens r)" and x: "gn_role x = gn_role (gen r g)" "gn_phase x = gn_phase (gen r g)"
    "gn_id x = gn_id (gen r g)" "gn_peerID x = gn_peerID (gen r g)" "gn_instanceID x = gn_instanceID (gen r g)"
    "gn_groupID x = gn_groupID (gen r g)" and "gen_ok x"
  shows "gn_role x = RoleClient \<Longrightarrow> reg_inv (refreshGroupLocked (gn_groupID x) (r\<lparr>rg_gens := (rg_gens r)[g := x]\<rparr>))"
    and "gn_role x \<noteq> RoleClient \<or> (\<forall>h. fwd_ready (rg_groupRules r) h x = fwd_ready (rg_groupRules r) h (gen r g)) \<Longrightarrow>
      reg_inv (r\<lparr>rg_gens := (rg_gens r)[g := x]\<rparr>)"
proof -
  let ?r = "r\<lparr>rg_gens := (rg_gens r)[g := x]\<rparr>"
  note ok = reg_invD [OF inv] and s = tweak_struct [OF reg_invD(1) [OF inv] g x assms(9) refl]
  have c: "reg_caps ?r" and v: "gate_view ?r = gate_view r"
    using tweak_caps [OF ok(2) g x(1,2)] by (simp_all add: gate_view_def)
  show "reg_inv (refreshGroupLocked (gn_groupID x) ?r)" if "gn_role x = RoleClient"
    by (rule change_refresh_inv [OF inv s c v, where g = g and x = x]) (simp_all add: x)
  assume cond: "gn_role x \<noteq> RoleClient \<or> (\<forall>h. fwd_ready (rg_groupRules r) h x = fwd_ready (rg_groupRules r) h (gen r g))"
  have "avail_ok ?r"
  proof (cases "gn_role x = RoleClient")
    case False
    with x(1) show ?thesis
      by (intro avail_upd [OF ok(3) v, where g = g and x = x]) simp_all
  next
    case True
    then have eq: "fwd_ready (rg_groupRules r) h x = fwd_ready (rg_groupRules r) h (gen r g)" for h
      using cond by blast
    have "fwd_ready (rg_groupRules r) h ((rg_gens r)[g := x] ! i) = fwd_ready (rg_groupRules r) h (gen r i)" for h i
      using eq g by (cases "i = g") simp_all
    then have "(\<exists>y \<in> set ((rg_gens r)[g := x]). fwd_ready (rg_groupRules r) h y) = (\<exists>y \<in> set (rg_gens r). fwd_ready (rg_groupRules r) h y)" for h
      by (simp add: Bex_def in_set_conv_nth) metis
    then show ?thesis
      using ok(3) by (simp add: avail_ok_def GroupAvailability_def)
  qed
  then show "reg_inv ?r"
    by (rule reg_invI [OF s c _ gate_same [OF ok(4) v]]) simp
qed

lemma current_gen_ok:
  assumes "reg_inv r" and "registry_isCurrentLocked (Some g) r"
  shows "g < length (rg_gens r)" and "gn_phase (gen r g) = PhaseCurrent" and "gen_ok (gen r g)"
proof -
  show "g < length (rg_gens r)" "gn_phase (gen r g) = PhaseCurrent"
    using isCurrent_iff [OF reg_invD(1) [OF assms(1)], of g] assms(2) by simp_all
  then show "gen_ok (gen r g)"
    using structD(2) [OF reg_invD(1) [OF assms(1)] nth_mem] by blast
qed

lemma PublishForwarding_inv:
  assumes inv: "reg_inv r"
  shows "reg_inv (snd (PublishForwarding gp eligibility r))"
proof (cases "\<exists>g. gp = Some g \<and> registry_isCurrentLocked (Some g) r \<and> gn_forwarding (gen r g) \<noteq> eligibility")
  case False
  then have "snd (PublishForwarding gp eligibility r) = r"
    by (auto simp: PublishForwarding_def split: option.splits)
  with inv show ?thesis by simp
next
  case True
  then obtain g where g: "gp = Some g" "registry_isCurrentLocked (Some g) r" "gn_forwarding (gen r g) \<noteq> eligibility" by blast
  note c = current_gen_ok [OF inv g(2)]
  let ?x = "(gen r g)\<lparr>gn_forwarding := eligibility\<rparr>"
  have ok: "gen_ok ?x"
    using c by (auto simp: gen_ok_def active_def)
  have eq: "snd (PublishForwarding gp eligibility r) = signalLocked (if gn_role ?x = RoleClient
      then refreshGroupLocked (gn_groupID ?x) (r\<lparr>rg_gens := (rg_gens r)[g := ?x]\<rparr>) else r\<lparr>rg_gens := (rg_gens r)[g := ?x]\<rparr>)"
    using g c(1) by (simp add: PublishForwarding_def Let_def upd_gen_def)
  show ?thesis
    unfolding eq signal_inv using tweak_inv [OF inv c(1) _ _ _ _ _ _ ok] by simp
qed

lemma publishL4Healthy_inv:
  assumes inv: "reg_inv r"
  shows "reg_inv (snd (publishL4Healthy gp r))"
proof (cases "\<exists>g. gp = Some g \<and> registry_isCurrentLocked (Some g) r \<and> gn_role (gen r g) = RoleClient \<and> \<not> fe_L4Healthy (gn_forwarding (gen r g))")
  case False
  then have "snd (publishL4Healthy gp r) = r"
    by (auto simp: publishL4Healthy_def split: option.splits)
  with inv show ?thesis by simp
next
  case True
  then obtain g where g: "gp = Some g" "registry_isCurrentLocked (Some g) r" "gn_role (gen r g) = RoleClient" "\<not> fe_L4Healthy (gn_forwarding (gen r g))"
    by blast
  note c = current_gen_ok [OF inv g(2)]
  let ?x = "(gen r g)\<lparr>gn_forwarding := (gn_forwarding (gen r g))\<lparr>fe_L4Healthy := True\<rparr>\<rparr>"
  have ok: "gen_ok ?x"
    using c by (auto simp: gen_ok_def active_def)
  have eq: "snd (publishL4Healthy gp r) = signalLocked (refreshGroupLocked (gn_groupID ?x) (r\<lparr>rg_gens := (rg_gens r)[g := ?x]\<rparr>))"
    using g c(1) by (simp add: publishL4Healthy_def Let_def upd_gen_def)
  show ?thesis
    unfolding eq signal_inv using tweak_inv(1) [OF inv c(1) _ _ _ _ _ _ ok] g(3) by simp
qed

lemma PublishInstanceL7Health_inv:
  assumes inv: "reg_inv r"
  shows "reg_inv (snd (PublishInstanceL7Health gp health r))"
proof (cases "\<exists>g. gp = Some g \<and> registry_isCurrentLocked (Some g) r \<and> gn_role (gen r g) = RoleClient")
  case False
  then have "snd (PublishInstanceL7Health gp health r) = r"
    by (auto simp: PublishInstanceL7Health_def split: option.splits)
  with inv show ?thesis by simp
next
  case True
  then obtain g where g: "gp = Some g" "registry_isCurrentLocked (Some g) r" "gn_role (gen r g) = RoleClient" by blast
  note c = current_gen_ok [OF inv g(2)]
  let ?x = "(gen r g)\<lparr>gn_l7Health := health\<rparr>"
  have ok: "gen_ok ?x"
    using c by (auto simp: gen_ok_def active_def)
  have eq: "snd (PublishInstanceL7Health gp health r) = r\<lparr>rg_gens := (rg_gens r)[g := ?x]\<rparr>"
    using g by (simp add: PublishInstanceL7Health_def upd_gen_def)
  show ?thesis
    unfolding eq by (rule tweak_inv(2) [OF inv c(1) _ _ _ _ _ _ ok]) (simp_all add: fwd_ready_def)
qed

text \<open>Publishing a rule of a group only concerns that group.\<close>

lemma rule_avail_but:
  assumes av: "avail_ok r" and gens: "rg_gens r' = (rg_gens r)[g := x]" and same: "rg_closed r' = rg_closed r" "rg_groupAvailable r' = rg_groupAvailable r"
    and rules: "rg_groupRules r' = rg_groupRules r \<or> rg_groupRules r' = AList.update grp rule (rg_groupRules r)"
    and grp: "gn_groupID (gen r g) = grp" "gn_groupID x = grp"
  shows "avail_but grp r'"
proof -
  have "avail_but grp (r'\<lparr>rg_groupRules := rg_groupRules r, rg_panicked := rg_panicked r, rg_groupClosed := rg_groupClosed r\<rparr>)" (is "avail_but grp ?r")
    by (rule avail_but_upd [OF av, where g = g and x = x]) (use gens same grp in \<open>auto simp: gate_view_def fwd_ready_def\<close>)
  moreover have "fwd_ready (rg_groupRules r') h y = fwd_ready (rg_groupRules r) h y" if "h \<noteq> grp" for h y
    using rules that by (auto simp: fwd_ready_def update_conv')
  ultimately show ?thesis
    by (simp add: avail_but_def group_ready_def GroupAvailability_def)
qed

lemma commitClientRule_inv:
  assumes inv: "reg_inv r" and grp: "gn_groupID (gen r g) = groupID"
  shows "reg_inv (snd (commitClientRule g groupID version policy publish r))"
proof (cases "isExactLocked (Some g) RoleClient PhasePrepared r \<and> fst (commitLocked g r)")
  case False
  then have "snd (commitClientRule g groupID version policy publish r) = r"
    using commit_False [of g r] by (cases "commitLocked g r") (auto simp: commitClientRule_def)
  with inv show ?thesis by simp
next
  case True
  then obtain r1 where c: "commitLocked g r = (True, r1)"
    by (cases "commitLocked g r") auto
  have g: "g < length (rg_gens r)" "gn_phase (gen r g) = PhasePrepared" "gn_role (gen r g) = RoleClient"
    using isExact_iff [OF reg_invD(1) [OF inv], of g] True by simp_all
  note inv1 = commit_inv [OF inv g(1,2) c] and f = commit_fields [OF c]
  let ?x = "(gen r1 g)\<lparr>gn_ruleVersion := version, gn_forwarding := \<lparr>fe_SessionReady = True, fe_DeclarationReady = True, fe_L4Healthy = False\<rparr>\<rparr>"
  let ?r2 = "r1\<lparr>rg_gens := (rg_gens r1)[g := ?x]\<rparr>"
  let ?r3 = "if publish then ?r2\<lparr>rg_groupRules := AList.update groupID \<lparr>ru_version = version, ru_policy = policy\<rparr> (rg_groupRules ?r2)\<rparr> else ?r2"
  have gen1: "gen r1 g = current_gen g r" and len: "g < length (rg_gens r1)"
    using f(1) g(1) by simp_all
  have "gen_ok ?x"
    by (simp add: gen1 current_gen_def gen_ok_def g(3))
  note s = tweak_struct [OF reg_invD(1) [OF inv1] len _ _ _ _ _ _ this refl]
  have eq: "snd (commitClientRule g groupID version policy publish r) = refreshGroupLocked groupID ?r3"
    using True c by (simp add: commitClientRule_def Let_def upd_gen_def)
  show ?thesis
    unfolding eq
  proof (rule refresh_inv)
    show "struct ?r3"
      using s by simp
    show "reg_caps ?r3"
      using tweak_caps [OF reg_invD(2) [OF inv1] len, of ?x] by simp
    show "gate_ok ?r3"
      using reg_invD(4) [OF inv1] by (simp add: gate_ok_def)
    show "avail_but groupID ?r3"
      by (rule rule_avail_but [OF reg_invD(3) [OF inv1], where g = g and x = ?x and rule = "\<lparr>ru_version = version, ru_policy = policy\<rparr>"])
        (use grp in \<open>simp_all add: gen1 current_gen_def\<close>)
    show "\<not> GroupAvailability groupID ?r3" if "rg_closed ?r3"
      using closed_unavailable [OF inv1, of groupID] that by (cases publish) (simp_all add: GroupAvailability_def)
  qed
qed

section \<open>Stopping\<close>

lemma stopGate_inv:
  assumes inv: "reg_inv r"
  shows "reg_inv (snd (stopGate r))"
proof (cases "rg_closed r")
  case True
  with inv show ?thesis by (simp add: stopGate_def)
next
  case False
  note ok = reg_invD [OF inv]
  let ?r = "closeGroupChanged (r\<lparr>rg_closed := True, rg_groupAvailable := []\<rparr>)\<lparr>rg_groupClosed := True, rg_arbitrations := []\<rparr>"
  have eq: "snd (stopGate r) = signalLocked ?r"
    using False by (simp add: stopGate_def Let_def)
  have "arbs_ok (rg_gens r) (rg_arbs r) []"
    by (simp add: arbs_ok_def)
  then have "struct ?r"
    using ok(1) by (simp add: struct_def closeGroupChanged_def)
  moreover have "reg_caps ?r" "avail_ok ?r" "gate_ok ?r"
    using ok(2,4) False by (simp_all add: reg_caps_def avail_ok_def GroupAvailability_def gate_ok_def closeGroupChanged_def)
  ultimately show ?thesis
    unfolding eq signal_inv by (rule reg_invI)
qed

lemma closed_remove_inv:
  assumes inv: "reg_inv r" and closed: "rg_closed r"
  shows "reg_inv (snd (removeLocked (Some g) r))" and "rg_closed (snd (removeLocked (Some g) r))"
proof -
  note ok = reg_invD [OF inv]
  have "no_loser g r"
    using ok(4) closed by (simp add: gate_ok_def no_loser_def)
  note rem = remove_inv [OF ok(1,2) this]
  have "avail_ok (snd (removeLocked (Some g) r))"
    using ok(3) closed gate_viewD(1,2) [OF rem(3)] by (simp add: avail_ok_def)
  then show "reg_inv (snd (removeLocked (Some g) r))"
    by (rule reg_invI [OF rem(1,2) _ gate_fewer [OF ok(4) rem(3,4)]])
  show "rg_closed (snd (removeLocked (Some g) r))"
    using gate_viewD(1) [OF rem(3)] closed by simp
qed

lemma stopFinish_inv:
  assumes "reg_inv r" and "rg_closed r"
  shows "reg_inv (stopFinish gs r) \<and> rg_closed (stopFinish gs r)"
  using assms unfolding stopFinish_def
  by (induction gs arbitrary: r) (simp_all add: closed_remove_inv)

end
