(* ===== verification/Mesh_Registry_Runs.thy ===== *)
theory Mesh_Registry_Runs
  imports Mesh_Registry_Steps
begin

text \<open>
  The mesh registry under any sequence of operations: identities are exact, limits hold, the availability of a
  group is exact, and \<open>Stop\<close> leaves nothing behind.
\<close>

section \<open>The machine\<close>

datatype registry_op =
    Begin_inbound | Begin_outbound string | Prepare_client nat string string | Prepare_peer nat string bool
  | Complete_arbitration nat | Cancel_arbitration nat bool | Commit_receiver nat | Commit_outbound nat
  | Commit_client_rule nat string u64 string bool | Begin_retire nat | Release_generation nat
  | Publish_forwarding nat ForwardingEligibility | Publish_L4 nat | Publish_L7 nat InstanceL7Health
  | Stop_gate | Stop_finish "nat list"

fun registry_step :: "registry_op \<Rightarrow> Registry \<Rightarrow> Registry" where
  "registry_step Begin_inbound r = snd (BeginInbound r)"
| "registry_step (Begin_outbound peerID) r = snd (BeginOutboundPeer peerID r)"
| "registry_step (Prepare_client g instanceID groupID) r = snd (PrepareClient (Some g) instanceID groupID r)"
| "registry_step (Prepare_peer g peerID preferred) r = snd (PreparePeer (Some g) peerID preferred r)"
| "registry_step (Complete_arbitration a) r = snd (CompleteArbitration (Some a) r)"
| "registry_step (Cancel_arbitration a abort) r = snd (CancelArbitration (Some a) abort r)"
| "registry_step (Commit_receiver g) r = snd (CommitReceiver g r)"
| "registry_step (Commit_outbound g) r = snd (CommitOutboundPeer (Some g) r)"
| "registry_step (Commit_client_rule g groupID version policy publish) r = snd (commitClientRule g groupID version policy publish r)"
| "registry_step (Begin_retire g) r = snd (registry_BeginRetire (Some g) r)"
| "registry_step (Release_generation g) r = snd (Release (Some g) r)"
| "registry_step (Publish_forwarding g eligibility) r = snd (PublishForwarding (Some g) eligibility r)"
| "registry_step (Publish_L4 g) r = snd (publishL4Healthy (Some g) r)"
| "registry_step (Publish_L7 g health) r = snd (PublishInstanceL7Health (Some g) health r)"
| "registry_step Stop_gate r = snd (stopGate r)"
| "registry_step (Stop_finish gs) r = stopFinish gs r"

text \<open>How the server uses the registry: a session that was answered with an arbitration completes or cancels it
  before it registers again, group names are not empty, a client commits the declaration of its own group, and the second
  part of \<open>Stop\<close> comes after the first.\<close>

fun registry_op_valid :: "registry_op \<Rightarrow> Registry \<Rightarrow> bool" where
  "registry_op_valid (Prepare_client g instanceID groupID) r \<longleftrightarrow> not_inbound g r \<and> groupID \<noteq> []"
| "registry_op_valid (Prepare_peer g peerID preferred) r \<longleftrightarrow> not_inbound g r"
| "registry_op_valid (Commit_client_rule g groupID version policy publish) r \<longleftrightarrow> gn_groupID (gen r g) = groupID"
| "registry_op_valid (Stop_finish gs) r \<longleftrightarrow> rg_closed r"
| "registry_op_valid _ r \<longleftrightarrow> True"

lemma registry_step_inv:
  assumes "reg_inv r" and "registry_op_valid op r"
  shows "reg_inv (registry_step op r)"
  using assms by (cases op) (simp_all add: BeginInbound_inv BeginOutboundPeer_inv PrepareClient_inv PreparePeer_inv CompleteArbitration_inv
      CancelArbitration_inv CommitReceiver_inv CommitOutboundPeer_inv commitClientRule_inv registry_BeginRetire_inv Release_inv PublishForwarding_inv
      publishL4Healthy_inv PublishInstanceL7Health_inv stopGate_inv stopFinish_inv)

interpretation registry: machine registry_op_valid registry_step reg_inv
  by unfold_locales (rule registry_step_inv)

lemma NewRegistry_inv:
  assumes "0 \<le> maxPending" and "0 \<le> maxClients" and "0 \<le> maxPeers"
  shows "reg_inv (NewRegistry maxPending maxClients maxPeers)"
proof (rule reg_invI)
  show "struct (NewRegistry maxPending maxClients maxPeers)"
    by (simp add: NewRegistry_def struct_def reg_ids_def slots_ok_def arbs_ok_def)
  show "reg_caps (NewRegistry maxPending maxClients maxPeers)"
    using assms by (simp add: NewRegistry_def reg_caps_def num_def)
qed (simp_all add: NewRegistry_def avail_ok_def GroupAvailability_def gate_ok_def)

text \<open>A registry that can be reached with the given limits.\<close>

definition reachable :: "int \<Rightarrow> int \<Rightarrow> int \<Rightarrow> Registry \<Rightarrow> bool" where
  "reachable maxPending maxClients maxPeers r \<longleftrightarrow>
     (\<exists>ops. exec_ok registry_op_valid registry_step ops (NewRegistry maxPending maxClients maxPeers) \<and>
        r = exec registry_step ops (NewRegistry maxPending maxClients maxPeers))"

lemma reachable_inv:
  assumes "reachable p c q r" and "0 \<le> p" and "0 \<le> c" and "0 \<le> q"
  shows "reg_inv r"
  using assms(1) registry.exec_inv [OF NewRegistry_inv [OF assms(2-4)]] by (auto simp: reachable_def)

text \<open>The limits never change.\<close>

definition maxima :: "Registry \<Rightarrow> int \<times> int \<times> int" where
  "maxima r = (rg_maxPending r, rg_maxClients r, rg_maxPeers r)"

lemma maxima_simps [simp]:
  "maxima (signalLocked r) = maxima r" "maxima (upd_gen g f r) = maxima r" "maxima (closeGroupChanged r) = maxima r"
  "maxima (r\<lparr>rg_groupAvailable := av\<rparr>) = maxima r" "maxima (r\<lparr>rg_roundRobin := rr\<rparr>) = maxima r" "maxima (r\<lparr>rg_clients := cs\<rparr>) = maxima r"
  "maxima (r\<lparr>rg_peers := ps\<rparr>) = maxima r" "maxima (r\<lparr>rg_all := al\<rparr>) = maxima r" "maxima (r\<lparr>rg_arbitrations := am\<rparr>) = maxima r"
  "maxima (r\<lparr>rg_arbs := ab\<rparr>) = maxima r" "maxima (r\<lparr>rg_groupRules := gr\<rparr>) = maxima r" "maxima (r\<lparr>rg_pendingHigh := n\<rparr>) = maxima r"
  "maxima (r\<lparr>rg_clientHigh := n\<rparr>) = maxima r" "maxima (r\<lparr>rg_peerHigh := n\<rparr>) = maxima r"
  "maxima (r\<lparr>rg_nextID := i\<rparr>) = maxima r" "maxima (r\<lparr>rg_gens := gs\<rparr>) = maxima r"
  "maxima (r\<lparr>rg_nextArbID := i\<rparr>) = maxima r"
  "maxima (r\<lparr>rg_closed := b\<rparr>) = maxima r" "maxima (r\<lparr>rg_groupClosed := b\<rparr>) = maxima r"
  by (simp_all add: maxima_def signalLocked_def upd_gen_def closeGroupChanged_def)

lemma maxima_helpers [simp]:
  "maxima (refreshGroupLocked grp r) = maxima r" "maxima (unlinkActiveLocked g r) = maxima r" "maxima (addRetiringLocked g r) = maxima r"
  "maxima (dropGeneration g r) = maxima r" "maxima (updateRoleHighWaterLocked role r) = maxima r" "maxima (removePendingLocked g r) = maxima r"
  by (simp_all add: refreshGroupLocked_def unlinkActiveLocked_def addRetiringLocked_def dropGeneration_def updateRoleHighWaterLocked_def
      removePendingLocked_def Let_def split: Role.split option.split)

lemma maxima_remove [simp]: "maxima (snd (removeLocked gp r)) = maxima r"
proof (induction gp r rule: removeLocked.induct)
  case (1 gp r)
  show ?case
  proof (cases "\<exists>g. gp = Some g \<and> in_all g r")
    case False
    then show ?thesis by (auto simp: removeLocked.simps [of gp] split: option.split)
  next
    case True
    then obtain g where g: "gp = Some g" "\<not> \<not> in_all g r" by auto
    show ?thesis
      using 1 [OF g _ refl] g by (simp add: removeLocked.simps [of "Some g" r] Let_def split: option.split)
  qed
qed

lemma maxima_finish [simp]: "maxima (finishArbitrationLocked a r) = maxima r"
  by (simp add: finishArbitrationLocked_def Let_def)

lemma maxima_transfer [simp]: "maxima (transferPendingToPeerLocked g k r) = maxima r"
  by (simp add: transferPendingToPeerLocked_def Let_def)

lemma maxima_commit [simp]: "maxima (snd (commitLocked g r)) = maxima r"
  by (simp add: commitLocked_def Let_def split: Role.split option.split)

lemma maxima_stop [simp]: "maxima (stopFinish gs r) = maxima r"
  unfolding stopFinish_def by (induction gs arbitrary: r) simp_all

lemma maxima_new [simp]: "newGenerationLocked role direction phase r = (g, r') \<Longrightarrow> maxima r' = maxima r"
  by (auto simp: newGenerationLocked_def Let_def)

lemma maxima_retiring [simp]: "maxima (toRetiring g r) = maxima r"
  by (simp add: toRetiring_def)

lemma maxima_token [simp]: "maxima (snd (releaseToken g r)) = maxima r"
proof -
  have "maxima (snd (removeLocked (Some g) r)) = maxima r"
    by simp
  then show ?thesis
    by (auto simp: releaseToken_def Let_def split: prod.split simp del: maxima_remove)
qed

lemma maxima_commits:
  "maxima (snd (CommitReceiver g r)) = maxima r" "maxima (snd (commitClientRule g groupID version policy publish r)) = maxima r"
  using maxima_commit [of g r]
  by (auto simp: CommitReceiver_def commitClientRule_def Let_def simp del: maxima_commit split: prod.split bool.split)

lemma maxima_step [simp]: "maxima (registry_step op r) = maxima r"
proof (cases op)
  case Begin_inbound
  then show ?thesis by (auto simp: BeginInbound_def Let_def split: prod.split)
next
  case (Begin_outbound k)
  then show ?thesis by (auto simp: BeginOutboundPeer_def Let_def split: prod.split)
next
  case (Prepare_client g k grp)
  then show ?thesis by (auto simp: PrepareClient_def Let_def)
next
  case (Prepare_peer g k b)
  then show ?thesis by (auto simp: PreparePeer_def Let_def split: option.split)
next
  case (Complete_arbitration a)
  then show ?thesis by (auto simp: CompleteArbitration_def Let_def)
next
  case (Cancel_arbitration a b)
  then show ?thesis by (auto simp: CancelArbitration_def Let_def)
next
  case (Commit_receiver g)
  then show ?thesis by (simp add: maxima_commits)
next
  case (Commit_client_rule g grp v p b)
  then show ?thesis by (simp add: maxima_commits)
next
  case (Commit_outbound g)
  then show ?thesis by (auto simp: CommitOutboundPeer_def Let_def split: option.split)
next
  case (Begin_retire g)
  then show ?thesis by (auto simp: registry_BeginRetire_def Let_def split: Phase.split)
next
  case (Release_generation g)
  then show ?thesis by (auto simp: Release_def Let_def split: option.split)
next
  case (Publish_forwarding g e)
  then show ?thesis by (auto simp: PublishForwarding_def Let_def)
next
  case (Publish_L4 g)
  then show ?thesis by (auto simp: publishL4Healthy_def Let_def)
next
  case (Publish_L7 g h)
  then show ?thesis by (auto simp: PublishInstanceL7Health_def)
next
  case Stop_gate
  then show ?thesis by (auto simp: stopGate_def Let_def)
next
  case (Stop_finish gs)
  then show ?thesis by simp
qed

lemma maxima_exec: "maxima (exec registry_step ops r) = maxima r"
  by (induction ops arbitrary: r) simp_all

lemma reachable_maxima: "reachable p c q r \<Longrightarrow> maxima r = (p, c, q)"
  by (auto simp: reachable_def maxima_exec) (simp add: maxima_def NewRegistry_def)

section \<open>What the registry shows\<close>

lemma slot_unique:
  fixes m :: "(string \<times> 'a peerEntry_scheme) list"
  assumes "slots_ok R ident gs m" and "owns R ident gs k ph g" and "owns R ident gs k ph h" and "ph = PhasePrepared \<or> ph = PhaseCurrent"
  shows "g = h"
proof -
  from assms(2,4) have "g < length gs" "gn_role (gs ! g) = R" "active (gs ! g)" "ident (gs ! g) = k"
    by (auto simp: owns_def active_def)
  then obtain e :: "'a peerEntry_scheme" where "entry_ok R ident gs k e"
    using slots_find [OF assms(1), of g thesis] by blast
  then show ?thesis
    using assms(2-4) entry_okD(1,2) [of R ident gs k e g] entry_okD(1,2) [of R ident gs k e h] by auto
qed

lemma num_split:
  assumes "\<And>x. x \<in> set xs \<Longrightarrow> P x \<longleftrightarrow> A x \<or> B x \<or> C x" and "\<And>x. \<not> (A x \<and> B x) \<and> \<not> (A x \<and> C x) \<and> \<not> (B x \<and> C x)"
  shows "num A xs + num B xs + num C xs = num P xs"
  using assms by (induction xs) (auto simp: num_def)

lemma phases_total:
  assumes "struct r" and "role \<noteq> RoleUnknown"
  shows "countPhaseLocked role PhasePrepared r + countPhaseLocked role PhaseCurrent r + countPhaseLocked role PhaseRetiring r
     = countRoleLocked role r"
proof -
  have "countRoleLocked role r = num (is_role role) (rg_gens r)"
    using countRole_eq(1,2) [OF assms(1)] assms(2) by (cases role) simp_all
  then show ?thesis
    using countPhase_eq [OF assms(1), of PhasePrepared role] countPhase_eq [OF assms(1), of PhaseCurrent role]
      countPhase_eq [OF assms(1), of PhaseRetiring role]
    by (simp, intro num_split) (auto simp: active_def)
qed

lemma IsCurrent_iff:
  assumes "struct r" and "g < length (rg_gens r)"
  shows "IsCurrent (Some g) r \<longleftrightarrow> gn_phase (gen r g) = PhaseCurrent"
  using slot_current_iff [OF assms] by (auto simp: IsCurrent_def)

definition same_identity :: "Generation \<Rightarrow> Generation \<Rightarrow> bool" where
  "same_identity x y \<longleftrightarrow> gn_role x = gn_role y \<and>
     (gn_role x = RoleClient \<and> gn_instanceID x = gn_instanceID y \<or> gn_role x = RolePeer \<and> gn_peerID x = gn_peerID y)"

lemma identity_unique:
  assumes "struct r" and "g < length (rg_gens r)" and "h < length (rg_gens r)" and "same_identity (gen r g) (gen r h)"
    and "gn_phase (gen r h) = gn_phase (gen r g)" and "gn_phase (gen r g) = PhasePrepared \<or> gn_phase (gen r g) = PhaseCurrent"
  shows "g = h"
proof (cases "gn_role (gen r g) = RoleClient")
  case True
  then show ?thesis
    using assms slot_unique [OF structD(4) [OF assms(1)], of "gn_instanceID (gen r g)" "gn_phase (gen r g)" g h]
    by (auto simp: owns_def same_identity_def)
next
  case False
  then show ?thesis
    using assms slot_unique [OF structD(5) [OF assms(1)], of "gn_peerID (gen r g)" "gn_phase (gen r g)" g h]
    by (auto simp: owns_def same_identity_def)
qed

text \<open>C6: In every registry that can be reached, the counts of a snapshot add up and stay within the configured
  limits and high-water marks, an identity (a client instance or a peer) has at most one prepared and at most one
  current generation, and \<open>IsCurrent\<close> holds of exactly the generations in the current phase.\<close>

theorem registry_exact:
  assumes "reachable maxPending maxClients maxPeers r" and "0 \<le> maxPending" and "0 \<le> maxClients" and "0 \<le> maxPeers"
  shows "let s = registry_Snapshot r in
      rs_Pending s \<le> rs_PendingHighWater s \<and> rs_PendingHighWater s \<le> maxPending \<and>
      rs_ClientPrepared s + rs_ClientCurrent s + rs_ClientRetiring s = rs_ClientTotal s \<and>
      rs_ClientTotal s \<le> rs_ClientHighWater s \<and> rs_ClientHighWater s \<le> maxClients \<and>
      rs_PeerPrepared s + rs_PeerCurrent s + rs_PeerRetiring s = rs_PeerTotal s \<and>
      rs_PeerTotal s \<le> rs_PeerHighWater s \<and> rs_PeerHighWater s \<le> maxPeers \<and>
      (\<forall>g < length (rg_gens r). (IsCurrent (Some g) r \<longleftrightarrow> gn_phase (gen r g) = PhaseCurrent) \<and>
        (\<forall>h < length (rg_gens r). same_identity (gen r g) (gen r h) \<and> gn_phase (gen r h) = gn_phase (gen r g) \<and>
           (gn_phase (gen r g) = PhasePrepared \<or> gn_phase (gen r g) = PhaseCurrent) \<longrightarrow> g = h))"
proof -
  note inv = reachable_inv [OF assms]
  have ok: "struct r" and caps: "reg_caps r"
    using reg_invD [OF inv] by simp_all
  have "(IsCurrent (Some g) r \<longleftrightarrow> gn_phase (gen r g) = PhaseCurrent) \<and>
        (\<forall>h < length (rg_gens r). same_identity (gen r g) (gen r h) \<and> gn_phase (gen r h) = gn_phase (gen r g) \<and>
           (gn_phase (gen r g) = PhasePrepared \<or> gn_phase (gen r g) = PhaseCurrent) \<longrightarrow> g = h)" if "g < length (rg_gens r)" for g
    using IsCurrent_iff [OF ok that] identity_unique [OF ok that] by blast
  then show ?thesis
    using phases_total [OF ok, of RoleClient] phases_total [OF ok, of RolePeer] caps reachable_maxima [OF assms(1)]
    by (simp add: registry_Snapshot_def countRole_eq [OF ok] reg_caps_def maxima_def)
qed

definition demo_ops :: "registry_op list" where
  "demo_ops = [Begin_inbound, Prepare_client 0 ''i'' ''g'', Commit_client_rule 0 ''g'' 1 ''p'' True, Publish_L4 0,
     Begin_outbound ''n'', Begin_inbound]"

definition demo :: Registry where
  "demo = exec registry_step demo_ops (NewRegistry 2 1 1)"

lemma demo_reachable: "reachable 2 1 1 demo"
  unfolding reachable_def by (rule exI [of _ demo_ops]) (simp add: demo_def, code_simp)

theorem registry_exact_witness:
  "rs_ClientCurrent (registry_Snapshot demo) = 1 \<and> rs_ClientTotal (registry_Snapshot demo) \<le> 1 \<and> rs_PeerPrepared (registry_Snapshot demo) = 1
     \<and> rs_PeerTotal (registry_Snapshot demo) \<le> 1 \<and> IsCurrent (Some 0) demo"
proof -
  have "rs_ClientCurrent (registry_Snapshot demo) = 1" "rs_PeerPrepared (registry_Snapshot demo) = 1"
    "0 < length (rg_gens demo) \<and> gn_phase (gen demo 0) = PhaseCurrent"
    by code_simp+
  then show ?thesis
    using registry_exact [OF demo_reachable, unfolded Let_def] by auto
qed

text \<open>C12: In every registry that can be reached, a group is available exactly when one of its clients is ready to
  forward, and the channel that announces the changes is never closed twice, which would be a panic.\<close>

theorem group_available_exact:
  assumes "reachable maxPending maxClients maxPeers r" and "0 \<le> maxPending" and "0 \<le> maxClients" and "0 \<le> maxPeers"
  shows "(GroupAvailability grp r \<longleftrightarrow>
      (\<exists>g. gn_role (gen r g) = RoleClient \<and> gn_groupID (gen r g) = grp \<and> isForwardingReadyLocked (Some g) r)) \<and> \<not> rg_panicked r"
proof -
  note inv = reg_invD [OF reachable_inv [OF assms]]
  have "group_ready grp r \<longleftrightarrow> (\<exists>g. gn_role (gen r g) = RoleClient \<and> gn_groupID (gen r g) = grp \<and> isForwardingReadyLocked (Some g) r)"
    (is "?L \<longleftrightarrow> ?R")
  proof
    assume ?L
    then obtain g where "\<not> rg_closed r" "g < length (rg_gens r)" "fwd_ready (rg_groupRules r) grp (gen r g)"
      by (auto simp: group_ready_def in_set_conv_nth)
    moreover then have "gn_role (gen r g) = RoleClient" "gn_groupID (gen r g) = grp"
      by (simp_all add: fwd_ready_def)
    ultimately show ?R
      using isForwardingReady_iff [OF inv(1), of g] by blast
  next
    assume ?R
    then obtain g where "gn_role (gen r g) = RoleClient" "gn_groupID (gen r g) = grp" "isForwardingReadyLocked (Some g) r"
      by blast
    then show ?L
      using isForwardingReady_iff [OF inv(1), of g] by (auto simp: group_ready_def)
  qed
  then show ?thesis
    using inv(3,4) by (simp add: avail_ok_alt gate_ok_def)
qed

theorem group_available_exact_witness:
  "GroupAvailability ''g'' demo \<and> isForwardingReadyLocked (Some 0) demo \<and> \<not> rg_panicked demo"
proof -
  have "GroupAvailability ''g'' demo" "isForwardingReadyLocked (Some 0) demo"
    by code_simp+
  then show ?thesis
    using group_available_exact [OF demo_reachable, of "''g''"] by simp
qed

section \<open>Stopping\<close>

lemma all_simps [simp]:
  "rg_all (upd_gen g f r) = rg_all r" "rg_all (unlinkActiveLocked g r) = rg_all r" "rg_all (addRetiringLocked g r) = rg_all r"
  "rg_closed (upd_gen g f r) = rg_closed r" "rg_closed (unlinkActiveLocked g r) = rg_closed r" "rg_closed (addRetiringLocked g r) = rg_closed r"
  "rg_all (snd (commitLocked g r)) = rg_all r" "rg_closed (snd (commitLocked g r)) = rg_closed r"
  by (simp_all add: upd_gen_def unlinkActiveLocked_def addRetiringLocked_def commitLocked_def Let_def split: Role.split option.split)

lemma toRetiring_all [simp]: "rg_all (toRetiring g r) = rg_all r" "rg_closed (toRetiring g r) = rg_closed r"
  by (simp_all add: toRetiring_def)

lemma drop_all: "rg_all (dropGeneration g r) = AList.delete (gn_id (gen r g)) (rg_all r)" "rg_closed (dropGeneration g r) = rg_closed r"
  "rg_arbitrations (dropGeneration g r) = rg_arbitrations r"
proof -
  have "gen (unlinkActiveLocked g r) g = gen r g" "rg_arbitrations (unlinkActiveLocked g r) = rg_arbitrations r"
    by (simp_all add: unlinkActiveLocked_def split: Role.split option.split)
  then show "rg_all (dropGeneration g r) = AList.delete (gn_id (gen r g)) (rg_all r)" "rg_closed (dropGeneration g r) = rg_closed r"
    "rg_arbitrations (dropGeneration g r) = rg_arbitrations r"
    by (simp_all add: dropGeneration_def Let_def upd_gen_def split: Role.split)
qed

lemma remove_closed:
  assumes "rg_arbitrations r = []"
  shows "rg_all (snd (removeLocked (Some g) r)) = (if in_all g r then AList.delete (gn_id (gen r g)) (rg_all r) else rg_all r)"
    and "rg_closed (snd (removeLocked (Some g) r)) = rg_closed r" and "rg_arbitrations (snd (removeLocked (Some g) r)) = []"
  using assms by (simp_all add: removeLocked_eq arbitrationForInboundLocked_def drop_all)

text \<open>Once closed, nothing is admitted.\<close>

definition closing :: "Registry \<Rightarrow> Registry \<Rightarrow> bool" where
  "closing r r' \<longleftrightarrow> rg_closed r' \<and> set (rg_all r') \<subseteq> set (rg_all r)"

lemma closing_finish: "rg_arbitrations r = [] \<Longrightarrow> rg_closed r \<Longrightarrow> closing r (stopFinish gs r)"
proof (induction gs arbitrary: r)
  case Nil
  then show ?case by (simp add: stopFinish_def closing_def)
next
  case (Cons g gs)
  note r = remove_closed [OF Cons.prems(1), of g]
  have "closing (snd (removeLocked (Some g) r)) (stopFinish gs (snd (removeLocked (Some g) r)))"
    by (rule Cons.IH) (simp_all add: r Cons.prems)
  moreover have "closing r (snd (removeLocked (Some g) r))"
    using Cons.prems r by (auto simp: closing_def mem_delete)
  ultimately show ?case by (auto simp: closing_def stopFinish_def)
qed

lemma closing_release: "rg_arbitrations r = [] \<Longrightarrow> rg_closed r \<Longrightarrow> closing r (snd (Release (Some g) r))"
proof -
  assume r: "rg_arbitrations r = []" "rg_closed r"
  obtain removed r1 where rm: "removeLocked (Some g) r = (removed, r1)"
    by (cases "removeLocked (Some g) r")
  have "closing r r1"
    using remove_closed [OF r(1), of g] r by (auto simp: closing_def rm mem_delete split: if_splits)
  then show ?thesis
    using r by (simp add: Release_def releaseToken_def rm Let_def closing_def)
qed

lemma closing_commit: "rg_closed r \<Longrightarrow> closing r (snd (commitClientRule g groupID version policy publish r))"
  "rg_closed r \<Longrightarrow> closing r (snd (CommitReceiver g r))"
proof -
  obtain b r1 where c: "commitLocked g r = (b, r1)"
    by (cases "commitLocked g r")
  then have "rg_all r1 = rg_all r" "rg_closed r1 = rg_closed r"
    using all_simps(7,8) [of g r] by simp_all
  then show "rg_closed r \<Longrightarrow> closing r (snd (commitClientRule g groupID version policy publish r))"
    "rg_closed r \<Longrightarrow> closing r (snd (CommitReceiver g r))"
    by (simp_all add: commitClientRule_def CommitReceiver_def c closing_def Let_def split: bool.split)
qed

lemma closing_step:
  assumes "rg_closed r" and "rg_arbitrations r = []"
  shows "closing r (registry_step op r)"
proof (cases op)
  case (Stop_finish gs)
  then show ?thesis using assms closing_finish by simp
next
  case (Release_generation g)
  then show ?thesis using assms closing_release by simp
next
  case (Commit_client_rule g grp v p b)
  then show ?thesis using assms closing_commit by simp
next
  case (Commit_receiver g)
  then show ?thesis using assms closing_commit by simp
next
  case (Begin_retire g)
  then show ?thesis using assms by (simp add: registry_BeginRetire_def closing_def Let_def split: Phase.split)
qed (use assms in \<open>simp_all add: closing_def BeginInbound_def BeginOutboundPeer_def PrepareClient_def PreparePeer_def CompleteArbitration_def
    CancelArbitration_def CommitOutboundPeer_def PublishForwarding_def publishL4Healthy_def PublishInstanceL7Health_def registry_isCurrentLocked_def
    isExactArbitrationLocked_def stopGate_def Let_def\<close>)

lemma closing_exec:
  assumes "reg_inv r" and "rg_closed r" and "exec_ok registry_op_valid registry_step ops r"
  shows "closing r (exec registry_step ops r)"
  using assms
proof (induction ops arbitrary: r)
  case (Cons op ops)
  have "rg_arbitrations r = []"
    using Cons.prems(1,2) by (simp add: reg_inv_def gate_ok_def)
  then have step: "closing r (registry_step op r)"
    using closing_step Cons.prems(2) by blast
  with Cons.IH [of "registry_step op r"] Cons.prems show ?case
    by (auto simp: closing_def registry_step_inv)
qed (simp add: closing_def)

lemma finish_gone:
  assumes "reg_inv r" and "rg_closed r" and "\<And>i g. (i, g) \<in> set (rg_all r) \<Longrightarrow> g \<in> set gs"
  shows "rg_all (stopFinish gs r) = []"
  using assms
proof (induction gs arbitrary: r)
  case Nil
  then show ?case
    by (cases "rg_all r") (auto simp: stopFinish_def)
next
  case (Cons g gs)
  let ?s = "snd (removeLocked (Some g) r)"
  have ok: "struct r" and arbs: "rg_arbitrations r = []"
    using Cons.prems(1,2) by (auto simp: reg_inv_def gate_ok_def)
  note r = remove_closed [OF arbs, of g] and ids = registry_ids_okD [OF structD(1) [OF ok]]
  have inv: "reg_inv ?s"
    using stopFinish_inv [of r "[g]"] Cons.prems(1,2) by (simp add: stopFinish_def)
  have "h \<in> set gs" if "(i, h) \<in> set (rg_all ?s)" for i h
  proof -
    from that r have old: "(i, h) \<in> set (rg_all r)" and new: "in_all g r \<Longrightarrow> i \<noteq> gn_id (gen r g)"
      by (auto simp: mem_delete split: if_splits)
    have "h \<noteq> g"
      using new in_all_iff [OF ok, of g] ids(4) [of i h] ids(2) [of h] old by auto
    then show ?thesis
      using Cons.prems(3) [OF old] by simp
  qed
  then have "rg_all (stopFinish gs ?s) = []"
    using Cons.IH [OF inv] r(2) Cons.prems(2) by blast
  then show ?case
    by (simp add: stopFinish_def)
qed

lemma slots_gone:
  assumes "slots_ok R ident gs m" and "\<And>g. g < length gs \<Longrightarrow> gn_phase (gs ! g) = PhaseDone"
  shows "m = []"
proof (rule ccontr)
  assume "m \<noteq> []"
  then obtain k e where ke: "(k, e) \<in> set m"
    by (cases m) auto
  have none: "\<not> owns R ident gs k ph g" if "ph \<noteq> PhaseDone" for ph g
    using that assms(2) by (auto simp: owns_def)
  note e = entry_okD [OF slots_okD(2) [OF assms(1) ke]]
  have "en_prepared e = None" "en_current e = None"
    using e(1) [of "the (en_prepared e)"] e(2) [of "the (en_current e)"] none [of PhasePrepared "the (en_prepared e)"]
      none [of PhaseCurrent "the (en_current e)"] by (cases "en_prepared e"; cases "en_current e"; simp)+
  moreover have "en_retiring e = []"
    using e(4) [of "fst (hd (en_retiring e))" "snd (hd (en_retiring e))"] none [of PhaseRetiring "snd (hd (en_retiring e))"]
    by (cases "en_retiring e") auto
  ultimately show False
    using slots_okD(3) [OF assms(1) ke] by (simp add: entry_empty_def)
qed

text \<open>C17: Stopping leaves nothing behind. The gate of \<open>Stop\<close> closes the registry and yields the generations to stop and join;
  whatever operations run while they are joined, once \<open>Stop\<close> has removed them no token, client entry or peer entry is left.\<close>

theorem stop_drains:
  assumes "reachable maxPending maxClients maxPeers r" and "0 \<le> maxPending" and "0 \<le> maxClients" and "0 \<le> maxPeers"
    and "\<not> rg_closed r" and "exec_ok registry_op_valid registry_step ops (snd (stopGate r))"
  shows "\<exists>gs. fst (stopGate r) = Some gs \<and>
     (let r' = stopFinish gs (exec registry_step ops (snd (stopGate r)))
      in rg_all r' = [] \<and> rg_clients r' = [] \<and> rg_peers r' = [] \<and> rg_arbitrations r' = [])"
proof -
  let ?s = "snd (stopGate r)" and ?gs = "map snd (rg_all (snd (stopGate r)))"
  let ?t = "exec registry_step ops ?s"
  have gate: "fst (stopGate r) = Some ?gs" "rg_closed ?s"
    using assms(5) by (simp_all add: stopGate_def Let_def closeGroupChanged_def)
  have inv: "reg_inv ?s"
    by (rule stopGate_inv [OF reachable_inv [OF assms(1-4)]])
  have t: "closing ?s ?t" and inv_t: "reg_inv ?t"
    using closing_exec [OF inv gate(2) assms(6)] registry.exec_inv [OF inv assms(6)] .
  have gone: "rg_all (stopFinish ?gs ?t) = []"
  proof (rule finish_gone [OF inv_t])
    show "rg_closed ?t"
      using t by (simp add: closing_def)
    show "g \<in> set ?gs" if "(i, g) \<in> set (rg_all ?t)" for i g
    proof -
      have "(i, g) \<in> set (rg_all ?s)"
        using t that by (auto simp: closing_def)
      then have "snd (i, g) \<in> snd ` set (rg_all ?s)"
        by (rule imageI)
      then show ?thesis by simp
    qed
  qed
  have closed: "rg_closed ?t"
    using t by (simp add: closing_def)
  have inv_f: "reg_inv (stopFinish ?gs ?t)"
    using stopFinish_inv inv_t closed by blast
  note ok = reg_invD(1) [OF inv_f]
  have "gn_phase (gen (stopFinish ?gs ?t) g) = PhaseDone" if "g < length (rg_gens (stopFinish ?gs ?t))" for g
    using in_all_iff [OF ok, of g] that gone by (auto simp: in_all_def)
  moreover have "rg_arbitrations (stopFinish ?gs ?t) = []"
  proof -
    have "rg_arbitrations ?t = []"
      using inv_t closed by (simp add: reg_inv_def gate_ok_def)
    then have "rg_closed (stopFinish ?gs ?t)"
      using closing_finish [of ?t ?gs] closed by (simp add: closing_def)
    then show ?thesis
      using inv_f by (simp add: reg_inv_def gate_ok_def)
  qed
  ultimately have "rg_all (stopFinish ?gs ?t) = [] \<and> rg_clients (stopFinish ?gs ?t) = [] \<and> rg_peers (stopFinish ?gs ?t) = [] \<and>
      rg_arbitrations (stopFinish ?gs ?t) = []"
    using gone slots_gone [OF structD(4) [OF ok]] slots_gone [OF structD(5) [OF ok]] by blast
  then show ?thesis
    unfolding Let_def using gate(1) by blast
qed

theorem stop_drains_witness:
  "rg_all demo \<noteq> [] \<and> rg_clients demo \<noteq> [] \<and> (\<exists>gs. fst (stopGate demo) = Some gs \<and>
     (let r' = stopFinish gs (exec registry_step [Begin_retire 0, Begin_inbound, Release_generation 0] (snd (stopGate demo)))
      in rg_all r' = [] \<and> rg_clients r' = [] \<and> rg_peers r' = [] \<and> rg_arbitrations r' = []))"
proof -
  have "rg_all demo \<noteq> []" "rg_clients demo \<noteq> []" "\<not> rg_closed demo"
    "exec_ok registry_op_valid registry_step [Begin_retire 0, Begin_inbound, Release_generation 0] (snd (stopGate demo))"
    by code_simp+
  moreover have "(0::int) \<le> 2" "(0::int) \<le> 1"
    by simp_all
  ultimately show ?thesis
    using stop_drains [OF demo_reachable, of "[Begin_retire 0, Begin_inbound, Release_generation 0]"] by blast
qed

end
