(* ===== verification/Mesh_Contest.thy ===== *)
theory Mesh_Contest
  imports Mesh_Registry_Runs
begin

text \<open>
  What holds of every running arbitration of the mesh registry, whatever operations ran since it was opened: its
  inbound generation still waits, and no generation but the loser is prepared or current for the peer.
\<close>

section \<open>The invariant of running arbitrations\<close>

definition rival :: "string \<Rightarrow> Generation \<Rightarrow> bool" where
  "rival k x \<longleftrightarrow> gn_role x = RolePeer \<and> gn_peerID x = k \<and> (gn_phase x = PhasePrepared \<or> gn_phase x = PhaseCurrent)"

definition contest :: "Generation list \<Rightarrow> Arbitration list \<Rightarrow> (string \<times> nat) list \<Rightarrow> bool" where
  "contest gs arbs m \<longleftrightarrow> (\<forall>k a. (k, a) \<in> set m \<longrightarrow> gn_phase (gs ! ar_inbound (arbs ! a)) = PhasePending \<and>
     (\<forall>h < length gs. rival k (gs ! h) \<longrightarrow> h = ar_loser (arbs ! a)))"

abbreviation contested :: "Registry \<Rightarrow> bool" where
  "contested r \<equiv> contest (rg_gens r) (rg_arbs r) (rg_arbitrations r)"

lemma contestD:
  assumes "contest gs arbs m" and "(k, a) \<in> set m"
  shows "gn_phase (gs ! ar_inbound (arbs ! a)) = PhasePending"
    and "\<And>h. h < length gs \<Longrightarrow> rival k (gs ! h) \<Longrightarrow> h = ar_loser (arbs ! a)"
  using assms unfolding contest_def by blast+

lemma contestI:
  assumes "\<And>k a. (k, a) \<in> set m \<Longrightarrow> gn_phase (gs ! ar_inbound (arbs ! a)) = PhasePending"
    and "\<And>k a h. (k, a) \<in> set m \<Longrightarrow> h < length gs \<Longrightarrow> rival k (gs ! h) \<Longrightarrow> h = ar_loser (arbs ! a)"
  shows "contest gs arbs m"
  using assms unfolding contest_def by blast

lemma contest_Nil [simp]: "contest gs arbs []"
  by (simp add: contest_def)

lemma contest_fewer: "contest gs arbs m \<Longrightarrow> set m' \<subseteq> set m \<Longrightarrow> contest gs arbs m'"
  unfolding contest_def by blast

lemma contest_upd:
  assumes "contest gs arbs m" and "\<And>k a. (k, a) \<in> set m \<Longrightarrow> ar_inbound (arbs ! a) = g \<Longrightarrow> gn_phase x = PhasePending"
    and "\<And>k a. (k, a) \<in> set m \<Longrightarrow> rival k x \<Longrightarrow> rival k (gs ! g)"
  shows "contest (gs[g := x]) arbs m"
proof (cases "g < length gs")
  case True
  show ?thesis
  proof (rule contestI)
    fix k a
    assume m: "(k, a) \<in> set m"
    note c = contestD [OF assms(1) m]
    show "gn_phase (gs[g := x] ! ar_inbound (arbs ! a)) = PhasePending"
      using assms(2) [OF m] c(1) True by (cases "ar_inbound (arbs ! a) = g") simp_all
    show "h = ar_loser (arbs ! a)" if "h < length (gs[g := x])" "rival k (gs[g := x] ! h)" for h
      using assms(3) [OF m] c(2) [of h] that True by (cases "h = g") simp_all
  qed
qed (use assms(1) in \<open>simp add: not_less list_update_beyond\<close>)

lemma contest_append:
  assumes "contest gs arbs m" and "arbs_ok gs arbs m" and "\<And>k a. (k, a) \<in> set m \<Longrightarrow> \<not> rival k x"
  shows "contest (gs @ [x]) arbs m"
proof (rule contestI)
  fix k a
  assume m: "(k, a) \<in> set m"
  note c = contestD [OF assms(1) m]
  have "ar_inbound (arbs ! a) < length gs"
    using arbs_okD(3) [OF assms(2) m] by (simp add: arb_ok_def)
  then show "gn_phase ((gs @ [x]) ! ar_inbound (arbs ! a)) = PhasePending"
    using c(1) by (simp add: nth_append)
  show "h = ar_loser (arbs ! a)" if "h < length (gs @ [x])" "rival k ((gs @ [x]) ! h)" for h
    using assms(3) [OF m] c(2) [of h] that by (cases "h < length gs") (auto simp: nth_append less_Suc_eq)
qed

lemma contest_released:
  "contest gs arbs m \<Longrightarrow> contest gs (arbs[a := (arbs ! a)\<lparr>ar_loserReleased := True\<rparr>]) m"
proof (cases "a < length arbs")
  case True
  assume "contest gs arbs m"
  moreover have "ar_inbound (arbs[a := (arbs ! a)\<lparr>ar_loserReleased := True\<rparr>] ! b) = ar_inbound (arbs ! b)"
    "ar_loser (arbs[a := (arbs ! a)\<lparr>ar_loserReleased := True\<rparr>] ! b) = ar_loser (arbs ! b)" for b
    using True by (simp_all add: nth_list_update)
  ultimately show ?thesis by (simp add: contest_def)
qed (simp add: not_less list_update_beyond)

text \<open>A change to a generation that has a role, other than making it a rival.\<close>

lemma contest_role:
  assumes "struct r" and "contested r" and "gn_role (gen r g) \<noteq> RoleUnknown"
    and "\<And>k. rival k x \<Longrightarrow> rival k (gen r g)"
  shows "contest ((rg_gens r)[g := x]) (rg_arbs r) (rg_arbitrations r)"
  using assms(3,4) arbs_role(1) [OF structD(6) [OF assms(1)]] by (intro contest_upd [OF assms(2)]) auto

lemma active_known:
  assumes "struct r" and "g < length (rg_gens r)" and "active (gen r g)"
  shows "gn_role (gen r g) \<noteq> RoleUnknown"
  using gen_okD(2) [OF structD(2) [OF assms(1) nth_mem [OF assms(2)]]] assms(3) by auto

section \<open>Every operation keeps it\<close>

lemma not_rival_dropped [simp]: "\<not> rival k (dropped g r)" "\<not> rival k (retiring_gen g r)"
  by (simp_all add: rival_def retiring_gen_def)

lemma finish_contest:
  assumes ok: "struct r" "reg_caps r" "contested r" and a: "(ar_peerID (arb r a), a) \<in> set (rg_arbitrations r)"
  shows "contested (finishArbitrationLocked a r)"
proof -
  note f = finish_arb [OF ok(1,2) a]
  let ?l = "ar_loser (arb r a)"
  have "gn_role (gen r ?l) = RolePeer"
    using arbs_okD(3) [OF structD(6) [OF ok(1)] a] by (simp add: arb_ok_def)
  then have "contest ((rg_gens r)[?l := dropped ?l r]) (rg_arbs r) (rg_arbitrations r)"
    by (intro contest_role [OF ok(1,3)]) simp_all
  then have "contest (finished_gens a r) (rg_arbs r) (rg_arbitrations r)"
    using ok(3) by (simp add: finished_gens_def)
  then show ?thesis
    unfolding f(4-6) by (rule contest_fewer) (auto simp: mem_delete)
qed

lemma finish_not_inbound:
  assumes "struct r" "reg_caps r" and "(ar_peerID (arb r a), a) \<in> set (rg_arbitrations r)"
  shows "not_inbound (ar_inbound (arb r a)) (finishArbitrationLocked a r)"
  using arbs_okD(4) [OF structD(6) [OF assms(1)] assms(3)] finish_arb(5,6) [OF assms] by (force simp: not_inbound_def mem_delete)

lemma none_not_inbound:
  assumes "struct r" and "arbitrationForInboundLocked g r = None"
  shows "not_inbound g r"
  using assms(2) arbs_okD(3) [OF structD(6) [OF assms(1)]]
  by (auto simp: not_inbound_def arbitrationForInboundLocked_def find_None_iff arb_ok_def)

lemma drop_contest:
  assumes "struct r" and "contested r" and "g < length (rg_gens r)" and "gn_phase (gen r g) \<noteq> PhaseDone" and "not_inbound g r"
  shows "contested (dropGeneration g r)"
  unfolding drop_fields(1-3) [OF assms(1,3,4)]
  by (rule contest_upd [OF assms(2)]) (use assms(5) in \<open>auto simp: not_inbound_def\<close>)

lemma remove_contest:
  assumes ok: "struct r" "reg_caps r" "contested r" and nl: "no_loser g r"
  shows "contested (snd (removeLocked (Some g) r))"
proof (cases "in_all g r")
  case True
  note g = True [unfolded in_all_iff [OF ok(1)]] and eq = remove_inv(7) [OF ok(1,2) nl True]
  show ?thesis
  proof (cases "arbitrationForInboundLocked g r")
    case None
    then show ?thesis
      unfolding eq using drop_contest [OF ok(1,3) _ _ none_not_inbound [OF ok(1) None]] g by simp
  next
    case (Some a)
    note a = arbitrationForInbound_Some [OF Some]
    note f = finish_arb [OF ok(1,2) a(1)]
    have "ar_loser (arb r a) \<noteq> g"
      using nl a(1) by (auto simp: no_loser_def)
    then have "g < length (rg_gens (finishArbitrationLocked a r))" "gn_phase (gen (finishArbitrationLocked a r) g) \<noteq> PhaseDone"
      using g by (simp_all add: f(4) finished_gens_def)
    then show ?thesis
      unfolding eq using drop_contest [OF f(1) finish_contest [OF ok a(1)]] finish_not_inbound [OF ok(1,2) a(1)] Some a(2) by simp
  qed
qed (use ok(3) in \<open>simp add: removeLocked_eq\<close>)

lemma transfer_fields:
  "rg_gens (transferPendingToPeerLocked g k r) =
     (rg_gens r)[g := ((rg_gens r)[g := (gen r g)\<lparr>gn_phase := PhaseDone\<rparr>] ! g)\<lparr>gn_role := RolePeer, gn_phase := PhasePrepared, gn_peerID := k\<rparr>]"
  "rg_arbs (transferPendingToPeerLocked g k r) = rg_arbs r" "rg_arbitrations (transferPendingToPeerLocked g k r) = rg_arbitrations r"
  by (simp_all add: transferPendingToPeerLocked_def Let_def removePendingLocked_def upd_gen_def updateRoleHighWaterLocked_def)

lemma transfer_contest:
  assumes "contested r" and "not_inbound g r" and "map_of (rg_arbitrations r) k = None"
  shows "contested (transferPendingToPeerLocked g k r)"
  unfolding transfer_fields
proof (rule contest_upd [OF assms(1)])
  fix j a
  assume m: "(j, a) \<in> set (rg_arbitrations r)"
  then show "ar_inbound (arb r a) = g \<Longrightarrow> gn_phase (((rg_gens r)[g := (gen r g)\<lparr>gn_phase := PhaseDone\<rparr>] ! g)
      \<lparr>gn_role := RolePeer, gn_phase := PhasePrepared, gn_peerID := k\<rparr>) = PhasePending"
    using assms(2) by (auto simp: not_inbound_def)
  have "j \<noteq> k"
    using m assms(3) by (auto simp: map_of_eq_None_iff rev_image_eqI)
  then show "rival j (((rg_gens r)[g := (gen r g)\<lparr>gn_phase := PhaseDone\<rparr>] ! g)
      \<lparr>gn_role := RolePeer, gn_phase := PhasePrepared, gn_peerID := k\<rparr>) \<Longrightarrow> rival j (gen r g)"
    by (simp add: rival_def)
qed

section \<open>The operations\<close>

lemma commit_contest:
  assumes "struct r" and "contested r" and "g < length (rg_gens r)" and "gn_phase (gen r g) = PhasePrepared"
    and "gn_role x = gn_role (gen r g)" and "gn_peerID x = gn_peerID (gen r g)"
  shows "contest ((rg_gens r)[g := x]) (rg_arbs r) (rg_arbitrations r)"
  by (rule contest_role [OF assms(1,2) active_known [OF assms(1,3)]]) (use assms(4-6) in \<open>auto simp: rival_def active_def\<close>)

lemma begin_contest:
  assumes "reg_inv r" and "contested r"
  shows "contested (snd (BeginInbound r))" and "contested (snd (BeginOutboundPeer peerID r))"
proof -
  note ok = reg_invD [OF assms(1)]
  note new = contest_append [OF assms(2) structD(6) [OF ok(1)]]
  show "contested (snd (BeginInbound r))"
    using assms(2) new by (simp add: BeginInbound_def newGeneration_eq Let_def rival_def fresh_gen_def)
  have "\<not> rival k x" if "(k, a) \<in> set (rg_arbitrations r)" "map_of (rg_arbitrations r) peerID = None" "gn_peerID x = peerID" for k a x
    using that by (auto simp: rival_def map_of_eq_None_iff rev_image_eqI)
  then show "contested (snd (BeginOutboundPeer peerID r))"
    using assms(2) new by (auto simp: BeginOutboundPeer_def newGeneration_eq Let_def upd_gen_def updateRoleHighWaterLocked_def)
qed

lemma PrepareClient_contest:
  assumes "reg_inv r" and "contested r" and "not_inbound g r"
  shows "contested (snd (PrepareClient (Some g) instanceID groupID r))"
proof -
  have "contest ((rg_gens r)[g := x]) (rg_arbs r) (rg_arbitrations r)" if "gn_role x = RoleClient" for x
    by (rule contest_upd [OF assms(2)]) (use assms(3) that in \<open>auto simp: not_inbound_def rival_def\<close>)
  then show ?thesis
    using assms(2) by (simp add: PrepareClient_def Let_def removePendingLocked_def upd_gen_def updateRoleHighWaterLocked_def)
qed

lemma PreparePeer_contest:
  assumes inv: "reg_inv r" and c: "contested r" and nb: "not_inbound g r"
  shows "contested (snd (PreparePeer (Some g) peerID preferred r))"
proof (cases "fst (PreparePeer (Some g) peerID preferred r)")
  case (Inl e)
  then have "snd (PreparePeer (Some g) peerID preferred r) = r"
    by (auto simp: PreparePeer_def Let_def split: if_splits option.splits)
  with c show ?thesis by simp
next
  case (Inr out)
  note ok = reg_invD [OF inv]
  from Inr have none: "map_of (rg_arbitrations r) peerID = None" and "isExactLocked (Some g) RoleUnknown PhasePending r"
    by (auto simp: PreparePeer_def split: if_splits)
  then have g: "gn_phase (gen r g) = PhasePending"
    using isExact_iff [OF ok(1)] by auto
  show ?thesis
  proof (cases "Option.bind (map_of (rg_peers r) peerID) en_prepared")
    case None
    with Inr have "snd (PreparePeer (Some g) peerID preferred r) = transferPendingToPeerLocked g peerID r"
      by (auto simp: PreparePeer_def Let_def split: if_splits)
    then show ?thesis
      using transfer_contest [OF c nb none] by simp
  next
    case (Some l)
    then obtain e where e: "map_of (rg_peers r) peerID = Some e" "en_prepared e = Some l"
      by (cases "map_of (rg_peers r) peerID") auto
    let ?a = "\<lparr>ar_id = rg_nextArbID r + 1, ar_peerID = peerID, ar_inbound = g, ar_loser = l, ar_loserReleased = False\<rparr>"
    have eq: "snd (PreparePeer (Some g) peerID preferred r) = signalLocked (r\<lparr>rg_nextArbID := rg_nextArbID r + 1, rg_arbs := rg_arbs r @ [?a],
        rg_arbitrations := AList.update peerID (length (rg_arbs r)) (rg_arbitrations r)\<rparr>)" and cur: "en_current e = None"
      using Inr Some e by (simp_all add: PreparePeer_def Let_def split: if_splits)
    note slot = entry_okD(1,2) [OF slots_lookup(1) [OF structD(5) [OF ok(1)] e(1)]]
    have rivals: "h = l" if "h < length (rg_gens r)" "rival peerID (gen r h)" for h
      using that slot(1) [of h] slot(2) [of h] e(2) cur by (auto simp: rival_def owns_def)
    have "contest (rg_gens r) (rg_arbs r @ [?a]) (AList.update peerID (length (rg_arbs r)) (rg_arbitrations r))"
    proof (rule contestI)
      fix k a
      assume "(k, a) \<in> set (AList.update peerID (length (rg_arbs r)) (rg_arbitrations r))"
      then have "k = peerID \<and> a = length (rg_arbs r) \<or> (k, a) \<in> set (rg_arbitrations r)"
        using mem_update [OF arbs_okD(1) [OF structD(6) [OF ok(1)]]] by (auto split: if_splits)
      then consider "k = peerID" "a = length (rg_arbs r)" | "(k, a) \<in> set (rg_arbitrations r)"
        by blast
      note split = this
      show "gn_phase (gen r (ar_inbound ((rg_arbs r @ [?a]) ! a))) = PhasePending"
        using split contestD(1) [OF c] arbs_okD(2) [OF structD(6) [OF ok(1)]] g by cases (simp_all add: nth_append)
      show "h = ar_loser ((rg_arbs r @ [?a]) ! a)" if "h < length (rg_gens r)" "rival k (gen r h)" for h
        using split that contestD(2) [OF c] arbs_okD(2) [OF structD(6) [OF ok(1)]] rivals by cases (simp_all add: nth_append)
    qed
    then show ?thesis
      by (simp add: eq)
  qed
qed

lemma CompleteArbitration_contest:
  assumes inv: "reg_inv r" and c: "contested r"
  shows "contested (snd (CompleteArbitration ap r))"
proof (cases "\<exists>a. ap = Some a \<and> isExactArbitrationLocked ap r")
  case True
  then obtain a where ap: "ap = Some a" "isExactArbitrationLocked (Some a) r" by auto
  note a = exact_arb [OF ap(2)] and ok = reg_invD [OF inv]
  let ?k = "ar_peerID (arb r a)" and ?g = "ar_inbound (arb r a)" and ?r = "finishArbitrationLocked a r"
  note f = finish_contest [OF ok(1,2) c a]
  have "map_of (rg_arbitrations ?r) ?k = None"
    unfolding finish_arb(5) [OF ok(1,2) a] by (simp add: delete_conv')
  then have "contested (transferPendingToPeerLocked ?g ?k ?r)"
    by (rule transfer_contest [OF f finish_not_inbound [OF ok(1,2) a]])
  moreover have "snd (CompleteArbitration ap r) \<in> {r, ?r, transferPendingToPeerLocked ?g ?k ?r}"
    using ap by (simp add: CompleteArbitration_def Let_def)
  ultimately show ?thesis
    using c f by auto
next
  case False
  then have "snd (CompleteArbitration ap r) = r"
    by (auto simp: CompleteArbitration_def Let_def split: option.splits)
  with c show ?thesis by simp
qed

lemma CancelArbitration_contest:
  assumes inv: "reg_inv r" and c: "contested r"
  shows "contested (snd (CancelArbitration (Some a) abort r))"
proof (cases "isExactArbitrationLocked (Some a) r")
  case True
  note a = exact_arb [OF True] and ok = reg_invD [OF inv]
  let ?r = "finishArbitrationLocked a r"
  note fin = finish_arb [OF ok(1,2) a] and f = finish_contest [OF ok(1,2) c a]
  have arb: "arb_ok (rg_gens r) (ar_peerID (arb r a)) (arb r a)"
    by (rule arbs_okD(3) [OF structD(6) [OF ok(1)] a])
  then have "ar_inbound (arb r a) \<noteq> ar_loser (arb r a)"
    by (auto simp: arb_ok_def)
  then have "gn_role (gen ?r (ar_inbound (arb r a))) \<noteq> RolePeer"
    using arb by (simp add: fin(4) finished_gens_def arb_ok_def)
  then have "contested (snd (removeLocked (Some (ar_inbound (arb r a))) ?r))"
    by (intro remove_contest [OF fin(1,2) f] no_loser_role [OF fin(1)])
  then show ?thesis
    using True f by (simp add: CancelArbitration_def Let_def fin(6))
qed (use c in \<open>simp add: CancelArbitration_def\<close>)

lemma commits_contest:
  assumes inv: "reg_inv r" and c: "contested r"
  shows "contested (snd (CommitReceiver g r))" and "contested (snd (CommitOutboundPeer (Some g) r))"
    and "contested (snd (commitClientRule g groupID version policy publish r))"
proof -
  note ok = reg_invD [OF inv]
  have g: "g < length (rg_gens r)" "gn_phase (gen r g) = PhasePrepared" if "isExactLocked (Some g) role PhasePrepared r" for role
    using that isExact_iff [OF ok(1)] by auto
  have upd: "contest ((rg_gens r)[g := x]) (rg_arbs r) (rg_arbitrations r)"
    if "isExactLocked (Some g) role PhasePrepared r" "gn_role x = gn_role (gen r g)" "gn_peerID x = gn_peerID (gen r g)" for x role
    by (rule commit_contest [OF ok(1) c g [OF that(1)] that(2,3)])
  have commit: "commitLocked g r = (False, r) \<or> (\<exists>r'. commitLocked g r = (True, r'))"
    using commit_False [of g r] by (cases "commitLocked g r") auto
  have cur: "gn_role (current_gen g r) = gn_role (gen r g)" "gn_peerID (current_gen g r) = gn_peerID (gen r g)"
    by (simp_all add: current_gen_def)
  show "contested (snd (CommitReceiver g r))"
  proof (cases "isExactLocked (Some g) (gn_role (gen r g)) PhasePrepared r")
    case True
    from commit show ?thesis
      using c upd [OF True cur] by (auto simp: CommitReceiver_def True commit_fields)
  qed (use c in \<open>simp add: CommitReceiver_def\<close>)
  show "contested (snd (CommitOutboundPeer (Some g) r))"
  proof (cases "isExactLocked (Some g) RolePeer PhasePrepared r")
    case True
    show ?thesis
      using c upd [OF True] by (auto simp: CommitOutboundPeer_def Let_def upd_gen_def split: option.split)
  qed (use c in \<open>simp add: CommitOutboundPeer_def\<close>)
  show "contested (snd (commitClientRule g groupID version policy publish r))"
  proof (cases "isExactLocked (Some g) RoleClient PhasePrepared r")
    case True
    from commit show ?thesis
      using c upd [OF True] g(1) [OF True] by (auto simp: commitClientRule_def Let_def True commit_fields upd_gen_def current_gen_def)
  qed (use c in \<open>simp add: commitClientRule_def\<close>)
qed

lemma toRetiring_contest:
  assumes ok: "struct r" "contested r" and g: "in_all g r" "gn_phase (gen r g) \<noteq> PhasePending" "gn_phase (gen r g) \<noteq> PhaseRetiring"
  shows "contested (toRetiring g r)"
proof -
  note all = g(1) [unfolded in_all_iff [OF ok(1)]]
  then have "active (gen r g)"
    using g(2) live_cases by blast
  then have "contest ((rg_gens r)[g := retiring_gen g r]) (rg_arbs r) (rg_arbitrations r)"
    using active_known [OF ok(1)] all by (intro contest_role [OF ok]) simp_all
  then show ?thesis
    using retire_cases [OF ok(1) _ _ g(2,3)] all by simp
qed

lemma BeginRetire_contest:
  assumes "reg_inv r" and "contested r"
  shows "contested (snd (registry_BeginRetire (Some g) r))"
proof (cases "in_all g r \<and> gn_phase (gen r g) \<noteq> PhasePending \<and> gn_phase (gen r g) \<noteq> PhaseRetiring")
  case True
  then show ?thesis
    using toRetiring_contest [OF reg_invD(1) [OF assms(1)] assms(2)] assms(2)
    by (simp add: registry_BeginRetire_def Let_def split: Phase.split)
qed (use assms(2) in \<open>auto simp: registry_BeginRetire_def\<close>)

lemma Release_contest:
  assumes inv: "reg_inv r" and c: "contested r"
  shows "contested (snd (Release (Some g) r))"
proof (cases "\<exists>a. in_all g r \<and> map_of (rg_arbitrations r) (gn_peerID (gen r g)) = Some a \<and> ar_loser (arb r a) = g")
  case False
  note ok = reg_invD [OF inv]
  have "no_loser g r"
    unfolding no_loser_def
  proof clarify
    fix k a assume m: "(k, a) \<in> set (rg_arbitrations r)" and l: "g = ar_loser (arb r a)"
    from loser_key(1,2) [OF ok(1) m l [symmetric]] False l show False by simp
  qed
  then have "contested (snd (removeLocked (Some g) r))"
    by (rule remove_contest [OF ok(1,2) c])
  then have "contested (snd (releaseToken g r))"
    by (simp add: releaseToken_def Let_def split_beta)
  moreover have "snd (Release (Some g) r) = snd (releaseToken g r)"
    using False by (auto simp: Release_def split: option.splits)
  ultimately show ?thesis by simp
next
  case True
  then obtain a where a: "in_all g r" "map_of (rg_arbitrations r) (gn_peerID (gen r g)) = Some a" "ar_loser (arb r a) = g"
    by blast
  note ok = reg_invD [OF inv]
  have "gn_phase (gen r g) \<noteq> PhasePending"
    using pending_gen(1) [OF ok(1)] loser_key(3) [OF ok(1) map_of_SomeD [OF a(2)] a(3)] a(1) in_all_iff [OF ok(1)] by auto
  then have "contested (if gn_phase (gen r g) \<noteq> PhaseRetiring then toRetiring g r else r)"
    using c toRetiring_contest [OF ok(1) c a(1)] by simp
  from contest_released [OF this, of a] show ?thesis
    using a c by (simp add: Release_def Let_def)
qed

lemma publish_contest:
  assumes inv: "reg_inv r" and c: "contested r"
  shows "contested (snd (PublishForwarding (Some g) eligibility r))" and "contested (snd (publishL4Healthy (Some g) r))"
    and "contested (snd (PublishInstanceL7Health (Some g) health r))"
proof -
  have upd: "contest ((rg_gens r)[g := x]) (rg_arbs r) (rg_arbitrations r)"
    if "registry_isCurrentLocked (Some g) r" "gn_role x = gn_role (gen r g)" "gn_peerID x = gn_peerID (gen r g)"
      "gn_phase x = gn_phase (gen r g)" for x
  proof -
    note g = current_gen_ok(1,2) [OF inv that(1)]
    show ?thesis
      by (rule contest_role [OF reg_invD(1) [OF inv] c active_known [OF reg_invD(1) [OF inv] g(1)]])
        (use g(2) that in \<open>simp_all add: rival_def active_def\<close>)
  qed
  then show "contested (snd (PublishForwarding (Some g) eligibility r))" "contested (snd (publishL4Healthy (Some g) r))"
    "contested (snd (PublishInstanceL7Health (Some g) health r))"
    using c by (simp_all add: PublishForwarding_def publishL4Healthy_def PublishInstanceL7Health_def Let_def)
qed

lemma stopFinish_arbitrations: "rg_arbitrations r = [] \<Longrightarrow> rg_arbitrations (stopFinish gs r) = []"
  unfolding stopFinish_def by (induction gs arbitrary: r) (simp_all add: remove_closed)

lemma registry_step_contest:
  assumes inv: "reg_inv r" and c: "contested r" and op: "registry_op_valid op r"
  shows "contested (registry_step op r)"
proof (cases op)
  case (Stop_finish gs)
  then have "rg_arbitrations r = []"
    using op reg_invD(4) [OF inv] by (simp add: gate_ok_def)
  then show ?thesis
    using Stop_finish by (simp add: stopFinish_arbitrations)
next
  case Stop_gate
  then show ?thesis
    using c by (simp add: stopGate_def closeGroupChanged_def Let_def)
qed (use assms in \<open>simp_all add: begin_contest PrepareClient_contest PreparePeer_contest CompleteArbitration_contest
    CancelArbitration_contest commits_contest BeginRetire_contest Release_contest publish_contest\<close>)

interpretation contests: machine registry_op_valid registry_step "\<lambda>r. reg_inv r \<and> contested r"
  by unfold_locales (simp add: registry_step_inv registry_step_contest)

lemma reachable_contested:
  assumes "reachable p c q r" and "0 \<le> p" and "0 \<le> c" and "0 \<le> q"
  shows "contested r"
proof -
  have "reg_inv (NewRegistry p c q) \<and> contested (NewRegistry p c q)"
    using NewRegistry_inv [OF assms(2-4)] by (simp add: NewRegistry_def)
  from contests.exec_inv [OF this] assms(1) show ?thesis
    by (auto simp: reachable_def)
qed

end
