(* ===== verification/Mesh_Arbitration.thy ===== *)
theory Mesh_Arbitration
  imports Mesh_Contest
begin

text \<open>
  The arbitration between an outbound and an inbound connection of the same peer: the preferred inbound connection
  suppresses the prepared outbound one, and takes its place once that one is released, whatever operations run in between.
\<close>

section \<open>Opening\<close>

definition opened :: "nat \<Rightarrow> nat \<Rightarrow> string \<Rightarrow> Registry \<Rightarrow> Registry" where
  "opened g l k r = signalLocked (r\<lparr>rg_nextArbID := rg_nextArbID r + 1,
     rg_arbs := rg_arbs r @ [\<lparr>ar_id = rg_nextArbID r + 1, ar_peerID = k, ar_inbound = g, ar_loser = l, ar_loserReleased = False\<rparr>],
     rg_arbitrations := AList.update k (length (rg_arbs r)) (rg_arbitrations r)\<rparr>)"

lemma opened_fields [simp]:
  "rg_gens (opened g l k r) = rg_gens r" "rg_closed (opened g l k r) = rg_closed r" "rg_maxPeers (opened g l k r) = rg_maxPeers r"
  "map_of (rg_arbitrations (opened g l k r)) k = Some (length (rg_arbs r))" "rg_peers (opened g l k r) = rg_peers r"
  "arb (opened g l k r) (length (rg_arbs r)) = \<lparr>ar_id = rg_nextArbID r + 1, ar_peerID = k, ar_inbound = g, ar_loser = l, ar_loserReleased = False\<rparr>"
  by (simp_all add: opened_def signalLocked_def update_conv')

lemma arbitration_opens:
  assumes "\<not> rg_closed r" and "isExactLocked (Some g) RoleUnknown PhasePending r" and "map_of (rg_arbitrations r) k = None"
    and "map_of (rg_peers r) k = Some e" and "en_prepared e = Some l" and "en_current e = None"
    and "gn_direction (gen r l) = DirectionOutbound"
  shows "PreparePeer (Some g) k True r = (Inr (Arbitrate (length (rg_arbs r))), opened g l k r)"
  using assms by (simp add: PreparePeer_def Let_def opened_def)

section \<open>A running arbitration\<close>

definition running :: "string \<Rightarrow> nat \<Rightarrow> nat \<Rightarrow> nat \<Rightarrow> Registry \<Rightarrow> bool" where
  "running k a g l r \<longleftrightarrow> map_of (rg_arbitrations r) k = Some a \<and> ar_inbound (arb r a) = g \<and> ar_loser (arb r a) = l"

definition persists :: "string \<Rightarrow> nat \<Rightarrow> Registry \<Rightarrow> Registry \<Rightarrow> bool" where
  "persists k a r r' \<longleftrightarrow> map_of (rg_arbitrations r') k = map_of (rg_arbitrations r) k \<and> ar_inbound (arb r' a) = ar_inbound (arb r a) \<and>
     ar_loser (arb r' a) = ar_loser (arb r a) \<and> (ar_loserReleased (arb r a) \<longrightarrow> ar_loserReleased (arb r' a))"

lemma persists_same: "rg_arbs r' = rg_arbs r \<Longrightarrow> rg_arbitrations r' = rg_arbitrations r \<Longrightarrow> persists k a r r'"
  by (simp add: persists_def)

lemma persists_deleted:
  "rg_arbs r' = rg_arbs r \<Longrightarrow> rg_arbitrations r' = AList.delete j (rg_arbitrations r) \<Longrightarrow> j \<noteq> k \<Longrightarrow> persists k a r r'"
  by (simp add: persists_def delete_conv')

lemma persists_trans: "persists k a r s \<Longrightarrow> persists k a s t \<Longrightarrow> persists k a r t"
  by (simp add: persists_def)

lemma arbs_helpers [simp]:
  "rg_arbs (unlinkActiveLocked h r) = rg_arbs r" "rg_arbitrations (unlinkActiveLocked h r) = rg_arbitrations r"
  "rg_arbs (addRetiringLocked h r) = rg_arbs r" "rg_arbitrations (addRetiringLocked h r) = rg_arbitrations r"
  "rg_arbs (updateRoleHighWaterLocked role r) = rg_arbs r" "rg_arbitrations (updateRoleHighWaterLocked role r) = rg_arbitrations r"
  "rg_arbs (removePendingLocked h r) = rg_arbs r" "rg_arbitrations (removePendingLocked h r) = rg_arbitrations r"
  "rg_arbs (snd (commitLocked h r)) = rg_arbs r" "rg_arbitrations (snd (commitLocked h r)) = rg_arbitrations r"
  by (simp_all add: unlinkActiveLocked_def addRetiringLocked_def updateRoleHighWaterLocked_def removePendingLocked_def commitLocked_def
      Let_def split: Role.split option.split)

lemma arbs_moved [simp]:
  "rg_arbs (toRetiring h r) = rg_arbs r" "rg_arbitrations (toRetiring h r) = rg_arbitrations r"
  "rg_arbs (dropGeneration h r) = rg_arbs r" "rg_arbitrations (dropGeneration h r) = rg_arbitrations r"
  by (simp_all add: toRetiring_def dropGeneration_def Let_def split: Role.split)

lemma arbs_admission:
  "rg_arbs (snd (BeginInbound r)) = rg_arbs r" "rg_arbitrations (snd (BeginInbound r)) = rg_arbitrations r"
  "rg_arbs (snd (BeginOutboundPeer j r)) = rg_arbs r" "rg_arbitrations (snd (BeginOutboundPeer j r)) = rg_arbitrations r"
  "rg_arbs (snd (PrepareClient e i grp r)) = rg_arbs r" "rg_arbitrations (snd (PrepareClient e i grp r)) = rg_arbitrations r"
  by (simp_all add: BeginInbound_def BeginOutboundPeer_def PrepareClient_def newGeneration_eq Let_def)

lemma arbs_commits:
  "rg_arbs (snd (CommitReceiver h r)) = rg_arbs r" "rg_arbitrations (snd (CommitReceiver h r)) = rg_arbitrations r"
  "rg_arbs (snd (CommitOutboundPeer e r)) = rg_arbs r" "rg_arbitrations (snd (CommitOutboundPeer e r)) = rg_arbitrations r"
  "rg_arbs (snd (commitClientRule h grp v pol pub r)) = rg_arbs r"
  "rg_arbitrations (snd (commitClientRule h grp v pol pub r)) = rg_arbitrations r"
  using arbs_helpers(9,10) [of h r]
  by (auto simp: CommitReceiver_def CommitOutboundPeer_def commitClientRule_def Let_def split: prod.split option.split bool.split
      simp del: arbs_helpers(9,10))

lemma arbs_published:
  "rg_arbs (snd (registry_BeginRetire e r)) = rg_arbs r" "rg_arbitrations (snd (registry_BeginRetire e r)) = rg_arbitrations r"
  "rg_arbs (snd (PublishForwarding e f r)) = rg_arbs r" "rg_arbitrations (snd (PublishForwarding e f r)) = rg_arbitrations r"
  "rg_arbs (snd (publishL4Healthy e r)) = rg_arbs r" "rg_arbitrations (snd (publishL4Healthy e r)) = rg_arbitrations r"
  "rg_arbs (snd (PublishInstanceL7Health e h r)) = rg_arbs r" "rg_arbitrations (snd (PublishInstanceL7Health e h r)) = rg_arbitrations r"
  by (simp_all add: registry_BeginRetire_def PublishForwarding_def publishL4Healthy_def PublishInstanceL7Health_def Let_def
      split: option.split Phase.split)

lemma PreparePeer_persists:
  assumes "a < length (rg_arbs r)" and "map_of (rg_arbitrations r) k = Some a"
  shows "persists k a r (snd (PreparePeer (Some g) j preferred r))"
proof (cases "map_of (rg_arbitrations r) j")
  case None
  then have "j \<noteq> k"
    using assms(2) by auto
  then show ?thesis
    using assms(1) by (auto simp: PreparePeer_def Let_def persists_def transfer_fields update_conv' nth_append split: option.split)
qed (simp add: PreparePeer_def persists_same)

lemma finish_persists:
  assumes "struct r" and "reg_caps r" and "(ar_peerID (arb r b), b) \<in> set (rg_arbitrations r)" and "map_of (rg_arbitrations r) k = Some a" and "b \<noteq> a"
  shows "persists k a r (finishArbitrationLocked b r)"
proof (rule persists_deleted [OF finish_arb(6,5) [OF assms(1-3)]])
  have "map_of (rg_arbitrations r) (ar_peerID (arb r b)) = Some b"
    using map_of_eq_Some_iff [OF arbs_okD(1) [OF structD(6) [OF assms(1)]]] assms(3) by simp
  then show "ar_peerID (arb r b) \<noteq> k"
    using assms(4,5) by auto
qed

lemma remove_persists:
  assumes ok: "struct r" "reg_caps r" and nl: "no_loser h r" and a: "map_of (rg_arbitrations r) k = Some a" and "h \<noteq> ar_inbound (arb r a)"
  shows "persists k a r (snd (removeLocked (Some h) r))"
proof (cases "in_all h r")
  case True
  note eq = remove_inv(7) [OF ok nl True]
  show ?thesis
  proof (cases "arbitrationForInboundLocked h r")
    case None
    then show ?thesis by (simp add: eq persists_same)
  next
    case (Some b)
    note b = arbitrationForInbound_Some [OF Some]
    have "persists k a r (finishArbitrationLocked b r)"
      by (rule finish_persists [OF ok b(1) a]) (use b(2) assms(5) in auto)
    then show ?thesis
      unfolding eq Some option.case by (rule persists_trans) (simp add: persists_same)
  qed
qed (simp add: removeLocked_eq persists_same)

lemma settle_persists:
  assumes inv: "reg_inv r" and a: "map_of (rg_arbitrations r) k = Some a" and b: "b \<noteq> a"
  shows "persists k a r (snd (CompleteArbitration (Some b) r))" and "persists k a r (snd (CancelArbitration (Some b) abort r))"
proof -
  note ok = reg_invD [OF inv]
  let ?r = "finishArbitrationLocked b r"
  have fin: "persists k a r ?r" if "isExactArbitrationLocked (Some b) r"
    by (rule finish_persists [OF ok(1,2) exact_arb [OF that] a b])
  have "snd (CompleteArbitration (Some b) r) \<in> {r, ?r, transferPendingToPeerLocked (ar_inbound (arb r b)) (ar_peerID (arb r b)) ?r}"
    "\<not> isExactArbitrationLocked (Some b) r \<Longrightarrow> snd (CompleteArbitration (Some b) r) = r"
    by (simp_all add: CompleteArbitration_def Let_def)
  moreover have "persists k a ?r (transferPendingToPeerLocked h j ?r)" for h j
    by (rule persists_same) (simp_all add: transfer_fields)
  ultimately show "persists k a r (snd (CompleteArbitration (Some b) r))"
    using fin persists_trans persists_same [of r r] by (cases "isExactArbitrationLocked (Some b) r") auto
  show "persists k a r (snd (CancelArbitration (Some b) abort r))"
  proof (cases "isExactArbitrationLocked (Some b) r")
    case True
    note mem = exact_arb [OF True] and p = fin [OF True]
    note f = finish_arb [OF ok(1,2) mem]
    have arb: "arb_ok (rg_gens r) (ar_peerID (arb r b)) (arb r b)"
      by (rule arbs_okD(3) [OF structD(6) [OF ok(1)] mem])
    then have "gn_role (gen ?r (ar_inbound (arb r b))) \<noteq> RolePeer"
      by (auto simp: f(4) finished_gens_def arb_ok_def nth_list_update)
    then have nl: "no_loser (ar_inbound (arb r b)) ?r"
      by (rule no_loser_role [OF f(1)])
    have "ar_inbound (arb r b) \<noteq> ar_inbound (arb r a)"
    proof
      assume "ar_inbound (arb r b) = ar_inbound (arb r a)"
      then have "ar_peerID (arb r b) = k"
        using arbs_okD(4) [OF structD(6) [OF ok(1)] mem map_of_SomeD [OF a]] by simp
      then show False
        using True a b by (simp add: isExactArbitrationLocked_def)
    qed
    then have "persists k a ?r (snd (removeLocked (Some (ar_inbound (arb r b))) ?r))"
      using p a by (intro remove_persists [OF f(1,2) nl]) (simp_all add: persists_def f(6))
    then show ?thesis
      using True p persists_trans [OF p] by (simp add: CancelArbitration_def Let_def f(6))
  qed (simp add: CancelArbitration_def persists_same)
qed

lemma Release_persists:
  assumes inv: "reg_inv r" and a: "map_of (rg_arbitrations r) k = Some a" and h: "h \<noteq> ar_inbound (arb r a)"
  shows "persists k a r (snd (Release (Some h) r))"
proof (cases "\<exists>b. in_all h r \<and> map_of (rg_arbitrations r) (gn_peerID (gen r h)) = Some b \<and> ar_loser (arb r b) = h")
  case False
  note ok = reg_invD [OF inv]
  have "no_loser h r"
    unfolding no_loser_def
  proof clarify
    fix j b assume m: "(j, b) \<in> set (rg_arbitrations r)" and l: "h = ar_loser (arb r b)"
    from loser_key(1,2) [OF ok(1) m l [symmetric]] False l show False by simp
  qed
  then have "persists k a r (snd (removeLocked (Some h) r))"
    by (rule remove_persists [OF ok(1,2) _ a h])
  then have "persists k a r (snd (releaseToken h r))"
    by (simp add: releaseToken_def Let_def split_beta persists_def)
  moreover have "snd (Release (Some h) r) = snd (releaseToken h r)"
    using False by (auto simp: Release_def split: option.splits)
  ultimately show ?thesis by simp
next
  case True
  then obtain b where b: "in_all h r" "map_of (rg_arbitrations r) (gn_peerID (gen r h)) = Some b" "ar_loser (arb r b) = h"
    by blast
  have "b < length (rg_arbs r)"
    by (rule arbs_okD(2) [OF structD(6) [OF reg_invD(1) [OF inv]] map_of_SomeD [OF b(2)]])
  then show ?thesis
    using b by (simp add: Release_def Let_def persists_def nth_list_update)
qed

text \<open>Only its own completion or cancellation, the end of its inbound session, or \<open>Stop\<close> ends an arbitration.\<close>

lemma step_persists:
  assumes inv: "reg_inv r" and a: "map_of (rg_arbitrations r) k = Some a" and op: "registry_op_valid op r"
    and "op \<noteq> Complete_arbitration a" "\<forall>abort. op \<noteq> Cancel_arbitration a abort" "op \<noteq> Release_generation (ar_inbound (arb r a))"
      "op \<noteq> Stop_gate"
  shows "persists k a r (registry_step op r)"
proof (cases op)
  case (Prepare_peer g j preferred)
  then show ?thesis
    using PreparePeer_persists [OF arbs_okD(2) [OF structD(6) [OF reg_invD(1) [OF inv]] map_of_SomeD [OF a]] a] by simp
next
  case (Cancel_arbitration b abort)
  then have "b \<noteq> a"
    using assms(5) by auto
  then show ?thesis
    using settle_persists(2) [OF inv a] Cancel_arbitration by simp
next
  case (Stop_finish gs)
  then have "rg_arbitrations r = []"
    using op reg_invD(4) [OF inv] by (simp add: gate_ok_def)
  then show ?thesis
    using a by simp
qed (use assms in \<open>simp_all add: settle_persists Release_persists persists_same arbs_admission arbs_commits arbs_published\<close>)

section \<open>Releasing the loser\<close>

lemma loser_releases:
  assumes inv: "reg_inv r" and run: "running k a g l r"
  shows "fst (registry_BeginRetire (Some l) r)" and "fst (Release (Some l) r) \<longleftrightarrow> \<not> ar_loserReleased (arb r a)"
    and "ar_loserReleased (arb (snd (Release (Some l) r)) a)" and "\<not> fst (CommitOutboundPeer (Some l) r)"
    and "fst (BeginOutboundPeer k r) = Inl ErrPeerSuppressed"
proof -
  note ok = reg_invD [OF inv]
  have a: "map_of (rg_arbitrations r) k = Some a" "ar_loser (arb r a) = l"
    using run by (simp_all add: running_def)
  note mem = map_of_SomeD [OF a(1)]
  have len: "a < length (rg_arbs r)" and "arb_ok (rg_gens r) k (arb r a)"
    using arbs_okD(2,3) [OF structD(6) [OF ok(1)] mem] .
  then have l: "l < length (rg_gens r)" "gn_peerID (gen r l) = k" "active (gen r l)"
    using a(2) by (simp_all add: arb_ok_def)
  have all: "in_all l r"
    by (rule loser_key(2) [OF ok(1) mem a(2)])
  show "fst (registry_BeginRetire (Some l) r)"
    using all l(3) by (simp add: registry_BeginRetire_def active_def Let_def split: Phase.split) auto
  show "fst (Release (Some l) r) \<longleftrightarrow> \<not> ar_loserReleased (arb r a)" "ar_loserReleased (arb (snd (Release (Some l) r)) a)"
    using all a l(2) len by (simp_all add: Release_def Let_def)
  show "\<not> fst (CommitOutboundPeer (Some l) r)"
    using a l(2) by (simp add: CommitOutboundPeer_def Let_def)
  show "fst (BeginOutboundPeer k r) = Inl ErrPeerSuppressed"
    using a(1) ok(4) by (auto simp: BeginOutboundPeer_def gate_ok_def)
qed

section \<open>Completing\<close>

lemma arbitration_completes:
  assumes inv: "reg_inv r" and a: "map_of (rg_arbitrations r) k = Some a" and rel: "ar_loserReleased (arb r a)" and open_: "\<not> rg_closed r"
    and g: "ar_inbound (arb r a) = g" "gn_phase (gen r g) = PhasePending" and l: "ar_loser (arb r a) = l"
    and free: "\<And>h. \<not> owns RolePeer gn_peerID (rg_gens r) k PhasePrepared h \<and> \<not> owns RolePeer gn_peerID (rg_gens r) k PhaseCurrent h"
  shows "fst (CompleteArbitration (Some a) r) = Inr g"
    and "rg_gens (snd (CompleteArbitration (Some a) r)) =
      (rg_gens r)[l := dropped l r, g := (gen r g)\<lparr>gn_role := RolePeer, gn_phase := PhasePrepared, gn_peerID := k\<rparr>]"
proof -
  note ok = reg_invD [OF inv]
  have arb: "arb_ok (rg_gens r) k (arb r a)"
    by (rule arbs_okD(3) [OF structD(6) [OF ok(1)] map_of_SomeD [OF a]])
  then have k: "ar_peerID (arb r a) = k" and gl: "g < length (rg_gens r)" "gn_role (gen r g) = RoleUnknown" "l < length (rg_gens r)"
      "gn_role (gen r l) = RolePeer" "gn_phase (gen r l) = PhaseRetiring"
    using g l rel by (simp_all add: arb_ok_def)
  have key: "(ar_peerID (arb r a), a) \<in> set (rg_arbitrations r)"
    using map_of_SomeD [OF a] k by simp
  note f = finish_arb [OF ok(1,2) key]
  have gens: "rg_gens (finishArbitrationLocked a r) = (rg_gens r)[l := dropped l r]"
    using f(4) rel l by (simp add: finished_gens_def)
  have ex: "isExactLocked (Some g) RoleUnknown PhasePending r" "isExactLocked (Some l) RolePeer PhaseRetiring r"
    using isExact_iff [OF ok(1), of g] isExact_iff [OF ok(1), of l] gl g(2) by simp_all
  have slot: "en_prepared e = None \<and> en_current e = None" if e: "map_of (rg_peers r) k = Some e" for e
    using entry_okD(1,2) [OF slots_lookup(1) [OF structD(5) [OF ok(1)] e], of "the (en_prepared e)"]
      entry_okD(1,2) [OF slots_lookup(1) [OF structD(5) [OF ok(1)] e], of "the (en_current e)"]
      free [of "the (en_prepared e)"] free [of "the (en_current e)"]
    by (cases "en_prepared e"; cases "en_current e") simp_all
  have cap: "\<not> countRoleLocked RolePeer r > rg_maxPeers r"
    using ok(2) countRole_eq(2) [OF ok(1)] by (simp add: reg_caps_def)
  have eq: "CompleteArbitration (Some a) r = (Inr g, transferPendingToPeerLocked g k (finishArbitrationLocked a r))"
    using a k rel open_ g l ex slot cap by (auto simp: CompleteArbitration_def isExactArbitrationLocked_def Let_def split: option.split)
  then show "fst (CompleteArbitration (Some a) r) = Inr g"
    by simp
  have "g \<noteq> l"
    using gl by auto
  then show "rg_gens (snd (CompleteArbitration (Some a) r)) =
      (rg_gens r)[l := dropped l r, g := (gen r g)\<lparr>gn_role := RolePeer, gn_phase := PhasePrepared, gn_peerID := k\<rparr>]"
    unfolding eq using gl(1)
    by (simp add: transferPendingToPeerLocked_def Let_def removePendingLocked_def upd_gen_def updateRoleHighWaterLocked_def gens)
qed

lemma arbitration_ends:
  assumes inv: "reg_inv r" and con: "contested r" and run: "running k a g l r"
  shows "\<not> ar_loserReleased (arb r a) \<Longrightarrow> fst (CompleteArbitration (Some a) r) = Inl ErrStaleGeneration"
    and "ar_loserReleased (arb r a) \<Longrightarrow> fst (CompleteArbitration (Some a) r) = Inr g"
    and "ar_loserReleased (arb r a) \<Longrightarrow> gn_phase (gen (snd (CompleteArbitration (Some a) r)) l) = PhaseDone \<and>
      isExactLocked (Some g) RolePeer PhasePrepared (snd (CompleteArbitration (Some a) r)) \<and>
      gn_peerID (gen (snd (CompleteArbitration (Some a) r)) g) = k \<and>
      map_of (rg_arbitrations (snd (CompleteArbitration (Some a) r))) k = None \<and>
      countRoleLocked RolePeer (snd (CompleteArbitration (Some a) r)) = countRoleLocked RolePeer r"
proof -
  note ok = reg_invD [OF inv]
  let ?r = "snd (CompleteArbitration (Some a) r)"
  have a: "map_of (rg_arbitrations r) k = Some a" "ar_inbound (arb r a) = g" "ar_loser (arb r a) = l"
    using run by (simp_all add: running_def)
  note mem = map_of_SomeD [OF a(1)]
  have arb: "arb_ok (rg_gens r) k (arb r a)"
    by (rule arbs_okD(3) [OF structD(6) [OF ok(1)] mem])
  have open_: "\<not> rg_closed r"
    using a(1) ok(4) by (auto simp: gate_ok_def)
  have k: "ar_peerID (arb r a) = k"
    using arb by (simp add: arb_ok_def)
  show "fst (CompleteArbitration (Some a) r) = Inl ErrStaleGeneration" if "\<not> ar_loserReleased (arb r a)"
    using that open_ a k by (simp add: CompleteArbitration_def isExactArbitrationLocked_def Let_def)
  have phase: "gn_phase (gen r g) = PhasePending"
    using contestD(1) [OF con mem] a(2) by simp
  have gl: "g < length (rg_gens r)" "l < length (rg_gens r)" "gn_role (gen r g) = RoleUnknown" "gn_role (gen r l) = RolePeer"
      "active (gen r l)" "g \<noteq> l"
    using arb a by (auto simp: arb_ok_def)
  assume rel: "ar_loserReleased (arb r a)"
  have "gn_phase (gen r l) = PhaseRetiring"
    using arb a(3) rel by (simp add: arb_ok_def)
  then have free: "\<not> owns RolePeer gn_peerID (rg_gens r) k PhasePrepared h \<and> \<not> owns RolePeer gn_peerID (rg_gens r) k PhaseCurrent h" for h
    using contestD(2) [OF con mem, of h] a(3) by (auto simp: owns_def rival_def)
  note comp = arbitration_completes [OF inv a(1) rel open_ a(2) phase a(3) free]
  show c: "fst (CompleteArbitration (Some a) r) = Inr g"
    by (rule comp(1))
  have inv3: "reg_inv ?r"
    by (rule CompleteArbitration_inv [OF inv])
  have "num (is_role RolePeer) (rg_gens ?r) = num (is_role RolePeer) (rg_gens r)"
    unfolding comp(2) using gl phase by (simp add: num_update active_def)
  then have "countRoleLocked RolePeer ?r = countRoleLocked RolePeer r"
    using countRole_eq(2) [OF ok(1)] countRole_eq(2) [OF reg_invD(1) [OF inv3]] by simp
  moreover have "isExactLocked (Some g) RolePeer PhasePrepared ?r" "gn_peerID (gen ?r g) = k" "gn_phase (gen ?r l) = PhaseDone"
    using isExact_iff [OF reg_invD(1) [OF inv3], of g] gl by (simp_all add: comp(2))
  moreover have "?r = transferPendingToPeerLocked g k (finishArbitrationLocked a r)"
    using c open_ a k by (auto simp: CompleteArbitration_def isExactArbitrationLocked_def Let_def split: if_splits)
  then have "map_of (rg_arbitrations ?r) k = None"
    using finish_arb(5) [OF ok(1,2), of a] mem k by (simp add: transfer_fields delete_conv')
  ultimately show "gn_phase (gen ?r l) = PhaseDone \<and> isExactLocked (Some g) RolePeer PhasePrepared ?r \<and> gn_peerID (gen ?r g) = k \<and>
      map_of (rg_arbitrations ?r) k = None \<and> countRoleLocked RolePeer ?r = countRoleLocked RolePeer r"
    by blast
qed

section \<open>The whole arbitration\<close>


text \<open>A peer dials in while the own connection to it is prepared; that one is retired and then released.\<close>

definition demo_contest :: Registry where
  "demo_contest = exec registry_step (demo_ops @ [Prepare_peer 2 ''n'' True, Begin_retire 1, Release_generation 1]) (NewRegistry 2 1 1)"

lemma demo_contest_reachable: "reachable 2 1 1 demo_contest"
  unfolding reachable_def demo_contest_def by (rule exI, rule conjI [OF _ refl]) code_simp


end
