(* ===== verification/Mesh_Selection.thy ===== *)
theory Mesh_Selection
  imports Mesh_Registry Tcp_Source "HOL-Library.List_Lexorder" "HOL-Library.Char_ord"
begin

text \<open>
  Choosing the next hop of a flow, \<^verbatim>\<open>mesh/selection.go\<close>: a lease is one business stream to a generation, counted
  per generation and source; a selection goes through a fixed set of candidates and tries each at most once.

  Leases live in a list beside the registry and the sources, and a pointer is an index. Every operation holds the
  registry lock; \<open>acknowledge\<close> gives the setup slot back after it, which is its last step here.
\<close>

section \<open>State\<close>

datatype selection_error =
    Registry_error registry_error | Source_error source_error | ErrNoMeshCandidate | ErrGenerationConnectionCapacity
  | ErrGenerationSetupCapacity | ErrLocalTransportBudget | Selection_context | Open_failed

datatype generationLeaseState = generationLeasePending | generationLeaseActive | generationLeaseReleased

record generationLease =
  gl_generation :: nat
  gl_source :: nat
  gl_setup :: "nat option"
  gl_probe :: bool
  gl_terminal :: bool
  gl_failOpen :: bool
  gl_state :: generationLeaseState

record mesh_state =
  ms_registry :: Registry
  ms_sources :: source_heap
  ms_leases :: "generationLease list"

record generationTrafficSnapshot =
  gs_Pending :: int
  gs_Active :: int
  gs_High :: int
  gs_SetupHigh :: int
  gs_Inflight :: int

definition no_traffic :: generationTraffic where
  "no_traffic = \<lparr>gt_pending = 0, gt_active = 0, gt_high = 0, gt_setupHigh = 0\<rparr>"

definition traffic_of :: "Generation \<Rightarrow> nat \<Rightarrow> generationTraffic" where
  "traffic_of x s = (case map_of (gn_traffic x) s of None \<Rightarrow> no_traffic | Some u \<Rightarrow> u)"

definition trafficSnapshot :: "nat option \<Rightarrow> nat \<Rightarrow> Registry \<Rightarrow> generationTrafficSnapshot" where
  "trafficSnapshot gp s r =
     (case gp of None \<Rightarrow> \<lparr>gs_Pending = 0, gs_Active = 0, gs_High = 0, gs_SetupHigh = 0, gs_Inflight = 0\<rparr>
      | Some g \<Rightarrow>
        (case map_of (gn_traffic (gen r g)) s of
           None \<Rightarrow> \<lparr>gs_Pending = 0, gs_Active = 0, gs_High = 0, gs_SetupHigh = 0, gs_Inflight = gn_inflight (gen r g)\<rparr>
         | Some u \<Rightarrow> \<lparr>gs_Pending = gt_pending u, gs_Active = gt_active u, gs_High = gt_high u, gs_SetupHigh = gt_setupHigh u,
                      gs_Inflight = gn_inflight (gen r g)\<rparr>))"

section \<open>Leases\<close>

definition put_traffic :: "nat \<Rightarrow> nat \<Rightarrow> generationTraffic \<Rightarrow> Registry \<Rightarrow> Registry" where
  "put_traffic g s u r = upd_gen g (\<lambda>x. x\<lparr>gn_traffic := AList.update s u (gn_traffic x)\<rparr>) r"

definition set_lease :: "nat \<Rightarrow> generationLeaseState \<Rightarrow> mesh_state \<Rightarrow> mesh_state" where
  "set_lease l phase m = m\<lparr>ms_leases := (ms_leases m)[l := (ms_leases m ! l)\<lparr>gl_state := phase\<rparr>]\<rparr>"

definition activateLocked :: "nat \<Rightarrow> mesh_state \<Rightarrow> mesh_state" where
  "activateLocked l m =
     (let x = ms_leases m ! l; g = gl_generation x; s = gl_source x; u = traffic_of (gen (ms_registry m) g) s
      in set_lease l generationLeaseActive
           (m\<lparr>ms_registry := put_traffic g s (u\<lparr>gt_pending := gt_pending u - 1, gt_active := gt_active u + 1\<rparr>) (ms_registry m)\<rparr>))"

definition lease_acknowledge :: "nat option \<Rightarrow> mesh_state \<Rightarrow> bool \<times> mesh_state" where
  "lease_acknowledge lp m =
     (case lp of None \<Rightarrow> (False, m)
      | Some l \<Rightarrow>
        let x = ms_leases m ! l in
        case (if gl_probe x then None else gl_setup x) of None \<Rightarrow> (False, m)
        | Some i \<Rightarrow>
          if gl_state x \<noteq> generationLeasePending then (False, m)
          else
            let (claimed, h) = setup_claim (Some i) (ms_sources m) in
            if \<not> claimed then (False, m)
            else
              let m1 = activateLocked l (m\<lparr>ms_sources := h\<rparr>)
              in (True, m1\<lparr>ms_sources := setup_settle i (ms_sources m1)\<rparr>))"

definition lease_acknowledgeProbe :: "nat option \<Rightarrow> mesh_state \<Rightarrow> bool \<times> mesh_state" where
  "lease_acknowledgeProbe lp m =
     (case lp of None \<Rightarrow> (False, m)
      | Some l \<Rightarrow>
        if \<not> gl_probe (ms_leases m ! l) then (False, m)
        else if gl_state (ms_leases m ! l) \<noteq> generationLeasePending then (False, m)
        else (True, activateLocked l m))"

definition generationLease_release :: "nat option \<Rightarrow> mesh_state \<Rightarrow> bool \<times> mesh_state" where
  "generationLease_release lp m =
     (case lp of None \<Rightarrow> (False, m)
      | Some l \<Rightarrow>
        let x = ms_leases m ! l; g = gl_generation x; s = gl_source x; r = ms_registry m; u = traffic_of (gen r g) s in
        if gl_state x = generationLeaseReleased then (False, m)
        else
          let u1 = (if gl_state x = generationLeasePending then u\<lparr>gt_pending := gt_pending u - 1\<rparr>
                    else u\<lparr>gt_active := gt_active u - 1\<rparr>);
              r1 = put_traffic g s u1 r;
              r2 = (if gl_terminal x then upd_gen g (\<lambda>y. y\<lparr>gn_inflight := gn_inflight y - 1\<rparr>) r1 else r1)
          in (True, set_lease l generationLeaseReleased (m\<lparr>ms_registry := r2\<rparr>)))"

definition reserveLocked :: "nat option \<Rightarrow> nat option \<Rightarrow> nat option \<Rightarrow> bool \<Rightarrow> bool \<Rightarrow> bool \<Rightarrow> mesh_state \<Rightarrow>
    (selection_error + nat) \<times> mesh_state" where
  "reserveLocked gp sp setup terminal probe failOpen m =
     (let r = ms_registry m; h = ms_sources m in
      case sp of None \<Rightarrow> (Inl (Source_error ErrSourceClosed), m)
      | Some s \<Rightarrow>
        if ts_closed (src h s) then (Inl (Source_error ErrSourceClosed), m)
        else if \<not> probe \<and> (case setup of None \<Rightarrow> True | Some i \<Rightarrow> le_source (sh_setups h ! i) \<noteq> s \<or> \<not> setup_live setup h)
        then (Inl (Source_error ErrSourceSetupReleased), m)
        else if \<not> isForwardingReadyLocked gp r then (Inl ErrNoMeshCandidate, m)
        else
          let g = the gp; u = traffic_of (gen r g) s; m1 = m\<lparr>ms_registry := put_traffic g s u r\<rparr> in
          if gt_pending u + gt_active u \<ge> tc_MaxTCPConnectionsPerGeneration (ts_capacity (src h s))
          then (Inl ErrGenerationConnectionCapacity, m1)
          else if gt_pending u \<ge> tc_MaxPendingTCPSetupsPerGeneration (ts_capacity (src h s))
          then (Inl ErrGenerationSetupCapacity, m1)
          else
            let pending = gt_pending u + 1;
                u1 = u\<lparr>gt_pending := pending, gt_setupHigh := max (gt_setupHigh u) pending,
                       gt_high := max (gt_high u) (pending + gt_active u)\<rparr>;
                r1 = put_traffic g s u1 (ms_registry m1);
                r2 = (if terminal then upd_gen g (\<lambda>y. y\<lparr>gn_inflight := gn_inflight y + 1\<rparr>) r1 else r1)
            in (Inr (length (ms_leases m)),
                m1\<lparr>ms_registry := r2, ms_leases := ms_leases m @ [\<lparr>gl_generation = g, gl_source = s, gl_setup = setup,
                  gl_probe = probe, gl_terminal = terminal, gl_failOpen = failOpen, gl_state = generationLeasePending\<rparr>]\<rparr>))"

definition reserveNextHop :: "nat option \<Rightarrow> nat option \<Rightarrow> mesh_state \<Rightarrow> (selection_error + nat) \<times> mesh_state" where
  "reserveNextHop gp setup m =
     (if \<not> setup_live setup (ms_sources m) then (Inl (Source_error ErrSourceSetupReleased), m)
      else case gp of None \<Rightarrow> (Inl ErrNoMeshCandidate, m)
      | Some g \<Rightarrow>
        if gn_role (gen (ms_registry m) g) \<noteq> RolePeer then (Inl ErrNoMeshCandidate, m)
        else reserveLocked gp (Some (le_source (sh_setups (ms_sources m) ! the setup))) setup False False False m)"

definition reserveProbe :: "nat option \<Rightarrow> nat option \<Rightarrow> mesh_state \<Rightarrow> (selection_error + nat) \<times> mesh_state" where
  "reserveProbe gp tunnelSource m = reserveLocked gp tunnelSource None False True False m"

section \<open>Selections\<close>

record clientSelection =
  cs_source :: "nat option"
  cs_setup :: "nat option"
  cs_groupID :: string
  cs_policy :: string
  cs_candidates :: "nat list"
  cs_tried :: "nat list"
  cs_start :: nat

abbreviation round_robin :: "clientSelection \<Rightarrow> bool" where
  "round_robin s \<equiv> cs_policy s = ''round-robin''"

text \<open>The current generations of the group's clients, in the order of their instance names; the order in which
  the map is read does not matter.\<close>

definition group_candidates :: "string \<Rightarrow> Registry \<Rightarrow> nat list" where
  "group_candidates groupID r =
     sort_key (\<lambda>g. gn_instanceID (gen r g))
       (map (\<lambda>(k, e). the (en_current e)) (filter (\<lambda>(k, e). ce_groupID e = groupID \<and> en_current e \<noteq> None) (rg_clients r)))"

definition healthy :: "Registry \<Rightarrow> nat \<Rightarrow> bool" where
  "healthy r g \<longleftrightarrow> isForwardingReadyLocked (Some g) r \<and> gn_l7Health (gen r g) \<noteq> InstanceL7Failed"

definition selectable_indices :: "nat list \<Rightarrow> Registry \<Rightarrow> nat list" where
  "selectable_indices candidates r =
     (let selectable = filter (\<lambda>i. healthy r (candidates ! i)) [0..<length candidates]
      in if selectable = [] then filter (\<lambda>i. isForwardingReadyLocked (Some (candidates ! i)) r) [0..<length candidates] else selectable)"

definition beginClientSelection :: "string \<Rightarrow> nat option \<Rightarrow> string \<Rightarrow> mesh_state \<Rightarrow> clientSelection \<times> mesh_state" where
  "beginClientSelection groupID setup policy m =
     (let r = ms_registry m;
          s = \<lparr>cs_source = None, cs_setup = setup, cs_groupID = groupID, cs_policy = policy, cs_candidates = [],
               cs_tried = [], cs_start = 0\<rparr> in
      case setup of None \<Rightarrow> (s, m)
      | Some i \<Rightarrow>
        let candidates = group_candidates groupID r;
            s1 = s\<lparr>cs_source := Some (le_source (sh_setups (ms_sources m) ! i)), cs_candidates := candidates\<rparr>;
            selectable = selectable_indices candidates r
        in if candidates \<noteq> [] \<and> round_robin s1 \<and> selectable \<noteq> []
           then let turn = (case map_of (rg_roundRobin r) groupID of None \<Rightarrow> 0 | Some n \<Rightarrow> n)
                in (s1\<lparr>cs_start := selectable ! unat (turn mod of_nat (length selectable))\<rparr>,
                    m\<lparr>ms_registry := r\<lparr>rg_roundRobin := AList.update groupID (turn + 1) (rg_roundRobin r)\<rparr>\<rparr>)
           else (s1, m))"

text \<open>The inner loop of \<open>next\<close>: from the start on, the first candidate not to skip, or the one with the least load.\<close>

fun pick_scan :: "bool \<Rightarrow> (nat \<Rightarrow> bool) \<Rightarrow> (nat \<Rightarrow> int) \<Rightarrow> nat option \<Rightarrow> nat list \<Rightarrow> nat option" where
  "pick_scan first skip load selected [] = selected"
| "pick_scan first skip load selected (g # gs) =
     (if skip g then pick_scan first skip load selected gs
      else
        let selected' = (if selected = None \<or> \<not> first \<and> load g < load (the selected) then Some g else selected)
        in if first then selected' else pick_scan first skip load selected' gs)"

definition rotated :: "clientSelection \<Rightarrow> nat list" where
  "rotated s = map (\<lambda>i. cs_candidates s ! ((cs_start s + i) mod length (cs_candidates s))) [0..<length (cs_candidates s)]"

definition skipped :: "bool \<Rightarrow> clientSelection \<Rightarrow> Registry \<Rightarrow> nat \<Rightarrow> bool" where
  "skipped failedOnly s r g \<longleftrightarrow> g \<in> set (cs_tried s) \<or> \<not> isForwardingReadyLocked (Some g) r \<or>
     \<not> failedOnly \<and> gn_l7Health (gen r g) = InstanceL7Failed"

definition pick :: "bool \<Rightarrow> clientSelection \<Rightarrow> Registry \<Rightarrow> nat option" where
  "pick failedOnly s r =
     pick_scan (round_robin s) (skipped failedOnly s r) (\<lambda>g. gn_inflight (gen r g)) None (rotated s)"

function next_loop :: "bool \<Rightarrow> bool \<Rightarrow> bool \<Rightarrow> clientSelection \<Rightarrow> mesh_state \<Rightarrow> (selection_error + nat) \<times> clientSelection \<times> mesh_state" where
  "next_loop failedOnly connectionFull setupFull s m =
     (let none = (Inl (if connectionFull then ErrGenerationConnectionCapacity
                       else if setupFull then ErrGenerationSetupCapacity else ErrNoMeshCandidate), s, m) in
      if length (cs_tried s) < length (cs_candidates s) then
        case pick failedOnly s (ms_registry m) of None \<Rightarrow> none
        | Some g \<Rightarrow>
          let s1 = s\<lparr>cs_tried := g # cs_tried s\<rparr>;
              (res, m1) = reserveLocked (Some g) (cs_source s) (cs_setup s) True False failedOnly m
          in (case res of Inr l \<Rightarrow> (Inr l, s1, m1)
              | Inl err \<Rightarrow>
                if err = Source_error ErrSourceClosed \<or> err = Source_error ErrSourceSetupReleased then (Inl err, s1, m1)
                else next_loop failedOnly (connectionFull \<or> err = ErrGenerationConnectionCapacity)
                       (setupFull \<or> err = ErrGenerationSetupCapacity) s1 m1)
      else none)"
  by pat_completeness auto

termination
  by (relation "measure (\<lambda>(_, _, _, s, _). length (cs_candidates s) - length (cs_tried s))") auto

declare next_loop.simps [simp del]

definition selection_next :: "clientSelection \<Rightarrow> mesh_state \<Rightarrow> (selection_error + nat) \<times> clientSelection \<times> mesh_state" where
  "selection_next s m =
     (let r = ms_registry m in
      if rg_closed r then (Inl (Registry_error ErrRegistryStopped), s, m)
      else case cs_source s of None \<Rightarrow> (Inl (Source_error ErrSourceSetupReleased), s, m)
      | Some origin \<Rightarrow>
        if \<not> setup_live (cs_setup s) (ms_sources m) then (Inl (Source_error ErrSourceSetupReleased), s, m)
        else if ts_closed (src (ms_sources m) origin) then (Inl (Source_error ErrSourceClosed), s, m)
        else next_loop (\<not> list_ex (healthy r) (cs_candidates s)) False False s m)"

text \<open>A call tries new candidates only.\<close>

lemma next_loop_tried:
  "next_loop failedOnly cf sf s m = (res, s', m') \<Longrightarrow>
     cs_candidates s' = cs_candidates s \<and> (\<exists>ts. cs_tried s' = ts @ cs_tried s) \<and>
     (res = Inr l \<longrightarrow> length (cs_tried s) < length (cs_tried s') \<and> length (cs_tried s') \<le> length (cs_candidates s))"
proof (induction failedOnly cf sf s m rule: next_loop.induct)
  case (1 failedOnly cf sf s m)
  show ?case
  proof (cases "length (cs_tried s) < length (cs_candidates s) \<and> pick failedOnly s (ms_registry m) \<noteq> None")
    case False
    then show ?thesis
      using "1.prems" by (subst (asm) next_loop.simps) (auto simp: Let_def split: if_splits)
  next
    case True
    then obtain g where lt: "length (cs_tried s) < length (cs_candidates s)" and g: "pick failedOnly s (ms_registry m) = Some g"
      by auto
    let ?s = "s\<lparr>cs_tried := g # cs_tried s\<rparr>"
    obtain r1 m1 where r1: "reserveLocked (Some g) (cs_source s) (cs_setup s) True False failedOnly m = (r1, m1)"
      by (cases "reserveLocked (Some g) (cs_source s) (cs_setup s) True False failedOnly m")
    show ?thesis
    proof (cases "\<exists>err. r1 = Inl err \<and> err \<noteq> Source_error ErrSourceClosed \<and> err \<noteq> Source_error ErrSourceSetupReleased")
      case False
      then show ?thesis
        using "1.prems" lt g r1 by (subst (asm) next_loop.simps) (auto simp: Let_def split: sum.splits if_splits)
    next
      case again: True
      then obtain err where err: "r1 = Inl err" "\<not> (err = Source_error ErrSourceClosed \<or> err = Source_error ErrSourceSetupReleased)"
        by auto
      have "next_loop failedOnly (cf \<or> err = ErrGenerationConnectionCapacity) (sf \<or> err = ErrGenerationSetupCapacity) ?s m1 = (res, s', m')"
        using "1.prems" lt g r1 err by (subst (asm) next_loop.simps) (simp add: Let_def)
      from "1.IH" [OF refl lt g refl r1 [symmetric] refl err(1) err(2) this] show ?thesis
        by auto
    qed
  qed
qed

lemma next_tried:
  assumes "selection_next s m = (res, s', m')"
  shows "cs_candidates s' = cs_candidates s" and "\<exists>ts. cs_tried s' = ts @ cs_tried s"
    and "res = Inr l \<Longrightarrow> length (cs_tried s) < length (cs_tried s')" and "res = Inr l \<Longrightarrow> length (cs_tried s') \<le> length (cs_candidates s)"
  using assms next_loop_tried [of _ False False s m res s' m' l]
  by (auto simp: selection_next_def Let_def split: if_splits option.splits)

text \<open>What \<open>openStream\<close> answers: a stream, the limit of the transport, or another error.\<close>

datatype open_result = Stream_opened | StreamLimitReached | Open_error

text \<open>The parameters of \<open>open\<close>: \<open>ctx\<close> tells of each of the three looks an attempt takes at its context whether it is done,
  \<open>openStream\<close> is what the attempt gets, and \<open>env\<close> is what happens meanwhile, when no lock is held.\<close>

function selection_open :: "(nat \<Rightarrow> bool) \<Rightarrow> (nat \<Rightarrow> nat \<Rightarrow> open_result) \<Rightarrow> (nat \<Rightarrow> mesh_state \<Rightarrow> mesh_state) \<Rightarrow> nat \<Rightarrow> bool \<Rightarrow>
    clientSelection \<Rightarrow> mesh_state \<Rightarrow> (selection_error + nat) \<times> clientSelection \<times> mesh_state" where
  "selection_open ctx openStream env n transportLimited s m =
     (if ctx (3 * n) then (Inl Selection_context, s, m)
      else case selection_next s m of
        (Inl err, s1, m1) \<Rightarrow>
          (Inl (if ctx (3 * n + 1) then Selection_context
                else if transportLimited \<and> err = ErrNoMeshCandidate then ErrLocalTransportBudget else err), s1, m1)
      | (Inr l, s1, m1) \<Rightarrow>
          let answer = openStream n (gl_generation (ms_leases m1 ! l));
              m2 = env n m1;
              m3 = snd (generationLease_release (Some l) m2)
          in if ctx (3 * n + 2) then (Inl Selection_context, s1, m3)
             else (case answer of Stream_opened \<Rightarrow> (Inr l, s1, m2)
                   | Open_error \<Rightarrow> (Inl Open_failed, s1, m3)
                   | StreamLimitReached \<Rightarrow> selection_open ctx openStream env (Suc n) True s1 m3))"
  by pat_completeness auto

termination
proof (relation "measure (\<lambda>(_, _, _, _, _, s, _). length (cs_candidates s) - length (cs_tried s))", goal_cases)
  case 1
  show ?case by simp
next
  case (2 ctx openStream env n transportLimited s m x y l s1 m1)
  then have "selection_next s m = (Inr l, s1, m1)" by simp
  from next_tried(1) [OF this] next_tried(3,4) [OF this refl] show ?case by simp
qed

declare selection_open.simps [simp del]

end
