(* ===== verification/Mesh_Leases.thy ===== *)
theory Mesh_Leases
  imports Mesh_Selection Mesh_Registry_Runs
begin

text \<open>
  The registry, the sources and the leases together, under any sequence of their operations: the traffic a generation
  reports is exactly the leases held on it, within the capacity of each source.
\<close>

section \<open>The accounting of leases\<close>

text \<open>The view of the leases: the traffic and the load of each generation, and the capacities of the sources.\<close>

type_synonym use = "(nat \<times> generationTraffic) list \<times> int"

definition gen_use :: "Generation \<Rightarrow> use" where
  "gen_use x = (gn_traffic x, gn_inflight x)"

definition uses :: "Registry \<Rightarrow> use list" where
  "uses r = map gen_use (rg_gens r)"

definition capacities :: "source_heap \<Rightarrow> MeshTCPCapacity list" where
  "capacities h = map ts_capacity (sh_sources h)"

definition tr :: "(nat \<times> generationTraffic) list \<Rightarrow> nat \<Rightarrow> generationTraffic" where
  "tr t s = (case map_of t s of None \<Rightarrow> no_traffic | Some u \<Rightarrow> u)"

definition holds :: "nat \<Rightarrow> nat \<Rightarrow> generationLeaseState \<Rightarrow> generationLease \<Rightarrow> bool" where
  "holds g s phase x \<longleftrightarrow> gl_generation x = g \<and> gl_source x = s \<and> gl_state x = phase"

definition loads :: "nat \<Rightarrow> generationLease \<Rightarrow> bool" where
  "loads g x \<longleftrightarrow> gl_generation x = g \<and> gl_terminal x \<and> gl_state x \<noteq> generationLeaseReleased"

definition counters_ok :: "MeshTCPCapacity \<Rightarrow> generationTraffic \<Rightarrow> int \<Rightarrow> int \<Rightarrow> bool" where
  "counters_ok c u pending act \<longleftrightarrow> gt_pending u = pending \<and> gt_active u = act \<and>
     pending + act \<le> gt_high u \<and> gt_high u \<le> tc_MaxTCPConnectionsPerGeneration c \<and>
     pending \<le> gt_setupHigh u \<and> gt_setupHigh u \<le> tc_MaxPendingTCPSetupsPerGeneration c"

definition usage_ok :: "MeshTCPCapacity list \<Rightarrow> generationLease list \<Rightarrow> nat \<Rightarrow> use \<Rightarrow> bool" where
  "usage_ok caps ls g w \<longleftrightarrow>
     (\<forall>s < length caps. counters_ok (caps ! s) (tr (fst w) s) (num (holds g s generationLeasePending) ls) (num (holds g s generationLeaseActive) ls)) \<and>
     (\<forall>s \<in> set (keys (fst w)). s < length caps) \<and> snd w = num (loads g) ls"

definition lease_in :: "use list \<Rightarrow> MeshTCPCapacity list \<Rightarrow> generationLease \<Rightarrow> bool" where
  "lease_in us caps x \<longleftrightarrow> gl_generation x < length us \<and> gl_source x < length caps \<and>
     (gl_state x \<noteq> generationLeaseReleased \<longrightarrow> gl_source x \<in> set (keys (fst (us ! gl_generation x))))"

definition leases_ok :: "use list \<Rightarrow> MeshTCPCapacity list \<Rightarrow> generationLease list \<Rightarrow> bool" where
  "leases_ok us caps ls \<longleftrightarrow> (\<forall>x \<in> set ls. lease_in us caps x) \<and> (\<forall>g < length us. usage_ok caps ls g (us ! g)) \<and>
     (\<forall>c \<in> set caps. 0 \<le> tc_MaxTCPConnectionsPerGeneration c \<and> 0 \<le> tc_MaxPendingTCPSetupsPerGeneration c)"

lemma leases_okD:
  assumes "leases_ok us caps ls"
  shows "\<And>x. x \<in> set ls \<Longrightarrow> lease_in us caps x" and "\<And>g. g < length us \<Longrightarrow> usage_ok caps ls g (us ! g)"
    and "\<And>c. c \<in> set caps \<Longrightarrow> 0 \<le> tc_MaxTCPConnectionsPerGeneration c \<and> 0 \<le> tc_MaxPendingTCPSetupsPerGeneration c"
  using assms unfolding leases_ok_def by blast+

lemma num_zero: "(\<And>x. x \<in> set xs \<Longrightarrow> \<not> P x) \<Longrightarrow> num P xs = 0"
  by (simp add: num_def filter_False)

lemma tr_simps [simp]: "tr [] s = no_traffic" "tr (AList.update s u t) s' = (if s' = s then u else tr t s')"
  by (simp_all add: tr_def update_conv')

lemma tr_absent: "s \<notin> set (keys t) \<Longrightarrow> tr t s = no_traffic"
  by (simp add: tr_def map_of_eq_None_iff [THEN iffD2] split: option.split)

lemma no_traffic_ok:
  assumes "0 \<le> tc_MaxTCPConnectionsPerGeneration c" and "0 \<le> tc_MaxPendingTCPSetupsPerGeneration c"
  shows "counters_ok c no_traffic 0 0"
  using assms by (simp add: counters_ok_def no_traffic_def)

text \<open>A new generation and a new source change nothing.\<close>

lemma leases_ok_generation:
  assumes "leases_ok us caps ls"
  shows "leases_ok (us @ [([], 0)]) caps ls"
proof -
  note ok = leases_okD [OF assms]
  have none: "num (holds (length us) s ph) ls = 0" "num (loads (length us)) ls = 0" for s ph
    using ok(1) by (intro num_zero; force simp: holds_def loads_def lease_in_def)+
  have "lease_in (us @ [([], 0)]) caps x" if "x \<in> set ls" for x
    using ok(1) [OF that] by (auto simp: lease_in_def nth_append)
  moreover have "usage_ok caps ls g ((us @ [([], 0)]) ! g)" if "g < length (us @ [([], 0)])" for g
    using ok(2) [of g] ok(3) that none by (cases "g < length us") (auto simp: usage_ok_def nth_append less_Suc_eq no_traffic_ok)
  ultimately show ?thesis
    using ok(3) by (simp add: leases_ok_def)
qed

lemma leases_ok_source:
  assumes "leases_ok us caps ls" and "0 \<le> tc_MaxTCPConnectionsPerGeneration c" and "0 \<le> tc_MaxPendingTCPSetupsPerGeneration c"
  shows "leases_ok us (caps @ [c]) ls"
proof -
  note ok = leases_okD [OF assms(1)]
  have none: "num (holds g (length caps) ph) ls = 0" for g ph
    using ok(1) by (intro num_zero) (force simp: holds_def lease_in_def)
  have "lease_in us (caps @ [c]) x" if "x \<in> set ls" for x
    using ok(1) [OF that] by (auto simp: lease_in_def)
  moreover have "usage_ok (caps @ [c]) ls g (us ! g)" if "g < length us" for g
  proof -
    have w: "tr (fst (us ! g)) (length caps) = no_traffic"
      using ok(2) [OF that] by (intro tr_absent) (auto simp: usage_ok_def)
    show ?thesis
      using ok(2) [OF that] none w assms(2,3) by (auto simp: usage_ok_def nth_append less_Suc_eq no_traffic_ok)
  qed
  ultimately show ?thesis
    using ok(3) assms(2,3) by (auto simp: leases_ok_def)
qed

text \<open>An operation on one generation and source: the counts there are the new ones, all others stay.\<close>

lemma leases_ok_change:
  assumes ok: "leases_ok us caps ls" and g: "g < length us" and s: "s < length caps"
    and other: "\<And>h t ph. ph \<noteq> generationLeaseReleased \<Longrightarrow> (h, t) \<noteq> (g, s) \<Longrightarrow> num (holds h t ph) ls' = num (holds h t ph) ls"
      "\<And>h. h \<noteq> g \<Longrightarrow> num (loads h) ls' = num (loads h) ls"
    and new: "counters_ok (caps ! s) u (num (holds g s generationLeasePending) ls') (num (holds g s generationLeaseActive) ls')"
      "n = num (loads g) ls'"
    and ls: "\<And>x. x \<in> set ls' \<Longrightarrow> gl_generation x = g \<and> gl_source x = s \<or> x \<in> set ls"
  shows "leases_ok (us[g := (AList.update s u (fst (us ! g)), n)]) caps ls'"
proof -
  note old = leases_okD [OF ok]
  let ?us = "us[g := (AList.update s u (fst (us ! g)), n)]"
  have keys: "set (keys (fst (us ! h))) \<subseteq> set (keys (fst (?us ! h)))" "s \<in> set (keys (fst (?us ! g)))" for h
    using g by (cases "h = g"; auto simp: update_keys)+
  have "lease_in ?us caps x" if "x \<in> set ls'" for x
    using ls [OF that] keys(1) [of "gl_generation x"] keys(2) old(1) [of x] g s by (auto simp: lease_in_def)
  moreover have "usage_ok caps ls' h (?us ! h)" if "h < length ?us" for h
  proof (cases "h = g")
    case True
    have "counters_ok (caps ! t) (tr (AList.update s u (fst (us ! g))) t) (num (holds g t generationLeasePending) ls')
        (num (holds g t generationLeaseActive) ls')" if "t < length caps" for t
      using old(2) [OF g] new(1) other(1) [of generationLeasePending g t] other(1) [of generationLeaseActive g t] that
      by (cases "t = s") (simp_all add: usage_ok_def)
    moreover have "t < length caps" if "t \<in> set (keys (AList.update s u (fst (us ! g))))" for t
      using that s old(2) [OF g] by (auto simp: usage_ok_def update_keys split: if_splits)
    ultimately show ?thesis
      using True g new(2) by (simp add: usage_ok_def)
  next
    case False
    then show ?thesis
      using old(2) [of h] that other(1) [of _ h] other(2) [of h] by (simp add: usage_ok_def)
  qed
  ultimately show ?thesis
    using old(3) by (simp add: leases_ok_def)
qed

section \<open>What the registry leaves to the leases\<close>

lemma uses_upd [simp]: "(\<And>x. gen_use (f x) = gen_use x) \<Longrightarrow> uses (upd_gen g f r) = uses r"
proof (cases "g < length (rg_gens r)")
  case True
  then have "(map gen_use (rg_gens r))[g := gen_use (gen r g)] = map gen_use (rg_gens r)"
    by (metis list_update_id nth_map)
  then show "(\<And>x. gen_use (f x) = gen_use x) \<Longrightarrow> uses (upd_gen g f r) = uses r"
    by (simp add: uses_def upd_gen_def map_update)
qed (simp add: uses_def upd_gen_def list_update_beyond)

lemma uses_fields [simp]:
  "uses (signalLocked r) = uses r" "uses (closeGroupChanged r) = uses r" "uses (refreshGroupLocked grp r) = uses r"
  "uses (r\<lparr>rg_clients := cs\<rparr>) = uses r" "uses (r\<lparr>rg_peers := ps\<rparr>) = uses r" "uses (r\<lparr>rg_all := al\<rparr>) = uses r"
  "uses (r\<lparr>rg_arbitrations := am\<rparr>) = uses r" "uses (r\<lparr>rg_arbs := ab\<rparr>) = uses r" "uses (r\<lparr>rg_groupRules := gr\<rparr>) = uses r"
  "uses (r\<lparr>rg_pendingHigh := n\<rparr>) = uses r" "uses (r\<lparr>rg_clientHigh := n\<rparr>) = uses r" "uses (r\<lparr>rg_peerHigh := n\<rparr>) = uses r"
  "uses (r\<lparr>rg_nextArbID := i\<rparr>) = uses r" "uses (r\<lparr>rg_closed := b\<rparr>) = uses r" "uses (r\<lparr>rg_groupClosed := b\<rparr>) = uses r"
  "uses (r\<lparr>rg_groupAvailable := av\<rparr>) = uses r" "uses (r\<lparr>rg_roundRobin := rr\<rparr>) = uses r"
  by (simp_all add: uses_def closeGroupChanged_def)

lemma uses_helpers [simp]:
  "uses (unlinkActiveLocked g r) = uses r" "uses (addRetiringLocked g r) = uses r" "uses (removePendingLocked g r) = uses r"
  "uses (updateRoleHighWaterLocked role r) = uses r" "uses (dropGeneration g r) = uses r" "uses (snd (commitLocked g r)) = uses r"
  by (simp_all add: unlinkActiveLocked_def addRetiringLocked_def removePendingLocked_def updateRoleHighWaterLocked_def dropGeneration_def
      commitLocked_def Let_def gen_use_def split: Role.split option.split)

lemma uses_retiring [simp]: "uses (toRetiring g r) = uses r"
  by (simp add: toRetiring_def gen_use_def)

lemma uses_transfer [simp]: "uses (transferPendingToPeerLocked g k r) = uses r"
  by (simp add: transferPendingToPeerLocked_def Let_def gen_use_def)

lemma uses_remove [simp]: "uses (snd (removeLocked gp r)) = uses r"
proof (induction gp r rule: removeLocked.induct)
  case (1 gp r)
  show ?case
  proof (cases "\<exists>g. gp = Some g \<and> in_all g r")
    case False
    then show ?thesis by (auto simp: removeLocked.simps [of gp] split: option.split)
  next
    case True
    then obtain g where g: "gp = Some g" "\<not> \<not> in_all g r" by auto
    show ?thesis
      using 1 [OF g _ refl] g by (simp add: removeLocked.simps [of "Some g" r] Let_def split: option.split)
  qed
qed

lemma uses_finish [simp]: "uses (finishArbitrationLocked a r) = uses r" "uses (stopFinish gs r) = uses r"
proof -
  show "uses (stopFinish gs r) = uses r"
    unfolding stopFinish_def by (induction gs arbitrary: r) simp_all
qed (simp add: finishArbitrationLocked_def Let_def)

lemma uses_new: "newGenerationLocked role direction phase r = (g, r') \<Longrightarrow> uses r' = uses r @ [([], 0)]"
  by (auto simp: newGenerationLocked_def Let_def uses_def gen_use_def)

lemma uses_token [simp]: "uses (snd (releaseToken g r)) = uses r"
  using uses_remove [of "Some g" r] by (auto simp: releaseToken_def Let_def split: prod.split simp del: uses_remove)

lemma uses_commits [simp]:
  "uses (snd (CommitReceiver g r)) = uses r" "uses (snd (commitClientRule g groupID version policy publish r)) = uses r"
  using uses_helpers(6) [of g r]
  by (auto simp: CommitReceiver_def commitClientRule_def Let_def gen_use_def simp del: uses_helpers(6) split: prod.split bool.split)

lemma uses_begin:
  "uses (snd (BeginInbound r)) \<in> {uses r, uses r @ [([], 0)]}" "uses (snd (BeginOutboundPeer k r)) \<in> {uses r, uses r @ [([], 0)]}"
  using uses_new by (auto simp: BeginInbound_def BeginOutboundPeer_def Let_def gen_use_def split: prod.split)

lemma uses_step: "uses (registry_step op r) \<in> {uses r, uses r @ [([], 0)]}"
proof (cases op)
  case (Begin_inbound)
  then show ?thesis using uses_begin(1) by simp
next
  case (Begin_outbound k)
  then show ?thesis using uses_begin(2) by simp
qed (simp_all add: PrepareClient_def PreparePeer_def CompleteArbitration_def CancelArbitration_def CommitOutboundPeer_def registry_BeginRetire_def
    Release_def PublishForwarding_def publishL4Healthy_def PublishInstanceL7Health_def stopGate_def Let_def gen_use_def
    split: option.split Phase.split)

text \<open>The sources keep their capacities.\<close>

definition keeps_sources :: "source_heap \<Rightarrow> source_heap \<Rightarrow> bool" where
  "keeps_sources h h' \<longleftrightarrow> capacities h' = capacities h \<and> length (sh_setups h) \<le> length (sh_setups h')"

lemma capacities_put [simp]: "ts_capacity x = ts_capacity (src h s) \<Longrightarrow> capacities (put_src s x h) = capacities h"
proof (cases "s < length (sh_sources h)")
  case True
  then have "(map ts_capacity (sh_sources h))[s := ts_capacity (src h s)] = map ts_capacity (sh_sources h)"
    by (metis list_update_id nth_map)
  then show "ts_capacity x = ts_capacity (src h s) \<Longrightarrow> capacities (put_src s x h) = capacities h"
    by (simp add: capacities_def put_src_def map_update)
qed (simp add: capacities_def put_src_def list_update_beyond)

lemma capacities_fields [simp]:
  "capacities (h\<lparr>sh_flows := fs\<rparr>) = capacities h" "capacities (h\<lparr>sh_setups := ss\<rparr>) = capacities h" "capacities (h\<lparr>sh_requests := rs\<rparr>) = capacities h"
  "sh_setups (put_src s x h) = sh_setups h"
  by (simp_all add: capacities_def put_src_def)

lemma keeps_sources_ops:
  "keeps_sources h (source_close s h)" "keeps_sources h (snd (beginFlow s h))" "keeps_sources h (snd (flow_release fp h))"
  "keeps_sources h (snd (beginSetup fp h))" "keeps_sources h (snd (setup_release lp h))" "keeps_sources h (snd (setup_complete lp h))"
  "keeps_sources h (snd (setup_claim lp h))" "keeps_sources h (setup_settle i h)" "keeps_sources h (snd (beginRequest fp h))"
  "keeps_sources h (snd (request_release rp h))"
  by (simp_all add: keeps_sources_def source_close_def beginFlow_def flow_release_def beginSetup_def beginSetupLocked_def setup_release_def
      setup_complete_def setup_claim_def setup_settle_def beginRequest_def request_release_def Let_def split: option.split)

section \<open>The invariant and the operations on leases\<close>

definition mesh_inv :: "mesh_state \<Rightarrow> bool" where
  "mesh_inv m \<longleftrightarrow> reg_inv (ms_registry m) \<and> source_inv {#} (ms_sources m) \<and>
     leases_ok (uses (ms_registry m)) (capacities (ms_sources m)) (ms_leases m) \<and>
     (\<forall>x \<in> set (ms_leases m). \<forall>i. gl_setup x = Some i \<longrightarrow> i < length (sh_setups (ms_sources m)))"

lemma reg_inv_use:
  assumes inv: "reg_inv r" and g: "g < length (rg_gens r)" and f: "\<And>x. \<exists>t n. f x = x\<lparr>gn_traffic := t, gn_inflight := n\<rparr>"
  shows "reg_inv (upd_gen g f r)"
proof -
  obtain t n where x: "f (gen r g) = (gen r g)\<lparr>gn_traffic := t, gn_inflight := n\<rparr>"
    using f by blast
  have "gen_ok (f (gen r g))"
    using structD(2) [OF reg_invD(1) [OF inv] nth_mem [OF g]] by (simp add: x gen_ok_def active_def)
  from tweak_inv(2) [OF inv g _ _ _ _ _ _ this] show ?thesis
    by (simp add: x upd_gen_def fwd_ready_def)
qed

text \<open>Each operation on a lease puts new traffic for one source and may add to the load.\<close>

definition charge :: "nat \<Rightarrow> nat \<Rightarrow> generationTraffic \<Rightarrow> bool \<Rightarrow> int \<Rightarrow> Registry \<Rightarrow> Registry" where
  "charge g s u terminal d r =
     (let r1 = put_traffic g s u r in if terminal then upd_gen g (\<lambda>y. y\<lparr>gn_inflight := gn_inflight y + d\<rparr>) r1 else r1)"

lemma gn_update_same: "x\<lparr>gn_traffic := t\<rparr> = x\<lparr>gn_traffic := t, gn_inflight := gn_inflight x\<rparr>"
  "x\<lparr>gn_inflight := n\<rparr> = x\<lparr>gn_traffic := gn_traffic x, gn_inflight := n\<rparr>"
  by simp_all

lemma put_traffic_inv:
  assumes "reg_inv r" and "g < length (rg_gens r)"
  shows "reg_inv (put_traffic g s u r)"
  unfolding put_traffic_def by (rule reg_inv_use [OF assms]) (metis gn_update_same(1))

lemma charge_inv:
  assumes "reg_inv r" and "g < length (rg_gens r)"
  shows "reg_inv (charge g s u terminal d r)"
proof -
  have "reg_inv (upd_gen g (\<lambda>y. y\<lparr>gn_inflight := gn_inflight y + d\<rparr>) (put_traffic g s u r))"
    by (rule reg_inv_use [OF put_traffic_inv [OF assms]]) (use assms(2) in \<open>simp add: put_traffic_def upd_gen_def\<close>, metis gn_update_same(2))
  then show ?thesis
    using put_traffic_inv [OF assms] by (simp add: charge_def Let_def)
qed

lemma uses_nth: "g < length (rg_gens r) \<Longrightarrow> uses r ! g = (gn_traffic (gen r g), gn_inflight (gen r g))"
  by (simp add: uses_def gen_use_def)

lemma uses_length [simp]: "length (uses r) = length (rg_gens r)"
  by (simp add: uses_def)

lemma capacities_length [simp]: "length (capacities h) = length (sh_sources h)"
  by (simp add: capacities_def)

lemma traffic_of_uses: "g < length (rg_gens r) \<Longrightarrow> traffic_of (gen r g) s = tr (fst (uses r ! g)) s"
  by (simp add: traffic_of_def tr_def uses_nth)

lemma uses_charge:
  assumes "g < length (rg_gens r)"
  shows "uses (charge g s u terminal d r) =
     (uses r)[g := (AList.update s u (fst (uses r ! g)), snd (uses r ! g) + (if terminal then d else 0))]"
  using assms by (simp add: charge_def put_traffic_def uses_def upd_gen_def map_update gen_use_def Let_def)

lemma holds_update:
  assumes "l < length ls"
  shows "num (holds g s ph) (ls[l := (ls ! l)\<lparr>gl_state := q\<rparr>]) = num (holds g s ph) ls - (if holds g s ph (ls ! l) then 1 else 0) +
      (if gl_generation (ls ! l) = g \<and> gl_source (ls ! l) = s \<and> q = ph then 1 else 0)"
    and "num (loads g) (ls[l := (ls ! l)\<lparr>gl_state := q\<rparr>]) = num (loads g) ls - (if loads g (ls ! l) then 1 else 0) +
      (if gl_generation (ls ! l) = g \<and> gl_terminal (ls ! l) \<and> q \<noteq> generationLeaseReleased then 1 else 0)"
  unfolding num_update [OF assms] by (simp_all add: holds_def loads_def)

text \<open>A lease changes its state.\<close>

lemma leases_ok_move:
  assumes ok: "leases_ok us caps ls" and l: "l < length ls" and g: "gl_generation (ls ! l) = g" "gl_source (ls ! l) = s"
    and p: "gl_state (ls ! l) = generationLeasePending \<and> q = generationLeaseActive \<and> u' = u\<lparr>gt_pending := gt_pending u - 1, gt_active := gt_active u + 1\<rparr> \<or>
      gl_state (ls ! l) = generationLeasePending \<and> q = generationLeaseReleased \<and> u' = u\<lparr>gt_pending := gt_pending u - 1\<rparr> \<or>
      gl_state (ls ! l) = generationLeaseActive \<and> q = generationLeaseReleased \<and> u' = u\<lparr>gt_active := gt_active u - 1\<rparr>"
    and u: "u = tr (fst (us ! g)) s" and n: "n = snd (us ! g) - (if gl_terminal (ls ! l) \<and> q = generationLeaseReleased then 1 else 0)"
  shows "leases_ok (us[g := (AList.update s u' (fst (us ! g)), n)]) caps (ls[l := (ls ! l)\<lparr>gl_state := q\<rparr>])"
proof (rule leases_ok_change [OF ok])
  note old = leases_okD [OF ok]
  have x: "lease_in us caps (ls ! l)"
    using old(1) l by simp
  then show gu: "g < length us" and sc: "s < length caps"
    using g by (simp_all add: lease_in_def)
  show "num (holds h t ph) (ls[l := (ls ! l)\<lparr>gl_state := q\<rparr>]) = num (holds h t ph) ls" if "(h, t) \<noteq> (g, s)" for h t ph
    using that g by (auto simp: holds_update [OF l] holds_def)
  show "num (loads h) (ls[l := (ls ! l)\<lparr>gl_state := q\<rparr>]) = num (loads h) ls" if "h \<noteq> g" for h
    using that g by (auto simp: holds_update [OF l] loads_def)
  have w: "counters_ok (caps ! s) u (num (holds g s generationLeasePending) ls) (num (holds g s generationLeaseActive) ls)"
    "snd (us ! g) = num (loads g) ls"
    using old(2) [OF gu] sc by (simp_all add: usage_ok_def u)
  show "counters_ok (caps ! s) u' (num (holds g s generationLeasePending) (ls[l := (ls ! l)\<lparr>gl_state := q\<rparr>]))
     (num (holds g s generationLeaseActive) (ls[l := (ls ! l)\<lparr>gl_state := q\<rparr>]))"
    using w(1) p g unfolding holds_update [OF l] by (elim disjE conjE) (simp_all add: holds_def counters_ok_def)
  show "n = num (loads g) (ls[l := (ls ! l)\<lparr>gl_state := q\<rparr>])"
    using w(2) p g n unfolding holds_update [OF l] by (elim disjE conjE) (simp_all add: loads_def)
  show "gl_generation x = g \<and> gl_source x = s \<or> x \<in> set ls" if "x \<in> set (ls[l := (ls ! l)\<lparr>gl_state := q\<rparr>])" for x
    using that set_update_subset_insert [of ls l "(ls ! l)\<lparr>gl_state := q\<rparr>"] g by auto
qed

lemma mesh_invD:
  assumes "mesh_inv m"
  shows "reg_inv (ms_registry m)" and "source_inv {#} (ms_sources m)"
    and "leases_ok (uses (ms_registry m)) (capacities (ms_sources m)) (ms_leases m)"
    and "\<And>x i. x \<in> set (ms_leases m) \<Longrightarrow> gl_setup x = Some i \<Longrightarrow> i < length (sh_setups (ms_sources m))"
  using assms by (simp_all add: mesh_inv_def)

lemma leased_gen:
  assumes "mesh_inv m" and "l < length (ms_leases m)"
  shows "gl_generation (ms_leases m ! l) < length (rg_gens (ms_registry m))"
  using leases_okD(1) [OF mesh_invD(3) [OF assms(1)], of "ms_leases m ! l"] assms(2) by (simp add: lease_in_def)

text \<open>The state after a lease moved, as the operations write it.\<close>

lemma move_inv:
  assumes inv: "mesh_inv m" and l: "l < length (ms_leases m)"
    and p: "gl_state (ms_leases m ! l) = generationLeasePending \<and> q = generationLeaseActive \<and> u' = u\<lparr>gt_pending := gt_pending u - 1, gt_active := gt_active u + 1\<rparr> \<or>
      gl_state (ms_leases m ! l) = generationLeasePending \<and> q = generationLeaseReleased \<and> u' = u\<lparr>gt_pending := gt_pending u - 1\<rparr> \<or>
      gl_state (ms_leases m ! l) = generationLeaseActive \<and> q = generationLeaseReleased \<and> u' = u\<lparr>gt_active := gt_active u - 1\<rparr>"
    and g: "gl_generation (ms_leases m ! l) = g" "gl_source (ms_leases m ! l) = s" and u: "u = traffic_of (gen (ms_registry m) g) s"
    and t: "terminal = (gl_terminal (ms_leases m ! l) \<and> q = generationLeaseReleased)"
  shows "mesh_inv (set_lease l q (m\<lparr>ms_registry := charge g s u' terminal (- 1) (ms_registry m)\<rparr>))"
proof -
  note old = mesh_invD [OF inv]
  have lt: "g < length (rg_gens (ms_registry m))"
    using leased_gen [OF inv l] g by simp
  have "leases_ok ((uses (ms_registry m))[g := (AList.update s u' (fst (uses (ms_registry m) ! g)),
      snd (uses (ms_registry m) ! g) - (if gl_terminal (ms_leases m ! l) \<and> q = generationLeaseReleased then 1 else 0))]) (capacities (ms_sources m))
      ((ms_leases m)[l := (ms_leases m ! l)\<lparr>gl_state := q\<rparr>])"
    by (rule leases_ok_move [OF old(3) l g p _ refl]) (simp add: u traffic_of_uses [OF lt])
  then have "leases_ok (uses (charge g s u' terminal (- 1) (ms_registry m))) (capacities (ms_sources m))
      ((ms_leases m)[l := (ms_leases m ! l)\<lparr>gl_state := q\<rparr>])"
    unfolding uses_charge [OF lt] by (cases terminal) (auto simp: t)
  moreover have "i < length (sh_setups (ms_sources m))"
    if "x \<in> set ((ms_leases m)[l := (ms_leases m ! l)\<lparr>gl_state := q\<rparr>])" "gl_setup x = Some i" for x i
  proof -
    have "x = (ms_leases m ! l)\<lparr>gl_state := q\<rparr> \<or> x \<in> set (ms_leases m)"
      using that(1) set_update_subset_insert by fast
    then show ?thesis
      using old(4) [of x i] old(4) [of "ms_leases m ! l" i] that(2) l by auto
  qed
  ultimately show ?thesis
    using old(2) charge_inv [OF old(1) lt] by (simp add: mesh_inv_def set_lease_def)
qed

lemma charge_False: "charge g s u False d r = put_traffic g s u r"
  by (simp add: charge_def)

lemma activate_inv:
  assumes "mesh_inv m" and "l < length (ms_leases m)" and "gl_state (ms_leases m ! l) = generationLeasePending"
  shows "mesh_inv (activateLocked l m)"
  unfolding activateLocked_def Let_def charge_False [of _ _ _ "- 1", symmetric]
  by (rule move_inv [OF assms(1,2) _ refl refl refl]) (simp_all add: assms(3))

lemma release_lease_inv:
  assumes "mesh_inv m" and "l < length (ms_leases m)"
  shows "mesh_inv (snd (generationLease_release (Some l) m))"
proof (cases "gl_state (ms_leases m ! l) = generationLeaseReleased")
  case True
  with assms show ?thesis by (simp add: generationLease_release_def Let_def)
next
  case False
  let ?x = "ms_leases m ! l"
  let ?u = "traffic_of (gen (ms_registry m) (gl_generation ?x)) (gl_source ?x)"
  let ?v = "if gl_state ?x = generationLeasePending then ?u\<lparr>gt_pending := gt_pending ?u - 1\<rparr> else ?u\<lparr>gt_active := gt_active ?u - 1\<rparr>"
  have "snd (generationLease_release (Some l) m) = set_lease l generationLeaseReleased
      (m\<lparr>ms_registry := charge (gl_generation ?x) (gl_source ?x) ?v (gl_terminal ?x) (- 1) (ms_registry m)\<rparr>)"
    using False by (simp add: generationLease_release_def Let_def charge_def)
  then show ?thesis
    using False move_inv [OF assms, of generationLeaseReleased ?v ?u, OF _ refl refl refl refl]
    by (cases "gl_state ?x") simp_all
qed

lemma probe_inv:
  assumes "mesh_inv m" and "l < length (ms_leases m)"
  shows "mesh_inv (snd (lease_acknowledgeProbe (Some l) m))"
  using assms activate_inv by (simp add: lease_acknowledgeProbe_def)

text \<open>A change of the sources alone.\<close>

lemma sources_inv:
  assumes "mesh_inv m" and "keeps_sources (ms_sources m) h" and "source_inv {#} h"
  shows "mesh_inv (m\<lparr>ms_sources := h\<rparr>)"
  using assms by (auto simp: mesh_inv_def keeps_sources_def)

lemma acknowledge_inv:
  assumes inv: "mesh_inv m" and l: "l < length (ms_leases m)"
  shows "mesh_inv (snd (lease_acknowledge (Some l) m))"
proof (cases "fst (lease_acknowledge (Some l) m)")
  case False
  then have "snd (lease_acknowledge (Some l) m) = m"
    by (auto simp: lease_acknowledge_def Let_def split: option.splits prod.splits if_splits)
  with inv show ?thesis by simp
next
  case True
  then obtain i h where i: "gl_setup (ms_leases m ! l) = Some i" "gl_state (ms_leases m ! l) = generationLeasePending"
      "setup_claim (Some i) (ms_sources m) = (True, h)"
    by (auto simp: lease_acknowledge_def Let_def split: option.splits prod.splits if_splits)
  have eq: "snd (lease_acknowledge (Some l) m) = (activateLocked l m)\<lparr>ms_sources := setup_settle i h\<rparr>"
    using True i by (auto simp: lease_acknowledge_def Let_def activateLocked_def set_lease_def split: option.splits prod.splits if_splits)
  have lt: "i < length (sh_setups (ms_sources m))"
    using mesh_invD(4) [OF inv _ i(1)] l by simp
  have keep: "keeps_sources (ms_sources m) h" "keeps_sources h (setup_settle i h)"
    using keeps_sources_ops(7) [of "ms_sources m" "Some i"] keeps_sources_ops(8) [of h i] i(3) by simp_all
  have "source_inv (add_mset (le_source (sh_setups (ms_sources m) ! i)) {#}) h" "le_source (sh_setups h ! i) = le_source (sh_setups (ms_sources m) ! i)"
    using setup_claim_inv [OF mesh_invD(2) [OF inv] lt i(3)] keeps_setups_claim [of "ms_sources m" "Some i"] i(3) lt
    by (simp_all add: keeps_setups_def)
  then have "source_inv {#} (setup_settle i h)"
    using setup_settle_inv [of h i "{#}"] by simp
  moreover have "ms_sources (activateLocked l m) = ms_sources m"
    by (simp add: activateLocked_def set_lease_def Let_def)
  ultimately show ?thesis
    unfolding eq using activate_inv [OF inv l i(2)] keep by (intro sources_inv) (auto simp: keeps_sources_def)
qed

text \<open>Reserving: first the entry for the source, then the new lease.\<close>

lemma touch_inv:
  assumes inv: "mesh_inv m" and g: "g < length (rg_gens (ms_registry m))" and s: "s < length (sh_sources (ms_sources m))"
  shows "mesh_inv (m\<lparr>ms_registry := put_traffic g s (traffic_of (gen (ms_registry m) g) s) (ms_registry m)\<rparr>)"
proof -
  note old = mesh_invD [OF inv]
  let ?us = "uses (ms_registry m)" and ?caps = "capacities (ms_sources m)" and ?ls = "ms_leases m"
  have "usage_ok ?caps ?ls g (?us ! g)"
    using leases_okD(2) [OF old(3)] g by simp
  then have "leases_ok (?us[g := (AList.update s (tr (fst (?us ! g)) s) (fst (?us ! g)), snd (?us ! g))]) ?caps ?ls"
    using g s by (intro leases_ok_change [OF old(3)]) (simp_all add: usage_ok_def)
  then have "leases_ok (uses (charge g s (traffic_of (gen (ms_registry m) g) s) False 0 (ms_registry m))) ?caps ?ls"
    by (simp add: uses_charge [OF g] traffic_of_uses [OF g])
  then show ?thesis
    using old put_traffic_inv [OF old(1) g] by (simp add: mesh_inv_def charge_False)
qed

lemma num_snoc: "num P (xs @ [x]) = num P xs + (if P x then 1 else 0)"
  by simp

lemma leases_ok_reserve:
  assumes ok: "leases_ok us caps ls" and g: "g < length us" and s: "s < length caps"
    and u: "u = tr (fst (us ! g)) s" "gt_pending u + gt_active u < tc_MaxTCPConnectionsPerGeneration (caps ! s)"
      "gt_pending u < tc_MaxPendingTCPSetupsPerGeneration (caps ! s)"
    and x: "gl_generation x = g" "gl_source x = s" "gl_state x = generationLeasePending"
    and n: "n = snd (us ! g) + (if gl_terminal x then 1 else 0)"
  shows "leases_ok (us[g := (AList.update s (u\<lparr>gt_pending := gt_pending u + 1, gt_setupHigh := max (gt_setupHigh u) (gt_pending u + 1),
      gt_high := max (gt_high u) (gt_pending u + 1 + gt_active u)\<rparr>) (fst (us ! g)), n)]) caps (ls @ [x])"
proof (rule leases_ok_change [OF ok g s])
  have w: "counters_ok (caps ! s) u (num (holds g s generationLeasePending) ls) (num (holds g s generationLeaseActive) ls)"
    "snd (us ! g) = num (loads g) ls"
    using leases_okD(2) [OF ok g] s by (simp_all add: usage_ok_def u)
  show "counters_ok (caps ! s) (u\<lparr>gt_pending := gt_pending u + 1, gt_setupHigh := max (gt_setupHigh u) (gt_pending u + 1),
      gt_high := max (gt_high u) (gt_pending u + 1 + gt_active u)\<rparr>) (num (holds g s generationLeasePending) (ls @ [x]))
      (num (holds g s generationLeaseActive) (ls @ [x]))"
    using w(1) u(2,3) x unfolding num_snoc by (simp add: counters_ok_def holds_def)
  show "n = num (loads g) (ls @ [x])"
    using w(2) n x unfolding num_snoc by (simp add: loads_def)
qed (use x in \<open>auto simp: holds_def loads_def num_snoc\<close>)

lemma put_twice: "g < length (rg_gens r) \<Longrightarrow> put_traffic g s v (put_traffic g s u r) = put_traffic g s v r"
  by (simp add: put_traffic_def upd_gen_def update_update)

lemma new_lease_inv:
  assumes inv: "mesh_inv m" and g: "g < length (rg_gens (ms_registry m))" and s: "s < length (sh_sources (ms_sources m))"
    and su: "\<And>i. setup = Some i \<Longrightarrow> i < length (sh_setups (ms_sources m))" and u: "u = traffic_of (gen (ms_registry m) g) s"
    and lim: "gt_pending u + gt_active u < tc_MaxTCPConnectionsPerGeneration (ts_capacity (src (ms_sources m) s))"
      "gt_pending u < tc_MaxPendingTCPSetupsPerGeneration (ts_capacity (src (ms_sources m) s))"
  shows "mesh_inv (m\<lparr>ms_registry := charge g s (u\<lparr>gt_pending := gt_pending u + 1, gt_setupHigh := max (gt_setupHigh u) (gt_pending u + 1),
      gt_high := max (gt_high u) (gt_pending u + 1 + gt_active u)\<rparr>) terminal 1 (ms_registry m),
    ms_leases := ms_leases m @ [\<lparr>gl_generation = g, gl_source = s, gl_setup = setup, gl_probe = probe, gl_terminal = terminal,
      gl_failOpen = failOpen, gl_state = generationLeasePending\<rparr>]\<rparr>)"
proof -
  let ?u = "u\<lparr>gt_pending := gt_pending u + 1, gt_setupHigh := max (gt_setupHigh u) (gt_pending u + 1),
      gt_high := max (gt_high u) (gt_pending u + 1 + gt_active u)\<rparr>"
  let ?x = "\<lparr>gl_generation = g, gl_source = s, gl_setup = setup, gl_probe = probe, gl_terminal = terminal,
      gl_failOpen = failOpen, gl_state = generationLeasePending\<rparr>"
  note old = mesh_invD [OF inv]
  have cap: "capacities (ms_sources m) ! s = ts_capacity (src (ms_sources m) s)"
    using s by (simp add: capacities_def)
  have "leases_ok (uses (charge g s ?u terminal 1 (ms_registry m))) (capacities (ms_sources m)) (ms_leases m @ [?x])"
    unfolding uses_charge [OF g]
    by (rule leases_ok_reserve [OF old(3)]) (use g s lim in \<open>simp_all add: cap u traffic_of_uses [OF g]\<close>)
  then show ?thesis
    using old(2,4) su charge_inv [OF old(1) g] by (auto simp: mesh_inv_def)
qed

lemma reserve_inv:
  assumes inv: "mesh_inv m" and s: "\<And>s. sp = Some s \<Longrightarrow> s < length (sh_sources (ms_sources m))"
    and su: "\<And>i. setup = Some i \<Longrightarrow> i < length (sh_setups (ms_sources m))"
  shows "mesh_inv (snd (reserveLocked gp sp setup terminal probe failOpen m))"
proof (cases "\<exists>s g. sp = Some s \<and> gp = Some g \<and> isForwardingReadyLocked (Some g) (ms_registry m)")
  case False
  then have "\<not> isForwardingReadyLocked gp (ms_registry m) \<or> sp = None"
    by (cases gp; cases sp) (simp_all add: isForwardingReadyLocked_def registry_isCurrentLocked_def)
  then have "snd (reserveLocked gp sp setup terminal probe failOpen m) = m"
    by (auto simp: reserveLocked_def Let_def split: option.split)
  with inv show ?thesis by simp
next
  case True
  then obtain z g where sg: "sp = Some z" "gp = Some g" "isForwardingReadyLocked (Some g) (ms_registry m)" by blast
  have g: "g < length (rg_gens (ms_registry m))"
    using current_gen_ok(1) [OF mesh_invD(1) [OF inv], of g] sg(3) by (simp add: isForwardingReadyLocked_def)
  note lt = s [OF sg(1)]
  let ?u = "traffic_of (gen (ms_registry m) g) z"
  let ?v = "?u\<lparr>gt_pending := gt_pending ?u + 1, gt_setupHigh := max (gt_setupHigh ?u) (gt_pending ?u + 1),
      gt_high := max (gt_high ?u) (gt_pending ?u + 1 + gt_active ?u)\<rparr>"
  let ?m = "m\<lparr>ms_registry := put_traffic g z ?u (ms_registry m)\<rparr>"
  let ?n = "m\<lparr>ms_registry := charge g z ?v terminal 1 (ms_registry m),
    ms_leases := ms_leases m @ [\<lparr>gl_generation = g, gl_source = z, gl_setup = setup, gl_probe = probe, gl_terminal = terminal,
      gl_failOpen = failOpen, gl_state = generationLeasePending\<rparr>]\<rparr>"
  have t: "mesh_inv ?m"
    by (rule touch_inv [OF inv g lt])
  show ?thesis
  proof (cases "fst (reserveLocked gp sp setup terminal probe failOpen m)")
    case (Inl e)
    then have "snd (reserveLocked gp sp setup terminal probe failOpen m) \<in> {m, ?m}"
      using sg by (auto simp: reserveLocked_def Let_def split: if_splits)
    with inv t show ?thesis by auto
  next
    case (Inr l)
    then have "snd (reserveLocked gp sp setup terminal probe failOpen m) = ?n \<and>
        gt_pending ?u + gt_active ?u < tc_MaxTCPConnectionsPerGeneration (ts_capacity (src (ms_sources m) z)) \<and>
        gt_pending ?u < tc_MaxPendingTCPSetupsPerGeneration (ts_capacity (src (ms_sources m) z))"
      using sg put_twice [OF g] by (auto simp: reserveLocked_def Let_def charge_def split: if_splits)
    with new_lease_inv [OF inv g lt su refl] show ?thesis by auto
  qed
qed

lemma reserve_sources: "ms_sources (snd (reserveLocked gp sp setup terminal probe failOpen m)) = ms_sources m"
  by (simp add: reserveLocked_def Let_def split: option.split)

definition selection_valid :: "clientSelection \<Rightarrow> mesh_state \<Rightarrow> bool" where
  "selection_valid s m \<longleftrightarrow> (case cs_source s of None \<Rightarrow> True | Some z \<Rightarrow> z < length (sh_sources (ms_sources m))) \<and>
     (case cs_setup s of None \<Rightarrow> True | Some i \<Rightarrow> i < length (sh_setups (ms_sources m)))"

lemma next_loop_inv:
  assumes "mesh_inv m" and "selection_valid s m"
  shows "mesh_inv (snd (snd (next_loop failedOnly cf sf s m)))"
  using assms
proof (induction failedOnly cf sf s m rule: next_loop.induct)
  case (1 failedOnly cf sf s m)
  show ?case
  proof (cases "length (cs_tried s) < length (cs_candidates s) \<and> pick failedOnly s (ms_registry m) \<noteq> None")
    case False
    then show ?thesis
      using "1.prems" by (subst next_loop.simps) (auto simp: Let_def)
  next
    case True
    then obtain g where lt: "length (cs_tried s) < length (cs_candidates s)" and g: "pick failedOnly s (ms_registry m) = Some g"
      by auto
    let ?s = "s\<lparr>cs_tried := g # cs_tried s\<rparr>"
    obtain r1 m1 where r1: "reserveLocked (Some g) (cs_source s) (cs_setup s) True False failedOnly m = (r1, m1)"
      by (cases "reserveLocked (Some g) (cs_source s) (cs_setup s) True False failedOnly m")
    have "mesh_inv (snd (reserveLocked (Some g) (cs_source s) (cs_setup s) True False failedOnly m))"
      by (rule reserve_inv [OF "1.prems"(1)]) (use "1.prems"(2) in \<open>simp_all add: selection_valid_def\<close>)
    then have inv: "mesh_inv m1"
      by (simp add: r1)
    have "ms_sources m1 = ms_sources m"
      using reserve_sources [of "Some g" "cs_source s" "cs_setup s" True False failedOnly m] by (simp add: r1)
    then have valid: "selection_valid ?s m1"
      using "1.prems"(2) by (auto simp: selection_valid_def split: option.splits)
    show ?thesis
    proof (cases "\<exists>err. r1 = Inl err \<and> err \<noteq> Source_error ErrSourceClosed \<and> err \<noteq> Source_error ErrSourceSetupReleased")
      case False
      then show ?thesis
        using lt g r1 inv by (subst next_loop.simps) (auto simp: Let_def split: sum.split)
    next
      case again: True
      then obtain err where err: "r1 = Inl err" "\<not> (err = Source_error ErrSourceClosed \<or> err = Source_error ErrSourceSetupReleased)"
        by auto
      from "1.IH" [OF refl lt g refl r1 [symmetric] refl err inv valid] show ?thesis
        using lt g r1 err by (subst next_loop.simps) (simp add: Let_def)
    qed
  qed
qed

lemma selection_next_inv:
  assumes "mesh_inv m" and "selection_valid s m"
  shows "mesh_inv (snd (snd (selection_next s m)))"
  using assms next_loop_inv by (simp add: selection_next_def Let_def split: option.split)

lemma round_robin_inv: "reg_inv (r\<lparr>rg_roundRobin := rr\<rparr>) = reg_inv r"
  by (simp add: reg_inv_def avail_ok_alt group_ready_def GroupAvailability_def gate_ok_def)

lemma beginClientSelection_inv: "mesh_inv m \<Longrightarrow> mesh_inv (snd (beginClientSelection groupID setup policy m))"
  by (simp add: beginClientSelection_def mesh_inv_def Let_def round_robin_inv split: option.split)

section \<open>The machine\<close>

datatype mesh_op =
    On_registry registry_op | On_source source_op | Begin_selection string "nat option" string | Select_next clientSelection
  | Reserve_next_hop "nat option" nat | Reserve_probe "nat option" "nat option" | Acknowledge nat | Acknowledge_probe nat | Release_lease nat

definition on_sources :: "source_op \<Rightarrow> source_heap \<Rightarrow> source_heap" where
  "on_sources op h = su_heap (source_step op \<lparr>su_heap = h, su_settling = []\<rparr>)"

fun mesh_step :: "mesh_op \<Rightarrow> mesh_state \<Rightarrow> mesh_state" where
  "mesh_step (On_registry op) m = m\<lparr>ms_registry := registry_step op (ms_registry m)\<rparr>"
| "mesh_step (On_source op) m = m\<lparr>ms_sources := on_sources op (ms_sources m)\<rparr>"
| "mesh_step (Begin_selection groupID setup policy) m = snd (beginClientSelection groupID setup policy m)"
| "mesh_step (Select_next s) m = snd (snd (selection_next s m))"
| "mesh_step (Reserve_next_hop gp i) m = snd (reserveNextHop gp (Some i) m)"
| "mesh_step (Reserve_probe gp sp) m = snd (reserveProbe gp sp m)"
| "mesh_step (Acknowledge l) m = snd (lease_acknowledge (Some l) m)"
| "mesh_step (Acknowledge_probe l) m = snd (lease_acknowledgeProbe (Some l) m)"
| "mesh_step (Release_lease l) m = snd (generationLease_release (Some l) m)"

text \<open>Pointers point to what exists, a source is created with the limits of a valid configuration, and a setup slot
  is claimed by an acknowledgement only.\<close>

fun mesh_op_valid :: "mesh_op \<Rightarrow> mesh_state \<Rightarrow> bool" where
  "mesh_op_valid (On_registry op) m \<longleftrightarrow> registry_op_valid op (ms_registry m)"
| "mesh_op_valid (On_source op) m \<longleftrightarrow> source_op_valid op \<lparr>su_heap = ms_sources m, su_settling = []\<rparr> \<and>
     (case op of New_source c n \<Rightarrow> 0 \<le> tc_MaxTCPConnectionsPerGeneration c \<and> 0 \<le> tc_MaxPendingTCPSetupsPerGeneration c
      | Claim_setup i \<Rightarrow> False | _ \<Rightarrow> True)"
| "mesh_op_valid (Select_next s) m \<longleftrightarrow> selection_valid s m"
| "mesh_op_valid (Reserve_next_hop gp i) m \<longleftrightarrow> i < length (sh_setups (ms_sources m))"
| "mesh_op_valid (Reserve_probe gp sp) m \<longleftrightarrow> (case sp of None \<Rightarrow> True | Some z \<Rightarrow> z < length (sh_sources (ms_sources m)))"
| "mesh_op_valid (Acknowledge l) m \<longleftrightarrow> l < length (ms_leases m)"
| "mesh_op_valid (Acknowledge_probe l) m \<longleftrightarrow> l < length (ms_leases m)"
| "mesh_op_valid (Release_lease l) m \<longleftrightarrow> l < length (ms_leases m)"
| "mesh_op_valid _ m \<longleftrightarrow> True"

lemma on_sources_inv:
  assumes "source_inv {#} h" and "source_op_valid op \<lparr>su_heap = h, su_settling = []\<rparr>" and "\<And>i. op \<noteq> Claim_setup i"
  shows "source_inv {#} (on_sources op h)"
proof -
  have "source_use_ok (source_step op \<lparr>su_heap = h, su_settling = []\<rparr>)"
    by (rule source_step_ok) (use assms in \<open>simp_all add: source_use_ok_def settling_sources_def\<close>)
  moreover have "su_settling (source_step op \<lparr>su_heap = h, su_settling = []\<rparr>) = []"
    using assms(3) by (cases op) auto
  ultimately show ?thesis
    by (simp add: source_use_ok_def settling_sources_def on_sources_def)
qed

lemma on_sources_keep:
  assumes "\<And>i. op \<noteq> Claim_setup i" and "\<And>c n. op \<noteq> New_source c n"
  shows "keeps_sources h (on_sources op h)"
  using assms by (cases op) (auto simp: on_sources_def keeps_sources_ops)

lemma mesh_step_inv:
  assumes inv: "mesh_inv m" and valid: "mesh_op_valid op m"
  shows "mesh_inv (mesh_step op m)"
proof (cases op)
  case (On_registry rop)
  have "leases_ok (uses (registry_step rop (ms_registry m))) (capacities (ms_sources m)) (ms_leases m)"
    using uses_step [of rop "ms_registry m"] mesh_invD(3) [OF inv] leases_ok_generation by fastforce
  then show ?thesis
    using inv valid registry_step_inv by (simp add: On_registry mesh_inv_def)
next
  case (On_source sop)
  then have s: "source_inv {#} (on_sources sop (ms_sources m))"
    using valid mesh_invD(2) [OF inv] by (intro on_sources_inv) (auto split: source_op.splits)
  show ?thesis
  proof (cases "\<exists>c n. sop = New_source c n")
    case True
    then obtain c n where new: "sop = New_source c n" by blast
    then have caps: "capacities (on_sources sop (ms_sources m)) = capacities (ms_sources m) @ [c]" "sh_setups (on_sources sop (ms_sources m)) = sh_setups (ms_sources m)"
      by (simp_all add: on_sources_def newTCPSource_def capacities_def)
    have "leases_ok (uses (ms_registry m)) (capacities (ms_sources m) @ [c]) (ms_leases m)"
      using valid by (intro leases_ok_source mesh_invD(3) [OF inv]) (simp_all add: On_source new)
    then show ?thesis
      using s inv by (simp add: On_source mesh_inv_def caps)
  next
    case False
    then show ?thesis
      using valid by (simp add: On_source) (intro sources_inv [OF inv _ s] on_sources_keep; auto)
  qed
next
  case (Begin_selection grp i policy)
  then show ?thesis using beginClientSelection_inv [OF inv] by simp
next
  case (Select_next s)
  then show ?thesis using selection_next_inv [OF inv] valid by simp
next
  case (Reserve_next_hop gp i)
  have "le_source (sh_setups (ms_sources m) ! i) < length (sh_sources (ms_sources m))"
    using lease_source(2) [OF mesh_invD(2) [OF inv], of i] valid by (simp add: Reserve_next_hop)
  then show ?thesis
    using inv valid by (auto simp: Reserve_next_hop reserveNextHop_def split: option.split intro!: reserve_inv)
next
  case (Reserve_probe gp sp)
  then show ?thesis
    using inv valid by (auto simp: reserveProbe_def intro!: reserve_inv)
next
  case (Acknowledge l)
  then show ?thesis using acknowledge_inv [OF inv] valid by simp
next
  case (Acknowledge_probe l)
  then show ?thesis using probe_inv [OF inv] valid by simp
next
  case (Release_lease l)
  then show ?thesis using release_lease_inv [OF inv] valid by simp
qed

interpretation mesh: machine mesh_op_valid mesh_step mesh_inv
  by unfold_locales (rule mesh_step_inv)

section \<open>Property\<close>

definition no_mesh :: "int \<Rightarrow> int \<Rightarrow> int \<Rightarrow> mesh_state" where
  "no_mesh maxPending maxClients maxPeers = \<lparr>ms_registry = NewRegistry maxPending maxClients maxPeers,
     ms_sources = su_heap no_sources, ms_leases = []\<rparr>"

lemma no_mesh_inv:
  assumes "0 \<le> p" and "0 \<le> c" and "0 \<le> q"
  shows "mesh_inv (no_mesh p c q)"
proof -
  have "source_inv {#} (su_heap no_sources)"
    using no_sources_ok by (simp add: source_use_ok_def settling_sources_def no_sources_def)
  then show ?thesis
    using NewRegistry_inv [OF assms]
    by (simp add: mesh_inv_def no_mesh_def leases_ok_def uses_def NewRegistry_def capacities_def no_sources_def)
qed

lemma snapshot_traffic:
  "gs_Pending (trafficSnapshot (Some g) s r) = gt_pending (traffic_of (gen r g) s)"
  "gs_Active (trafficSnapshot (Some g) s r) = gt_active (traffic_of (gen r g) s)"
  "gs_High (trafficSnapshot (Some g) s r) = gt_high (traffic_of (gen r g) s)"
  "gs_SetupHigh (trafficSnapshot (Some g) s r) = gt_setupHigh (traffic_of (gen r g) s)"
  "gs_Inflight (trafficSnapshot (Some g) s r) = gn_inflight (gen r g)"
  by (simp_all add: trafficSnapshot_def traffic_of_def no_traffic_def split: option.split)

text \<open>C5: However the registry, the sources and the leases are used together, the traffic a generation reports for a source
  is exactly the leases held there, pending and active, its load is the number of terminal leases not yet given back, the figures
  stay within the capacity of the source, and a lease that is held always finds its counters, so that acknowledging and releasing
  never use a missing entry.\<close>

theorem lease_accounting:
  assumes "exec_ok mesh_op_valid mesh_step ops (no_mesh maxPending maxClients maxPeers)"
    and "0 \<le> maxPending" and "0 \<le> maxClients" and "0 \<le> maxPeers"
    and "m = exec mesh_step ops (no_mesh maxPending maxClients maxPeers)"
    and "g < length (rg_gens (ms_registry m))" and "s < length (sh_sources (ms_sources m))"
  shows "let snap = trafficSnapshot (Some g) s (ms_registry m); c = ts_capacity (src (ms_sources m) s) in
     gs_Pending snap = num (holds g s generationLeasePending) (ms_leases m) \<and>
     gs_Active snap = num (holds g s generationLeaseActive) (ms_leases m) \<and>
     gs_Inflight snap = num (loads g) (ms_leases m) \<and>
     gs_Pending snap + gs_Active snap \<le> gs_High snap \<and> gs_High snap \<le> tc_MaxTCPConnectionsPerGeneration c \<and>
     gs_Pending snap \<le> gs_SetupHigh snap \<and> gs_SetupHigh snap \<le> tc_MaxPendingTCPSetupsPerGeneration c \<and>
     (\<forall>x \<in> set (ms_leases m). gl_state x \<noteq> generationLeaseReleased \<longrightarrow>
        map_of (gn_traffic (gen (ms_registry m) (gl_generation x))) (gl_source x) \<noteq> None)"
proof -
  have "mesh_inv m"
    unfolding assms(5) by (rule mesh.exec_inv [OF no_mesh_inv [OF assms(2-4)] assms(1)])
  note ok = leases_okD [OF mesh_invD(3) [OF this]]
  have u: "usage_ok (capacities (ms_sources m)) (ms_leases m) g (uses (ms_registry m) ! g)"
    using ok(2) assms(6) by simp
  have "map_of (gn_traffic (gen (ms_registry m) (gl_generation x))) (gl_source x) \<noteq> None"
    if "x \<in> set (ms_leases m)" "gl_state x \<noteq> generationLeaseReleased" for x
    using ok(1) [OF that(1)] that(2) uses_nth [of "gl_generation x" "ms_registry m"] by (simp add: lease_in_def map_of_eq_None_iff)
  then show ?thesis
    using u assms(6,7)
    by (simp add: snapshot_traffic usage_ok_def counters_ok_def traffic_of_uses uses_nth capacities_def)
qed

definition sample_selection :: clientSelection where
  "sample_selection = \<lparr>cs_source = Some 0, cs_setup = Some 0, cs_groupID = ''g'', cs_policy = ''least-connections'',
     cs_candidates = [0], cs_tried = [], cs_start = 0\<rparr>"

definition sample_mesh_ops :: "mesh_op list" where
  "sample_mesh_ops = [On_registry Begin_inbound, On_registry (Prepare_client 0 ''i'' ''g''),
     On_registry (Commit_client_rule 0 ''g'' 1 ''p'' True), On_registry (Publish_L4 0), On_source (New_source sample_capacity 3),
     On_source (Begin_flow 0), On_source (Begin_setup 0), Select_next sample_selection, Reserve_probe (Some 0) (Some 0), Acknowledge 0]"

theorem lease_accounting_witness:
  "let m = exec mesh_step sample_mesh_ops (no_mesh 1 1 1); snap = trafficSnapshot (Some 0) 0 (ms_registry m) in
     gs_Active snap = 1 \<and> gs_Inflight snap = 1 \<and> gs_High snap \<le> 2 \<and> gs_SetupHigh snap \<le> 1"
proof -
  let ?m = "exec mesh_step sample_mesh_ops (no_mesh 1 1 1)"
  have ok: "exec_ok mesh_op_valid mesh_step sample_mesh_ops (no_mesh 1 1 1)"
    by code_simp
  have lt: "0 < length (rg_gens (ms_registry ?m))" "0 < length (sh_sources (ms_sources ?m))"
    by code_simp+
  have facts: "num (holds 0 0 generationLeaseActive) (ms_leases ?m) = 1" "num (loads 0) (ms_leases ?m) = 1"
    "ts_capacity (src (ms_sources ?m) 0) = sample_capacity"
    by code_simp+
  from lease_accounting [OF ok _ _ _ refl lt] show ?thesis
    unfolding Let_def facts by (simp add: sample_capacity_def)
qed

end
