(* ===== verification/Mesh_Choice.thy ===== *)
theory Mesh_Choice
  imports Mesh_Leases
begin

text \<open>
  What a selection chooses: the least loaded candidate, or the next one in turn, among those that can take the
  stream, and what \<open>open\<close> leaves behind.
\<close>

section \<open>The inner loop\<close>

lemma pick_scan_None: "pick_scan first skip load sel xs = None \<longleftrightarrow> sel = None \<and> (\<forall>g \<in> set xs. skip g)"
proof (induction xs arbitrary: sel)
  case (Cons x xs)
  then show ?case
    by (cases first; cases "skip x"; cases sel) (simp_all add: Let_def del: not_None_eq)
qed simp

lemma pick_scan_least:
  "pick_scan False skip load sel xs = Some g \<Longrightarrow>
     (sel = Some g \<or> g \<in> set xs \<and> \<not> skip g) \<and> (\<forall>h \<in> set xs. \<not> skip h \<longrightarrow> load g \<le> load h) \<and> (\<forall>h. sel = Some h \<longrightarrow> load g \<le> load h)"
proof (induction xs arbitrary: sel)
  case (Cons x xs)
  show ?case
  proof (cases "skip x")
    case True
    with Cons show ?thesis by auto
  next
    case False
    let ?sel = "if sel = None \<or> load x < load (the sel) then Some x else sel"
    from False Cons.prems have "pick_scan False skip load ?sel xs = Some g"
      by (simp add: Let_def)
    from Cons.IH [OF this] False show ?thesis
      by (cases sel) (auto split: if_splits)
  qed
qed simp

lemma pick_scan_first:
  "pick_scan True skip load None xs = Some g \<Longrightarrow> g \<in> set xs \<and> \<not> skip g \<and> (\<forall>h \<in> set (takeWhile (\<lambda>h. h \<noteq> g) xs). skip h)"
  by (induction xs) (auto simp: Let_def split: if_splits)

lemma set_rotated [simp]: "set (rotated s) = set (cs_candidates s)"
proof
  let ?n = "length (cs_candidates s)"
  show "set (rotated s) \<subseteq> set (cs_candidates s)"
    by (auto simp: rotated_def intro!: nth_mem mod_less_divisor)
  show "set (cs_candidates s) \<subseteq> set (rotated s)"
  proof
    fix g assume "g \<in> set (cs_candidates s)"
    then obtain j where j: "j < ?n" "g = cs_candidates s ! j"
      by (auto simp: in_set_conv_nth)
    define i where "i = (j + (?n - cs_start s mod ?n)) mod ?n"
    have "(cs_start s + i) mod ?n = (cs_start s mod ?n + (j + (?n - cs_start s mod ?n))) mod ?n"
      unfolding i_def by (metis mod_add_eq mod_mod_trivial)
    also have "cs_start s mod ?n + (j + (?n - cs_start s mod ?n)) = j + ?n"
    proof -
      have "cs_start s mod ?n \<le> ?n"
        using j(1) by (intro less_imp_le mod_less_divisor) linarith
      then show ?thesis by simp
    qed
    finally have "(cs_start s + i) mod ?n = j"
      using j(1) by simp
    moreover have "i < ?n"
      unfolding i_def using j(1) by (intro mod_less_divisor) linarith
    ultimately show "g \<in> set (rotated s)"
      using j(2) by (force simp: rotated_def)
  qed
qed

definition eligible :: "bool \<Rightarrow> Registry \<Rightarrow> nat \<Rightarrow> bool" where
  "eligible failedOnly r g \<longleftrightarrow> isForwardingReadyLocked (Some g) r \<and> (failedOnly \<or> gn_l7Health (gen r g) \<noteq> InstanceL7Failed)"

text \<open>The choice that the policy asks for, among the candidates not yet tried.\<close>

definition best :: "bool \<Rightarrow> clientSelection \<Rightarrow> nat list \<Rightarrow> Registry \<Rightarrow> nat \<Rightarrow> bool" where
  "best failedOnly s tried r g \<longleftrightarrow>
     (if round_robin s then \<forall>h \<in> set (takeWhile (\<lambda>h. h \<noteq> g) (rotated s)). h \<in> set tried \<or> \<not> eligible failedOnly r h
      else \<forall>h \<in> set (cs_candidates s) - set tried. eligible failedOnly r h \<longrightarrow> gn_inflight (gen r g) \<le> gn_inflight (gen r h))"

lemma skipped_iff: "skipped failedOnly s r g \<longleftrightarrow> g \<in> set (cs_tried s) \<or> \<not> eligible failedOnly r g"
  by (auto simp: skipped_def eligible_def)

lemma pick_Some:
  assumes "pick failedOnly s r = Some g"
  shows "g \<in> set (cs_candidates s)" and "g \<notin> set (cs_tried s)" and "eligible failedOnly r g"
    and "best failedOnly s (cs_tried s) r g"
proof -
  have "g \<in> set (cs_candidates s) \<and> g \<notin> set (cs_tried s) \<and> eligible failedOnly r g \<and> best failedOnly s (cs_tried s) r g"
  proof (cases "round_robin s")
    case True
    with assms pick_scan_first [of "skipped failedOnly s r" "\<lambda>g. gn_inflight (gen r g)" "rotated s" g] show ?thesis
      by (auto simp: pick_def skipped_iff best_def)
  next
    case False
    with assms pick_scan_least [of "skipped failedOnly s r" "\<lambda>g. gn_inflight (gen r g)" None "rotated s" g] show ?thesis
      by (auto simp: pick_def skipped_iff best_def)
  qed
  then show "g \<in> set (cs_candidates s)" "g \<notin> set (cs_tried s)" "eligible failedOnly r g" "best failedOnly s (cs_tried s) r g"
    by blast+
qed

lemma pick_None: "pick failedOnly s r = None \<longleftrightarrow> (\<forall>g \<in> set (cs_candidates s). g \<in> set (cs_tried s) \<or> \<not> eligible failedOnly r g)"
  by (auto simp: pick_def pick_scan_None skipped_iff)

section \<open>A refused reservation changes no choice\<close>

definition same_choice :: "Registry \<Rightarrow> Registry \<Rightarrow> bool" where
  "same_choice r r' \<longleftrightarrow> (\<forall>g. isForwardingReadyLocked (Some g) r' = isForwardingReadyLocked (Some g) r \<and>
     gn_l7Health (gen r' g) = gn_l7Health (gen r g) \<and> gn_inflight (gen r' g) = gn_inflight (gen r g))"

lemma put_traffic_fields [simp]:
  "gn_id (gen (put_traffic g s u r) h) = gn_id (gen r h)" "gn_role (gen (put_traffic g s u r) h) = gn_role (gen r h)"
  "gn_phase (gen (put_traffic g s u r) h) = gn_phase (gen r h)" "gn_instanceID (gen (put_traffic g s u r) h) = gn_instanceID (gen r h)"
  "gn_peerID (gen (put_traffic g s u r) h) = gn_peerID (gen r h)" "gn_groupID (gen (put_traffic g s u r) h) = gn_groupID (gen r h)"
  "gn_forwarding (gen (put_traffic g s u r) h) = gn_forwarding (gen r h)" "gn_ruleVersion (gen (put_traffic g s u r) h) = gn_ruleVersion (gen r h)"
  "gn_l7Health (gen (put_traffic g s u r) h) = gn_l7Health (gen r h)" "gn_inflight (gen (put_traffic g s u r) h) = gn_inflight (gen r h)"
  "rg_closed (put_traffic g s u r) = rg_closed r" "rg_all (put_traffic g s u r) = rg_all r" "rg_clients (put_traffic g s u r) = rg_clients r"
  "rg_peers (put_traffic g s u r) = rg_peers r" "rg_groupRules (put_traffic g s u r) = rg_groupRules r"
  by (cases "g < length (rg_gens r)"; cases "h = g"; simp add: put_traffic_def upd_gen_def list_update_beyond)+

lemma put_traffic_choice: "same_choice r (put_traffic g s u r)"
  by (simp add: same_choice_def isForwardingReadyLocked_def registry_isCurrentLocked_def slot_current_def in_all_def Let_def
      cong: option.case_cong Role.case_cong)

lemma choice_eligible: "same_choice r r' \<Longrightarrow> eligible failedOnly r' g = eligible failedOnly r g" "same_choice r r' \<Longrightarrow> best failedOnly s ts r' g = best failedOnly s ts r g"
  by (simp_all add: same_choice_def eligible_def best_def)

lemma reserve_Inl:
  assumes "reserveLocked (Some g) sp setup terminal probe failOpen m = (Inl err, m1)"
  shows "same_choice (ms_registry m) (ms_registry m1)" and "ms_leases m1 = ms_leases m"
  using assms put_traffic_choice [of "ms_registry m"]
  by (auto simp: reserveLocked_def Let_def same_choice_def split: option.splits if_splits)

lemma reserve_Inr:
  assumes "reserveLocked (Some g) sp setup terminal probe failOpen m = (Inr l, m1)"
  shows "l = length (ms_leases m)" and "ms_leases m1 = ms_leases m @ [\<lparr>gl_generation = g, gl_source = the sp, gl_setup = setup,
    gl_probe = probe, gl_terminal = terminal, gl_failOpen = failOpen, gl_state = generationLeasePending\<rparr>]"
  using assms by (auto simp: reserveLocked_def Let_def split: option.splits if_splits)

section \<open>The result of a call\<close>

definition selection_ok :: "clientSelection \<Rightarrow> bool" where
  "selection_ok s \<longleftrightarrow> distinct (cs_tried s) \<and> set (cs_tried s) \<subseteq> set (cs_candidates s)"

lemma all_tried:
  assumes "selection_ok s" and "\<not> length (cs_tried s) < length (cs_candidates s)"
  shows "set (cs_tried s) = set (cs_candidates s)"
proof (rule card_subset_eq)
  have "card (set (cs_candidates s)) \<le> card (set (cs_tried s))"
    using assms card_length [of "cs_candidates s"] by (simp add: selection_ok_def distinct_card)
  moreover have "card (set (cs_tried s)) \<le> card (set (cs_candidates s))"
    using assms(1) by (intro card_mono) (simp_all add: selection_ok_def)
  ultimately show "card (set (cs_tried s)) = card (set (cs_candidates s))" by simp
qed (use assms(1) in \<open>simp_all add: selection_ok_def\<close>)

text \<open>A lease goes to the best of the candidates left; without one, every candidate that could take the stream was tried.\<close>

definition next_result :: "bool \<Rightarrow> clientSelection \<Rightarrow> mesh_state \<Rightarrow> (selection_error + nat) \<Rightarrow> clientSelection \<Rightarrow> mesh_state \<Rightarrow> bool" where
  "next_result failedOnly s m res s' m' \<longleftrightarrow>
     (case res of
        Inr l \<Rightarrow> l = length (ms_leases m) \<and> length (ms_leases m') = Suc l \<and> take l (ms_leases m') = ms_leases m \<and>
          (let x = ms_leases m' ! l; g = gl_generation x in
             gl_failOpen x = failedOnly \<and> gl_state x = generationLeasePending \<and> g \<in> set (cs_candidates s) \<and> g \<notin> set (cs_tried s) \<and>
             g \<in> set (cs_tried s') \<and> eligible failedOnly (ms_registry m) g \<and> best failedOnly s (cs_tried s') (ms_registry m) g)
      | Inl err \<Rightarrow> ms_leases m' = ms_leases m \<and>
          (err = Source_error ErrSourceClosed \<or> err = Source_error ErrSourceSetupReleased \<or>
           (\<forall>g \<in> set (cs_candidates s). eligible failedOnly (ms_registry m) g \<longrightarrow> g \<in> set (cs_tried s'))))"

lemma best_mono: "best failedOnly s ts r g \<Longrightarrow> set ts \<subseteq> set ts' \<Longrightarrow> best failedOnly s ts' r g"
  unfolding best_def by (auto split: if_splits)

lemma best_tried: "best failedOnly (s\<lparr>cs_tried := xs\<rparr>) ts r g = best failedOnly s ts r g"
  by (simp add: best_def rotated_def)

lemma next_result_step:
  assumes "next_result failedOnly (s\<lparr>cs_tried := g # cs_tried s\<rparr>) m1 res s' m'" and "same_choice (ms_registry m) (ms_registry m1)"
    and "ms_leases m1 = ms_leases m"
  shows "next_result failedOnly s m res s' m'"
  using assms by (auto simp: next_result_def choice_eligible [OF assms(2)] best_tried Let_def split: sum.splits)

lemma next_loop_result:
  assumes "next_loop failedOnly cf sf s m = (res, s', m')" and "selection_ok s"
  shows "next_result failedOnly s m res s' m' \<and> selection_ok s'"
  using assms
proof (induction failedOnly cf sf s m rule: next_loop.induct)
  case (1 failedOnly cf sf s m)
  show ?case
  proof (cases "length (cs_tried s) < length (cs_candidates s) \<and> pick failedOnly s (ms_registry m) \<noteq> None")
    case False
    then obtain err where "res = Inl err" "s' = s" "m' = m"
      using "1.prems"(1) by (subst (asm) next_loop.simps) (auto simp: Let_def split: if_splits)
    moreover have "g \<in> set (cs_tried s)" if "g \<in> set (cs_candidates s)" "eligible failedOnly (ms_registry m) g" for g
      using False that all_tried [OF "1.prems"(2)] pick_None [of failedOnly s "ms_registry m"] by auto
    ultimately show ?thesis
      using "1.prems"(2) by (simp add: next_result_def)
  next
    case True
    then obtain g where lt: "length (cs_tried s) < length (cs_candidates s)" and g: "pick failedOnly s (ms_registry m) = Some g"
      by auto
    let ?s = "s\<lparr>cs_tried := g # cs_tried s\<rparr>"
    note p = pick_Some [OF g]
    have ok: "selection_ok ?s"
      using p(1,2) "1.prems"(2) by (simp add: selection_ok_def)
    obtain r1 m1 where r1: "reserveLocked (Some g) (cs_source s) (cs_setup s) True False failedOnly m = (r1, m1)"
      by (cases "reserveLocked (Some g) (cs_source s) (cs_setup s) True False failedOnly m")
    show ?thesis
    proof (cases r1)
      case (Inr l)
      then have "res = Inr l" "s' = ?s" "m' = m1"
        using "1.prems"(1) lt g r1 by (subst (asm) next_loop.simps; simp add: Let_def)+
      then show ?thesis
        using reserve_Inr [OF r1 [unfolded Inr]] p best_mono [OF p(4), of "g # cs_tried s"] ok by (auto simp: next_result_def Let_def)
    next
      case (Inl err)
      note same = reserve_Inl [OF r1 [unfolded Inl]]
      show ?thesis
      proof (cases "err = Source_error ErrSourceClosed \<or> err = Source_error ErrSourceSetupReleased")
        case True
        then have "res = Inl err" "s' = ?s" "m' = m1"
          using "1.prems"(1) lt g r1 Inl by (subst (asm) next_loop.simps; auto simp: Let_def)+
        then show ?thesis
          using True same(2) ok by (auto simp: next_result_def)
      next
        case False
        have "next_loop failedOnly (cf \<or> err = ErrGenerationConnectionCapacity) (sf \<or> err = ErrGenerationSetupCapacity) ?s m1 = (res, s', m')"
          using "1.prems"(1) lt g r1 Inl False by (subst (asm) next_loop.simps) (simp add: Let_def)
        from "1.IH" [OF refl lt g refl r1 [symmetric] refl Inl False this ok] show ?thesis
          using next_result_step [OF _ same] by blast
      qed
    qed
  qed
qed

lemma selection_next_result:
  assumes "selection_next s m = (res, s', m')" and "selection_ok s"
  shows "selection_ok s'"
    and "res \<noteq> Inl (Registry_error ErrRegistryStopped) \<Longrightarrow> next_result (\<not> list_ex (healthy (ms_registry m)) (cs_candidates s)) s m res s' m'"
    and "res = Inl err \<Longrightarrow> ms_leases m' = ms_leases m"
proof -
  have cases: "(\<exists>err. res = Inl err \<and> err \<in> {Registry_error ErrRegistryStopped, Source_error ErrSourceSetupReleased, Source_error ErrSourceClosed} \<and> s' = s \<and> m' = m) \<or>
      next_loop (\<not> list_ex (healthy (ms_registry m)) (cs_candidates s)) False False s m = (res, s', m')"
    using assms(1) by (auto simp: selection_next_def Let_def split: if_splits option.splits)
  then show "selection_ok s'"
    using next_loop_result assms(2) by blast
  show r: "next_result (\<not> list_ex (healthy (ms_registry m)) (cs_candidates s)) s m res s' m'" if "res \<noteq> Inl (Registry_error ErrRegistryStopped)"
    using cases next_loop_result assms(2) that by (auto simp: next_result_def)
  show "ms_leases m' = ms_leases m" if "res = Inl err"
  proof -
    from cases consider "m' = m" | "next_result (\<not> list_ex (healthy (ms_registry m)) (cs_candidates s)) s m res s' m'"
      using next_loop_result assms(2) by blast
    then show ?thesis
      by cases (use that in \<open>simp_all add: next_result_def\<close>)
  qed
qed

text \<open>C19: A call of \<open>next\<close> that answers with a lease chose a candidate that was not tried before and is ready to forward; it is
  not one whose L7 probe failed unless no candidate is healthy, which the lease records as failing open; and it is the candidate the policy asks for among
  those left: the least loaded one, or the first in turn. A call that answers with an error reserved nothing, and unless the
  source, its setup or the registry ended, every candidate that could take the stream has been tried.\<close>

theorem next_selects:
  assumes "distinct (cs_tried s)" and "set (cs_tried s) \<subseteq> set (cs_candidates s)" and "selection_next s m = (res, s', m')"
  shows "case res of
      Inr l \<Rightarrow> let x = ms_leases m' ! l; g = gl_generation x; r = ms_registry m in
        ms_leases m' = ms_leases m @ [x] \<and> g \<in> set (cs_candidates s) \<and> g \<notin> set (cs_tried s) \<and> isForwardingReadyLocked (Some g) r \<and>
        (gl_failOpen x \<longleftrightarrow> \<not> (\<exists>h \<in> set (cs_candidates s). healthy r h)) \<and> (healthy r g \<or> gl_failOpen x) \<and>
        best (gl_failOpen x) s (cs_tried s') r g
    | Inl err \<Rightarrow> ms_leases m' = ms_leases m \<and>
        (err \<in> {Registry_error ErrRegistryStopped, Source_error ErrSourceClosed, Source_error ErrSourceSetupReleased} \<or>
         (\<forall>g \<in> set (cs_candidates s). healthy (ms_registry m) g \<longrightarrow> g \<in> set (cs_tried s')))"
proof (cases res)
  case (Inl err)
  have "selection_ok s"
    using assms by (simp add: selection_ok_def)
  note r = selection_next_result [OF assms(3) this]
  have "g \<in> set (cs_tried s')" if "next_result (\<not> list_ex (healthy (ms_registry m)) (cs_candidates s)) s m res s' m'"
    "err \<noteq> Source_error ErrSourceClosed" "err \<noteq> Source_error ErrSourceSetupReleased" "g \<in> set (cs_candidates s)" "healthy (ms_registry m) g" for g
    using that by (auto simp: next_result_def Inl eligible_def healthy_def)
  then show ?thesis
    using r(2,3) Inl by auto
next
  case (Inr l)
  have "selection_ok s"
    using assms by (simp add: selection_ok_def)
  from selection_next_result(2) [OF assms(3) this] Inr
  have "next_result (\<not> list_ex (healthy (ms_registry m)) (cs_candidates s)) s m (Inr l) s' m'" by simp
  moreover define f where "f \<longleftrightarrow> \<not> list_ex (healthy (ms_registry m)) (cs_candidates s)"
  ultimately have r: "next_result f s m (Inr l) s' m'" by simp
  then have "l = length (ms_leases m)" "length (ms_leases m') = Suc l" "take l (ms_leases m') = ms_leases m"
    by (auto simp: next_result_def)
  then have "ms_leases m' = ms_leases m @ [ms_leases m' ! l]"
    using take_Suc_conv_app_nth [of l "ms_leases m'"] by simp
  moreover have "f \<longleftrightarrow> \<not> (\<exists>h \<in> set (cs_candidates s). healthy (ms_registry m) h)"
    by (auto simp: f_def list_ex_iff)
  moreover have "healthy (ms_registry m) g \<or> f" if "eligible f (ms_registry m) g" for g
    using that by (auto simp: eligible_def healthy_def)
  moreover have F: "gl_failOpen (ms_leases m' ! l) = f" "gl_generation (ms_leases m' ! l) \<in> set (cs_candidates s)"
    "gl_generation (ms_leases m' ! l) \<notin> set (cs_tried s)" "eligible f (ms_registry m) (gl_generation (ms_leases m' ! l))"
    "best f s (cs_tried s') (ms_registry m) (gl_generation (ms_leases m' ! l))"
    using r by (auto simp: next_result_def Let_def)
  moreover have "isForwardingReadyLocked (Some (gl_generation (ms_leases m' ! l))) (ms_registry m)"
    using F(4) by (simp add: eligible_def)
  ultimately show ?thesis
    unfolding Inr sum.case Let_def F(1) by blast
qed

definition sample_mesh :: mesh_state where
  "sample_mesh = exec mesh_step [On_registry Begin_inbound, On_registry (Prepare_client 0 ''i'' ''g''),
     On_registry (Commit_client_rule 0 ''g'' 1 ''p'' True), On_registry (Publish_L4 0), On_source (New_source sample_capacity 3),
     On_source (Begin_flow 0), On_source (Begin_setup 0)] (no_mesh 1 1 1)"

theorem next_selects_witness:
  "\<exists>s' m'. selection_next sample_selection sample_mesh = (Inr 0, s', m') \<and>
     gl_generation (ms_leases m' ! 0) = 0 \<and> healthy (ms_registry sample_mesh) 0 \<and> \<not> gl_failOpen (ms_leases m' ! 0)"
proof -
  obtain s' m' where n: "selection_next sample_selection sample_mesh = (Inr 0, s', m')"
  proof -
    have "fst (selection_next sample_selection sample_mesh) = Inr 0"
      by code_simp
    then show ?thesis
      using that by (cases "selection_next sample_selection sample_mesh") auto
  qed
  have "cs_candidates sample_selection = [0]" "cs_tried sample_selection = []"
    by (simp_all add: sample_selection_def)
  moreover have "healthy (ms_registry sample_mesh) 0"
    by code_simp
  ultimately show ?thesis
    using next_selects [OF _ _ n] n by (auto simp: Let_def)
qed

section \<open>Opening a stream\<close>

lemma release_pending:
  assumes "ms_leases m = ls @ [x]" and "gl_state x \<noteq> generationLeaseReleased"
  shows "ms_leases (snd (generationLease_release (Some (length ls)) m)) = ls @ [x\<lparr>gl_state := generationLeaseReleased\<rparr>]"
  using assms by (simp add: generationLease_release_def set_lease_def Let_def)

text \<open>What a call leaves: no old lease changed, at most one new lease for each candidate left, and none of them is held but the
  one it answers with.\<close>

definition open_result_ok :: "clientSelection \<Rightarrow> mesh_state \<Rightarrow> (selection_error + nat) \<Rightarrow> clientSelection \<Rightarrow> mesh_state \<Rightarrow> bool" where
  "open_result_ok s m res s' m' \<longleftrightarrow>
     (\<exists>ls. ms_leases m' = ms_leases m @ ls \<and> length ls + length (cs_tried s) \<le> length (cs_candidates s) \<and>
        (case res of Inl err \<Rightarrow> \<forall>x \<in> set ls. gl_state x = generationLeaseReleased
         | Inr l \<Rightarrow> \<exists>gone x. ls = gone @ [x] \<and> l = length (ms_leases m @ gone) \<and> gl_state x = generationLeasePending \<and>
             (\<forall>y \<in> set gone. gl_state y = generationLeaseReleased)))"

lemma selection_room: "selection_ok s \<Longrightarrow> length (cs_tried s) \<le> length (cs_candidates s)"
  using card_mono [of "set (cs_candidates s)" "set (cs_tried s)"] card_length [of "cs_candidates s"]
  by (simp add: selection_ok_def distinct_card)

lemma next_result_lease:
  assumes "next_result f s m (Inr l) s' m'"
  shows "ms_leases m' = ms_leases m @ [ms_leases m' ! l] \<and> gl_state (ms_leases m' ! l) = generationLeasePending \<and> l = length (ms_leases m)"
proof -
  from assms have "l = length (ms_leases m)" "length (ms_leases m') = Suc l" "take l (ms_leases m') = ms_leases m"
    "gl_state (ms_leases m' ! l) = generationLeasePending"
    by (auto simp: next_result_def Let_def)
  then show ?thesis
    using take_Suc_conv_app_nth [of l "ms_leases m'"] by simp
qed

lemma selection_open_result:
  assumes "selection_open ctx openStream env n lim s m = (res, s', m')" and "selection_ok s"
    and "\<And>n m. ms_leases (env n m) = ms_leases m"
  shows "open_result_ok s m res s' m'"
  using assms
proof (induction ctx openStream env n lim s m rule: selection_open.induct)
  case (1 ctx openStream env n lim s m)
  obtain r1 s1 m1 where next1: "selection_next s m = (r1, s1, m1)"
    by (cases "selection_next s m")
  show ?case
  proof (cases "ctx (3 * n)")
    case True
    then show ?thesis
      using "1.prems"(1) selection_room [OF "1.prems"(2)] by (subst (asm) selection_open.simps) (auto simp: open_result_ok_def)
  next
    case go: False
    note t = next_tried [OF next1] and ok = selection_next_result [OF next1 "1.prems"(2)]
    show ?thesis
    proof (cases r1)
      case (Inl err)
      then have "ms_leases m' = ms_leases m" "\<exists>err. res = Inl err"
        using "1.prems"(1) go next1 ok(3) [OF Inl] by (subst (asm) selection_open.simps; auto)+
      then show ?thesis
        using selection_room [OF "1.prems"(2)] by (auto simp: open_result_ok_def)
    next
      case (Inr l)
      from ok(2) Inr obtain x where x: "ms_leases m1 = ms_leases m @ [x]" "gl_state x = generationLeasePending" "l = length (ms_leases m)"
        using next_result_lease by fastforce
      let ?m2 = "env n m1"
      let ?m3 = "snd (generationLease_release (Some l) ?m2)"
      have m2: "ms_leases ?m2 = ms_leases m @ [x]"
        using "1.prems"(3) [of n m1] x(1) by simp
      have m3: "ms_leases ?m3 = ms_leases m @ [x\<lparr>gl_state := generationLeaseReleased\<rparr>]"
        using release_pending [OF m2] x(2,3) by simp
      have room: "Suc (length (cs_tried s)) \<le> length (cs_candidates s)"
        using t(3,4) [OF Inr] by simp
      show ?thesis
      proof (cases "\<not> ctx (3 * n + 2) \<and> openStream n (gl_generation (ms_leases m1 ! l)) = StreamLimitReached")
        case True
        then have lim: "\<not> ctx (3 * n + 2)" "openStream n (gl_generation (ms_leases m1 ! l)) = StreamLimitReached"
          by simp_all
        have rec: "selection_open ctx openStream env (Suc n) True s1 ?m3 = (res, s', m')"
          using "1.prems"(1) go next1 Inr lim by (subst (asm) selection_open.simps) (simp add: Let_def)
        have "open_result_ok s1 ?m3 res s' m'"
          by (rule "1.IH" [OF go next1 [symmetric] Inr refl refl refl refl lim rec ok(1) "1.prems"(3)])
        then obtain ls where ls: "ms_leases m' = ms_leases ?m3 @ ls" "length ls + length (cs_tried s1) \<le> length (cs_candidates s1)"
          "case res of Inl err \<Rightarrow> \<forall>x \<in> set ls. gl_state x = generationLeaseReleased
           | Inr k \<Rightarrow> \<exists>gone y. ls = gone @ [y] \<and> k = length (ms_leases ?m3 @ gone) \<and> gl_state y = generationLeasePending \<and>
               (\<forall>z \<in> set gone. gl_state z = generationLeaseReleased)"
          by (auto simp: open_result_ok_def)
        show ?thesis
          unfolding open_result_ok_def
        proof (intro exI conjI)
          show "ms_leases m' = ms_leases m @ (x\<lparr>gl_state := generationLeaseReleased\<rparr> # ls)"
            using ls(1) m3 by simp
          show "length (x\<lparr>gl_state := generationLeaseReleased\<rparr> # ls) + length (cs_tried s) \<le> length (cs_candidates s)"
            using ls(2) t(1) t(3) [OF Inr] by simp
          show "case res of Inl err \<Rightarrow> \<forall>x \<in> set (x\<lparr>gl_state := generationLeaseReleased\<rparr> # ls). gl_state x = generationLeaseReleased
           | Inr k \<Rightarrow> \<exists>gone y. x\<lparr>gl_state := generationLeaseReleased\<rparr> # ls = gone @ [y] \<and> k = length (ms_leases m @ gone) \<and>
               gl_state y = generationLeasePending \<and> (\<forall>z \<in> set gone. gl_state z = generationLeaseReleased)"
          proof (cases res)
            case (Inl err)
            with ls(3) show ?thesis by simp
          next
            case (Inr k)
            with ls(3) obtain gone y where "ls = gone @ [y]" "k = length (ms_leases ?m3 @ gone)" "gl_state y = generationLeasePending"
              "\<forall>z \<in> set gone. gl_state z = generationLeaseReleased" by auto
            then show ?thesis
              using Inr m3 by (auto intro!: exI [of _ "x\<lparr>gl_state := generationLeaseReleased\<rparr> # gone"])
          qed
        qed
      next
        case False
        then consider (err) err where "res = Inl err" "m' = ?m3" | (opened) "res = Inr l" "m' = ?m2"
          using "1.prems"(1) go next1 Inr
          by (subst (asm) selection_open.simps) (auto simp: Let_def split: if_splits open_result.splits)
        then show ?thesis
          using m2 m3 x(2,3) room by cases (auto simp: open_result_ok_def)
      qed
    qed
  qed
qed

text \<open>C18: \<open>open\<close> always returns, after at most one attempt for each candidate not yet tried, and leaks no lease: the leases that were
  there are unchanged; an error leaves every lease it reserved released, and a success exactly one pending, the one it returns. This holds for
  every behaviour of the transport and of the context, and whatever happens to the registry and the sources while a stream is opened.\<close>

theorem open_leaks_nothing:
  assumes "distinct (cs_tried s)" and "set (cs_tried s) \<subseteq> set (cs_candidates s)" and "\<And>n m. ms_leases (env n m) = ms_leases m"
  shows "\<exists>res s' m' ls. selection_open ctx openStream env 0 False s m = (res, s', m') \<and> ms_leases m' = ms_leases m @ ls \<and>
     length ls \<le> length (cs_candidates s) - length (cs_tried s) \<and>
     (case res of Inl err \<Rightarrow> \<forall>x \<in> set ls. gl_state x = generationLeaseReleased
      | Inr l \<Rightarrow> \<exists>gone x. ls = gone @ [x] \<and> l = length (ms_leases m @ gone) \<and> gl_state x = generationLeasePending \<and>
          (\<forall>y \<in> set gone. gl_state y = generationLeaseReleased))"
proof -
  obtain res s' m' where o: "selection_open ctx openStream env 0 False s m = (res, s', m')"
    by (cases "selection_open ctx openStream env 0 False s m")
  from selection_open_result [OF o _ assms(3)] have "open_result_ok s m res s' m'"
    using assms(1,2) by (simp add: selection_ok_def)
  then obtain ls where ls: "ms_leases m' = ms_leases m @ ls" "length ls + length (cs_tried s) \<le> length (cs_candidates s)"
    "case res of Inl err \<Rightarrow> \<forall>x \<in> set ls. gl_state x = generationLeaseReleased
      | Inr l \<Rightarrow> \<exists>gone x. ls = gone @ [x] \<and> l = length (ms_leases m @ gone) \<and> gl_state x = generationLeasePending \<and>
          (\<forall>y \<in> set gone. gl_state y = generationLeaseReleased)"
    unfolding open_result_ok_def by blast
  have "length ls \<le> length (cs_candidates s) - length (cs_tried s)"
    using ls(2) by linarith
  with o ls(1,3) show ?thesis
    by (intro exI [of _ res] exI [of _ s'] exI [of _ m'] exI [of _ ls] conjI)
qed

theorem open_leaks_nothing_witness:
  "\<exists>res s' m' ls. selection_open (\<lambda>n. False) (\<lambda>n g. StreamLimitReached) (\<lambda>n m. m) 0 False sample_selection sample_mesh = (res, s', m') \<and>
     res = Inl ErrLocalTransportBudget \<and> ms_leases m' = ms_leases sample_mesh @ ls \<and> length ls \<le> 1 \<and>
     (\<forall>x \<in> set ls. gl_state x = generationLeaseReleased)"
proof -
  let ?o = "selection_open (\<lambda>n. False) (\<lambda>n g. StreamLimitReached) (\<lambda>n m. m) 0 False sample_selection sample_mesh"
  have res: "fst ?o = Inl ErrLocalTransportBudget"
    by code_simp
  have s: "distinct (cs_tried sample_selection)" "set (cs_tried sample_selection) \<subseteq> set (cs_candidates sample_selection)"
    "length (cs_candidates sample_selection) - length (cs_tried sample_selection) = 1"
    by (simp_all add: sample_selection_def)
  obtain res s' m' ls where o: "?o = (res, s', m')" "ms_leases m' = ms_leases sample_mesh @ ls" "length ls \<le> 1"
    "case res of Inl err \<Rightarrow> \<forall>x \<in> set ls. gl_state x = generationLeaseReleased
      | Inr l \<Rightarrow> \<exists>gone x. ls = gone @ [x] \<and> l = length (ms_leases sample_mesh @ gone) \<and> gl_state x = generationLeasePending \<and>
          (\<forall>y \<in> set gone. gl_state y = generationLeaseReleased)"
    using open_leaks_nothing [OF s(1,2), where env = "\<lambda>n m. m" and ctx = "\<lambda>n. False" and openStream = "\<lambda>n g. StreamLimitReached" and m = sample_mesh]
    unfolding s(3) by blast
  have "res = Inl ErrLocalTransportBudget"
    using res unfolding o(1) by simp
  with o show ?thesis
    by (intro exI [of _ res] exI [of _ s'] exI [of _ m'] exI [of _ ls]) simp
qed

end
