(* ===== verification/Go_Text.thy ===== *)
theory Go_Text
  imports Prelude "HOL-Library.List_Lexorder" "HOL-Library.Char_ord"
begin

text \<open>
  What the configuration code uses of Go's text libraries: \<^verbatim>\<open>regexp\<close> matching (by derivatives, with the language a
  pattern stands for), \<^verbatim>\<open>unicode/utf8\<close>, \<^verbatim>\<open>strings\<close>, \<^verbatim>\<open>net\<close> and \<^verbatim>\<open>strconv\<close>. A Go string is a list
  of bytes, here characters.
\<close>

section \<open>Regular expressions\<close>

datatype re = Zero | One | Cls "char \<Rightarrow> bool" | Alt re re | Seq re re | Star re

fun nullable :: "re \<Rightarrow> bool" where
  "nullable Zero \<longleftrightarrow> False"
| "nullable One \<longleftrightarrow> True"
| "nullable (Cls P) \<longleftrightarrow> False"
| "nullable (Alt r s) \<longleftrightarrow> nullable r \<or> nullable s"
| "nullable (Seq r s) \<longleftrightarrow> nullable r \<and> nullable s"
| "nullable (Star r) \<longleftrightarrow> True"

fun deriv :: "char \<Rightarrow> re \<Rightarrow> re" where
  "deriv c Zero = Zero"
| "deriv c One = Zero"
| "deriv c (Cls P) = (if P c then One else Zero)"
| "deriv c (Alt r s) = Alt (deriv c r) (deriv c s)"
| "deriv c (Seq r s) = (if nullable r then Alt (Seq (deriv c r) s) (deriv c s) else Seq (deriv c r) s)"
| "deriv c (Star r) = Seq (deriv c r) (Star r)"

fun matches :: "re \<Rightarrow> string \<Rightarrow> bool" where
  "matches r [] \<longleftrightarrow> nullable r"
| "matches r (c # cs) \<longleftrightarrow> matches (deriv c r) cs"

definition Opt :: "re \<Rightarrow> re" where
  "Opt r = Alt One r"

definition Plus :: "re \<Rightarrow> re" where
  "Plus r = Seq r (Star r)"

text \<open>The strings a pattern stands for.\<close>

inductive_set star :: "string set \<Rightarrow> string set" for A where
  star_Nil: "[] \<in> star A"
| star_app: "u \<in> A \<Longrightarrow> v \<in> star A \<Longrightarrow> u @ v \<in> star A"

fun lang :: "re \<Rightarrow> string set" where
  "lang Zero = {}"
| "lang One = {[]}"
| "lang (Cls P) = {[c] |c. P c}"
| "lang (Alt r s) = lang r \<union> lang s"
| "lang (Seq r s) = {u @ v |u v. u \<in> lang r \<and> v \<in> lang s}"
| "lang (Star r) = star (lang r)"

lemma nullable_iff: "nullable r \<longleftrightarrow> [] \<in> lang r"
  by (induction r) (auto intro: star_Nil)

lemma star_Cons: "c # w \<in> star A \<longleftrightarrow> (\<exists>u v. w = u @ v \<and> c # u \<in> A \<and> v \<in> star A)"
proof
  show "\<exists>u v. w = u @ v \<and> c # u \<in> A \<and> v \<in> star A" if "c # w \<in> star A"
    using that
  proof (induction "c # w" arbitrary: w rule: star.induct)
    case (star_app u v)
    then show ?case by (cases u) auto
  qed
  show "c # w \<in> star A" if "\<exists>u v. w = u @ v \<and> c # u \<in> A \<and> v \<in> star A"
    using that star_app [of "c # _" A] by fastforce
qed

lemma deriv_iff: "w \<in> lang (deriv c r) \<longleftrightarrow> c # w \<in> lang r"
proof (induction r arbitrary: w)
  case (Seq r s)
  have "c # w \<in> lang (Seq r s) \<longleftrightarrow> (\<exists>u v. w = u @ v \<and> c # u \<in> lang r \<and> v \<in> lang s) \<or> [] \<in> lang r \<and> c # w \<in> lang s"
    by (auto simp: Cons_eq_append_conv)
  with Seq show ?case
    by (auto simp: nullable_iff)
next
  case (Star r)
  then show ?case
    by (auto simp: star_Cons)
qed auto

lemma matches_iff: "matches r w \<longleftrightarrow> w \<in> lang r"
  by (induction w arbitrary: r) (simp_all add: nullable_iff deriv_iff)

text \<open>The characters a pattern can match.\<close>

fun over :: "(char \<Rightarrow> bool) \<Rightarrow> re \<Rightarrow> bool" where
  "over P (Cls Q) \<longleftrightarrow> (\<forall>c. Q c \<longrightarrow> P c)"
| "over P (Alt r s) \<longleftrightarrow> over P r \<and> over P s"
| "over P (Seq r s) \<longleftrightarrow> over P r \<and> over P s"
| "over P (Star r) \<longleftrightarrow> over P r"
| "over P _ \<longleftrightarrow> True"

lemma star_chars: "w \<in> star A \<Longrightarrow> (\<And>u. u \<in> A \<Longrightarrow> list_all P u) \<Longrightarrow> list_all P w"
  by (induction rule: star.induct) auto

lemma lang_chars: "over P r \<Longrightarrow> w \<in> lang r \<Longrightarrow> list_all P w"
proof (induction r arbitrary: w)
  case (Star r)
  then show ?case using star_chars [of w "lang r" P] by auto
qed auto

lemma matches_chars: "matches r w \<Longrightarrow> over P r \<Longrightarrow> list_all P w"
  by (simp add: matches_iff lang_chars)

lemma star_Cls: "w \<in> star {[c] |c. P c} \<longleftrightarrow> list_all P w"
proof
  show "w \<in> star {[c] |c. P c} \<Longrightarrow> list_all P w"
    by (erule star_chars) auto
  show "list_all P w \<Longrightarrow> w \<in> star {[c] |c. P c}"
  proof (induction w)
    case (Cons c w)
    then show ?case using star_app [of "[c]" "{[c] |c. P c}" w] by auto
  qed (rule star_Nil)
qed

lemma matches_Plus: "matches (Plus (Cls P)) w \<longleftrightarrow> w \<noteq> [] \<and> list_all P w"
proof (cases w)
  case (Cons c v)
  have "matches (Plus (Cls P)) (c # v) \<longleftrightarrow> v \<in> lang (deriv c (Plus (Cls P)))"
    by (simp add: matches_iff deriv_iff)
  then show ?thesis
    by (simp add: Cons Plus_def star_Cls)
qed (simp add: Plus_def)

section \<open>Characters and strings\<close>

abbreviation code :: "char \<Rightarrow> int" where
  "code c \<equiv> of_char c"

definition is_digit :: "char \<Rightarrow> bool" where
  "is_digit c \<longleftrightarrow> 48 \<le> code c \<and> code c \<le> 57"

definition is_lower :: "char \<Rightarrow> bool" where
  "is_lower c \<longleftrightarrow> 97 \<le> code c \<and> code c \<le> 122"

definition is_upper :: "char \<Rightarrow> bool" where
  "is_upper c \<longleftrightarrow> 65 \<le> code c \<and> code c \<le> 90"

text \<open>\<open>strings.ToLower\<close> of ASCII text, which is all that is lowered after validation.\<close>

definition lower_char :: "char \<Rightarrow> char" where
  "lower_char c = (if is_upper c then char_of (code c + 32) else c)"

definition ToLower :: "string \<Rightarrow> string" where
  "ToLower s = map lower_char s"

lemma lower_char_code: "code (lower_char c) = (if is_upper c then code c + 32 else code c)"
  by (simp add: lower_char_def is_upper_def)

lemma lower_char_idem [simp]: "lower_char (lower_char c) = lower_char c"
proof -
  have "\<not> is_upper (lower_char c)"
    by (auto simp: is_upper_def lower_char_code)
  then show ?thesis
    by (simp add: lower_char_def [of "lower_char c"])
qed

lemma ToLower_idem [simp]: "ToLower (ToLower s) = ToLower s"
  by (simp add: ToLower_def)

lemma length_ToLower [simp]: "length (ToLower s) = length s"
  by (simp add: ToLower_def)

lemma ToLower_id: "list_all (\<lambda>c. \<not> is_upper c) s \<Longrightarrow> ToLower s = s"
  unfolding ToLower_def by (induction s) (simp_all add: lower_char_def)

definition HasPrefix :: "string \<Rightarrow> string \<Rightarrow> bool" where
  "HasPrefix s p \<longleftrightarrow> take (length p) s = p"

definition HasSuffix :: "string \<Rightarrow> string \<Rightarrow> bool" where
  "HasSuffix s p \<longleftrightarrow> length p \<le> length s \<and> drop (length s - length p) s = p"

definition TrimPrefix :: "string \<Rightarrow> string \<Rightarrow> string" where
  "TrimPrefix s p = (if HasPrefix s p then drop (length p) s else s)"

fun Contains :: "string \<Rightarrow> string \<Rightarrow> bool" where
  "Contains [] p \<longleftrightarrow> p = []"
| "Contains (c # s) p \<longleftrightarrow> HasPrefix (c # s) p \<or> Contains s p"

text \<open>\<open>strings.SplitSeq\<close> by one byte.\<close>

fun Split :: "char \<Rightarrow> string \<Rightarrow> string list" where
  "Split d [] = [[]]"
| "Split d (c # s) = (if c = d then [] # Split d s
     else case Split d s of [] \<Rightarrow> [[c]] | p # ps \<Rightarrow> (c # p) # ps)"

section \<open>UTF-8\<close>

definition cont_byte :: "char \<Rightarrow> bool" where
  "cont_byte c \<longleftrightarrow> 128 \<le> code c \<and> code c \<le> 191"

text \<open>\<open>utf8.DecodeRuneInString\<close> of a string that is not empty: the code point and the rest, or \<open>None\<close> for an
  invalid first byte, which stands for one replacement character.\<close>

fun decode_rune :: "string \<Rightarrow> (int \<times> string) option" where
  "decode_rune [] = None"
| "decode_rune (a # s) =
     (if code a < 128 then Some (code a, s)
      else if 194 \<le> code a \<and> code a \<le> 223 then
        (case s of b # s' \<Rightarrow> if cont_byte b then Some ((code a - 192) * 64 + (code b - 128), s') else None | _ \<Rightarrow> None)
      else if 224 \<le> code a \<and> code a \<le> 239 then
        (case s of b # c # s' \<Rightarrow>
           if cont_byte b \<and> cont_byte c \<and> (code a = 224 \<longrightarrow> 160 \<le> code b) \<and> (code a = 237 \<longrightarrow> code b \<le> 159)
           then Some ((code a - 224) * 4096 + (code b - 128) * 64 + (code c - 128), s') else None | _ \<Rightarrow> None)
      else if 240 \<le> code a \<and> code a \<le> 244 then
        (case s of b # c # d # s' \<Rightarrow>
           if cont_byte b \<and> cont_byte c \<and> cont_byte d \<and> (code a = 240 \<longrightarrow> 144 \<le> code b) \<and> (code a = 244 \<longrightarrow> code b \<le> 143)
           then Some ((code a - 240) * 262144 + (code b - 128) * 4096 + (code c - 128) * 64 + (code d - 128), s') else None | _ \<Rightarrow> None)
      else None)"

lemma decode_rune_shorter: "decode_rune s = Some (r, s') \<Longrightarrow> length s' < length s"
  by (cases s) (auto split: if_splits list.splits)

text \<open>The runes of a string, \<open>None\<close> for each invalid byte.\<close>

function runes :: "string \<Rightarrow> int option list" where
  "runes [] = []"
| "runes (c # s) = (case decode_rune (c # s) of None \<Rightarrow> None # runes s | Some (r, s') \<Rightarrow> Some r # runes s')"
  by pat_completeness auto

termination
  by (relation "measure length") (auto dest!: decode_rune_shorter simp del: decode_rune.simps)

definition ValidString :: "string \<Rightarrow> bool" where
  "ValidString s \<longleftrightarrow> list_all (\<lambda>r. r \<noteq> None) (runes s)"

definition RuneCountInString :: "string \<Rightarrow> nat" where
  "RuneCountInString s = length (runes s)"

definition IsSpace :: "int \<Rightarrow> bool" where
  "IsSpace r \<longleftrightarrow> 9 \<le> r \<and> r \<le> 13 \<or> r \<in> {32, 133, 160, 5760, 8232, 8233, 8239, 8287, 12288} \<or> 8192 \<le> r \<and> r \<le> 8202"

text \<open>Whether \<open>strings.TrimSpace\<close> leaves nothing.\<close>

definition is_blank :: "string \<Rightarrow> bool" where
  "is_blank s \<longleftrightarrow> list_all (\<lambda>r. case r of None \<Rightarrow> False | Some n \<Rightarrow> IsSpace n) (runes s)"

section \<open>Numbers and addresses\<close>

definition digit :: "char \<Rightarrow> int" where
  "digit c = code c - 48"

definition decimal :: "string \<Rightarrow> int" where
  "decimal s = foldl (\<lambda>n c. 10 * n + digit c) 0 s"

text \<open>One octet of a dotted address: decimal, without a leading zero, at most 255.\<close>

definition octet :: "string \<Rightarrow> bool" where
  "octet s \<longleftrightarrow> s \<noteq> [] \<and> list_all is_digit s \<and> (hd s = CHR ''0'' \<longrightarrow> length s = 1) \<and> length s \<le> 3 \<and> decimal s \<le> 255"

text \<open>Whether \<open>net.ParseIP\<close> finds an address in a text without a colon, which is a dotted one.\<close>

definition is_dotted_ip :: "string \<Rightarrow> bool" where
  "is_dotted_ip s \<longleftrightarrow> (let ps = Split (CHR ''.'') s in length ps = 4 \<and> list_all octet ps)"

text \<open>\<open>strconv.Atoi\<close> within the range of the ports: a sign, then digits; larger values are refused by the range check anyway.\<close>

definition Atoi :: "string \<Rightarrow> int option" where
  "Atoi s =
     (let (neg, ds) = (case s of [] \<Rightarrow> (False, []) | c # r \<Rightarrow> if c = CHR ''-'' then (True, r) else if c = CHR ''+'' then (False, r) else (False, s))
      in if ds = [] \<or> \<not> list_all is_digit ds then None
         else let n = (if neg then - decimal ds else decimal ds)
              in if - (2 ^ 63) \<le> n \<and> n < 2 ^ 63 then Some n else None)"

text \<open>\<open>net.SplitHostPort\<close>: the last colon separates the port; a host with a colon is in brackets.\<close>

fun last_colon :: "string \<Rightarrow> nat option" where
  "last_colon [] = None"
| "last_colon (c # s) = (case last_colon s of Some n \<Rightarrow> Some (Suc n) | None \<Rightarrow> if c = CHR '':'' then Some 0 else None)"

definition index_of :: "char \<Rightarrow> string \<Rightarrow> nat option" where
  "index_of d s = (let n = length (takeWhile (\<lambda>c. c \<noteq> d) s) in if n < length s then Some n else None)"

definition SplitHostPort :: "string \<Rightarrow> (string \<times> string) option" where
  "SplitHostPort hostport =
     (case last_colon hostport of None \<Rightarrow> None
      | Some i \<Rightarrow>
        if hostport \<noteq> [] \<and> hd hostport = CHR ''['' then
          (case index_of (CHR '']'') hostport of None \<Rightarrow> None
           | Some e \<Rightarrow>
             if e + 1 = length hostport \<or> e + 1 \<noteq> i then None
             else
               let host = drop 1 (take e hostport); port = drop (i + 1) hostport in
               if CHR ''['' \<in> set (drop 1 hostport) \<or> CHR '']'' \<in> set (drop (e + 1) hostport) then None else Some (host, port))
        else
          let host = take i hostport; port = drop (i + 1) hostport in
          if CHR '':'' \<in> set host \<or> CHR ''['' \<in> set hostport \<or> CHR '']'' \<in> set hostport then None else Some (host, port))"

section \<open>Checks in sequence\<close>

text \<open>A check is \<open>None\<close> when it passes, or the message of its error; a sequence of checks stops at the first error.\<close>

fun first_error :: "string option list \<Rightarrow> string option" where
  "first_error [] = None"
| "first_error (None # cs) = first_error cs"
| "first_error (Some e # cs) = Some e"

lemma first_error_None [simp]: "first_error cs = None \<longleftrightarrow> list_all (\<lambda>c. c = None) cs"
  by (induction cs rule: first_error.induct) simp_all

definition check :: "bool \<Rightarrow> string \<Rightarrow> string option" where
  "check ok message = (if ok then None else Some message)"

lemma check_None [simp]: "check ok message = None \<longleftrightarrow> ok"
  by (simp add: check_def)

definition within :: "string \<Rightarrow> string option \<Rightarrow> string option" where
  "within path err = map_option (\<lambda>e. path @ '': '' @ e) err"

lemma within_None [simp]: "within path err = None \<longleftrightarrow> err = None"
  by (simp add: within_def)

fun show_nat :: "nat \<Rightarrow> string" where
  "show_nat n = (if n < 10 then [char_of (n + 48)] else show_nat (n div 10) @ [char_of (n mod 10 + 48)])"

declare show_nat.simps [simp del]

definition item :: "string \<Rightarrow> nat \<Rightarrow> string" where
  "item path i = path @ ''['' @ show_nat i @ '']''"

text \<open>A check of every element, with its index.\<close>

definition each :: "(nat \<Rightarrow> 'a \<Rightarrow> string option) \<Rightarrow> 'a list \<Rightarrow> string option" where
  "each f xs = first_error (map (\<lambda>i. f i (xs ! i)) [0..<length xs])"

lemma each_None: "each f xs = None \<longleftrightarrow> (\<forall>i < length xs. f i (xs ! i) = None)"
  by (auto simp: each_def list_all_iff)

lemma each_None_all: "(\<And>i j x. f i x = None \<Longrightarrow> f j x = None) \<Longrightarrow> each f xs = None \<longleftrightarrow> (\<forall>x \<in> set xs. f 0 x = None)"
  unfolding each_None by (metis in_set_conv_nth)

end
