(* ===== verification/Config_Common.thy ===== *)
theory Config_Common
  imports Go_Text Token
begin

text \<open>
  The configuration of the tunnel and its two programs, \<^verbatim>\<open>config/common.go\<close>, \<^verbatim>\<open>config/defaults.go\<close>,
  \<^verbatim>\<open>config/server.go\<close> and \<^verbatim>\<open>config/client.go\<close>: defaults for omitted values and validation. A duration is a number of
  nanoseconds. An error is its message, without the quoted values; \<open>quicvarint_Max\<close>, the largest QUIC integer, is an
  argument, as it belongs to another module.
\<close>

section \<open>Defaults\<close>

definition second :: int where
  "second = 1000000000"

definition DefaultHeartbeatInterval :: int where
  "DefaultHeartbeatInterval = 10 * second"

definition DefaultHealthTimeout :: int where
  "DefaultHealthTimeout = 30 * second"

definition DefaultMaxIdleTimeout :: int where
  "DefaultMaxIdleTimeout = 300 * second"

definition DefaultLoadBalancer :: string where
  "DefaultLoadBalancer = ''least-connections''"

definition DefaultTCPCopyBufferSize :: int where
  "DefaultTCPCopyBufferSize = 131072"

text \<open>\<open>cmp.Or\<close> of two values: the second stands in for a zero.\<close>

definition Or :: "'a::zero \<Rightarrow> 'a \<Rightarrow> 'a" where
  "Or a b = (if a = 0 then b else a)"

lemma Or_nonzero [simp]: "b \<noteq> 0 \<Longrightarrow> Or a b \<noteq> 0"
  by (simp add: Or_def)

lemma Or_Or [simp]: "Or (Or a b) b = Or a b"
  by (simp add: Or_def)

section \<open>QUIC settings\<close>

record Quic =
  qc_InitialStreamReceiveWindow :: u64
  qc_MaxStreamReceiveWindow :: u64
  qc_InitialConnectionReceiveWindow :: u64
  qc_MaxConnectionReceiveWindow :: u64
  qc_MaxIncomingStreams :: int
  qc_KeepAlivePeriod :: int
  qc_HandshakeIdleTimeout :: int
  qc_MaxIdleTimeout :: int

record QuicConfig = Quic +
  qc_EnableDatagrams :: bool

definition maxIncomingStreams :: int where
  "maxIncomingStreams = 2 ^ 60"

definition GetConfig :: "Quic \<Rightarrow> QuicConfig" where
  "GetConfig q =
     \<lparr>qc_InitialStreamReceiveWindow = Or (qc_InitialStreamReceiveWindow q) (512 * 1024),
      qc_MaxStreamReceiveWindow = Or (qc_MaxStreamReceiveWindow q) (6 * 1024 * 1024),
      qc_InitialConnectionReceiveWindow = Or (qc_InitialConnectionReceiveWindow q) (768 * 1024),
      qc_MaxConnectionReceiveWindow = Or (qc_MaxConnectionReceiveWindow q) (15 * 1024 * 1024),
      qc_MaxIncomingStreams = qc_MaxIncomingStreams q, qc_KeepAlivePeriod = qc_KeepAlivePeriod q,
      qc_HandshakeIdleTimeout = qc_HandshakeIdleTimeout q,
      qc_MaxIdleTimeout = (if qc_MaxIdleTimeout q = 0 then DefaultMaxIdleTimeout else qc_MaxIdleTimeout q),
      qc_EnableDatagrams = True\<rparr>"

text \<open>A list of named values that must satisfy a condition.\<close>

definition named :: "string \<Rightarrow> string \<Rightarrow> (int \<Rightarrow> bool) \<Rightarrow> (string \<times> int) list \<Rightarrow> string option" where
  "named path message ok values = first_error (map (\<lambda>(name, value). check (ok value) (path @ ''.'' @ name @ message)) values)"

lemma named_None: "named path message ok values = None \<longleftrightarrow> (\<forall>(name, value) \<in> set values. ok value)"
  by (auto simp: named_def list_all_iff)

definition Quic_Validate :: "int \<Rightarrow> string \<Rightarrow> Quic \<Rightarrow> string option" where
  "Quic_Validate quicvarint_Max path q =
     (let effective = GetConfig q in
      first_error
       [named path '' must not be negative'' (\<lambda>v. 0 \<le> v)
          [(''keep_alive_period'', qc_KeepAlivePeriod q), (''handshake_idle_timeout'', qc_HandshakeIdleTimeout q),
           (''max_idle_timeout'', qc_MaxIdleTimeout q)],
        check (qc_HandshakeIdleTimeout q \<le> quicvarint_Max) (path @ ''.handshake_idle_timeout must not exceed the maximum''),
        check (0 \<le> qc_MaxIncomingStreams q \<and> qc_MaxIncomingStreams q \<le> maxIncomingStreams)
          (path @ ''.max_incoming_streams must be between 0 and the maximum''),
        named path '' must not exceed the maximum'' (\<lambda>v. v \<le> quicvarint_Max)
          [(''initial_stream_receive_window'', uint (qc_InitialStreamReceiveWindow q)),
           (''max_stream_receive_window'', uint (qc_MaxStreamReceiveWindow q)),
           (''initial_connection_receive_window'', uint (qc_InitialConnectionReceiveWindow q)),
           (''max_connection_receive_window'', uint (qc_MaxConnectionReceiveWindow q))],
        check (qc_InitialStreamReceiveWindow effective \<le> qc_MaxStreamReceiveWindow effective)
          (path @ ''.initial_stream_receive_window must not exceed '' @ path @ ''.max_stream_receive_window''),
        check (qc_InitialConnectionReceiveWindow effective \<le> qc_MaxConnectionReceiveWindow effective)
          (path @ ''.initial_connection_receive_window must not exceed '' @ path @ ''.max_connection_receive_window'')])"

record UDPConfig =
  uc_EnableFragmentation :: "bool option"

definition IsFragmentationEnabled :: "UDPConfig \<Rightarrow> bool" where
  "IsFragmentationEnabled u = (case uc_EnableFragmentation u of None \<Rightarrow> True | Some b \<Rightarrow> b)"

section \<open>Addresses\<close>

definition validateListenerAddress :: "string \<Rightarrow> string option" where
  "validateListenerAddress address =
     (if address = [] then Some ''address cannot be empty''
      else case SplitHostPort address of None \<Rightarrow> Some ''invalid address format''
      | Some (host, portText) \<Rightarrow>
        (case Atoi portText of None \<Rightarrow> Some ''invalid port in address''
         | Some port \<Rightarrow> check (1 \<le> port \<and> port \<le> 65535) ''port must be between 1 and 65535''))"

definition ValidateAddress :: "string \<Rightarrow> string option" where
  "ValidateAddress addr =
     (if addr = [] then Some ''address cannot be empty''
      else case SplitHostPort addr of None \<Rightarrow> Some ''invalid address format''
      | Some (host, portStr) \<Rightarrow>
        if host = [] then Some ''host cannot be empty in address''
        else (case Atoi portStr of None \<Rightarrow> Some ''invalid port in address''
              | Some port \<Rightarrow> check (1 \<le> port \<and> port \<le> 65535) ''port must be between 1 and 65535''))"

section \<open>Authentication and TLS settings\<close>

record ServerAuth =
  sv_Method :: string
  sv_CACertFile :: string
  sv_Token :: string

definition ServerAuth_Validate :: "ServerAuth \<Rightarrow> string option" where
  "ServerAuth_Validate a =
     (if sv_Method a = [] \<or> sv_Method a = ''mtls'' then check (sv_CACertFile a \<noteq> []) ''ca_cert_file is required for mTLS authentication''
      else if sv_Method a = ''token'' then
        (if sv_Token a = [] then Some ''token is required for token authentication''
         else check (\<not> length (sv_Token a) < MinSecretSize) ''token must be longer'')
      else Some ''unknown auth method'')"

record ServerTLS =
  st_ServerCertFile :: string
  st_ServerKeyFile :: string
  st_AutoReload :: bool
  st_SessionTicketEncryptionKeyRotationInterval :: int
  st_SessionTicketEncryptionKeyRotationOverlap :: "u8 option"

definition RotationOldKeyLimit :: "ServerTLS \<Rightarrow> u8" where
  "RotationOldKeyLimit t = (case st_SessionTicketEncryptionKeyRotationOverlap t of None \<Rightarrow> 7 | Some n \<Rightarrow> n)"

record ClientAuth =
  ca_Method :: string
  ca_Token :: string

definition ClientAuth_ApplyDefaults :: "ClientAuth \<Rightarrow> ClientAuth" where
  "ClientAuth_ApplyDefaults a = (if ca_Method a = [] then a\<lparr>ca_Method := ''mtls''\<rparr> else a)"

definition ClientAuth_Validate :: "ClientAuth \<Rightarrow> string option" where
  "ClientAuth_Validate a =
     (if ca_Method a = [] \<or> ca_Method a = ''mtls'' then None
      else if ca_Method a = ''token'' then check (\<not> length (ca_Token a) < MinSecretSize) ''token must be longer''
      else Some ''unknown auth method'')"

record ClientTLS =
  ct_CACertFile :: string
  ct_ClientCertFile :: string
  ct_ClientKeyFile :: string
  ct_AutoReload :: bool

definition ClientTLS_Validate :: "string \<Rightarrow> ClientTLS \<Rightarrow> string option" where
  "ClientTLS_Validate authMethod t =
     (if ct_CACertFile t = [] then Some ''ca_cert_file is required''
      else if authMethod = [] \<or> authMethod = ''mtls'' then
        (if ct_ClientCertFile t = [] then Some ''client_cert_file is required for mTLS authentication''
         else check (ct_ClientKeyFile t \<noteq> []) ''client_key_file is required for mTLS authentication'')
      else check ((ct_ClientCertFile t = []) = (ct_ClientKeyFile t = [])) ''client_cert_file and client_key_file must be provided together'')"


section \<open>The server\<close>

record ListenerCapacity =
  lc_MaxClientGenerations :: int
  lc_MaxPendingRegistrations :: int
  lc_MaxTCPConnections :: int
  lc_MaxPendingTCPSetups :: int
  lc_MaxTCPConnectionsPerGeneration :: int
  lc_MaxPendingTCPSetupsPerGeneration :: int
  lc_MaxUDPSessions :: int
  lc_MaxUDPSessionsPerGeneration :: int
  lc_MaxUDPSenderQueuedFramesPerGeneration :: int
  lc_MaxUDPSenderQueuedBackingBytesPerGeneration :: int
  lc_MaxUDPFragmentGroups :: int
  lc_MaxUDPFragmentBackingBytes :: int

definition ListenerCapacity_ApplyDefaults :: "ListenerCapacity \<Rightarrow> ListenerCapacity" where
  "ListenerCapacity_ApplyDefaults c =
     \<lparr>lc_MaxClientGenerations = Or (lc_MaxClientGenerations c) 16,
      lc_MaxPendingRegistrations = Or (lc_MaxPendingRegistrations c) 128,
      lc_MaxTCPConnections = Or (lc_MaxTCPConnections c) 128,
      lc_MaxPendingTCPSetups = Or (lc_MaxPendingTCPSetups c) 128,
      lc_MaxTCPConnectionsPerGeneration = Or (lc_MaxTCPConnectionsPerGeneration c) 100,
      lc_MaxPendingTCPSetupsPerGeneration = Or (lc_MaxPendingTCPSetupsPerGeneration c) 16,
      lc_MaxUDPSessions = Or (lc_MaxUDPSessions c) 1024,
      lc_MaxUDPSessionsPerGeneration = Or (lc_MaxUDPSessionsPerGeneration c) 256,
      lc_MaxUDPSenderQueuedFramesPerGeneration = Or (lc_MaxUDPSenderQueuedFramesPerGeneration c) 256,
      lc_MaxUDPSenderQueuedBackingBytesPerGeneration = Or (lc_MaxUDPSenderQueuedBackingBytesPerGeneration c) (512 * 1024),
      lc_MaxUDPFragmentGroups = Or (lc_MaxUDPFragmentGroups c) 4096,
      lc_MaxUDPFragmentBackingBytes = Or (lc_MaxUDPFragmentBackingBytes c) (64 * 1024 * 1024)\<rparr>"

definition capacity_limits :: "ListenerCapacity \<Rightarrow> (string \<times> int) list" where
  "capacity_limits c =
     [(''max_client_generations'', lc_MaxClientGenerations c),
      (''max_pending_registrations'', lc_MaxPendingRegistrations c),
      (''max_tcp_connections'', lc_MaxTCPConnections c),
      (''max_pending_tcp_setups'', lc_MaxPendingTCPSetups c),
      (''max_tcp_connections_per_generation'', lc_MaxTCPConnectionsPerGeneration c),
      (''max_pending_tcp_setups_per_generation'', lc_MaxPendingTCPSetupsPerGeneration c),
      (''max_udp_sessions'', lc_MaxUDPSessions c),
      (''max_udp_sessions_per_generation'', lc_MaxUDPSessionsPerGeneration c),
      (''max_udp_sender_queued_frames_per_generation'', lc_MaxUDPSenderQueuedFramesPerGeneration c),
      (''max_udp_sender_queued_backing_bytes_per_generation'', lc_MaxUDPSenderQueuedBackingBytesPerGeneration c),
      (''max_udp_fragment_groups'', lc_MaxUDPFragmentGroups c),
      (''max_udp_fragment_backing_bytes'', lc_MaxUDPFragmentBackingBytes c)]"

definition ListenerCapacity_Validate :: "string \<Rightarrow> ListenerCapacity \<Rightarrow> string option" where
  "ListenerCapacity_Validate path c = named path '' must not be negative'' (\<lambda>v. 0 \<le> v) (capacity_limits c)"

record QuicListener =
  ql_QuicAddr :: string
  ql_TrafficAddr :: string
  ql_Protocol :: string
  ql_Capacity :: ListenerCapacity
  ql_Quic :: Quic
  ql_UDP :: UDPConfig

record Server =
  sc_AdminAddress :: string
  sc_Listeners :: "QuicListener list"
  sc_Auth :: ServerAuth
  sc_TLS :: ServerTLS
  sc_TCPCopyBufferSize :: int
  sc_LoadBalancer :: string
  sc_HeartbeatInterval :: int
  sc_HealthTimeout :: int

definition Server_ApplyDefaults :: "Server \<Rightarrow> Server" where
  "Server_ApplyDefaults s =
     s\<lparr>sc_TCPCopyBufferSize := Or (sc_TCPCopyBufferSize s) DefaultTCPCopyBufferSize,
       sc_Listeners := map (\<lambda>l. l\<lparr>ql_Capacity := ListenerCapacity_ApplyDefaults (ql_Capacity l)\<rparr>) (sc_Listeners s),
       sc_HeartbeatInterval := Or (sc_HeartbeatInterval s) DefaultHeartbeatInterval,
       sc_HealthTimeout := Or (sc_HealthTimeout s) DefaultHealthTimeout,
       sc_LoadBalancer := (if sc_LoadBalancer s = [] then DefaultLoadBalancer else sc_LoadBalancer s)\<rparr>"

text \<open>The sockets claimed so far, each with the field that claims it.\<close>

type_synonym claims = "((string \<times> string) \<times> string) list"

definition claim :: "string \<Rightarrow> string \<Rightarrow> string \<Rightarrow> claims \<Rightarrow> string + claims" where
  "claim network address field claims =
     (case map_of claims (network, address) of
        Some existing \<Rightarrow> Inl (field @ '' conflicts with '' @ existing @ '' on '' @ network @ '' socket'')
      | None \<Rightarrow> Inr (AList.update (network, address) field claims))"

fun claim_all :: "(string \<times> string \<times> string) list \<Rightarrow> claims \<Rightarrow> string + claims" where
  "claim_all [] claims = Inr claims"
| "claim_all ((network, address, field) # cs) claims =
     (case claim network address field claims of Inl e \<Rightarrow> Inl e | Inr claims' \<Rightarrow> claim_all cs claims')"

definition listener_claims :: "string \<Rightarrow> QuicListener \<Rightarrow> (string \<times> string \<times> string) list" where
  "listener_claims path l =
     (''udp'', ql_QuicAddr l, path @ ''.quic_addr'') #
     (if ql_Protocol l \<in> {''tcp'', ''both''} then [(''tcp'', ql_TrafficAddr l, path @ ''.traffic_addr'')] else []) @
     (if ql_Protocol l \<in> {''udp'', ''both''} then [(''udp'', ql_TrafficAddr l, path @ ''.traffic_addr'')] else [])"

definition listener_error :: "int \<Rightarrow> string \<Rightarrow> QuicListener \<Rightarrow> string option" where
  "listener_error quicvarint_Max path l =
     first_error
      [ListenerCapacity_Validate (path @ ''.capacity'') (ql_Capacity l),
       within (path @ ''.quic_addr'') (validateListenerAddress (ql_QuicAddr l)),
       within (path @ ''.traffic_addr'') (validateListenerAddress (ql_TrafficAddr l)),
       check (ql_Protocol l \<in> {''tcp'', ''udp'', ''both''}) (path @ ''.protocol must be tcp, udp, or both''),
       Quic_Validate quicvarint_Max path (ql_Quic l)]"

fun validateListeners :: "int \<Rightarrow> nat \<Rightarrow> QuicListener list \<Rightarrow> claims \<Rightarrow> string + claims" where
  "validateListeners quicvarint_Max i [] claims = Inr claims"
| "validateListeners quicvarint_Max i (l # ls) claims =
     (let path = item ''listeners'' i in
      case listener_error quicvarint_Max path l of Some e \<Rightarrow> Inl e
      | None \<Rightarrow> (case claim_all (listener_claims path l) claims of Inl e \<Rightarrow> Inl e
                 | Inr claims' \<Rightarrow> validateListeners quicvarint_Max (Suc i) ls claims'))"

definition admin_claim :: "Server \<Rightarrow> string + claims" where
  "admin_claim s =
     (if sc_AdminAddress s \<noteq> [] then
        (case within ''admin_address'' (validateListenerAddress (sc_AdminAddress s)) of Some e \<Rightarrow> Inl e
         | None \<Rightarrow> claim ''tcp'' (sc_AdminAddress s) ''admin_address'' [])
      else Inr [])"

definition Server_settings_error :: "Server \<Rightarrow> string option" where
  "Server_settings_error s =
     first_error
      [check (sc_LoadBalancer s \<in> {''least-connections'', ''round-robin''}) ''load_balancer must be least-connections or round-robin'',
       check (0 < sc_HeartbeatInterval s) ''heartbeat_interval must be positive'',
       check (0 < sc_HealthTimeout s) ''health_timeout must be positive'',
       check (sc_HeartbeatInterval s < sc_HealthTimeout s) ''health_timeout must be greater than heartbeat_interval'',
       check (st_ServerCertFile (sc_TLS s) \<noteq> []) ''tls.server_cert_file is required'',
       check (st_ServerKeyFile (sc_TLS s) \<noteq> []) ''tls.server_key_file is required'',
       check (0 \<le> st_SessionTicketEncryptionKeyRotationInterval (sc_TLS s))
         ''tls.session_ticket_encryption_key_rotation_interval must not be negative'',
       check (\<not> (st_SessionTicketEncryptionKeyRotationInterval (sc_TLS s) = 0 \<and>
                 st_SessionTicketEncryptionKeyRotationOverlap (sc_TLS s) \<noteq> None))
         ''tls.session_ticket_encryption_key_rotation_overlap must be omitted when the interval is 0'',
       within ''auth'' (ServerAuth_Validate (sc_Auth s))]"

definition Server_Validate :: "int \<Rightarrow> Server \<Rightarrow> string option" where
  "Server_Validate quicvarint_Max s =
     (if sc_Listeners s = [] then Some ''listeners must contain at least one listener''
      else if sc_TCPCopyBufferSize s < 0 then Some ''tcp_copy_buffer_size must not be negative''
      else case admin_claim s of Inl e \<Rightarrow> Some e
      | Inr claims \<Rightarrow>
        (case validateListeners quicvarint_Max 0 (sc_Listeners s) claims of Inl e \<Rightarrow> Some e
         | Inr _ \<Rightarrow> Server_settings_error s))"

section \<open>The client\<close>

record ClientCapacity =
  cc_MaxLocalUDPSessions :: int
  cc_MaxUDPFragmentGroupsPerHandler :: int
  cc_MaxUDPFragmentBackingBytesPerHandler :: int

definition ClientCapacity_ApplyDefaults :: "ClientCapacity \<Rightarrow> ClientCapacity" where
  "ClientCapacity_ApplyDefaults c =
     \<lparr>cc_MaxLocalUDPSessions = Or (cc_MaxLocalUDPSessions c) 256,
      cc_MaxUDPFragmentGroupsPerHandler = Or (cc_MaxUDPFragmentGroupsPerHandler c) 4096,
      cc_MaxUDPFragmentBackingBytesPerHandler = Or (cc_MaxUDPFragmentBackingBytesPerHandler c) (64 * 1024 * 1024)\<rparr>"

definition ClientCapacity_Validate :: "string \<Rightarrow> ClientCapacity \<Rightarrow> string option" where
  "ClientCapacity_Validate path c =
     named path '' must not be negative'' (\<lambda>v. 0 \<le> v)
       [(''max_local_udp_sessions'', cc_MaxLocalUDPSessions c),
        (''max_udp_fragment_groups_per_handler'', cc_MaxUDPFragmentGroupsPerHandler c),
        (''max_udp_fragment_backing_bytes_per_handler'', cc_MaxUDPFragmentBackingBytesPerHandler c)]"

record ServerEndpoint =
  ep_Address :: string
  ep_ServerName :: string

record LocalService =
  ls_Host :: string
  ls_Port :: int

record Client =
  cl_AdminAddress :: string
  cl_ClientID :: string
  cl_Servers :: "ServerEndpoint list"
  cl_Local :: LocalService
  cl_Quic :: Quic
  cl_TLS :: ClientTLS
  cl_Auth :: ClientAuth
  cl_UDP :: UDPConfig
  cl_Capacity :: ClientCapacity
  cl_TCPCopyBufferSize :: int
  cl_HeartbeatInterval :: int
  cl_HealthTimeout :: int

text \<open>\<open>generated\<close> is the identifier the UUID library returns when the configuration has none.\<close>

definition EnsureClientID :: "string \<Rightarrow> Client \<Rightarrow> Client" where
  "EnsureClientID generated c = (if cl_ClientID c = [] then c\<lparr>cl_ClientID := generated\<rparr> else c)"

definition Client_ApplyDefaults :: "string \<Rightarrow> Client \<Rightarrow> Client" where
  "Client_ApplyDefaults generated c0 =
     (let c = EnsureClientID generated c0 in
      c\<lparr>cl_Auth := ClientAuth_ApplyDefaults (cl_Auth c), cl_Capacity := ClientCapacity_ApplyDefaults (cl_Capacity c),
        cl_TCPCopyBufferSize := Or (cl_TCPCopyBufferSize c) DefaultTCPCopyBufferSize,
        cl_HeartbeatInterval := Or (cl_HeartbeatInterval c) DefaultHeartbeatInterval,
        cl_HealthTimeout := Or (cl_HealthTimeout c) DefaultHealthTimeout\<rparr>)"

definition MinServers :: nat where
  "MinServers = 1"

definition ClientServer_Validate :: "ServerEndpoint list \<Rightarrow> string option" where
  "ClientServer_Validate servers =
     (if length servers < MinServers then Some ''server.servers: at least one address must be provided''
      else each (\<lambda>i server. within (item ''server.servers'' i @ ''.address'') (ValidateAddress (ep_Address server))) servers)"

fun dedup_loop :: "ServerEndpoint list \<Rightarrow> string list \<Rightarrow> ServerEndpoint list \<Rightarrow> bool \<Rightarrow> ServerEndpoint list \<times> bool" where
  "dedup_loop [] seen deduplicated hasDuplicates = (deduplicated, hasDuplicates)"
| "dedup_loop (server # servers) seen deduplicated hasDuplicates =
     (if ep_Address server \<notin> set seen
      then dedup_loop servers (ep_Address server # seen) (deduplicated @ [server]) hasDuplicates
      else dedup_loop servers seen deduplicated True)"

definition DeduplicateServers :: "ServerEndpoint list \<Rightarrow> ServerEndpoint list \<times> bool" where
  "DeduplicateServers servers = (if servers = [] then ([], False) else dedup_loop servers [] [] False)"

definition ValidateAndDeduplicate :: "ServerEndpoint list \<Rightarrow> (bool \<times> string option) \<times> ServerEndpoint list" where
  "ValidateAndDeduplicate servers =
     (let (deduplicated, hasDuplicates) = DeduplicateServers servers;
          servers' = (if hasDuplicates then deduplicated else servers)
      in ((hasDuplicates, ClientServer_Validate servers'), servers'))"

definition Client_Validate :: "int \<Rightarrow> Client \<Rightarrow> string option" where
  "Client_Validate quicvarint_Max c =
     first_error
      [if cl_AdminAddress c \<noteq> [] then within ''admin_address'' (validateListenerAddress (cl_AdminAddress c)) else None,
       ClientCapacity_Validate ''capacity'' (cl_Capacity c),
       check (0 \<le> cl_TCPCopyBufferSize c) ''tcp_copy_buffer_size must not be negative'',
       ClientServer_Validate (cl_Servers c),
       check (\<not> is_blank (ls_Host (cl_Local c))) ''local.host is required'',
       check (1 \<le> ls_Port (cl_Local c) \<and> ls_Port (cl_Local c) \<le> 65535) ''local.port must be between 1 and 65535'',
       check (0 < cl_HeartbeatInterval c) ''heartbeat_interval must be positive'',
       check (0 < cl_HealthTimeout c) ''health_timeout must be positive'',
       check (cl_HeartbeatInterval c < cl_HealthTimeout c) ''health_timeout must be greater than heartbeat_interval'',
       Quic_Validate quicvarint_Max ''quic'' (cl_Quic c),
       within ''auth'' (ClientAuth_Validate (cl_Auth c)),
       within ''tls'' (ClientTLS_Validate (ca_Method (cl_Auth c)) (cl_TLS c))]"


section \<open>What an accepted server configuration guarantees\<close>

definition port_ok :: "string \<Rightarrow> bool" where
  "port_ok portText \<longleftrightarrow> (case Atoi portText of None \<Rightarrow> False | Some port \<Rightarrow> 1 \<le> port \<and> port \<le> 65535)"

definition addr_ok :: "string \<Rightarrow> bool" where
  "addr_ok a \<longleftrightarrow> (case SplitHostPort a of None \<Rightarrow> False | Some (host, portText) \<Rightarrow> port_ok portText)"

lemma SplitHostPort_Nil [simp]: "SplitHostPort [] = None"
  by (simp add: SplitHostPort_def)

lemma validateListenerAddress_None [simp]: "validateListenerAddress a = None \<longleftrightarrow> addr_ok a"
  by (cases "a = []") (auto simp: validateListenerAddress_def addr_ok_def port_ok_def split: option.splits)

definition quic_ok :: "int \<Rightarrow> Quic \<Rightarrow> bool" where
  "quic_ok m q \<longleftrightarrow>
     0 \<le> qc_KeepAlivePeriod q \<and> 0 \<le> qc_HandshakeIdleTimeout q \<and> qc_HandshakeIdleTimeout q \<le> m \<and> 0 \<le> qc_MaxIdleTimeout q \<and>
     0 \<le> qc_MaxIncomingStreams q \<and> qc_MaxIncomingStreams q \<le> 2 ^ 60 \<and>
     list_all (\<lambda>w. uint w \<le> m) [qc_InitialStreamReceiveWindow q, qc_MaxStreamReceiveWindow q,
       qc_InitialConnectionReceiveWindow q, qc_MaxConnectionReceiveWindow q] \<and>
     qc_InitialStreamReceiveWindow (GetConfig q) \<le> qc_MaxStreamReceiveWindow (GetConfig q) \<and>
     qc_InitialConnectionReceiveWindow (GetConfig q) \<le> qc_MaxConnectionReceiveWindow (GetConfig q)"

lemma Quic_Validate_None [simp]: "Quic_Validate m path q = None \<longleftrightarrow> quic_ok m q"
  by (auto simp: Quic_Validate_def quic_ok_def Let_def named_None maxIncomingStreams_def)

definition listener_ok :: "int \<Rightarrow> QuicListener \<Rightarrow> bool" where
  "listener_ok m l \<longleftrightarrow>
     list_all (\<lambda>(name, value). 0 \<le> value) (capacity_limits (ql_Capacity l)) \<and> addr_ok (ql_QuicAddr l) \<and> addr_ok (ql_TrafficAddr l) \<and>
     ql_Protocol l \<in> {''tcp'', ''udp'', ''both''} \<and> quic_ok m (ql_Quic l)"

lemma listener_error_None: "listener_error m path l = None \<longleftrightarrow> listener_ok m l"
  by (simp add: listener_error_def listener_ok_def ListenerCapacity_Validate_def named_None list_all_iff)

definition listener_sockets :: "QuicListener \<Rightarrow> (string \<times> string) list" where
  "listener_sockets l =
     (''udp'', ql_QuicAddr l) # (if ql_Protocol l \<in> {''tcp'', ''both''} then [(''tcp'', ql_TrafficAddr l)] else []) @
     (if ql_Protocol l \<in> {''udp'', ''both''} then [(''udp'', ql_TrafficAddr l)] else [])"

definition sockets :: "Server \<Rightarrow> (string \<times> string) list" where
  "sockets s = (if sc_AdminAddress s \<noteq> [] then [(''tcp'', sc_AdminAddress s)] else []) @ concat (map listener_sockets (sc_Listeners s))"

definition claim_keys :: "(string \<times> string \<times> string) list \<Rightarrow> (string \<times> string) list" where
  "claim_keys cs = map (\<lambda>(network, address, field). (network, address)) cs"

lemma claim_keys_listener: "claim_keys (listener_claims path l) = listener_sockets l"
  by (simp add: claim_keys_def listener_claims_def listener_sockets_def)

lemma claim_result:
  "claim network address field claims =
     (if (network, address) \<in> fst ` set claims
      then Inl (field @ '' conflicts with '' @ the (map_of claims (network, address)) @ '' on '' @ network @ '' socket'')
      else Inr (AList.update (network, address) field claims))"
  using map_of_eq_None_iff [of claims "(network, address)"] by (simp add: claim_def option.case_eq_if)

lemma claim_all_Inr:
  "claim_all cs claims = Inr claims' \<Longrightarrow>
     distinct (claim_keys cs) \<and> set (claim_keys cs) \<inter> fst ` set claims = {} \<and> fst ` set claims' = fst ` set claims \<union> set (claim_keys cs)"
proof (induction cs claims rule: claim_all.induct)
  case (2 network address field cs claims)
  then have new: "(network, address) \<notin> fst ` set claims"
    and rest: "claim_all cs (AList.update (network, address) field claims) = Inr claims'"
    by (auto simp: claim_result split: if_splits)
  have keys: "fst ` set (AList.update (network, address) field claims) = insert (network, address) (fst ` set claims)"
    by (auto simp: dom_update)
  from "2.IH" [of "AList.update (network, address) field claims"] new rest show ?case
    by (auto simp: keys claim_result claim_keys_def)
qed (simp add: claim_keys_def)

lemma claim_all_defined:
  "distinct (claim_keys cs) \<Longrightarrow> set (claim_keys cs) \<inter> fst ` set claims = {} \<Longrightarrow> \<exists>claims'. claim_all cs claims = Inr claims'"
proof (induction cs arbitrary: claims)
  case (Cons c cs)
  obtain network address field where c: "c = (network, address, field)"
    by (cases c)
  have keys: "fst ` set (AList.update (network, address) field claims) = insert (network, address) (fst ` set claims)"
    by (auto simp: dom_update)
  have "\<exists>claims'. claim_all cs (AList.update (network, address) field claims) = Inr claims'"
    by (rule Cons.IH) (use Cons.prems in \<open>auto simp: c keys claim_keys_def\<close>)
  moreover have "(network, address) \<notin> fst ` set claims"
    using Cons.prems by (auto simp: c claim_keys_def)
  ultimately show ?case
    by (simp add: c claim_result)
qed simp

lemma validateListeners_Inr:
  "validateListeners m i ls claims = Inr claims' \<Longrightarrow>
     list_all (listener_ok m) ls \<and> distinct (concat (map listener_sockets ls)) \<and>
     set (concat (map listener_sockets ls)) \<inter> fst ` set claims = {}"
proof (induction ls arbitrary: i claims)
  case (Cons l ls)
  let ?path = "item ''listeners'' i"
  obtain c where ok: "listener_error m ?path l = None" and c: "claim_all (listener_claims ?path l) claims = Inr c"
    and rest: "validateListeners m (Suc i) ls c = Inr claims'"
    using Cons.prems by (auto simp: Let_def split: option.splits sum.splits)
  have own: "distinct (listener_sockets l)" "set (listener_sockets l) \<inter> fst ` set claims = {}"
    and keys: "fst ` set c = fst ` set claims \<union> set (listener_sockets l)"
    using claim_all_Inr [OF c] by (simp_all add: claim_keys_listener)
  have others: "list_all (listener_ok m) ls" "distinct (concat (map listener_sockets ls))"
    and apart: "set (concat (map listener_sockets ls)) \<inter> (fst ` set claims \<union> set (listener_sockets l)) = {}"
    using Cons.IH [OF rest] unfolding keys by blast+
  have "listener_ok m l"
    using ok by (simp add: listener_error_None)
  moreover have "set (listener_sockets l) \<inter> set (concat (map listener_sockets ls)) = {}"
    using apart by blast
  moreover have "(set (listener_sockets l) \<union> set (concat (map listener_sockets ls))) \<inter> fst ` set claims = {}"
    using own(2) apart by blast
  ultimately show ?case
    using own(1) others by (simp del: set_concat)
qed simp

lemma validateListeners_defined:
  "list_all (listener_ok m) ls \<Longrightarrow> distinct (concat (map listener_sockets ls)) \<Longrightarrow>
   set (concat (map listener_sockets ls)) \<inter> fst ` set claims = {} \<Longrightarrow> \<exists>claims'. validateListeners m i ls claims = Inr claims'"
proof (induction ls arbitrary: i claims)
  case (Cons l ls)
  let ?path = "item ''listeners'' i"
  have ok: "listener_error m ?path l = None"
    using Cons.prems by (simp add: listener_error_None)
  obtain c where c: "claim_all (listener_claims ?path l) claims = Inr c"
    using claim_all_defined [of "listener_claims ?path l" claims] Cons.prems by (auto simp: claim_keys_listener)
  have keys: "fst ` set c = fst ` set claims \<union> set (listener_sockets l)"
    using claim_all_Inr [OF c] by (simp add: claim_keys_listener)
  have "\<exists>claims'. validateListeners m (Suc i) ls c = Inr claims'"
  proof (rule Cons.IH)
    show "set (concat (map listener_sockets ls)) \<inter> fst ` set c = {}"
      using Cons.prems(2,3) unfolding keys by auto
  qed (use Cons.prems(1,2) in simp_all)
  then show ?case
    using ok c by (simp add: Let_def)
qed simp

lemma admin_claim_Inr:
  "(\<exists>claims. admin_claim s = Inr claims) \<longleftrightarrow> (sc_AdminAddress s = [] \<or> addr_ok (sc_AdminAddress s))"
  using validateListenerAddress_None [of "sc_AdminAddress s"]
  by (cases "validateListenerAddress (sc_AdminAddress s)")
    (auto simp: admin_claim_def claim_def within_def simp del: validateListenerAddress_None)

lemma admin_claim_keys:
  "admin_claim s = Inr claims \<Longrightarrow> fst ` set claims = (if sc_AdminAddress s \<noteq> [] then {(''tcp'', sc_AdminAddress s)} else {})"
  by (auto simp: admin_claim_def claim_def split: option.splits if_splits)

lemma sockets_distinct:
  assumes "admin_claim s = Inr claims"
  shows "distinct (sockets s) \<longleftrightarrow> distinct (concat (map listener_sockets (sc_Listeners s))) \<and>
    set (concat (map listener_sockets (sc_Listeners s))) \<inter> fst ` set claims = {}"
  unfolding sockets_def admin_claim_keys [OF assms] by (cases "sc_AdminAddress s = []") (simp_all add: conj_commute)

lemma listeners_accepted:
  assumes "admin_claim s = Inr claims"
  shows "(\<exists>claims'. validateListeners m 0 (sc_Listeners s) claims = Inr claims') \<longleftrightarrow>
    list_all (listener_ok m) (sc_Listeners s) \<and> distinct (sockets s)"
  unfolding sockets_distinct [OF assms]
  by (intro iffI; (elim exE conjE)?) (erule validateListeners_Inr, erule (2) validateListeners_defined)

definition server_auth_ok :: "ServerAuth \<Rightarrow> bool" where
  "server_auth_ok a \<longleftrightarrow> sv_Method a \<in> {[], ''mtls''} \<and> sv_CACertFile a \<noteq> [] \<or> sv_Method a = ''token'' \<and> 16 \<le> length (sv_Token a)"

lemma ServerAuth_Validate_None [simp]: "ServerAuth_Validate a = None \<longleftrightarrow> server_auth_ok a"
  by (auto simp: ServerAuth_Validate_def server_auth_ok_def MinSecretSize_def)

definition settings_ok :: "Server \<Rightarrow> bool" where
  "settings_ok s \<longleftrightarrow>
     sc_LoadBalancer s \<in> {''least-connections'', ''round-robin''} \<and> 0 < sc_HeartbeatInterval s \<and>
     sc_HeartbeatInterval s < sc_HealthTimeout s \<and> st_ServerCertFile (sc_TLS s) \<noteq> [] \<and> st_ServerKeyFile (sc_TLS s) \<noteq> [] \<and>
     0 \<le> st_SessionTicketEncryptionKeyRotationInterval (sc_TLS s) \<and>
     (st_SessionTicketEncryptionKeyRotationOverlap (sc_TLS s) = None \<or> st_SessionTicketEncryptionKeyRotationInterval (sc_TLS s) \<noteq> 0) \<and>
     server_auth_ok (sc_Auth s)"

lemma Server_settings_error_None: "Server_settings_error s = None \<longleftrightarrow> settings_ok s"
  by (auto simp: Server_settings_error_def settings_ok_def)

lemma Server_Validate_None:
  "Server_Validate m s = None \<longleftrightarrow>
     sc_Listeners s \<noteq> [] \<and> 0 \<le> sc_TCPCopyBufferSize s \<and> (sc_AdminAddress s = [] \<or> addr_ok (sc_AdminAddress s)) \<and>
     list_all (listener_ok m) (sc_Listeners s) \<and> distinct (sockets s) \<and> settings_ok s"
proof (cases "admin_claim s")
  case (Inl e)
  then have "\<not> (\<exists>claims. admin_claim s = Inr claims)"
    by simp
  then have "\<not> (sc_AdminAddress s = [] \<or> addr_ok (sc_AdminAddress s))"
    unfolding admin_claim_Inr .
  then show ?thesis
    by (simp add: Server_Validate_def Inl)
next
  case (Inr claims)
  then have "sc_AdminAddress s = [] \<or> addr_ok (sc_AdminAddress s)"
    using admin_claim_Inr [of s] by blast
  moreover have "Server_Validate m s = None \<longleftrightarrow> sc_Listeners s \<noteq> [] \<and> 0 \<le> sc_TCPCopyBufferSize s \<and>
      (\<exists>claims'. validateListeners m 0 (sc_Listeners s) claims = Inr claims') \<and> settings_ok s"
    by (auto simp: Server_Validate_def Inr Server_settings_error_None split: sum.splits)
  ultimately show ?thesis
    by (auto simp: listeners_accepted [OF Inr])
qed

lemma Or_positive: "0 < d \<Longrightarrow> 0 \<le> Or v d \<longleftrightarrow> 0 < Or v d" for v d :: int
  by (auto simp: Or_def)

lemma capacity_positive:
  "list_all (\<lambda>(name, value). 0 \<le> value) (capacity_limits (ListenerCapacity_ApplyDefaults c)) \<longleftrightarrow>
   list_all (\<lambda>(name, value). 0 < value) (capacity_limits (ListenerCapacity_ApplyDefaults c))"
  by (simp add: capacity_limits_def ListenerCapacity_ApplyDefaults_def Or_positive)

definition positive_capacity :: "QuicListener \<Rightarrow> bool" where
  "positive_capacity l \<longleftrightarrow> list_all (\<lambda>(name, value). 0 < value) (capacity_limits (ql_Capacity l))"

lemma defaults_capacity:
  "list_all (listener_ok m) (sc_Listeners (Server_ApplyDefaults s)) \<Longrightarrow> list_all positive_capacity (sc_Listeners (Server_ApplyDefaults s))"
  by (auto simp: Server_ApplyDefaults_def list.pred_map o_def listener_ok_def positive_capacity_def capacity_positive
      elim!: list.pred_mono_strong)

text \<open>C15: the server accepts a configuration exactly when, after its defaults, it has a listener, every address has a
  port between 1 and 65535, the QUIC settings and protocols are valid, no two sockets (the admin address and every
  listener's QUIC and traffic addresses, per network) coincide, and the intervals, load balancer, certificates and
  authentication are valid; every capacity of an accepted listener is then positive, so no limit is zero.\<close>

theorem server_config_exact:
  "let s' = Server_ApplyDefaults s in
    Server_Validate m s' = None \<longleftrightarrow>
    sc_Listeners s' \<noteq> [] \<and> 0 < sc_TCPCopyBufferSize s' \<and> (sc_AdminAddress s' = [] \<or> addr_ok (sc_AdminAddress s')) \<and>
    list_all (listener_ok m) (sc_Listeners s') \<and> list_all positive_capacity (sc_Listeners s') \<and>
    distinct (sockets s') \<and> settings_ok s'"
proof -
  have size: "0 \<le> sc_TCPCopyBufferSize (Server_ApplyDefaults s) \<longleftrightarrow> 0 < sc_TCPCopyBufferSize (Server_ApplyDefaults s)"
    by (simp add: Server_ApplyDefaults_def DefaultTCPCopyBufferSize_def Or_positive)
  show ?thesis
    unfolding Server_Validate_None Let_def size using defaults_capacity [of m s] by blast
qed


section \<open>Client endpoints\<close>

lemma dedup_loop_result:
  assumes "dedup_loop servers seen deduplicated hasDuplicates = (ds, dup)" and "set seen = ep_Address ` set deduplicated"
    and "distinct (map ep_Address deduplicated)"
  shows "distinct (map ep_Address ds) \<and> ep_Address ` set ds = ep_Address ` (set deduplicated \<union> set servers) \<and>
    set ds \<subseteq> set deduplicated \<union> set servers \<and>
    (dup \<longleftrightarrow> hasDuplicates \<or> \<not> distinct (map ep_Address (deduplicated @ servers)))"
  using assms
proof (induction servers seen deduplicated hasDuplicates rule: dedup_loop.induct)
  case (2 server servers seen deduplicated hasDuplicates)
  show ?case
  proof (cases "ep_Address server \<in> set seen")
    case True
    with 2 have IH: "distinct (map ep_Address ds) \<and> ep_Address ` set ds = ep_Address ` (set deduplicated \<union> set servers) \<and>
      set ds \<subseteq> set deduplicated \<union> set servers \<and> dup"
      by simp
    from True "2.prems"(2) have "ep_Address server \<in> ep_Address ` set deduplicated"
      by simp
    with IH show ?thesis
      by (auto simp: image_Un)
  next
    case False
    have "dedup_loop servers (ep_Address server # seen) (deduplicated @ [server]) hasDuplicates = (ds, dup)"
      using "2.prems"(1) False by simp
    moreover have "set (ep_Address server # seen) = ep_Address ` set (deduplicated @ [server])"
      using "2.prems"(2) by simp
    moreover have "distinct (map ep_Address (deduplicated @ [server]))"
      using "2.prems"(2,3) False by simp
    ultimately have "distinct (map ep_Address ds) \<and>
      ep_Address ` set ds = ep_Address ` (set (deduplicated @ [server]) \<union> set servers) \<and>
      set ds \<subseteq> set (deduplicated @ [server]) \<union> set servers \<and>
      (dup \<longleftrightarrow> hasDuplicates \<or> \<not> distinct (map ep_Address ((deduplicated @ [server]) @ servers)))"
      by (rule "2.IH"(1) [OF False])
    then show ?thesis
      by (simp add: image_Un Un_commute)
  qed
qed simp

text \<open>Deduplication keeps one endpoint per address and every address, and reports whether it dropped any.\<close>

lemma deduplicate_result:
  assumes "DeduplicateServers servers = (ds, dup)"
  shows "distinct (map ep_Address ds)" and "ep_Address ` set ds = ep_Address ` set servers" and "set ds \<subseteq> set servers"
    and "dup \<longleftrightarrow> \<not> distinct (map ep_Address servers)"
  using assms dedup_loop_result [of servers "[]" "[]" False ds dup]
  by (auto simp: DeduplicateServers_def split: if_splits)

lemma ValidateAndDeduplicate_distinct: "distinct (map ep_Address (snd (ValidateAndDeduplicate servers)))"
  using deduplicate_result [of servers "fst (DeduplicateServers servers)" "snd (DeduplicateServers servers)"]
  by (simp add: ValidateAndDeduplicate_def case_prod_beta Let_def)

text \<open>\<open>Validate\<close> itself accepts duplicated endpoints, although its comment says that it deduplicates them.\<close>

lemma validate_accepts_duplicates:
  "ClientServer_Validate [\<lparr>ep_Address = ''a:1'', ep_ServerName = []\<rparr>, \<lparr>ep_Address = ''a:1'', ep_ServerName = []\<rparr>] = None"
  by code_simp

text \<open>The defaults of a client are 10 and 30 seconds; the comments on the fields say 30 and 90.\<close>

lemma client_default_intervals:
  assumes "cl_HeartbeatInterval c = 0" and "cl_HealthTimeout c = 0"
  shows "cl_HeartbeatInterval (Client_ApplyDefaults generated c) = 10 * second"
    and "cl_HealthTimeout (Client_ApplyDefaults generated c) = 30 * second"
  using assms
  by (simp_all add: Client_ApplyDefaults_def EnsureClientID_def Or_def DefaultHeartbeatInterval_def DefaultHealthTimeout_def Let_def)

lemma Client_ApplyDefaults_idem: "generated \<noteq> [] \<Longrightarrow> Client_ApplyDefaults g (Client_ApplyDefaults generated c) = Client_ApplyDefaults generated c"
  by (simp add: Client_ApplyDefaults_def EnsureClientID_def Let_def ClientAuth_ApplyDefaults_def ClientCapacity_ApplyDefaults_def)

end
