(* ===== verification/Mesh_Group.thy ===== *)
theory Mesh_Group
  imports Config_Common "HOL-Library.Char_ord" "HOL-Library.List_Lexorder" "HOL-Library.Product_Lexorder"
begin

text \<open>
  The public declaration of a mesh group, \<^verbatim>\<open>config/mesh.go\<close>: the group's rules, their defaults, validation,
  normalisation, the canonical projection that goes on the wire and the parser that accepts only canonical bytes.

  The JSON encoding and the X.509 parser are arguments, bundled in the record \<open>codec\<close>; \<open>cd_cap\<close> is the capacity of a
  buffer that holds the given bytes. A \<open>nil\<close> slice and an empty one are both \<open>[]\<close>: the code treats them alike. The strings
  that are folded to lower case have been validated before, so they are ASCII. \<open>sort.Slice\<close> is modelled by the library's
  \<open>sort_key\<close>: the elements it orders differ in their keys, or agree in the key that is kept once.
\<close>

section \<open>Rules of a group\<close>

record MeshHTTPPathMatch =
  pm_Type :: string
  pm_Value :: string

record MeshHTTPHeaderMatch =
  vm_Type :: string
  vm_Name :: string
  vm_Value :: string

type_synonym MeshHTTPQueryParamMatch = MeshHTTPHeaderMatch

record MeshHTTPMatch =
  hm_Path :: "MeshHTTPPathMatch option"
  hm_Method :: string
  hm_Headers :: "MeshHTTPHeaderMatch list"
  hm_QueryParams :: "MeshHTTPQueryParamMatch list"

record MeshHTTPRoute =
  hr_Hostnames :: "string list"
  hr_Matches :: "MeshHTTPMatch list"

record MeshTLSRoute =
  tr_Hostnames :: "string list"

record MeshRoutes =
  mr_HTTP :: "MeshHTTPRoute list"
  mr_TLSPassthrough :: "MeshTLSRoute option"

record MeshProbe =
  mp_Type :: string
  mp_Host :: string
  mp_Path :: string

record MeshOriginTLS =
  ot_Enabled :: bool
  ot_Verify :: bool
  ot_ExtraCAFiles :: "string list"
  ot_ExtraCACertificates :: "byte list list"

record MeshGroup =
  mg_GroupID :: string
  mg_RuleVersion :: u64
  mg_Metric :: int
  mg_OutdatedClientPolicy :: string
  mg_Routes :: MeshRoutes
  mg_Probe :: MeshProbe
  mg_OriginTLS :: MeshOriginTLS
  mg_canonicalBytes :: "byte list"

section \<open>Defaults\<close>

definition str_or :: "string \<Rightarrow> string \<Rightarrow> string" where
  "str_or s d = (if s = [] then d else s)"

definition value_defaults :: "MeshHTTPHeaderMatch \<Rightarrow> MeshHTTPHeaderMatch" where
  "value_defaults v = v\<lparr>vm_Type := str_or (vm_Type v) ''Exact''\<rparr>"

definition path_defaults :: "MeshHTTPPathMatch option \<Rightarrow> MeshHTTPPathMatch" where
  "path_defaults p =
     (let q = (case p of None \<Rightarrow> \<lparr>pm_Type = [], pm_Value = []\<rparr> | Some q \<Rightarrow> q)
      in \<lparr>pm_Type = str_or (pm_Type q) ''PathPrefix'', pm_Value = str_or (pm_Value q) ''/''\<rparr>)"

definition match_defaults :: "MeshHTTPMatch \<Rightarrow> MeshHTTPMatch" where
  "match_defaults m =
     m\<lparr>hm_Path := Some (path_defaults (hm_Path m)), hm_Headers := map value_defaults (hm_Headers m),
       hm_QueryParams := map value_defaults (hm_QueryParams m)\<rparr>"

definition empty_match :: MeshHTTPMatch where
  "empty_match = \<lparr>hm_Path = None, hm_Method = [], hm_Headers = [], hm_QueryParams = []\<rparr>"

definition route_defaults :: "MeshHTTPRoute \<Rightarrow> MeshHTTPRoute" where
  "route_defaults r =
     r\<lparr>hr_Matches := map match_defaults (if hr_Matches r = [] then [empty_match] else hr_Matches r)\<rparr>"

definition MeshGroup_ApplyDefaults :: "MeshGroup \<Rightarrow> MeshGroup" where
  "MeshGroup_ApplyDefaults g =
     g\<lparr>mg_OutdatedClientPolicy := str_or (mg_OutdatedClientPolicy g) ''apply_latest_rules'',
       mg_Probe := (mg_Probe g)\<lparr>mp_Type := str_or (mp_Type (mg_Probe g)) ''tcp''\<rparr>,
       mg_Routes := (mg_Routes g)\<lparr>mr_HTTP := map route_defaults (mr_HTTP (mg_Routes g))\<rparr>\<rparr>"

section \<open>Validation\<close>

definition maxMeshHTTPRoutes :: nat where "maxMeshHTTPRoutes = 16"
definition maxMeshRouteHostnames :: nat where "maxMeshRouteHostnames = 16"
definition maxMeshHTTPMatches :: nat where "maxMeshHTTPMatches = 64"
definition maxMeshHTTPMatchHeaders :: nat where "maxMeshHTTPMatchHeaders = 16"
definition maxMeshHTTPMatchQueries :: nat where "maxMeshHTTPMatchQueries = 16"
definition maxMeshHostnameLength :: nat where "maxMeshHostnameLength = 253"
definition maxMeshHTTPPathLength :: nat where "maxMeshHTTPPathLength = 1024"
definition maxMeshHTTPNameLength :: nat where "maxMeshHTTPNameLength = 256"
definition maxMeshHeaderValue :: nat where "maxMeshHeaderValue = 4096"
definition maxMeshQueryValue :: nat where "maxMeshQueryValue = 1024"

definition alnum :: "char \<Rightarrow> bool" where
  "alnum c \<longleftrightarrow> is_lower c \<or> is_digit c"

definition dns_label :: re where
  "dns_label = Seq (Cls alnum) (Opt (Seq (Star (Cls (\<lambda>c. c = CHR ''-'' \<or> alnum c))) (Cls alnum)))"

definition meshDNS1123SubdomainPattern :: re where
  "meshDNS1123SubdomainPattern = Seq dns_label (Star (Seq (Cls (\<lambda>c. c = CHR ''.'')) dns_label))"

definition meshHostnamePattern :: re where
  "meshHostnamePattern = Seq (Opt (Seq (Cls (\<lambda>c. c = CHR ''*'')) (Cls (\<lambda>c. c = CHR ''.'')))) meshDNS1123SubdomainPattern"

definition token_char :: "char \<Rightarrow> bool" where
  "token_char c \<longleftrightarrow> is_lower c \<or> is_upper c \<or> is_digit c \<or> c \<in> set ''!#$%&*+-.^_|~'' \<or> code c = 39 \<or> code c = 96"

definition meshHTTPNamePattern :: re where
  "meshHTTPNamePattern = Plus (Cls token_char)"

definition printable :: "char \<Rightarrow> bool" where
  "printable c \<longleftrightarrow> 33 \<le> code c \<and> code c \<le> 126"

definition meshHeaderValuePattern :: re where
  "meshHeaderValuePattern =
     Seq (Plus (Cls printable)) (Star (Seq (Plus (Cls (\<lambda>c. code c = 9 \<or> code c = 32))) (Plus (Cls printable))))"

definition validateMeshIdentity :: "string \<Rightarrow> string \<Rightarrow> string option" where
  "validateMeshIdentity path value =
     first_error
      [check (1 \<le> length value \<and> length value \<le> maxMeshHostnameLength \<and> matches meshDNS1123SubdomainPattern value)
         (path @ '' must be a lowercase DNS-1123 subdomain''),
       check (list_all (\<lambda>label. length label \<le> 63) (Split (CHR ''.'') value)) (path @ '' contains a DNS label longer than 63 bytes'')]"

text \<open>A string that matches the pattern has no colon, so the only textual addresses among them are the dotted ones.\<close>

definition validateMeshHostname :: "string \<Rightarrow> string option" where
  "validateMeshHostname hostname =
     (let precise = TrimPrefix hostname ''*.'' in
      first_error
       [check (1 \<le> length hostname \<and> length hostname \<le> maxMeshHostnameLength \<and> matches meshHostnamePattern hostname)
          ''must be a lowercase RFC1123 hostname with an optional leading *.'',
        check (\<not> is_dotted_ip precise) ''must not be an IP address'',
        check (list_all (\<lambda>label. length label \<le> 63) (Split (CHR ''.'') precise)) ''contains a DNS label longer than 63 bytes''])"

definition validateMeshHostnames :: "string \<Rightarrow> string list \<Rightarrow> string option" where
  "validateMeshHostnames path hostnames =
     (if maxMeshRouteHostnames < length hostnames then Some (path @ '' must contain at most 16 hostnames'')
      else each (\<lambda>i hostname. within (item path i) (validateMeshHostname hostname)) hostnames)"

definition validateMeshHTTPName :: "string \<Rightarrow> string option" where
  "validateMeshHTTPName name =
     check (1 \<le> length name \<and> length name \<le> maxMeshHTTPNameLength \<and> matches meshHTTPNamePattern name) ''must be a valid HTTP token''"

definition isHex :: "char \<Rightarrow> bool" where
  "isHex c \<longleftrightarrow> is_digit c \<or> 97 \<le> code c \<and> code c \<le> 102 \<or> 65 \<le> code c \<and> code c \<le> 70"

definition isRFC3986PChar :: "char \<Rightarrow> bool" where
  "isRFC3986PChar c \<longleftrightarrow> is_lower c \<or> is_upper c \<or> is_digit c \<or> c \<in> set ''-._~!$&()*+,;=:@'' \<or> code c = 39"

fun path_chars :: "string \<Rightarrow> string option" where
  "path_chars [] = None"
| "path_chars (c # s) =
     (if c = CHR ''%'' then
        (case s of a # b # s' \<Rightarrow>
           if \<not> isHex a \<or> \<not> isHex b then Some ''contains an invalid percent escape''
           else if a = CHR ''2'' \<and> (b = CHR ''f'' \<or> b = CHR ''F'') then Some ''must not contain an encoded slash''
           else path_chars s'
         | _ \<Rightarrow> Some ''contains an invalid percent escape'')
      else if c = CHR ''/'' \<or> isRFC3986PChar c then path_chars s
      else Some ''contains invalid character'')"

definition validateMeshHTTPPath :: "string \<Rightarrow> string option" where
  "validateMeshHTTPPath path =
     first_error
      [check (length path \<le> maxMeshHTTPPathLength) ''must not exceed 1024 bytes'',
       check (HasPrefix path ''/'') ''must be an absolute path beginning with /'',
       check (\<not> Contains path ''//'') ''must not contain //'',
       check (\<not> (Contains path ''/./'' \<or> HasSuffix path ''/.'')) ''must not contain a dot path segment'',
       check (\<not> (Contains path ''/../'' \<or> HasSuffix path ''/..'')) ''must not contain a parent path segment'',
       path_chars path]"

definition validMeshHTTPMethod :: "string \<Rightarrow> bool" where
  "validMeshHTTPMethod m \<longleftrightarrow>
     m \<in> {''GET'', ''HEAD'', ''POST'', ''PUT'', ''DELETE'', ''CONNECT'', ''OPTIONS'', ''TRACE'', ''PATCH''}"


definition header_error :: "string \<Rightarrow> MeshHTTPHeaderMatch \<Rightarrow> string option" where
  "header_error path h =
     first_error
      [check (vm_Type h = [] \<or> vm_Type h = ''Exact'') (path @ ''.type must be Exact''),
       within (path @ ''.name'') (validateMeshHTTPName (vm_Name h)),
       check (1 \<le> length (vm_Value h) \<and> length (vm_Value h) \<le> maxMeshHeaderValue \<and> matches meshHeaderValuePattern (vm_Value h))
         (path @ ''.value must be printable ASCII separated by spaces or tabs'')]"

definition query_error :: "string \<Rightarrow> MeshHTTPQueryParamMatch \<Rightarrow> string option" where
  "query_error path q =
     first_error
      [check (vm_Type q = [] \<or> vm_Type q = ''Exact'') (path @ ''.type must be Exact''),
       within (path @ ''.name'') (validateMeshHTTPName (vm_Name q)),
       check (ValidString (vm_Value q)) (path @ ''.value must be valid UTF-8''),
       check (1 \<le> RuneCountInString (vm_Value q) \<and> RuneCountInString (vm_Value q) \<le> maxMeshQueryValue)
         (path @ ''.value must be between 1 and 1024 Unicode characters'')]"

definition path_error :: "string \<Rightarrow> MeshHTTPPathMatch \<Rightarrow> string option" where
  "path_error path p =
     first_error
      [check (str_or (pm_Type p) ''PathPrefix'' \<in> {''Exact'', ''PathPrefix''}) (path @ ''.path.type must be Exact or PathPrefix''),
       within (path @ ''.path.value'') (validateMeshHTTPPath (str_or (pm_Value p) ''/''))]"

definition MeshHTTPMatch_validate :: "string \<Rightarrow> MeshHTTPMatch \<Rightarrow> string option" where
  "MeshHTTPMatch_validate path m =
     first_error
      [case hm_Path m of None \<Rightarrow> None | Some p \<Rightarrow> path_error path p,
       check (hm_Method m = [] \<or> validMeshHTTPMethod (hm_Method m)) (path @ ''.method has unsupported value''),
       check (length (hm_Headers m) \<le> maxMeshHTTPMatchHeaders) (path @ ''.headers must contain at most 16 entries''),
       each (\<lambda>i. header_error (item (path @ ''.headers'') i)) (hm_Headers m),
       check (length (hm_QueryParams m) \<le> maxMeshHTTPMatchQueries) (path @ ''.query_params must contain at most 16 entries''),
       each (\<lambda>i. query_error (item (path @ ''.query_params'') i)) (hm_QueryParams m)]"

definition MeshHTTPRoute_validate :: "string \<Rightarrow> MeshHTTPRoute \<Rightarrow> string option" where
  "MeshHTTPRoute_validate path r =
     first_error
      [validateMeshHostnames (path @ ''.hostnames'') (hr_Hostnames r),
       check (length (hr_Matches r) \<le> maxMeshHTTPMatches) (path @ ''.matches must contain at most 64 entries''),
       each (\<lambda>i. MeshHTTPMatch_validate (item (path @ ''.matches'') i)) (hr_Matches r)]"

definition MeshProbe_validate :: "string \<Rightarrow> MeshProbe \<Rightarrow> string option" where
  "MeshProbe_validate path p =
     (if mp_Type p = [] \<or> mp_Type p = ''tcp'' then
        check (mp_Host p = [] \<and> mp_Path p = []) (path @ '': TCP probe must not set host or path'')
      else if mp_Type p = ''http'' then
        first_error
         [check (\<not> is_blank (mp_Host p)) (path @ ''.host is required for HTTP probe''),
          check (mp_Path p \<noteq> []) (path @ ''.path is required for HTTP probe''),
          within (path @ ''.path'') (validateMeshHTTPPath (mp_Path p))]
      else Some (path @ ''.type must be tcp or http''))"

definition MeshOriginTLS_validate :: "string \<Rightarrow> MeshOriginTLS \<Rightarrow> string option" where
  "MeshOriginTLS_validate path t =
     first_error
      [check (\<not> (ot_Verify t \<and> \<not> ot_Enabled t)) (path @ ''.verify requires enabled''),
       check (\<not> (ot_ExtraCAFiles t \<noteq> [] \<and> (\<not> ot_Enabled t \<or> \<not> ot_Verify t))) (path @ ''.extra_ca_files requires enabled and verify'')]"

definition tls_route_error :: "string \<Rightarrow> MeshTLSRoute \<Rightarrow> string option" where
  "tls_route_error path t =
     (if tr_Hostnames t = [] then Some (path @ '' must contain at least one hostname'') else validateMeshHostnames path (tr_Hostnames t))"

definition MeshGroup_Validate :: "string \<Rightarrow> MeshGroup \<Rightarrow> string option" where
  "MeshGroup_Validate path g =
     first_error
      [validateMeshIdentity (path @ ''.group_id'') (mg_GroupID g),
       check (mg_RuleVersion g \<noteq> 0) (path @ ''.rule_version must be at least 1''),
       check (mg_OutdatedClientPolicy g \<in> {''apply_latest_rules'', ''pause_new_traffic''})
         (path @ ''.outdated_client_policy must be apply_latest_rules or pause_new_traffic''),
       check (length (mr_HTTP (mg_Routes g)) \<le> maxMeshHTTPRoutes) (path @ ''.routes.http must contain at most 16 entries''),
       each (\<lambda>i. MeshHTTPRoute_validate (item (path @ ''.routes.http'') i)) (mr_HTTP (mg_Routes g)),
       case mr_TLSPassthrough (mg_Routes g) of None \<Rightarrow> None
       | Some t \<Rightarrow> tls_route_error (path @ ''.routes.tls_passthrough.hostnames'') t,
       MeshProbe_validate (path @ ''.probe'') (mg_Probe g),
       MeshOriginTLS_validate (path @ ''.origin_tls'') (mg_OriginTLS g)]"

section \<open>Normalisation\<close>

definition compactSorted :: "'a list \<Rightarrow> 'a list" where
  "compactSorted values = foldl (\<lambda>result value. if result = [] \<or> last result \<noteq> value then result @ [value] else result) [] values"

definition sortedUniqueStrings :: "bool \<Rightarrow> string list \<Rightarrow> string list" where
  "sortedUniqueStrings foldCase values =
     compactSorted (sort (map (\<lambda>value. if foldCase then ToLower value else value) values))"

definition first_by_name :: "MeshHTTPHeaderMatch list \<Rightarrow> MeshHTTPHeaderMatch list" where
  "first_by_name values =
     foldl (\<lambda>result v. if list_ex (\<lambda>existing. vm_Name existing = vm_Name v) result then result else result @ [v]) [] values"

definition name_value :: "MeshHTTPHeaderMatch \<Rightarrow> string \<times> string" where
  "name_value v = (vm_Name v, vm_Value v)"

definition normalizeMeshHeaders :: "MeshHTTPHeaderMatch list \<Rightarrow> MeshHTTPHeaderMatch list" where
  "normalizeMeshHeaders headers =
     sort_key name_value (first_by_name (map (\<lambda>h. h\<lparr>vm_Name := ToLower (vm_Name h)\<rparr>) headers))"

definition normalizeMeshQueries :: "MeshHTTPQueryParamMatch list \<Rightarrow> MeshHTTPQueryParamMatch list" where
  "normalizeMeshQueries queries = sort_key name_value (first_by_name queries)"

definition match_normalize :: "MeshHTTPMatch \<Rightarrow> MeshHTTPMatch" where
  "match_normalize m =
     m\<lparr>hm_Headers := normalizeMeshHeaders (hm_Headers m), hm_QueryParams := normalizeMeshQueries (hm_QueryParams m)\<rparr>"

definition route_normalize :: "MeshHTTPRoute \<Rightarrow> MeshHTTPRoute" where
  "route_normalize r =
     r\<lparr>hr_Hostnames := sortedUniqueStrings True (hr_Hostnames r), hr_Matches := map match_normalize (hr_Matches r)\<rparr>"

definition MeshGroup_normalize :: "MeshGroup \<Rightarrow> MeshGroup" where
  "MeshGroup_normalize g =
     g\<lparr>mg_Routes :=
        \<lparr>mr_HTTP = map route_normalize (mr_HTTP (mg_Routes g)),
         mr_TLSPassthrough = map_option (\<lambda>t. t\<lparr>tr_Hostnames := sortedUniqueStrings True (tr_Hostnames t)\<rparr>) (mr_TLSPassthrough (mg_Routes g))\<rparr>\<rparr>"

section \<open>The canonical projection\<close>

type_synonym meshHTTPPathCanonical = MeshHTTPPathMatch
type_synonym meshHTTPHeaderCanonical = MeshHTTPHeaderMatch
type_synonym meshTLSRouteCanonical = MeshTLSRoute
type_synonym meshProbeCanonical = MeshProbe

record meshHTTPMatchCanonical =
  cm_Path :: meshHTTPPathCanonical
  cm_Method :: string
  cm_Headers :: "meshHTTPHeaderCanonical list"
  cm_QueryParams :: "meshHTTPHeaderCanonical list"

record meshHTTPRouteCanonical =
  cr_Hostnames :: "string list"
  cr_Matches :: "meshHTTPMatchCanonical list"

record meshRoutesCanonical =
  crs_HTTP :: "meshHTTPRouteCanonical list"
  crs_TLSPassthrough :: "meshTLSRouteCanonical option"

record meshOriginTLSCanonical =
  co_Enabled :: bool
  co_Verify :: bool
  co_ExtraCACertificates :: "byte list list"

record meshGroupCanonical =
  cg_GroupID :: string
  cg_RuleVersion :: u64
  cg_Metric :: int
  cg_OutdatedClientPolicy :: string
  cg_Routes :: meshRoutesCanonical
  cg_Probe :: meshProbeCanonical
  cg_OriginTLS :: meshOriginTLSCanonical

text \<open>
  The library functions: \<open>json.Marshal\<close> at the three types it is used at, \<open>json.Unmarshal\<close> (the declaration it leaves and
  whether it succeeds), \<open>x509.ParseCertificate\<close> (the raw bytes of the certificate) and the capacity of a byte buffer.
\<close>

record codec =
  cd_match :: "meshHTTPMatchCanonical \<Rightarrow> byte list option"
  cd_route :: "meshHTTPRouteCanonical \<Rightarrow> byte list option"
  cd_group :: "meshGroupCanonical \<Rightarrow> byte list option"
  cd_Unmarshal :: "byte list \<Rightarrow> meshGroupCanonical \<times> bool"
  cd_ParseCertificate :: "byte list \<Rightarrow> byte list option"
  cd_cap :: "byte list \<Rightarrow> int"

record meshGroupWorkTracker =
  wt_current :: int
  wt_peak :: int
  wt_changes :: "int list"

definition tracker_add :: "int \<Rightarrow> meshGroupWorkTracker \<Rightarrow> meshGroupWorkTracker" where
  "tracker_add n w =
     (let current = wt_current w + n
      in \<lparr>wt_current = current, wt_peak = max (wt_peak w) current, wt_changes = wt_changes w @ [n]\<rparr>)"

definition tracker_release :: "int \<Rightarrow> meshGroupWorkTracker \<Rightarrow> meshGroupWorkTracker" where
  "tracker_release n w = w\<lparr>wt_current := wt_current w - n, wt_changes := wt_changes w @ [- n]\<rparr>"

fun key_loop :: "('a \<Rightarrow> byte list option) \<Rightarrow> (byte list \<Rightarrow> int) \<Rightarrow> 'a list \<Rightarrow> ('a \<times> byte list) list \<Rightarrow> int \<Rightarrow>
    meshGroupWorkTracker option \<Rightarrow> ('a \<times> byte list) list option \<times> int \<times> meshGroupWorkTracker option" where
  "key_loop marshal cap [] keyed keyBytes tracker = (Some keyed, keyBytes, tracker)"
| "key_loop marshal cap (value # values) keyed keyBytes tracker =
     (case marshal value of None \<Rightarrow> (None, keyBytes, tracker)
      | Some key \<Rightarrow> key_loop marshal cap values (keyed @ [(value, key)]) (keyBytes + cap key) (map_option (tracker_add (cap key)) tracker))"

fun unique_loop :: "('a \<times> byte list) list \<Rightarrow> byte list option \<Rightarrow> 'a list" where
  "unique_loop [] previous = []"
| "unique_loop ((value, key) # keyed) previous =
     (if previous = None \<or> previous \<noteq> Some key then value # unique_loop keyed (Some key) else unique_loop keyed previous)"

definition sortedUniqueCanonical :: "('a \<Rightarrow> byte list option) \<Rightarrow> (byte list \<Rightarrow> int) \<Rightarrow> 'a list \<Rightarrow> meshGroupWorkTracker option \<Rightarrow>
    'a list option \<times> meshGroupWorkTracker option" where
  "sortedUniqueCanonical marshal cap values tracker =
     (let (keyed, keyBytes, tracker') = key_loop marshal cap values [] 0 tracker
      in (map_option (\<lambda>ks. unique_loop (sort_key snd ks) None) keyed, map_option (tracker_release keyBytes) tracker'))"

definition match_canonical :: "MeshHTTPMatch \<Rightarrow> meshHTTPMatchCanonical" where
  "match_canonical m =
     \<lparr>cm_Path = (case hm_Path m of None \<Rightarrow> \<lparr>pm_Type = ''PathPrefix'', pm_Value = ''/''\<rparr> | Some p \<Rightarrow> p),
      cm_Method = hm_Method m, cm_Headers = hm_Headers m, cm_QueryParams = hm_QueryParams m\<rparr>"

fun routes_canonical :: "codec \<Rightarrow> MeshHTTPRoute list \<Rightarrow> meshGroupWorkTracker option \<Rightarrow>
    meshHTTPRouteCanonical list option \<times> meshGroupWorkTracker option" where
  "routes_canonical cd [] tracker = (Some [], tracker)"
| "routes_canonical cd (route # routes) tracker =
     (case sortedUniqueCanonical (cd_match cd) (cd_cap cd) (map match_canonical (hr_Matches route)) tracker of
        (None, tracker1) \<Rightarrow> (None, tracker1)
      | (Some ms, tracker1) \<Rightarrow>
          (case routes_canonical cd routes tracker1 of
             (None, tracker2) \<Rightarrow> (None, tracker2)
           | (Some rest, tracker2) \<Rightarrow> (Some (\<lparr>cr_Hostnames = hr_Hostnames route, cr_Matches = ms\<rparr> # rest), tracker2)))"

definition projection :: "MeshGroup \<Rightarrow> meshHTTPRouteCanonical list \<Rightarrow> meshGroupCanonical" where
  "projection g httpRoutes =
     \<lparr>cg_GroupID = mg_GroupID g, cg_RuleVersion = mg_RuleVersion g, cg_Metric = mg_Metric g,
      cg_OutdatedClientPolicy = mg_OutdatedClientPolicy g,
      cg_Routes = \<lparr>crs_HTTP = httpRoutes, crs_TLSPassthrough = mr_TLSPassthrough (mg_Routes g)\<rparr>, cg_Probe = mg_Probe g,
      cg_OriginTLS = \<lparr>co_Enabled = ot_Enabled (mg_OriginTLS g), co_Verify = ot_Verify (mg_OriginTLS g),
        co_ExtraCACertificates = ot_ExtraCACertificates (mg_OriginTLS g)\<rparr>\<rparr>"

definition marshalMeshGroupCanonicalMeasured :: "codec \<Rightarrow> MeshGroup \<Rightarrow> meshGroupWorkTracker option \<Rightarrow>
    byte list option \<times> meshGroupWorkTracker option" where
  "marshalMeshGroupCanonicalMeasured cd g tracker =
     (case routes_canonical cd (mr_HTTP (mg_Routes g)) tracker of
        (None, tracker1) \<Rightarrow> (None, tracker1)
      | (Some httpRoutes, tracker1) \<Rightarrow>
          (case sortedUniqueCanonical (cd_route cd) (cd_cap cd) httpRoutes tracker1 of
             (None, tracker2) \<Rightarrow> (None, tracker2)
           | (Some httpRoutes', tracker2) \<Rightarrow> (cd_group cd (projection g httpRoutes'), tracker2)))"

definition marshalMeshGroupCanonical :: "codec \<Rightarrow> MeshGroup \<Rightarrow> byte list option" where
  "marshalMeshGroupCanonical cd g = fst (marshalMeshGroupCanonicalMeasured cd g None)"

section \<open>The parser\<close>

definition match_of :: "meshHTTPMatchCanonical \<Rightarrow> MeshHTTPMatch" where
  "match_of m = \<lparr>hm_Path = Some (cm_Path m), hm_Method = cm_Method m, hm_Headers = cm_Headers m, hm_QueryParams = cm_QueryParams m\<rparr>"

definition route_of :: "meshHTTPRouteCanonical \<Rightarrow> MeshHTTPRoute" where
  "route_of r = \<lparr>hr_Hostnames = cr_Hostnames r, hr_Matches = map match_of (cr_Matches r)\<rparr>"

definition group_of :: "meshGroupCanonical \<Rightarrow> MeshGroup" where
  "group_of d =
     \<lparr>mg_GroupID = cg_GroupID d, mg_RuleVersion = cg_RuleVersion d, mg_Metric = cg_Metric d,
      mg_OutdatedClientPolicy = cg_OutdatedClientPolicy d,
      mg_Routes = \<lparr>mr_HTTP = map route_of (crs_HTTP (cg_Routes d)), mr_TLSPassthrough = crs_TLSPassthrough (cg_Routes d)\<rparr>,
      mg_Probe = cg_Probe d,
      mg_OriginTLS = \<lparr>ot_Enabled = co_Enabled (cg_OriginTLS d), ot_Verify = co_Verify (cg_OriginTLS d), ot_ExtraCAFiles = [],
        ot_ExtraCACertificates = co_ExtraCACertificates (cg_OriginTLS d)\<rparr>,
      mg_canonicalBytes = []\<rparr>"

definition map_certificates :: "(byte list list \<Rightarrow> byte list list) \<Rightarrow> MeshGroup \<Rightarrow> MeshGroup" where
  "map_certificates f g =
     g\<lparr>mg_OriginTLS := (mg_OriginTLS g)\<lparr>ot_ExtraCACertificates := f (ot_ExtraCACertificates (mg_OriginTLS g))\<rparr>\<rparr>"

definition declaration_error :: "codec \<Rightarrow> MeshGroup \<Rightarrow> string option" where
  "declaration_error cd g =
     first_error
      [MeshGroup_Validate ''group'' g,
       check (\<not> (ot_ExtraCACertificates (mg_OriginTLS g) \<noteq> [] \<and> (\<not> ot_Enabled (mg_OriginTLS g) \<or> \<not> ot_Verify (mg_OriginTLS g))))
         ''group.origin_tls.extra_ca_certificates requires enabled and verify'',
       check (list_all (\<lambda>der. cd_ParseCertificate cd der \<noteq> None) (ot_ExtraCACertificates (mg_OriginTLS g)))
         ''invalid mesh group extra CA'']"

text \<open>
  The parser and the work it reports, with the buffers it still holds released on every return.
\<close>

definition ParseMeshGroupCanonicalPolicyMeasured :: "codec \<Rightarrow> byte list \<Rightarrow>
    (string + string \<times> u64 \<times> string) \<times> meshGroupWorkTracker" where
  "ParseMeshGroupCanonicalPolicyMeasured cd data =
     (let (declaration, decoded) = cd_Unmarshal cd data;
          certificateBytes = sum_list (map (cd_cap cd) (co_ExtraCACertificates (cg_OriginTLS declaration)));
          tracker = tracker_add certificateBytes \<lparr>wt_current = 0, wt_peak = 0, wt_changes = []\<rparr>;
          return = (\<lambda>result w. (result, tracker_release certificateBytes w))
      in if \<not> decoded then return (Inl ''decode mesh group declaration'') tracker
      else let group = MeshGroup_ApplyDefaults (group_of declaration)
      in case declaration_error cd group of Some e \<Rightarrow> return (Inl e) tracker
      | None \<Rightarrow>
        (let group' = MeshGroup_normalize (map_certificates (\<lambda>cs. compactSorted (sort cs)) group)
         in case marshalMeshGroupCanonicalMeasured cd group' (Some tracker) of
            (None, w) \<Rightarrow> return (Inl ''canonicalize mesh group declaration'') (case w of None \<Rightarrow> tracker | Some w' \<Rightarrow> w')
          | (Some canonical, w) \<Rightarrow>
              (let w1 = tracker_add (cd_cap cd canonical) (case w of None \<Rightarrow> tracker | Some w' \<Rightarrow> w');
                   w2 = tracker_release (cd_cap cd canonical) w1
               in if canonical \<noteq> data then return (Inl ''mesh group declaration is not canonical'') w2
                  else return (Inr (mg_GroupID group', mg_RuleVersion group', mg_OutdatedClientPolicy group')) w2)))"

definition ParseMeshGroupCanonicalMeasured :: "codec \<Rightarrow> byte list \<Rightarrow> (string + string \<times> u64) \<times> int" where
  "ParseMeshGroupCanonicalMeasured cd data =
     (case ParseMeshGroupCanonicalPolicyMeasured cd data of
        (Inl e, w) \<Rightarrow> (Inl e, wt_peak w)
      | (Inr (groupID, version, policy), w) \<Rightarrow> (Inr (groupID, version), wt_peak w))"

definition ParseMeshGroupCanonical :: "codec \<Rightarrow> byte list \<Rightarrow> string + string \<times> u64" where
  "ParseMeshGroupCanonical cd data = fst (ParseMeshGroupCanonicalMeasured cd data)"

end
