(* ===== verification/Mesh_Canonical.thy ===== *)
theory Mesh_Canonical
  imports Mesh_Group
begin

text \<open>
  Normalisation and the canonical projection of a group declaration: both are idempotent, so that the bytes a client
  finalises are the bytes the parser recomputes from them; and validation of a declaration gives back every buffer it
  charged.
\<close>

section \<open>Sorting and compacting\<close>

lemma compact_fold:
  "acc \<noteq> [] \<Longrightarrow>
   foldl (\<lambda>result value. if result = [] \<or> last result \<noteq> value then result @ [value] else result) acc vs =
     butlast acc @ remdups_adj (last acc # vs)"
  by (induction vs arbitrary: acc) (auto simp: snoc_eq_iff_butlast)

lemma compactSorted_remdups_adj: "compactSorted vs = remdups_adj vs"
  by (cases vs) (simp_all add: compactSorted_def compact_fold)

lemma compact_sorted_id: "sorted_wrt (<) xs \<Longrightarrow> compactSorted (sort xs) = xs" for xs :: "'a::linorder list"
  by (simp add: compactSorted_remdups_adj strict_sorted_iff sort_key_id_if_sorted remdups_adj_distinct)

lemma compact_sorted_strict: "sorted_wrt (<) (compactSorted (sort xs))" for xs :: "'a::linorder list"
proof -
  have "distinct (remdups_adj ys)" if "sorted ys" for ys :: "'a list"
    using that by (induction ys rule: remdups_adj.induct) (auto split: if_splits)
  then show ?thesis
    by (simp add: compactSorted_remdups_adj strict_sorted_iff sorted_remdups_adj)
qed

lemma compact_sorted_set [simp]: "set (compactSorted (sort xs)) = set xs" for xs :: "'a::linorder list"
  by (simp add: compactSorted_remdups_adj)

lemma compact_sorted_length: "length (compactSorted (sort xs)) \<le> length xs" for xs :: "'a::linorder list"
  using remdups_adj_length [of "sort xs"] by (simp add: compactSorted_remdups_adj)

lemma compact_sorted_Nil [simp]: "compactSorted (sort xs) = [] \<longleftrightarrow> xs = []" for xs :: "'a::linorder list"
  by (metis compact_sorted_set set_empty2)

lemma sortedUniqueStrings_idem: "sortedUniqueStrings True (sortedUniqueStrings True vs) = sortedUniqueStrings True vs"
proof -
  let ?r = "sortedUniqueStrings True vs"
  have "map ToLower ?r = ?r"
    by (rule map_idI) (auto simp: sortedUniqueStrings_def)
  moreover have "sorted_wrt (<) ?r"
    by (simp add: sortedUniqueStrings_def compact_sorted_strict)
  ultimately show ?thesis
    unfolding sortedUniqueStrings_def [of True ?r] by (simp add: compact_sorted_id)
qed

section \<open>Header and query matches\<close>

lemma first_by_name_fold:
  fixes step
  defines "step \<equiv> \<lambda>result v. if list_ex (\<lambda>existing. vm_Name existing = vm_Name v) result then result else result @ [v]"
  shows "distinct (map vm_Name acc) \<Longrightarrow> distinct (map vm_Name (foldl step acc vs))"
    and "set (foldl step acc vs) \<subseteq> set acc \<union> set vs"
    and "length (foldl step acc vs) \<le> length acc + length vs"
    and "distinct (map vm_Name (acc @ vs)) \<Longrightarrow> foldl step acc vs = acc @ vs"
proof -
  show "distinct (map vm_Name acc) \<Longrightarrow> distinct (map vm_Name (foldl step acc vs))"
  proof (induction vs arbitrary: acc)
    case (Cons v vs)
    then have "distinct (map vm_Name (step acc v))"
      by (auto simp: step_def list_ex_iff)
    then show ?case
      by (simp add: Cons.IH)
  qed simp
  show "set (foldl step acc vs) \<subseteq> set acc \<union> set vs"
  proof (induction vs arbitrary: acc)
    case (Cons v vs)
    have "set (step acc v) \<subseteq> insert v (set acc)"
      by (auto simp: step_def)
    with Cons.IH [of "step acc v"] show ?case
      by auto
  qed simp
  show "length (foldl step acc vs) \<le> length acc + length vs"
  proof (induction vs arbitrary: acc)
    case (Cons v vs)
    then have "length (foldl step (step acc v) vs) \<le> length (step acc v) + length vs" .
    moreover have "length (step acc v) \<le> Suc (length acc)"
      by (simp add: step_def)
    ultimately show ?case
      by simp
  qed simp
  show "distinct (map vm_Name (acc @ vs)) \<Longrightarrow> foldl step acc vs = acc @ vs"
  proof (induction vs arbitrary: acc)
    case (Cons v vs)
    have "vm_Name v \<notin> vm_Name ` set acc"
      using Cons.prems by simp
    then have "\<not> list_ex (\<lambda>existing. vm_Name existing = vm_Name v) acc"
      unfolding list_ex_iff by (metis imageI)
    then have "step acc v = acc @ [v]"
      by (simp add: step_def)
    moreover have "foldl step (acc @ [v]) vs = (acc @ [v]) @ vs"
      by (rule Cons.IH) (use Cons.prems in simp)
    ultimately show ?case
      by simp
  qed simp
qed

lemma first_by_name_distinct: "distinct (map vm_Name (first_by_name vs))"
  unfolding first_by_name_def by (rule first_by_name_fold(1)) simp

lemma first_by_name_subset: "set (first_by_name vs) \<subseteq> set vs"
  unfolding first_by_name_def using first_by_name_fold(2) [of "[]" vs] by simp

lemma first_by_name_length: "length (first_by_name vs) \<le> length vs"
  unfolding first_by_name_def using first_by_name_fold(3) [of "[]" vs] by simp

lemma first_by_name_id: "distinct (map vm_Name vs) \<Longrightarrow> first_by_name vs = vs"
  unfolding first_by_name_def using first_by_name_fold(4) [of "[]" vs] by simp

text \<open>A normalised list: sorted by name and value, one entry per name.\<close>

definition normal_values :: "MeshHTTPHeaderMatch list \<Rightarrow> bool" where
  "normal_values vs \<longleftrightarrow> distinct (map vm_Name vs) \<and> sorted (map name_value vs)"

lemma normal_values_sort: "normal_values (sort_key name_value (first_by_name vs))"
  unfolding normal_values_def using first_by_name_distinct [of vs]
  by (simp add: distinct_map)

lemma normal_queries_id: "normal_values qs \<Longrightarrow> normalizeMeshQueries qs = qs"
  by (simp add: normalizeMeshQueries_def normal_values_def first_by_name_id sort_key_id_if_sorted)

lemma normal_headers_id:
  assumes "normal_values hs" and "\<And>h. h \<in> set hs \<Longrightarrow> ToLower (vm_Name h) = vm_Name h"
  shows "normalizeMeshHeaders hs = hs"
proof -
  have "map (\<lambda>h. h\<lparr>vm_Name := ToLower (vm_Name h)\<rparr>) hs = hs"
    by (rule map_idI) (simp add: assms(2))
  then show ?thesis
    using assms(1) by (simp add: normalizeMeshHeaders_def normal_values_def first_by_name_id sort_key_id_if_sorted)
qed

lemma headers_normal: "normal_values (normalizeMeshHeaders hs)"
  by (simp add: normalizeMeshHeaders_def normal_values_sort)

lemma queries_normal: "normal_values (normalizeMeshQueries qs)"
  by (simp add: normalizeMeshQueries_def normal_values_sort)

lemma headers_set:
  "set (normalizeMeshHeaders hs) \<subseteq> (\<lambda>h. h\<lparr>vm_Name := ToLower (vm_Name h)\<rparr>) ` set hs"
  using first_by_name_subset [of "map (\<lambda>h. h\<lparr>vm_Name := ToLower (vm_Name h)\<rparr>) hs"] by (simp add: normalizeMeshHeaders_def)

lemma queries_set: "set (normalizeMeshQueries qs) \<subseteq> set qs"
  using first_by_name_subset [of qs] by (simp add: normalizeMeshQueries_def)

lemma headers_length: "length (normalizeMeshHeaders hs) \<le> length hs"
  using first_by_name_length [of "map (\<lambda>h. h\<lparr>vm_Name := ToLower (vm_Name h)\<rparr>) hs"] by (simp add: normalizeMeshHeaders_def)

lemma queries_length: "length (normalizeMeshQueries qs) \<le> length qs"
  using first_by_name_length [of qs] by (simp add: normalizeMeshQueries_def)

section \<open>Unique keys\<close>

lemma key_loop_result:
  "fst (key_loop marshal cap vs keyed n tracker) =
     (if list_all (\<lambda>v. marshal v \<noteq> None) vs then Some (keyed @ map (\<lambda>v. (v, the (marshal v))) vs) else None)"
  by (induction vs arbitrary: keyed n tracker) (auto split: option.splits)

lemma unique_loop_props:
  assumes "\<And>v k. (v, k) \<in> set ks \<Longrightarrow> k = key v" and "sorted (map snd ks)"
    and "\<And>p v k. previous = Some p \<Longrightarrow> (v, k) \<in> set ks \<Longrightarrow> p \<le> k"
  shows "sorted_wrt (\<lambda>a b. key a < key b) (unique_loop ks previous) \<and> set (unique_loop ks previous) \<subseteq> fst ` set ks \<and>
    (\<forall>p v. previous = Some p \<longrightarrow> v \<in> set (unique_loop ks previous) \<longrightarrow> p < key v)"
  using assms
proof (induction ks previous rule: unique_loop.induct)
  case (2 v k ks previous)
  have k: "k = key v"
    using "2.prems"(1) by simp
  have above: "k \<le> k'" if "(v', k') \<in> set ks" for v' k'
    using "2.prems"(2) that by force
  have keys: "k' = key v'" if "(v', k') \<in> set ks" for v' k'
    using "2.prems"(1) that by simp
  have order: "sorted (map snd ks)"
    using "2.prems"(2) by simp
  show ?case
  proof (cases "previous = None \<or> previous \<noteq> Some k")
    case True
    have IH: "sorted_wrt (\<lambda>a b. key a < key b) (unique_loop ks (Some k))" "set (unique_loop ks (Some k)) \<subseteq> fst ` set ks"
      "\<And>v'. v' \<in> set (unique_loop ks (Some k)) \<Longrightarrow> k < key v'"
      using "2.IH"(1) [OF True keys order] above by auto
    have "p < key v" if "previous = Some p" for p
      using True "2.prems"(3) [OF that, of v k] that k by auto
    moreover have "p < key v'" if "previous = Some p" "v' \<in> set (unique_loop ks (Some k))" for p v'
      using IH(3) [OF that(2)] \<open>\<And>p. previous = Some p \<Longrightarrow> p < key v\<close> [OF that(1)] k by auto
    ultimately show ?thesis
      using IH True k by auto
  next
    case False
    have "sorted_wrt (\<lambda>a b. key a < key b) (unique_loop ks previous) \<and> set (unique_loop ks previous) \<subseteq> fst ` set ks \<and>
      (\<forall>p v. previous = Some p \<longrightarrow> v \<in> set (unique_loop ks previous) \<longrightarrow> p < key v)"
      by (rule "2.IH"(2) [OF False keys order]) (use "2.prems"(3) in auto)
    then show ?thesis
      using False by auto
  qed
qed simp

lemma unique_loop_length: "length (unique_loop ks previous) \<le> length ks"
  by (induction ks previous rule: unique_loop.induct) auto

lemma unique_loop_nonempty: "ks \<noteq> [] \<Longrightarrow> unique_loop ks None \<noteq> []"
  by (cases ks) auto

lemma unique_loop_id: "sorted_wrt (<) (map snd ks) \<Longrightarrow> (\<And>p. previous = Some p \<Longrightarrow> p \<notin> snd ` set ks) \<Longrightarrow> unique_loop ks previous = map fst ks"
proof (induction ks previous rule: unique_loop.induct)
  case (2 v k ks previous)
  have "previous = None \<or> previous \<noteq> Some k"
    using "2.prems"(2) by force
  moreover have "unique_loop ks (Some k) = map fst ks"
    by (rule "2.IH"(1) [OF calculation]) (use "2.prems"(1) in force)+
  ultimately show ?case
    by auto
qed simp

text \<open>The values a call keeps: strictly increasing in their encodings.\<close>

definition canonical_list :: "('a \<Rightarrow> byte list option) \<Rightarrow> 'a list \<Rightarrow> bool" where
  "canonical_list marshal vs \<longleftrightarrow>
     list_all (\<lambda>v. marshal v \<noteq> None) vs \<and> sorted_wrt (\<lambda>a b. the (marshal a) < the (marshal b)) vs"

lemma sortedUniqueCanonical_fst:
  "fst (sortedUniqueCanonical marshal cap vs tracker) =
     (if list_all (\<lambda>v. marshal v \<noteq> None) vs
      then Some (unique_loop (sort_key snd (map (\<lambda>v. (v, the (marshal v))) vs)) None) else None)"
  using key_loop_result [of marshal cap vs "[]" 0 tracker]
  by (auto simp: sortedUniqueCanonical_def case_prod_beta Let_def)

lemma sortedUniqueCanonical_result:
  assumes "fst (sortedUniqueCanonical marshal cap vs tracker) = Some rs"
  shows "canonical_list marshal rs" and "set rs \<subseteq> set vs" and "length rs \<le> length vs" and "vs \<noteq> [] \<Longrightarrow> rs \<noteq> []"
proof -
  let ?ks = "sort_key snd (map (\<lambda>v. (v, the (marshal v))) vs)"
  have all: "list_all (\<lambda>v. marshal v \<noteq> None) vs" and rs: "rs = unique_loop ?ks None"
    using assms by (auto simp: sortedUniqueCanonical_fst split: if_splits)
  have *: "sorted_wrt (\<lambda>a b. the (marshal a) < the (marshal b)) rs \<and> set rs \<subseteq> fst ` set ?ks \<and>
    (\<forall>p v. None = Some p \<longrightarrow> v \<in> set rs \<longrightarrow> p < the (marshal v))"
    unfolding rs by (rule unique_loop_props) auto
  then show sub: "set rs \<subseteq> set vs"
    by (auto simp: image_image)
  then show "canonical_list marshal rs"
    using * all by (auto simp: canonical_list_def list_all_iff)
  show "length rs \<le> length vs"
    using unique_loop_length [of ?ks None] by (simp add: rs)
  show "rs \<noteq> []" if "vs \<noteq> []"
  proof -
    have "length ?ks = length vs"
      by simp
    then have "?ks \<noteq> []"
      using that by (metis length_0_conv)
    then show ?thesis
      unfolding rs by (rule unique_loop_nonempty)
  qed
qed

lemma sortedUniqueCanonical_id:
  assumes "canonical_list marshal vs"
  shows "fst (sortedUniqueCanonical marshal cap vs tracker) = Some vs"
proof -
  let ?ks = "map (\<lambda>v. (v, the (marshal v))) vs"
  have strict: "sorted_wrt (<) (map snd ?ks)"
    using assms by (simp add: canonical_list_def sorted_wrt_map o_def)
  then have "sort_key snd ?ks = ?ks"
    by (simp add: sort_key_id_if_sorted strict_sorted_iff)
  then show ?thesis
    using assms unique_loop_id [OF strict, of None] by (simp add: sortedUniqueCanonical_fst canonical_list_def o_def)
qed


section \<open>Validated parts\<close>

lemma each_ok: "(\<And>i x. f i x = None \<longleftrightarrow> P x) \<Longrightarrow> each f xs = None \<longleftrightarrow> (\<forall>x \<in> set xs. P x)"
  unfolding each_None by (metis in_set_conv_nth)

definition header_ok :: "MeshHTTPHeaderMatch \<Rightarrow> bool" where
  "header_ok h \<longleftrightarrow> header_error [] h = None"

definition query_ok :: "MeshHTTPHeaderMatch \<Rightarrow> bool" where
  "query_ok q \<longleftrightarrow> query_error [] q = None"

definition path_ok :: "MeshHTTPPathMatch \<Rightarrow> bool" where
  "path_ok p \<longleftrightarrow> path_error [] p = None"

definition match_ok :: "MeshHTTPMatch \<Rightarrow> bool" where
  "match_ok m \<longleftrightarrow>
     (\<forall>p. hm_Path m = Some p \<longrightarrow> path_ok p) \<and> (hm_Method m = [] \<or> validMeshHTTPMethod (hm_Method m)) \<and>
     length (hm_Headers m) \<le> maxMeshHTTPMatchHeaders \<and> (\<forall>h \<in> set (hm_Headers m). header_ok h) \<and>
     length (hm_QueryParams m) \<le> maxMeshHTTPMatchQueries \<and> (\<forall>q \<in> set (hm_QueryParams m). query_ok q)"

definition hostnames_ok :: "string list \<Rightarrow> bool" where
  "hostnames_ok hs \<longleftrightarrow> length hs \<le> maxMeshRouteHostnames \<and> (\<forall>h \<in> set hs. validateMeshHostname h = None)"

definition route_ok :: "MeshHTTPRoute \<Rightarrow> bool" where
  "route_ok r \<longleftrightarrow>
     hostnames_ok (hr_Hostnames r) \<and> length (hr_Matches r) \<le> maxMeshHTTPMatches \<and> (\<forall>m \<in> set (hr_Matches r). match_ok m)"

lemma header_error_None: "header_error path h = None \<longleftrightarrow> header_ok h"
  by (simp add: header_ok_def header_error_def)

lemma query_error_None: "query_error path q = None \<longleftrightarrow> query_ok q"
  by (simp add: query_ok_def query_error_def)

lemma path_error_None: "path_error path p = None \<longleftrightarrow> path_ok p"
  by (simp add: path_ok_def path_error_def)

lemma match_validate_None: "MeshHTTPMatch_validate path m = None \<longleftrightarrow> match_ok m"
proof -
  have "each (\<lambda>i. header_error (item (path @ ''.headers'') i)) (hm_Headers m) = None \<longleftrightarrow> (\<forall>h \<in> set (hm_Headers m). header_ok h)"
    by (rule each_ok) (rule header_error_None)
  moreover have "each (\<lambda>i. query_error (item (path @ ''.query_params'') i)) (hm_QueryParams m) = None \<longleftrightarrow>
      (\<forall>q \<in> set (hm_QueryParams m). query_ok q)"
    by (rule each_ok) (rule query_error_None)
  ultimately show ?thesis
    unfolding MeshHTTPMatch_validate_def match_ok_def by (cases "hm_Path m") (simp_all add: path_error_None)
qed

lemma hostnames_validate_None: "validateMeshHostnames path hs = None \<longleftrightarrow> hostnames_ok hs"
proof -
  have "each (\<lambda>i hostname. within (item path i) (validateMeshHostname hostname)) hs = None \<longleftrightarrow> (\<forall>h \<in> set hs. validateMeshHostname h = None)"
    by (rule each_ok) simp
  then show ?thesis
    by (auto simp: validateMeshHostnames_def hostnames_ok_def)
qed

lemma route_validate_None: "MeshHTTPRoute_validate path r = None \<longleftrightarrow> route_ok r"
proof -
  have "each (\<lambda>i. MeshHTTPMatch_validate (item (path @ ''.matches'') i)) (hr_Matches r) = None \<longleftrightarrow> (\<forall>m \<in> set (hr_Matches r). match_ok m)"
    by (rule each_ok) (rule match_validate_None)
  then show ?thesis
    by (simp add: MeshHTTPRoute_validate_def route_ok_def hostnames_validate_None)
qed

definition tls_ok :: "MeshTLSRoute \<Rightarrow> bool" where
  "tls_ok t \<longleftrightarrow> tr_Hostnames t \<noteq> [] \<and> hostnames_ok (tr_Hostnames t)"

definition group_ok :: "MeshGroup \<Rightarrow> bool" where
  "group_ok g \<longleftrightarrow>
     validateMeshIdentity [] (mg_GroupID g) = None \<and> mg_RuleVersion g \<noteq> 0 \<and>
     mg_OutdatedClientPolicy g \<in> {''apply_latest_rules'', ''pause_new_traffic''} \<and>
     length (mr_HTTP (mg_Routes g)) \<le> maxMeshHTTPRoutes \<and> (\<forall>r \<in> set (mr_HTTP (mg_Routes g)). route_ok r) \<and>
     (\<forall>t. mr_TLSPassthrough (mg_Routes g) = Some t \<longrightarrow> tls_ok t) \<and>
     MeshProbe_validate [] (mg_Probe g) = None \<and> MeshOriginTLS_validate [] (mg_OriginTLS g) = None"

lemma identity_None: "validateMeshIdentity path s = None \<longleftrightarrow> validateMeshIdentity [] s = None"
  by (simp add: validateMeshIdentity_def)

lemma probe_None: "MeshProbe_validate path p = None \<longleftrightarrow> MeshProbe_validate [] p = None"
  by (auto simp: MeshProbe_validate_def)

lemma origin_None: "MeshOriginTLS_validate path t = None \<longleftrightarrow> MeshOriginTLS_validate [] t = None"
  by (simp add: MeshOriginTLS_validate_def)

lemma group_validate_None: "MeshGroup_Validate path g = None \<longleftrightarrow> group_ok g"
proof -
  have "each (\<lambda>i. MeshHTTPRoute_validate (item (path @ ''.routes.http'') i)) (mr_HTTP (mg_Routes g)) = None \<longleftrightarrow>
      (\<forall>r \<in> set (mr_HTTP (mg_Routes g)). route_ok r)"
    by (rule each_ok) (rule route_validate_None)
  moreover have "tls_route_error p t = None \<longleftrightarrow> tls_ok t" for p t
    by (simp add: tls_route_error_def tls_ok_def hostnames_validate_None)
  ultimately show ?thesis
    unfolding MeshGroup_Validate_def group_ok_def
    by (cases "mr_TLSPassthrough (mg_Routes g)")
      (simp_all add: identity_None [of "path @ ''.group_id''"] probe_None [of "path @ ''.probe''"] origin_None [of "path @ ''.origin_tls''"])
qed

section \<open>Normalisation keeps a group valid\<close>

lemma token_char_lower: "token_char c \<Longrightarrow> token_char (lower_char c)"
  using lower_char_code [of c] by (cases "is_upper c") (auto simp: token_char_def is_lower_def is_upper_def lower_char_def)

lemma name_lower:
  assumes "validateMeshHTTPName n = None"
  shows "validateMeshHTTPName (ToLower n) = None"
proof -
  have "list_all token_char n"
    using assms by (simp add: validateMeshHTTPName_def meshHTTPNamePattern_def matches_Plus)
  then have "list_all token_char (ToLower n)"
    by (auto simp: ToLower_def list_all_iff token_char_lower)
  moreover have "n \<noteq> []"
    using assms by (auto simp: validateMeshHTTPName_def)
  then have "ToLower n \<noteq> []"
    by (simp add: ToLower_def)
  ultimately show ?thesis
    using assms by (simp add: validateMeshHTTPName_def meshHTTPNamePattern_def matches_Plus)
qed

lemma header_ok_lower: "header_ok h \<Longrightarrow> header_ok (h\<lparr>vm_Name := ToLower (vm_Name h)\<rparr>)"
  by (simp add: header_ok_def header_error_def name_lower)

lemma match_ok_normalize:
  assumes "match_ok m"
  shows "match_ok (match_normalize m)"
proof -
  have "\<forall>h \<in> set (normalizeMeshHeaders (hm_Headers m)). header_ok h"
    using assms headers_set [of "hm_Headers m"] header_ok_lower by (fastforce simp: match_ok_def)
  moreover have "\<forall>q \<in> set (normalizeMeshQueries (hm_QueryParams m)). query_ok q"
    using assms queries_set [of "hm_QueryParams m"] by (auto simp: match_ok_def)
  ultimately show ?thesis
    using assms headers_length [of "hm_Headers m"] queries_length [of "hm_QueryParams m"]
    by (simp add: match_ok_def match_normalize_def)
qed

lemma hostname_lower:
  assumes "validateMeshHostname h = None"
  shows "ToLower h = h"
proof -
  have "matches meshHostnamePattern h"
    using assms by (simp add: validateMeshHostname_def Let_def)
  moreover have "over (\<lambda>c. \<not> is_upper c) meshHostnamePattern"
    by (auto simp: meshHostnamePattern_def meshDNS1123SubdomainPattern_def dns_label_def Opt_def alnum_def
        is_upper_def is_lower_def is_digit_def)
  ultimately show ?thesis
    by (intro ToLower_id matches_chars)
qed

lemma hostnames_ok_sorted:
  assumes "hostnames_ok hs"
  shows "hostnames_ok (sortedUniqueStrings True hs)"
proof -
  have "set (sortedUniqueStrings True hs) = ToLower ` set hs"
    by (simp add: sortedUniqueStrings_def)
  also have "\<dots> = set hs"
    using assms hostname_lower by (force simp: hostnames_ok_def)
  finally have "set (sortedUniqueStrings True hs) = set hs" .
  moreover have "length (sortedUniqueStrings True hs) \<le> length hs"
    using compact_sorted_length [of "map ToLower hs"] by (simp add: sortedUniqueStrings_def)
  ultimately show ?thesis
    using assms by (simp add: hostnames_ok_def)
qed


section \<open>Settled routes\<close>

text \<open>A route is settled when neither the defaults nor normalisation change it.\<close>

definition settled_match :: "MeshHTTPMatch \<Rightarrow> bool" where
  "settled_match m \<longleftrightarrow> match_defaults m = m \<and> match_normalize m = m \<and> match_ok m"

definition settled_route :: "MeshHTTPRoute \<Rightarrow> bool" where
  "settled_route r \<longleftrightarrow> route_defaults r = r \<and> route_normalize r = r \<and> route_ok r"

lemma str_or_idem [simp]: "str_or (str_or s d) d = str_or s d"
  by (simp add: str_or_def)

lemma value_defaults_idem [simp]: "value_defaults (value_defaults v) = value_defaults v"
  by (simp add: value_defaults_def)

lemma path_defaults_idem [simp]: "path_defaults (Some (path_defaults p)) = path_defaults p"
  by (simp add: path_defaults_def Let_def)

lemma value_defaults_lower:
  "value_defaults v = v \<Longrightarrow> value_defaults (v\<lparr>vm_Name := n\<rparr>) = v\<lparr>vm_Name := n\<rparr>"
  by (cases v) (simp add: value_defaults_def)

lemma settled_normalize:
  assumes "match_ok (match_defaults m)"
  shows "settled_match (match_normalize (match_defaults m))"
proof -
  let ?d = "match_defaults m"
  let ?n = "match_normalize ?d"
  have heads: "map value_defaults (normalizeMeshHeaders (hm_Headers ?d)) = normalizeMeshHeaders (hm_Headers ?d)"
  proof (rule map_idI)
    fix h
    assume h: "h \<in> set (normalizeMeshHeaders (hm_Headers ?d))"
    obtain h0 where h0: "h0 \<in> set (hm_Headers ?d)" and eq: "h = h0\<lparr>vm_Name := ToLower (vm_Name h0)\<rparr>"
      using headers_set [of "hm_Headers ?d"] h by blast
    have "value_defaults h0 = h0"
      using h0 by (auto simp: match_defaults_def)
    then show "value_defaults h = h"
      unfolding eq by (rule value_defaults_lower)
  qed
  have queries: "map value_defaults (normalizeMeshQueries (hm_QueryParams ?d)) = normalizeMeshQueries (hm_QueryParams ?d)"
  proof (rule map_idI)
    fix q
    assume q: "q \<in> set (normalizeMeshQueries (hm_QueryParams ?d))"
    then have "q \<in> set (hm_QueryParams ?d)"
      using queries_set [of "hm_QueryParams ?d"] by blast
    then show "value_defaults q = q"
      by (auto simp: match_defaults_def)
  qed
  have path: "hm_Path ?n = Some (path_defaults (hm_Path m))"
    by (simp add: match_defaults_def match_normalize_def)
  have "match_defaults ?n = ?n\<lparr>hm_Path := hm_Path ?n, hm_Headers := hm_Headers ?n, hm_QueryParams := hm_QueryParams ?n\<rparr>"
    unfolding match_defaults_def [of ?n] path path_defaults_idem by (simp add: match_normalize_def heads queries)
  then have defaults: "match_defaults ?n = ?n"
    by simp
  have lower: "ToLower (vm_Name h) = vm_Name h" if h: "h \<in> set (normalizeMeshHeaders (hm_Headers ?d))" for h
  proof -
    obtain h0 where "h = h0\<lparr>vm_Name := ToLower (vm_Name h0)\<rparr>"
      using headers_set [of "hm_Headers ?d"] h by blast
    then show ?thesis
      by simp
  qed
  have "normalizeMeshHeaders (normalizeMeshHeaders (hm_Headers ?d)) = normalizeMeshHeaders (hm_Headers ?d)"
    by (rule normal_headers_id [OF headers_normal lower])
  then have "match_normalize ?n = ?n"
    by (simp add: match_normalize_def normal_queries_id queries_normal)
  then show ?thesis
    using match_ok_normalize [OF assms] defaults by (simp add: settled_match_def)
qed

lemma match_of_canonical: "match_defaults m = m \<Longrightarrow> match_of (match_canonical m) = m"
proof -
  assume "match_defaults m = m"
  moreover have "hm_Path (match_defaults m) = Some (path_defaults (hm_Path m))"
    by (simp add: match_defaults_def)
  ultimately obtain p where "hm_Path m = Some p"
    by simp
  then show ?thesis
    by (simp add: match_of_def match_canonical_def)
qed

lemma match_canonical_of [simp]: "match_canonical (match_of c) = c"
  by (simp add: match_canonical_def match_of_def)

text \<open>A canonical route: its matches are strictly ordered by their encodings, and as a route it is settled.\<close>

definition canonical_route :: "codec \<Rightarrow> meshHTTPRouteCanonical \<Rightarrow> bool" where
  "canonical_route cd c \<longleftrightarrow> canonical_list (cd_match cd) (cr_Matches c) \<and> settled_route (route_of c)"

lemma canonical_route_made:
  assumes ok: "route_ok (route_defaults r)"
    and ms: "fst (sortedUniqueCanonical (cd_match cd) cap (map match_canonical (hr_Matches (route_normalize (route_defaults r)))) tr) = Some ms"
  shows "canonical_route cd \<lparr>cr_Hostnames = hr_Hostnames (route_normalize (route_defaults r)), cr_Matches = ms\<rparr>"
proof -
  let ?d = "route_defaults r"
  let ?c = "\<lparr>cr_Hostnames = hr_Hostnames (route_normalize ?d), cr_Matches = ms\<rparr>"
  note res = sortedUniqueCanonical_result [OF ms]
  have settled: "settled_match m" if in_ms: "m \<in> set (map match_of ms)" for m
  proof -
    obtain c where c: "c \<in> set ms" and m: "m = match_of c"
      using in_ms by auto
    then obtain m0 where m0: "m0 \<in> set (hr_Matches ?d)" and c0: "c = match_canonical (match_normalize m0)"
      using res(2) by (auto simp: route_normalize_def)
    obtain m1 where m1: "m0 = match_defaults m1"
      using m0 by (auto simp: route_defaults_def)
    have "match_ok m0"
      using ok m0 by (simp add: route_ok_def)
    then have "settled_match (match_normalize m0)"
      unfolding m1 by (rule settled_normalize)
    moreover from this have "m = match_normalize m0"
      unfolding m c0 by (intro match_of_canonical) (simp add: settled_match_def)
    ultimately show ?thesis
      by simp
  qed
  have "hr_Matches ?d \<noteq> []"
    by (simp add: route_defaults_def)
  then have "ms \<noteq> []"
    using res(4) by (simp add: route_normalize_def)
  moreover have "map match_defaults (map match_of ms) = map match_of ms"
    using settled settled_match_def by (intro map_idI) blast
  ultimately have defaults: "route_defaults (route_of ?c) = route_of ?c"
    by (simp add: route_defaults_def route_of_def)
  have "map match_normalize (map match_of ms) = map match_of ms"
    using settled settled_match_def by (intro map_idI) blast
  then have normal: "route_normalize (route_of ?c) = route_of ?c"
    by (simp add: route_normalize_def route_of_def sortedUniqueStrings_idem)
  have "length ms \<le> maxMeshHTTPMatches"
    using res(3) ok by (simp add: route_ok_def route_normalize_def)
  moreover have "\<forall>m \<in> set (map match_of ms). match_ok m"
    using settled settled_match_def by blast
  moreover have "hostnames_ok (hr_Hostnames (route_normalize ?d))"
    using ok by (simp add: route_ok_def route_normalize_def hostnames_ok_sorted)
  ultimately have "route_ok (route_of ?c)"
    by (simp add: route_ok_def route_of_def)
  then show ?thesis
    using res(1) defaults normal by (simp add: canonical_route_def settled_route_def)
qed

lemma routes_canonical_made:
  assumes "fst (routes_canonical cd (map (\<lambda>r. route_normalize (route_defaults r)) rs) tr) = Some cs"
    and "\<And>r. r \<in> set rs \<Longrightarrow> route_ok (route_defaults r)"
  shows "(\<forall>c \<in> set cs. canonical_route cd c) \<and> length cs = length rs"
  using assms
proof (induction rs arbitrary: tr cs)
  case (Cons r rs)
  obtain ms tr1 where ms: "sortedUniqueCanonical (cd_match cd) (cd_cap cd)
      (map match_canonical (hr_Matches (route_normalize (route_defaults r)))) tr = (Some ms, tr1)"
    using Cons.prems(1) by (auto split: prod.splits option.splits)
  obtain rest tr2 where rest: "routes_canonical cd (map (\<lambda>r. route_normalize (route_defaults r)) rs) tr1 = (Some rest, tr2)"
    using Cons.prems(1) ms by (auto split: prod.splits option.splits)
  have cs: "cs = \<lparr>cr_Hostnames = hr_Hostnames (route_normalize (route_defaults r)), cr_Matches = ms\<rparr> # rest"
    using Cons.prems(1) ms rest by simp
  have "canonical_route cd \<lparr>cr_Hostnames = hr_Hostnames (route_normalize (route_defaults r)), cr_Matches = ms\<rparr>"
    by (rule canonical_route_made [where cap = "cd_cap cd" and tr = tr]) (use Cons.prems(2) ms in simp_all)
  moreover have "(\<forall>c \<in> set rest. canonical_route cd c) \<and> length rest = length rs"
    by (rule Cons.IH [of tr1]) (use Cons.prems(2) rest in simp_all)
  ultimately show ?case
    by (simp add: cs)
qed simp

lemma routes_canonical_id:
  "(\<And>c. c \<in> set cs \<Longrightarrow> canonical_route cd c) \<Longrightarrow> fst (routes_canonical cd (map route_of cs) tr) = Some cs"
proof (induction cs arbitrary: tr)
  case (Cons c cs)
  have "canonical_list (cd_match cd) (cr_Matches c)"
    using Cons.prems by (simp add: canonical_route_def)
  then have "fst (sortedUniqueCanonical (cd_match cd) (cd_cap cd) (map match_canonical (hr_Matches (route_of c))) tr) = Some (cr_Matches c)"
    by (simp add: route_of_def o_def sortedUniqueCanonical_id)
  then obtain tr1 where tr1: "sortedUniqueCanonical (cd_match cd) (cd_cap cd) (map match_canonical (hr_Matches (route_of c))) tr =
      (Some (cr_Matches c), tr1)"
    by (metis prod.collapse)
  obtain tr2 where tr2: "routes_canonical cd (map route_of cs) tr1 = (Some cs, tr2)"
    using Cons.IH [of tr1] Cons.prems by (metis list.set_intros(2) prod.collapse)
  have "hr_Hostnames (route_of c) = cr_Hostnames c"
    by (simp add: route_of_def)
  then show ?case
    using tr1 tr2 by simp
qed simp


section \<open>The bytes of a finalised group are accepted\<close>

text \<open>A declaration in canonical form: what a client sends, and what the parser leaves unchanged.\<close>

definition canonical_group :: "codec \<Rightarrow> meshGroupCanonical \<Rightarrow> bool" where
  "canonical_group cd d \<longleftrightarrow>
     group_ok (group_of d) \<and> mp_Type (cg_Probe d) \<noteq> [] \<and>
     (\<forall>c \<in> set (crs_HTTP (cg_Routes d)). canonical_route cd c) \<and> canonical_list (cd_route cd) (crs_HTTP (cg_Routes d)) \<and>
     (\<forall>t. crs_TLSPassthrough (cg_Routes d) = Some t \<longrightarrow> sortedUniqueStrings True (tr_Hostnames t) = tr_Hostnames t) \<and>
     sorted_wrt (<) (co_ExtraCACertificates (cg_OriginTLS d)) \<and>
     (\<forall>der \<in> set (co_ExtraCACertificates (cg_OriginTLS d)). cd_ParseCertificate cd der \<noteq> None) \<and>
     (co_ExtraCACertificates (cg_OriginTLS d) = [] \<or> co_Enabled (cg_OriginTLS d) \<and> co_Verify (cg_OriginTLS d))"

lemma canonical_defaults:
  assumes "canonical_group cd d"
  shows "MeshGroup_ApplyDefaults (group_of d) = group_of d"
proof -
  have "map route_defaults (map route_of (crs_HTTP (cg_Routes d))) = map route_of (crs_HTTP (cg_Routes d))"
    by (rule map_idI) (use assms in \<open>auto simp: canonical_group_def canonical_route_def settled_route_def\<close>)
  moreover have "cg_OutdatedClientPolicy d \<noteq> []"
    using assms by (auto simp: canonical_group_def group_ok_def group_of_def)
  moreover have "mp_Type (cg_Probe d) \<noteq> []"
    using assms by (simp add: canonical_group_def)
  ultimately show ?thesis
    by (simp add: MeshGroup_ApplyDefaults_def group_of_def str_or_def)
qed

lemma canonical_normalize:
  assumes "canonical_group cd d"
  shows "MeshGroup_normalize (map_certificates (\<lambda>cs. compactSorted (sort cs)) (group_of d)) = group_of d"
proof -
  have "map route_normalize (map route_of (crs_HTTP (cg_Routes d))) = map route_of (crs_HTTP (cg_Routes d))"
    by (rule map_idI) (use assms in \<open>auto simp: canonical_group_def canonical_route_def settled_route_def\<close>)
  moreover have "map_option (\<lambda>t. t\<lparr>tr_Hostnames := sortedUniqueStrings True (tr_Hostnames t)\<rparr>) (crs_TLSPassthrough (cg_Routes d)) =
      crs_TLSPassthrough (cg_Routes d)"
    using assms by (cases "crs_TLSPassthrough (cg_Routes d)") (simp_all add: canonical_group_def)
  moreover have "compactSorted (sort (co_ExtraCACertificates (cg_OriginTLS d))) = co_ExtraCACertificates (cg_OriginTLS d)"
    using assms by (intro compact_sorted_id) (simp add: canonical_group_def)
  ultimately show ?thesis
    by (simp add: MeshGroup_normalize_def map_certificates_def group_of_def)
qed

lemma projection_of: "projection (group_of d) (crs_HTTP (cg_Routes d)) = d"
  by (simp add: projection_def group_of_def)

lemma canonical_marshal:
  assumes "canonical_group cd d"
  shows "fst (marshalMeshGroupCanonicalMeasured cd (group_of d) tr) = cd_group cd d"
proof -
  let ?cs = "crs_HTTP (cg_Routes d)"
  have routes: "mr_HTTP (mg_Routes (group_of d)) = map route_of ?cs"
    by (simp add: group_of_def)
  have "fst (routes_canonical cd (map route_of ?cs) tr) = Some ?cs"
    by (rule routes_canonical_id) (use assms in \<open>simp add: canonical_group_def\<close>)
  then obtain tr1 where tr1: "routes_canonical cd (map route_of ?cs) tr = (Some ?cs, tr1)"
    by (metis prod.collapse)
  have "fst (sortedUniqueCanonical (cd_route cd) (cd_cap cd) ?cs tr1) = Some ?cs"
    by (rule sortedUniqueCanonical_id) (use assms in \<open>simp add: canonical_group_def\<close>)
  then obtain tr2 where tr2: "sortedUniqueCanonical (cd_route cd) (cd_cap cd) ?cs tr1 = (Some ?cs, tr2)"
    by (metis prod.collapse)
  show ?thesis
    by (simp add: marshalMeshGroupCanonicalMeasured_def routes tr1 tr2 projection_of)
qed

lemma canonical_no_error:
  assumes "canonical_group cd d"
  shows "declaration_error cd (group_of d) = None"
proof -
  have "MeshGroup_Validate ''group'' (group_of d) = None"
    using assms by (simp add: canonical_group_def group_validate_None)
  moreover have "ot_ExtraCACertificates (mg_OriginTLS (group_of d)) = co_ExtraCACertificates (cg_OriginTLS d)"
    "ot_Enabled (mg_OriginTLS (group_of d)) = co_Enabled (cg_OriginTLS d)"
    "ot_Verify (mg_OriginTLS (group_of d)) = co_Verify (cg_OriginTLS d)"
    by (simp_all add: group_of_def)
  ultimately show ?thesis
    using assms unfolding declaration_error_def first_error_None by (auto simp: canonical_group_def list_all_iff)
qed

lemma parse_canonical:
  assumes d: "canonical_group cd d" and b: "cd_group cd d = Some b" and decode: "cd_Unmarshal cd b = (d, True)"
  shows "fst (ParseMeshGroupCanonicalPolicyMeasured cd b) = Inr (cg_GroupID d, cg_RuleVersion d, cg_OutdatedClientPolicy d)"
proof -
  have parts: "mg_GroupID (group_of d) = cg_GroupID d" "mg_RuleVersion (group_of d) = cg_RuleVersion d"
    "mg_OutdatedClientPolicy (group_of d) = cg_OutdatedClientPolicy d"
    by (simp_all add: group_of_def)
  have marshal: "\<exists>w. marshalMeshGroupCanonicalMeasured cd (group_of d) tr = (Some b, w)" for tr
    using canonical_marshal [OF d, of tr] b by (metis prod.collapse)
  let ?t = "tracker_add (sum_list (map (cd_cap cd) (co_ExtraCACertificates (cg_OriginTLS d)))) \<lparr>wt_current = 0, wt_peak = 0, wt_changes = []\<rparr>"
  obtain w where w: "marshalMeshGroupCanonicalMeasured cd (group_of d) (Some ?t) = (Some b, w)"
    using marshal by blast
  show ?thesis
    unfolding ParseMeshGroupCanonicalPolicyMeasured_def decode Let_def prod.case canonical_defaults [OF d] canonical_no_error [OF d]
      option.case canonical_normalize [OF d] w by (simp add: parts)
qed


text \<open>A group with defaults and normalisation applied and the given certificates.\<close>

definition prepared :: "MeshGroup \<Rightarrow> byte list list \<Rightarrow> MeshGroup" where
  "prepared g certificates = map_certificates (\<lambda>_. certificates) (MeshGroup_normalize (MeshGroup_ApplyDefaults g))"

lemma prepared_fields:
  "mg_GroupID (prepared g cs) = mg_GroupID g" "mg_RuleVersion (prepared g cs) = mg_RuleVersion g"
  "mg_OutdatedClientPolicy (prepared g cs) = mg_OutdatedClientPolicy (MeshGroup_ApplyDefaults g)"
  "mg_Probe (prepared g cs) = mg_Probe (MeshGroup_ApplyDefaults g)"
  "mr_HTTP (mg_Routes (prepared g cs)) = map (\<lambda>r. route_normalize (route_defaults r)) (mr_HTTP (mg_Routes g))"
  "mr_TLSPassthrough (mg_Routes (prepared g cs)) =
     map_option (\<lambda>t. t\<lparr>tr_Hostnames := sortedUniqueStrings True (tr_Hostnames t)\<rparr>) (mr_TLSPassthrough (mg_Routes g))"
  "ot_Enabled (mg_OriginTLS (prepared g cs)) = ot_Enabled (mg_OriginTLS g)"
  "ot_Verify (mg_OriginTLS (prepared g cs)) = ot_Verify (mg_OriginTLS g)"
  "ot_ExtraCACertificates (mg_OriginTLS (prepared g cs)) = cs"
  by (simp_all add: prepared_def map_certificates_def MeshGroup_normalize_def MeshGroup_ApplyDefaults_def)

lemma group_of_projection:
  "mg_GroupID (group_of (projection n hs)) = mg_GroupID n" "mg_RuleVersion (group_of (projection n hs)) = mg_RuleVersion n"
  "mg_OutdatedClientPolicy (group_of (projection n hs)) = mg_OutdatedClientPolicy n" "mg_Probe (group_of (projection n hs)) = mg_Probe n"
  "mr_HTTP (mg_Routes (group_of (projection n hs))) = map route_of hs"
  "mr_TLSPassthrough (mg_Routes (group_of (projection n hs))) = mr_TLSPassthrough (mg_Routes n)"
  "mg_OriginTLS (group_of (projection n hs)) =
     \<lparr>ot_Enabled = ot_Enabled (mg_OriginTLS n), ot_Verify = ot_Verify (mg_OriginTLS n), ot_ExtraCAFiles = [],
      ot_ExtraCACertificates = ot_ExtraCACertificates (mg_OriginTLS n)\<rparr>"
  by (simp_all add: group_of_def projection_def)

lemma projection_fields:
  "cg_Probe (projection n hs) = mg_Probe n" "crs_HTTP (cg_Routes (projection n hs)) = hs"
  "crs_TLSPassthrough (cg_Routes (projection n hs)) = mr_TLSPassthrough (mg_Routes n)"
  "co_ExtraCACertificates (cg_OriginTLS (projection n hs)) = ot_ExtraCACertificates (mg_OriginTLS n)"
  "co_Enabled (cg_OriginTLS (projection n hs)) = ot_Enabled (mg_OriginTLS n)"
  "co_Verify (cg_OriginTLS (projection n hs)) = ot_Verify (mg_OriginTLS n)"
  by (simp_all add: projection_def)

lemma projected_ok:
  assumes ok: "group_ok (MeshGroup_ApplyDefaults g)" and n: "length hs \<le> length (mr_HTTP (mg_Routes g))"
    and canonical: "\<And>c. c \<in> set hs \<Longrightarrow> canonical_route cd c"
  shows "group_ok (group_of (projection (prepared g cs) hs))"
proof -
  have http: "mr_HTTP (mg_Routes (MeshGroup_ApplyDefaults g)) = map route_defaults (mr_HTTP (mg_Routes g))"
    and tls: "mr_TLSPassthrough (mg_Routes (MeshGroup_ApplyDefaults g)) = mr_TLSPassthrough (mg_Routes g)"
    and same: "mg_GroupID (MeshGroup_ApplyDefaults g) = mg_GroupID g" "mg_RuleVersion (MeshGroup_ApplyDefaults g) = mg_RuleVersion g"
      "mg_OriginTLS (MeshGroup_ApplyDefaults g) = mg_OriginTLS g"
    by (simp_all add: MeshGroup_ApplyDefaults_def)
  have count: "length (map route_of hs) \<le> maxMeshHTTPRoutes"
    using ok n by (simp add: group_ok_def http)
  have routes: "\<forall>r \<in> set (map route_of hs). route_ok r"
    using canonical by (auto simp: canonical_route_def settled_route_def)
  have tls_routes: "tls_ok t"
    if t: "map_option (\<lambda>t. t\<lparr>tr_Hostnames := sortedUniqueStrings True (tr_Hostnames t)\<rparr>) (mr_TLSPassthrough (mg_Routes g)) = Some t" for t
  proof -
    obtain t0 where t0: "mr_TLSPassthrough (mg_Routes g) = Some t0" and eq: "t = t0\<lparr>tr_Hostnames := sortedUniqueStrings True (tr_Hostnames t0)\<rparr>"
      using t by auto
    have "tls_ok t0"
      using ok t0 by (simp add: group_ok_def tls)
    then show ?thesis
      by (simp add: eq tls_ok_def hostnames_ok_sorted) (simp add: sortedUniqueStrings_def)
  qed
  have "\<not> (ot_Verify (mg_OriginTLS g) \<and> \<not> ot_Enabled (mg_OriginTLS g))"
    using ok by (simp add: group_ok_def same MeshOriginTLS_validate_def)
  then have origin: "MeshOriginTLS_validate [] \<lparr>ot_Enabled = ot_Enabled (mg_OriginTLS g), ot_Verify = ot_Verify (mg_OriginTLS g),
      ot_ExtraCAFiles = [], ot_ExtraCACertificates = cs\<rparr> = None"
    by (simp add: MeshOriginTLS_validate_def)
  have "validateMeshIdentity [] (mg_GroupID g) = None" "mg_RuleVersion g \<noteq> 0"
    "mg_OutdatedClientPolicy (MeshGroup_ApplyDefaults g) \<in> {''apply_latest_rules'', ''pause_new_traffic''}"
    "MeshProbe_validate [] (mg_Probe (MeshGroup_ApplyDefaults g)) = None"
    using ok unfolding group_ok_def same by blast+
  then show ?thesis
    unfolding group_ok_def group_of_projection prepared_fields
    using tls_routes by (intro conjI allI impI count routes origin) assumption+
qed

lemma marshal_canonical:
  assumes ok: "group_ok (MeshGroup_ApplyDefaults g)"
    and marshal: "fst (marshalMeshGroupCanonicalMeasured cd (prepared g cs) tr) = Some b"
    and cs: "sorted_wrt (<) cs" "\<And>der. der \<in> set cs \<Longrightarrow> cd_ParseCertificate cd der \<noteq> None"
      "cs = [] \<or> ot_Enabled (mg_OriginTLS g) \<and> ot_Verify (mg_OriginTLS g)"
  obtains hs where "canonical_group cd (projection (prepared g cs) hs)" and "cd_group cd (projection (prepared g cs) hs) = Some b"
proof -
  obtain raw tr1 where raw: "routes_canonical cd (mr_HTTP (mg_Routes (prepared g cs))) tr = (Some raw, tr1)"
    using marshal by (auto simp: marshalMeshGroupCanonicalMeasured_def split: prod.splits option.splits)
  obtain hs tr2 where hs: "sortedUniqueCanonical (cd_route cd) (cd_cap cd) raw tr1 = (Some hs, tr2)"
    using marshal raw by (auto simp: marshalMeshGroupCanonicalMeasured_def split: prod.splits option.splits)
  have b: "cd_group cd (projection (prepared g cs) hs) = Some b"
    using marshal raw hs by (simp add: marshalMeshGroupCanonicalMeasured_def)
  have raw_ok: "(\<forall>c \<in> set raw. canonical_route cd c) \<and> length raw = length (mr_HTTP (mg_Routes g))"
  proof (rule routes_canonical_made)
    show "fst (routes_canonical cd (map (\<lambda>r. route_normalize (route_defaults r)) (mr_HTTP (mg_Routes g))) tr) = Some raw"
      using raw by (simp add: prepared_fields)
    show "route_ok (route_defaults r)" if "r \<in> set (mr_HTTP (mg_Routes g))" for r
      using ok that by (simp add: group_ok_def MeshGroup_ApplyDefaults_def)
  qed
  have res: "canonical_list (cd_route cd) hs" "set hs \<subseteq> set raw" "length hs \<le> length raw"
    using sortedUniqueCanonical_result [of "cd_route cd" "cd_cap cd" raw tr1 hs] hs by simp_all
  have canonical: "canonical_route cd c" if "c \<in> set hs" for c
    using raw_ok res(2) that by blast
  have ok': "group_ok (group_of (projection (prepared g cs) hs))"
    by (rule projected_ok [OF ok _ canonical]) (use raw_ok res(3) in simp_all)
  have probe: "mp_Type (mg_Probe (prepared g cs)) \<noteq> []"
    by (simp add: prepared_fields MeshGroup_ApplyDefaults_def str_or_def)
  have tls: "sortedUniqueStrings True (tr_Hostnames t) = tr_Hostnames t" if "mr_TLSPassthrough (mg_Routes (prepared g cs)) = Some t" for t
    using that by (auto simp: prepared_fields sortedUniqueStrings_idem)
  have "canonical_group cd (projection (prepared g cs) hs)"
    unfolding canonical_group_def projection_fields prepared_fields(7,8,9)
    by (intro conjI ballI allI impI ok' probe res(1) cs; (rule canonical tls cs)?; assumption?)
  then show ?thesis
    using that b by blast
qed


lemma prepared_certificates:
  "MeshGroup_normalize (map_certificates f (MeshGroup_ApplyDefaults g)) = prepared g (f (ot_ExtraCACertificates (mg_OriginTLS g)))"
  by (simp add: prepared_def MeshGroup_normalize_def map_certificates_def MeshGroup_ApplyDefaults_def)

lemma parse_accepts:
  assumes "fst (ParseMeshGroupCanonicalPolicyMeasured cd b) = Inr (groupID, version, policy)"
  obtains d cs tr where "cd_Unmarshal cd b = (d, True)" and "declaration_error cd (MeshGroup_ApplyDefaults (group_of d)) = None"
    and "cs = compactSorted (sort (co_ExtraCACertificates (cg_OriginTLS d)))"
    and "fst (marshalMeshGroupCanonicalMeasured cd (prepared (group_of d) cs) tr) = Some b"
    and "groupID = mg_GroupID (prepared (group_of d) cs)" and "version = mg_RuleVersion (prepared (group_of d) cs)"
    and "policy = mg_OutdatedClientPolicy (prepared (group_of d) cs)"
proof -
  obtain d decoded where d: "cd_Unmarshal cd b = (d, decoded)"
    by (cases "cd_Unmarshal cd b")
  let ?cs = "compactSorted (sort (co_ExtraCACertificates (cg_OriginTLS d)))"
  let ?t = "tracker_add (sum_list (map (cd_cap cd) (co_ExtraCACertificates (cg_OriginTLS d)))) \<lparr>wt_current = 0, wt_peak = 0, wt_changes = []\<rparr>"
  have n: "MeshGroup_normalize (map_certificates (\<lambda>cs. compactSorted (sort cs)) (MeshGroup_ApplyDefaults (group_of d))) = prepared (group_of d) ?cs"
    unfolding prepared_certificates by (simp add: group_of_def)
  note parse = assms [unfolded ParseMeshGroupCanonicalPolicyMeasured_def d Let_def prod.case n]
  have decoded
    using parse by (auto split: if_splits)
  moreover have "declaration_error cd (MeshGroup_ApplyDefaults (group_of d)) = None"
    using parse by (cases "declaration_error cd (MeshGroup_ApplyDefaults (group_of d))") (auto split: if_splits)
  moreover obtain c w where w: "marshalMeshGroupCanonicalMeasured cd (prepared (group_of d) ?cs) (Some ?t) = (c, w)"
    by (cases "marshalMeshGroupCanonicalMeasured cd (prepared (group_of d) ?cs) (Some ?t)")
  moreover note parse' = parse [unfolded calculation(2) w prod.case option.case]
  have "c = Some b"
    using parse' \<open>decoded\<close> by (cases c) (auto split: if_splits)
  moreover have "groupID = mg_GroupID (prepared (group_of d) ?cs)" "version = mg_RuleVersion (prepared (group_of d) ?cs)"
    "policy = mg_OutdatedClientPolicy (prepared (group_of d) ?cs)"
    using parse' \<open>decoded\<close> \<open>c = Some b\<close> by auto
  ultimately show ?thesis
    using that [of d ?cs "Some ?t"] d by simp
qed

lemma parse_only_canonical:
  assumes "fst (ParseMeshGroupCanonicalPolicyMeasured cd b) = Inr (groupID, version, policy)"
  shows "\<exists>d. canonical_group cd d \<and> cd_group cd d = Some b \<and>
    groupID = cg_GroupID d \<and> version = cg_RuleVersion d \<and> policy = cg_OutdatedClientPolicy d"
proof -
  obtain d cs tr where error: "declaration_error cd (MeshGroup_ApplyDefaults (group_of d)) = None"
    and cs: "cs = compactSorted (sort (co_ExtraCACertificates (cg_OriginTLS d)))"
    and marshal: "fst (marshalMeshGroupCanonicalMeasured cd (prepared (group_of d) cs) tr) = Some b"
    and result: "groupID = mg_GroupID (prepared (group_of d) cs)" "version = mg_RuleVersion (prepared (group_of d) cs)"
      "policy = mg_OutdatedClientPolicy (prepared (group_of d) cs)"
    using parse_accepts [OF assms] by metis
  have same: "mg_OriginTLS (MeshGroup_ApplyDefaults (group_of d)) = mg_OriginTLS (group_of d)"
    by (simp add: MeshGroup_ApplyDefaults_def)
  have certs: "ot_ExtraCACertificates (mg_OriginTLS (group_of d)) = co_ExtraCACertificates (cg_OriginTLS d)"
    by (simp add: group_of_def)
  have ok: "group_ok (MeshGroup_ApplyDefaults (group_of d))"
    and parsed: "list_all (\<lambda>der. cd_ParseCertificate cd der \<noteq> None) (co_ExtraCACertificates (cg_OriginTLS d))"
    and flags: "co_ExtraCACertificates (cg_OriginTLS d) = [] \<or> ot_Enabled (mg_OriginTLS (group_of d)) \<and> ot_Verify (mg_OriginTLS (group_of d))"
    using error unfolding declaration_error_def first_error_None same certs by (auto simp: group_validate_None)
  have "cd_ParseCertificate cd der \<noteq> None" if "der \<in> set cs" for der
    using parsed that by (simp add: cs list_all_iff)
  moreover have "sorted_wrt (<) cs"
    by (simp add: cs compact_sorted_strict)
  moreover have "cs = [] \<or> ot_Enabled (mg_OriginTLS (group_of d)) \<and> ot_Verify (mg_OriginTLS (group_of d))"
    using flags by (simp add: cs)
  ultimately obtain hs where hs: "canonical_group cd (projection (prepared (group_of d) cs) hs)"
    "cd_group cd (projection (prepared (group_of d) cs) hs) = Some b"
    using marshal_canonical [OF ok marshal] by blast
  then show ?thesis
    using result by (intro exI [of _ "projection (prepared (group_of d) cs) hs"]) (simp add: projection_def)
qed

section \<open>Work accounting\<close>

lemma key_loop_held:
  assumes "key_loop marshal cap vs keyed n (Some w) = (ks, n', tracker)"
  shows "\<exists>w'. tracker = Some w' \<and> wt_current w' = wt_current w + (n' - n) \<and> sum_list (wt_changes w') = sum_list (wt_changes w) + (n' - n)"
  using assms
proof (induction vs arbitrary: keyed n w)
  case (Cons v vs)
  show ?case
  proof (cases "marshal v")
    case (Some k)
    then have "key_loop marshal cap vs (keyed @ [(v, k)]) (n + cap k) (Some (tracker_add (cap k) w)) = (ks, n', tracker)"
      using Cons.prems by simp
    from Cons.IH [OF this] show ?thesis
      by (auto simp: tracker_add_def Let_def)
  qed (use Cons.prems in auto)
qed auto

lemma sortedUniqueCanonical_held:
  assumes "sortedUniqueCanonical marshal cap vs (Some w) = (r, tracker)"
  shows "\<exists>w'. tracker = Some w' \<and> wt_current w' = wt_current w \<and> sum_list (wt_changes w') = sum_list (wt_changes w)"
proof -
  obtain ks n t where k: "key_loop marshal cap vs [] 0 (Some w) = (ks, n, t)"
    by (cases "key_loop marshal cap vs [] 0 (Some w)") auto
  show ?thesis
    using key_loop_held [OF k] assms k by (auto simp: sortedUniqueCanonical_def tracker_release_def)
qed

lemma routes_canonical_held:
  assumes "routes_canonical cd rs (Some w) = (r, tracker)"
  shows "\<exists>w'. tracker = Some w' \<and> wt_current w' = wt_current w \<and> sum_list (wt_changes w') = sum_list (wt_changes w)"
  using assms
proof (induction rs arbitrary: w r tracker)
  case (Cons route rs)
  obtain ms t where ms: "sortedUniqueCanonical (cd_match cd) (cd_cap cd) (map match_canonical (hr_Matches route)) (Some w) = (ms, t)"
    by (cases "sortedUniqueCanonical (cd_match cd) (cd_cap cd) (map match_canonical (hr_Matches route)) (Some w)")
  obtain w1 where w1: "t = Some w1" "wt_current w1 = wt_current w" "sum_list (wt_changes w1) = sum_list (wt_changes w)"
    using sortedUniqueCanonical_held [OF ms] by blast
  show ?case
  proof (cases ms)
    case None
    then show ?thesis
      using Cons.prems ms w1 by auto
  next
    case (Some m)
    obtain rest t2 where rest: "routes_canonical cd rs (Some w1) = (rest, t2)"
      by (cases "routes_canonical cd rs (Some w1)")
    have "tracker = t2"
      using Cons.prems ms Some w1(1) rest by (cases rest) simp_all
    then show ?thesis
      using Cons.IH [OF rest] w1(2,3) by simp
  qed
qed auto

lemma marshal_held:
  assumes "marshalMeshGroupCanonicalMeasured cd g (Some w) = (r, tracker)"
  shows "\<exists>w'. tracker = Some w' \<and> wt_current w' = wt_current w \<and> sum_list (wt_changes w') = sum_list (wt_changes w)"
proof -
  obtain rs t where rs: "routes_canonical cd (mr_HTTP (mg_Routes g)) (Some w) = (rs, t)"
    by (cases "routes_canonical cd (mr_HTTP (mg_Routes g)) (Some w)")
  obtain w1 where w1: "t = Some w1" "wt_current w1 = wt_current w" "sum_list (wt_changes w1) = sum_list (wt_changes w)"
    using routes_canonical_held [OF rs] by blast
  show ?thesis
  proof (cases rs)
    case None
    then show ?thesis
      using assms rs w1 by (auto simp: marshalMeshGroupCanonicalMeasured_def)
  next
    case (Some raw)
    obtain hs t2 where hs: "sortedUniqueCanonical (cd_route cd) (cd_cap cd) raw (Some w1) = (hs, t2)"
      by (cases "sortedUniqueCanonical (cd_route cd) (cd_cap cd) raw (Some w1)")
    have "tracker = t2"
      using assms rs Some w1(1) hs by (cases hs) (simp_all add: marshalMeshGroupCanonicalMeasured_def)
    then show ?thesis
      using sortedUniqueCanonical_held [OF hs] w1(2,3) by simp
  qed
qed

text \<open>Every return of the parser gives back the work it charged, to its own counter and to the caller's.\<close>

lemma parse_releases_work:
  "wt_current (snd (ParseMeshGroupCanonicalPolicyMeasured cd b)) = 0"
  "sum_list (wt_changes (snd (ParseMeshGroupCanonicalPolicyMeasured cd b))) = 0"
proof -
  obtain d decoded where d: "cd_Unmarshal cd b = (d, decoded)"
    by (cases "cd_Unmarshal cd b")
  let ?n = "sum_list (map (cd_cap cd) (co_ExtraCACertificates (cg_OriginTLS d)))"
  let ?t = "tracker_add ?n \<lparr>wt_current = 0, wt_peak = 0, wt_changes = []\<rparr>"
  let ?w = "snd (ParseMeshGroupCanonicalPolicyMeasured cd b)"
  have t: "wt_current ?t = ?n" "sum_list (wt_changes ?t) = ?n"
    by (simp_all add: tracker_add_def Let_def)
  let ?g = "MeshGroup_normalize (map_certificates (\<lambda>cs. compactSorted (sort cs)) (MeshGroup_ApplyDefaults (group_of d)))"
  obtain c m where m: "marshalMeshGroupCanonicalMeasured cd ?g (Some ?t) = (c, m)"
    by (cases "marshalMeshGroupCanonicalMeasured cd ?g (Some ?t)")
  obtain w where w: "m = Some w" "wt_current w = ?n" "sum_list (wt_changes w) = ?n"
    using marshal_held [OF m] t by auto
  have "wt_current ?w = 0 \<and> sum_list (wt_changes ?w) = 0"
    unfolding ParseMeshGroupCanonicalPolicyMeasured_def d Let_def prod.case m w(1) option.case
    by (cases "declaration_error cd (MeshGroup_ApplyDefaults (group_of d))"; cases c)
      (simp_all add: w(2,3) t tracker_release_def tracker_add_def [of _ w] Let_def)
  then show "wt_current ?w = 0" "sum_list (wt_changes ?w) = 0"
    by simp_all
qed

end
