(* ===== verification/Config_Mesh.thy ===== *)
theory Config_Mesh
  imports Mesh_Canonical
begin

text \<open>
  The configuration of the mesh programs, \<^verbatim>\<open>config/mesh.go\<close>: the server with its tunnel, peers, ingress listeners
  and limits, and the client with the group it declares. \<open>FinalizeMeshClientConfig\<close> prepares the declaration a client
  sends; reading a file, PEM decoding and X.509 parsing are arguments.
\<close>

section \<open>The server\<close>

record MeshTCPCapacity =
  tc_MaxTCPConnections :: int
  tc_MaxPendingTCPSetups :: int
  tc_MaxTCPConnectionsPerGeneration :: int
  tc_MaxPendingTCPSetupsPerGeneration :: int

record MeshTunnelListen =
  tl_Address :: string
  tl_Auth :: ServerAuth
  tl_TLS :: ServerTLS

record MeshPeer =
  pe_ServerID :: string
  pe_Address :: string
  pe_ServerName :: string
  pe_Metric :: int

record MeshPeering =
  pg_Peers :: "MeshPeer list"
  pg_Auth :: ClientAuth
  pg_TLS :: ClientTLS

record MeshServerTunnel =
  tn_Listen :: MeshTunnelListen
  tn_Peering :: MeshPeering
  tn_Quic :: Quic
  tn_Capacity :: MeshTCPCapacity
  tn_HeartbeatInterval :: int
  tn_HealthTimeout :: int
  tn_TCPCopyBufferSize :: int

record MeshIngressCertificate =
  ic_CertFile :: string
  ic_KeyFile :: string

record MeshIngressListener =
  il_Address :: string
  il_Protocol :: string
  il_Certificates :: "MeshIngressCertificate list"
  il_Capacity :: MeshTCPCapacity
  il_MaxInflightRequests :: "int option"

record MeshErrorPages =
  ep_NotFoundFile :: string
  ep_ServiceUnavailableFile :: string

record MeshIngress =
  in_Listeners :: "MeshIngressListener list"
  in_ErrorPages :: MeshErrorPages

record MeshProbeScheduler =
  pr_Interval :: int
  pr_Timeout :: int
  pr_FailureThreshold :: int
  pr_SuccessThreshold :: int
  pr_MaxConcurrent :: int
  pr_MaxQueued :: int

record MeshServerLimits =
  li_MaxClientGenerations :: int
  li_MaxPendingRegistrations :: int
  li_MaxPeers :: int
  li_MaxGroups :: int
  li_MaxGroupDeclarationBytes :: int
  li_MaxTotalGroupDeclarationBytes :: int
  li_MaxPathsPerGroup :: int
  li_MaxTotalPaths :: int
  li_MaxPathHops :: int
  li_MaxControlQueueMessages :: int
  li_MaxControlQueueBytes :: int

record MeshServer =
  ms_ServerID :: string
  ms_AdminAddress :: string
  ms_Tunnel :: MeshServerTunnel
  ms_Ingress :: MeshIngress
  ms_LoadBalancer :: string
  ms_RoutingPolicy :: string
  ms_ProbeScheduler :: MeshProbeScheduler
  ms_Limits :: MeshServerLimits

definition MeshTCPCapacity_ApplyDefaults :: "MeshTCPCapacity \<Rightarrow> MeshTCPCapacity" where
  "MeshTCPCapacity_ApplyDefaults c =
     \<lparr>tc_MaxTCPConnections = Or (tc_MaxTCPConnections c) 128,
      tc_MaxPendingTCPSetups = Or (tc_MaxPendingTCPSetups c) 128,
      tc_MaxTCPConnectionsPerGeneration = Or (tc_MaxTCPConnectionsPerGeneration c) 100,
      tc_MaxPendingTCPSetupsPerGeneration = Or (tc_MaxPendingTCPSetupsPerGeneration c) 16\<rparr>"

definition tcp_limits :: "MeshTCPCapacity \<Rightarrow> (string \<times> int) list" where
  "tcp_limits c =
     [(''max_tcp_connections'', tc_MaxTCPConnections c),
      (''max_pending_tcp_setups'', tc_MaxPendingTCPSetups c),
      (''max_tcp_connections_per_generation'', tc_MaxTCPConnectionsPerGeneration c),
      (''max_pending_tcp_setups_per_generation'', tc_MaxPendingTCPSetupsPerGeneration c)]"

definition MeshTCPCapacity_Validate :: "string \<Rightarrow> MeshTCPCapacity \<Rightarrow> string option" where
  "MeshTCPCapacity_Validate path c = named path '' must not be negative'' (\<lambda>v. 0 \<le> v) (tcp_limits c)"

definition MeshProbeScheduler_ApplyDefaults :: "MeshProbeScheduler \<Rightarrow> MeshProbeScheduler" where
  "MeshProbeScheduler_ApplyDefaults p =
     \<lparr>pr_Interval = Or (pr_Interval p) (10 * second), pr_Timeout = Or (pr_Timeout p) (3 * second),
      pr_FailureThreshold = Or (pr_FailureThreshold p) 3, pr_SuccessThreshold = Or (pr_SuccessThreshold p) 2,
      pr_MaxConcurrent = Or (pr_MaxConcurrent p) 64, pr_MaxQueued = Or (pr_MaxQueued p) 1024\<rparr>"

definition MeshProbeScheduler_Validate :: "string \<Rightarrow> MeshProbeScheduler \<Rightarrow> string option" where
  "MeshProbeScheduler_Validate path p =
     named path '' must be positive'' (\<lambda>v. 0 < v)
       [(''interval'', pr_Interval p), (''timeout'', pr_Timeout p), (''failure_threshold'', pr_FailureThreshold p),
        (''success_threshold'', pr_SuccessThreshold p), (''max_concurrent'', pr_MaxConcurrent p), (''max_queued'', pr_MaxQueued p)]"

definition MeshServerLimits_ApplyDefaults :: "MeshServerLimits \<Rightarrow> MeshServerLimits" where
  "MeshServerLimits_ApplyDefaults l =
     \<lparr>li_MaxClientGenerations = Or (li_MaxClientGenerations l) 16,
      li_MaxPendingRegistrations = Or (li_MaxPendingRegistrations l) 128,
      li_MaxPeers = Or (li_MaxPeers l) 32, li_MaxGroups = Or (li_MaxGroups l) 1024,
      li_MaxGroupDeclarationBytes = Or (li_MaxGroupDeclarationBytes l) (1024 * 1024),
      li_MaxTotalGroupDeclarationBytes = Or (li_MaxTotalGroupDeclarationBytes l) (64 * 1024 * 1024),
      li_MaxPathsPerGroup = Or (li_MaxPathsPerGroup l) 256, li_MaxTotalPaths = Or (li_MaxTotalPaths l) 16384,
      li_MaxPathHops = Or (li_MaxPathHops l) 16, li_MaxControlQueueMessages = Or (li_MaxControlQueueMessages l) 1024,
      li_MaxControlQueueBytes = Or (li_MaxControlQueueBytes l) (16 * 1024 * 1024)\<rparr>"

definition mesh_limits :: "MeshServerLimits \<Rightarrow> (string \<times> int) list" where
  "mesh_limits l =
     [(''max_client_generations'', li_MaxClientGenerations l),
      (''max_pending_registrations'', li_MaxPendingRegistrations l),
      (''max_peers'', li_MaxPeers l), (''max_groups'', li_MaxGroups l),
      (''max_group_declaration_bytes'', li_MaxGroupDeclarationBytes l),
      (''max_total_group_declaration_bytes'', li_MaxTotalGroupDeclarationBytes l),
      (''max_paths_per_group'', li_MaxPathsPerGroup l), (''max_total_paths'', li_MaxTotalPaths l),
      (''max_path_hops'', li_MaxPathHops l), (''max_control_queue_messages'', li_MaxControlQueueMessages l),
      (''max_control_queue_bytes'', li_MaxControlQueueBytes l)]"

definition MeshServerLimits_Validate :: "string \<Rightarrow> MeshServerLimits \<Rightarrow> string option" where
  "MeshServerLimits_Validate path l =
     first_error
      [named path '' must be positive'' (\<lambda>v. 0 < v) (mesh_limits l),
       check (li_MaxGroupDeclarationBytes l \<le> li_MaxTotalGroupDeclarationBytes l)
         (path @ ''.max_group_declaration_bytes must not exceed '' @ path @ ''.max_total_group_declaration_bytes''),
       check (li_MaxPathsPerGroup l \<le> li_MaxTotalPaths l)
         (path @ ''.max_paths_per_group must not exceed '' @ path @ ''.max_total_paths'')]"

definition hasDialPeer :: "MeshPeering \<Rightarrow> bool" where
  "hasDialPeer p \<longleftrightarrow> list_ex (\<lambda>peer. pe_Address peer \<noteq> []) (pg_Peers p)"

definition hasOutboundConfig :: "MeshPeering \<Rightarrow> bool" where
  "hasOutboundConfig p \<longleftrightarrow>
     ca_Method (pg_Auth p) \<noteq> [] \<or> ca_Token (pg_Auth p) \<noteq> [] \<or>
     pg_TLS p \<noteq> \<lparr>ct_CACertFile = [], ct_ClientCertFile = [], ct_ClientKeyFile = [], ct_AutoReload = False\<rparr>"

definition listener_defaults :: "MeshIngressListener \<Rightarrow> MeshIngressListener" where
  "listener_defaults l =
     l\<lparr>il_Capacity := MeshTCPCapacity_ApplyDefaults (il_Capacity l),
       il_MaxInflightRequests :=
         (if il_Protocol l \<noteq> ''tls_passthrough'' \<and> il_MaxInflightRequests l = None then Some 128
          else if il_MaxInflightRequests l = Some 0 then Some 128
          else il_MaxInflightRequests l)\<rparr>"

definition MeshServer_ApplyDefaults :: "MeshServer \<Rightarrow> MeshServer" where
  "MeshServer_ApplyDefaults s =
     (let t = ms_Tunnel s; p = tn_Peering t in
      s\<lparr>ms_Tunnel :=
          t\<lparr>tn_HeartbeatInterval := Or (tn_HeartbeatInterval t) DefaultHeartbeatInterval,
            tn_HealthTimeout := Or (tn_HealthTimeout t) DefaultHealthTimeout,
            tn_TCPCopyBufferSize := Or (tn_TCPCopyBufferSize t) DefaultTCPCopyBufferSize,
            tn_Peering := (if hasDialPeer p \<or> hasOutboundConfig p then p\<lparr>pg_Auth := ClientAuth_ApplyDefaults (pg_Auth p)\<rparr> else p),
            tn_Capacity := MeshTCPCapacity_ApplyDefaults (tn_Capacity t)\<rparr>,
        ms_LoadBalancer := str_or (ms_LoadBalancer s) DefaultLoadBalancer,
        ms_RoutingPolicy := str_or (ms_RoutingPolicy s) ''shortest_path_first'',
        ms_ProbeScheduler := MeshProbeScheduler_ApplyDefaults (ms_ProbeScheduler s),
        ms_Ingress := (ms_Ingress s)\<lparr>in_Listeners := map listener_defaults (in_Listeners (ms_Ingress s))\<rparr>,
        ms_Limits := MeshServerLimits_ApplyDefaults (ms_Limits s)\<rparr>)"

definition validateMeshTunnelSettings :: "int \<Rightarrow> int \<Rightarrow> int \<Rightarrow> string \<Rightarrow> string option" where
  "validateMeshTunnelSettings heartbeat health copyBuffer path =
     first_error
      [check (0 < heartbeat) (path @ ''.heartbeat_interval must be positive''),
       check (0 < health) (path @ ''.health_timeout must be positive''),
       check (heartbeat < health) (path @ ''.health_timeout must be greater than '' @ path @ ''.heartbeat_interval''),
       check (0 < copyBuffer) (path @ ''.tcp_copy_buffer_size must be positive'')]"

definition validateMeshServerTLS :: "ServerTLS \<Rightarrow> string \<Rightarrow> string option" where
  "validateMeshServerTLS t path =
     first_error
      [check (st_ServerCertFile t \<noteq> []) (path @ ''.server_cert_file is required''),
       check (st_ServerKeyFile t \<noteq> []) (path @ ''.server_key_file is required''),
       check (0 \<le> st_SessionTicketEncryptionKeyRotationInterval t)
         (path @ ''.session_ticket_encryption_key_rotation_interval must not be negative''),
       check (\<not> (st_SessionTicketEncryptionKeyRotationInterval t = 0 \<and> st_SessionTicketEncryptionKeyRotationOverlap t \<noteq> None))
         (path @ ''.session_ticket_encryption_key_rotation_overlap must be omitted when the interval is 0'')]"


fun peers_loop :: "string \<Rightarrow> nat \<Rightarrow> MeshPeer list \<Rightarrow> (string \<times> nat) list \<Rightarrow> (string \<times> nat) list \<Rightarrow> string option" where
  "peers_loop serverID i [] seenIDs seenAddresses = None"
| "peers_loop serverID i (peer # peers) seenIDs seenAddresses =
     (let path = item ''tunnel.peering.peers'' i in
      case first_error
        [validateMeshIdentity (path @ ''.server_id'') (pe_ServerID peer),
         check (pe_ServerID peer \<noteq> serverID) (path @ ''.server_id must not equal local server_id''),
         check (map_of seenIDs (pe_ServerID peer) = None) (path @ ''.server_id duplicates another server_id''),
         check ((pe_Address peer = []) = (pe_ServerName peer = [])) (path @ ''.address and server_name must be provided together'')]
      of Some e \<Rightarrow> Some e
      | None \<Rightarrow>
        (let seenIDs' = AList.update (pe_ServerID peer) i seenIDs in
         if pe_Address peer = [] then peers_loop serverID (Suc i) peers seenIDs' seenAddresses
         else case first_error
           [within (path @ ''.address'') (ValidateAddress (pe_Address peer)),
            check (map_of seenAddresses (pe_Address peer) = None) (path @ ''.address duplicates another address'')]
         of Some e \<Rightarrow> Some e
         | None \<Rightarrow> peers_loop serverID (Suc i) peers seenIDs' (AList.update (pe_Address peer) i seenAddresses)))"

definition validatePeers :: "MeshServer \<Rightarrow> string option" where
  "validatePeers s =
     (let p = tn_Peering (ms_Tunnel s) in
      first_error
       [peers_loop (ms_ServerID s) 0 (pg_Peers p) [] [],
        if hasDialPeer p \<or> hasOutboundConfig p
        then first_error
          [within ''tunnel.peering.auth'' (ClientAuth_Validate (pg_Auth p)),
           within ''tunnel.peering.tls'' (ClientTLS_Validate (ca_Method (pg_Auth p)) (pg_TLS p))]
        else None])"

definition ingress_error :: "string \<Rightarrow> MeshIngressListener \<Rightarrow> string option" where
  "ingress_error path l =
     first_error
      [within (path @ ''.address'') (validateListenerAddress (il_Address l)),
       MeshTCPCapacity_Validate (path @ ''.capacity'') (il_Capacity l),
       if il_Protocol l = ''https''
       then check (il_Certificates l \<noteq> []) (path @ ''.certificates must contain at least one certificate for https'')
       else if il_Protocol l = ''http'' \<or> il_Protocol l = ''tls_passthrough''
       then check (il_Certificates l = []) (path @ ''.certificates are only valid for https'')
       else Some (path @ ''.protocol must be http, https, or tls_passthrough''),
       if il_Protocol l = ''tls_passthrough''
       then check (il_MaxInflightRequests l = None) (path @ ''.max_inflight_requests is not valid for tls_passthrough'')
       else check (case il_MaxInflightRequests l of None \<Rightarrow> True | Some n \<Rightarrow> 0 \<le> n) (path @ ''.max_inflight_requests must not be negative''),
       each (\<lambda>j c. check (ic_CertFile c \<noteq> [] \<and> ic_KeyFile c \<noteq> []) (item (path @ ''.certificates'') j @ ''.cert_file and key_file are required''))
         (il_Certificates l)]"

definition validateIngress :: "MeshServer \<Rightarrow> string option" where
  "validateIngress s = each (\<lambda>i. ingress_error (item ''ingress.listeners'' i)) (in_Listeners (ms_Ingress s))"

definition mesh_claims :: "MeshServer \<Rightarrow> (string \<times> string \<times> string) list" where
  "mesh_claims s =
     (if ms_AdminAddress s \<noteq> [] then [(''tcp'', ms_AdminAddress s, ''admin_address'')] else []) @
     (''udp'', tl_Address (tn_Listen (ms_Tunnel s)), ''tunnel.listen.address'') #
     map (\<lambda>i. (''tcp'', il_Address (in_Listeners (ms_Ingress s) ! i), item ''ingress.listeners'' i @ ''.address''))
       [0..<length (in_Listeners (ms_Ingress s))]"

definition validateSocketClaims :: "MeshServer \<Rightarrow> string option" where
  "validateSocketClaims s = (case claim_all (mesh_claims s) [] of Inl e \<Rightarrow> Some e | Inr _ \<Rightarrow> None)"

definition MeshServer_Validate :: "int \<Rightarrow> MeshServer \<Rightarrow> string option" where
  "MeshServer_Validate quicvarint_Max s =
     (let t = ms_Tunnel s in
      first_error
       [validateMeshIdentity ''server_id'' (ms_ServerID s),
        if ms_AdminAddress s \<noteq> [] then within ''admin_address'' (validateListenerAddress (ms_AdminAddress s)) else None,
        within ''tunnel.listen.address'' (validateListenerAddress (tl_Address (tn_Listen t))),
        within ''tunnel.listen.auth'' (ServerAuth_Validate (tl_Auth (tn_Listen t))),
        validateMeshServerTLS (tl_TLS (tn_Listen t)) ''tunnel.listen.tls'',
        Quic_Validate quicvarint_Max ''tunnel.quic'' (tn_Quic t),
        MeshTCPCapacity_Validate ''tunnel.capacity'' (tn_Capacity t),
        validateMeshTunnelSettings (tn_HeartbeatInterval t) (tn_HealthTimeout t) (tn_TCPCopyBufferSize t) ''tunnel'',
        validatePeers s,
        validateIngress s,
        check (ms_LoadBalancer s \<in> {''least-connections'', ''round-robin''}) ''load_balancer must be least-connections or round-robin'',
        check (ms_RoutingPolicy s \<in> {''shortest_path_first'', ''probe_all''}) ''routing_policy must be shortest_path_first or probe_all'',
        MeshProbeScheduler_Validate ''probe_scheduler'' (ms_ProbeScheduler s),
        MeshServerLimits_Validate ''limits'' (ms_Limits s),
        check (int (length (pg_Peers (tn_Peering t))) \<le> li_MaxPeers (ms_Limits s)) ''tunnel.peering.peers exceeds limits.max_peers'',
        validateSocketClaims s])"

section \<open>The client\<close>

record MeshServerEndpoint =
  se_ServerID :: string
  se_Address :: string
  se_ServerName :: string

record MeshClientTunnel =
  ct_Servers :: "MeshServerEndpoint list"
  ct_Quic :: Quic
  ct_Auth :: ClientAuth
  ct_TLS :: ClientTLS
  ct_HeartbeatInterval :: int
  ct_HealthTimeout :: int
  ct_TCPCopyBufferSize :: int

record MeshClient =
  mc_InstanceID :: string
  mc_AdminAddress :: string
  mc_Tunnel :: MeshClientTunnel
  mc_Local :: LocalService
  mc_Group :: MeshGroup

definition MeshClient_ApplyDefaults :: "MeshClient \<Rightarrow> MeshClient" where
  "MeshClient_ApplyDefaults c =
     (let t = mc_Tunnel c in
      c\<lparr>mc_Tunnel :=
          t\<lparr>ct_Auth := ClientAuth_ApplyDefaults (ct_Auth t),
            ct_HeartbeatInterval := Or (ct_HeartbeatInterval t) DefaultHeartbeatInterval,
            ct_HealthTimeout := Or (ct_HealthTimeout t) DefaultHealthTimeout,
            ct_TCPCopyBufferSize := Or (ct_TCPCopyBufferSize t) DefaultTCPCopyBufferSize\<rparr>,
        mc_Group := MeshGroup_ApplyDefaults (mc_Group c)\<rparr>)"

fun endpoints_loop :: "nat \<Rightarrow> MeshServerEndpoint list \<Rightarrow> (string \<times> nat) list \<Rightarrow> (string \<times> nat) list \<Rightarrow> string option" where
  "endpoints_loop i [] seenIDs seenAddresses = None"
| "endpoints_loop i (endpoint # endpoints) seenIDs seenAddresses =
     (let path = item ''tunnel.servers'' i in
      case first_error
        [validateMeshIdentity (path @ ''.server_id'') (se_ServerID endpoint),
         check (map_of seenIDs (se_ServerID endpoint) = None) (path @ ''.server_id duplicates another server_id''),
         within (path @ ''.address'') (ValidateAddress (se_Address endpoint)),
         check (map_of seenAddresses (se_Address endpoint) = None) (path @ ''.address duplicates another address'')]
      of Some e \<Rightarrow> Some e
      | None \<Rightarrow> endpoints_loop (Suc i) endpoints (AList.update (se_ServerID endpoint) i seenIDs)
                 (AList.update (se_Address endpoint) i seenAddresses))"

definition MeshClient_Validate :: "int \<Rightarrow> MeshClient \<Rightarrow> string option" where
  "MeshClient_Validate quicvarint_Max c =
     (let t = mc_Tunnel c in
      first_error
       [validateMeshIdentity ''instance_id'' (mc_InstanceID c),
        if mc_AdminAddress c \<noteq> [] then within ''admin_address'' (validateListenerAddress (mc_AdminAddress c)) else None,
        check (ct_Servers t \<noteq> []) ''tunnel.servers must contain at least one endpoint'',
        endpoints_loop 0 (ct_Servers t) [] [],
        Quic_Validate quicvarint_Max ''tunnel.quic'' (ct_Quic t),
        within ''tunnel.auth'' (ClientAuth_Validate (ct_Auth t)),
        within ''tunnel.tls'' (ClientTLS_Validate (ca_Method (ct_Auth t)) (ct_TLS t)),
        validateMeshTunnelSettings (ct_HeartbeatInterval t) (ct_HealthTimeout t) (ct_TCPCopyBufferSize t) ''tunnel'',
        check (\<not> is_blank (ls_Host (mc_Local c))) ''local.host is required'',
        check (1 \<le> ls_Port (mc_Local c) \<and> ls_Port (mc_Local c) \<le> 65535) ''local.port must be between 1 and 65535'',
        MeshGroup_Validate ''group'' (mc_Group c)])"

section \<open>Extra certificates and the final declaration\<close>

text \<open>\<open>bytes.TrimSpace\<close>: without the longest blank prefix and suffix.\<close>

definition TrimSpace :: "string \<Rightarrow> string" where
  "TrimSpace s =
     (let l = drop (last (filter (\<lambda>n. is_blank (take n s)) [0..<Suc (length s)])) s
      in take (hd (filter (\<lambda>n. is_blank (drop n l)) [0..<Suc (length l)])) l)"

text \<open>\<open>bytes.Count\<close> of a non-empty separator: occurrences that do not overlap.\<close>

function Count :: "string \<Rightarrow> string \<Rightarrow> nat" where
  "Count s p =
     (if p = [] then Suc (RuneCountInString s)
      else if s = [] then 0
      else if HasPrefix s p then Suc (Count (drop (length p) s) p)
      else Count (tl s) p)"
  by pat_completeness auto
termination by (relation "measure (\<lambda>(s, p). length s)") auto

record pem_block =
  pb_Type :: string
  pb_Headers :: nat
  pb_Bytes :: "byte list"

text \<open>Reading a file, and \<open>pem.Decode\<close> with the rest of its input.\<close>

record pem_library =
  pl_ReadFile :: "string \<Rightarrow> string option"
  pl_Decode :: "string \<Rightarrow> pem_block option \<times> string"

definition pemBegin :: string where
  "pemBegin = ''-----BEGIN ''"

partial_function (option) pem_loop :: "codec \<Rightarrow> pem_library \<Rightarrow> string \<Rightarrow> byte list list \<Rightarrow> bool \<Rightarrow> (string + byte list list \<times> bool) option" where
  "pem_loop cd pl data certificates found =
     (if data = [] then Some (Inr (certificates, found))
      else if \<not> HasPrefix data pemBegin then Some (Inl ''invalid PEM certificate data'')
      else let (block, rest) = pl_Decode pl data in
        case block of None \<Rightarrow> Some (Inl ''invalid PEM certificate data'')
        | Some b \<Rightarrow>
          if Count (take (length data - length rest) data) pemBegin \<noteq> 1 then Some (Inl ''invalid PEM certificate data'')
          else if pb_Type b \<noteq> ''CERTIFICATE'' \<or> pb_Headers b \<noteq> 0 then Some (Inl ''PEM block must be an unadorned CERTIFICATE'')
          else case cd_ParseCertificate cd (pb_Bytes b) of None \<Rightarrow> Some (Inl ''parse certificate'')
          | Some raw \<Rightarrow> pem_loop cd pl (TrimSpace rest) (certificates @ [raw]) True)"

fun files_loop :: "codec \<Rightarrow> pem_library \<Rightarrow> string list \<Rightarrow> byte list list \<Rightarrow> (string + byte list list) option" where
  "files_loop cd pl [] certificates = Some (Inr certificates)"
| "files_loop cd pl (path # paths) certificates =
     (case pl_ReadFile pl path of None \<Rightarrow> Some (Inl ''read certificate file'')
      | Some data \<Rightarrow>
        (case pem_loop cd pl (TrimSpace data) certificates False of None \<Rightarrow> None
         | Some (Inl e) \<Rightarrow> Some (Inl e)
         | Some (Inr (certificates', found)) \<Rightarrow>
             if \<not> found then Some (Inl ''no certificate found'') else files_loop cd pl paths certificates'))"

definition loadMeshExtraCACertificates :: "codec \<Rightarrow> pem_library \<Rightarrow> string list \<Rightarrow> (string + byte list list) option" where
  "loadMeshExtraCACertificates cd pl paths =
     map_option (map_sum id (\<lambda>certificates. compactSorted (sort certificates))) (files_loop cd pl paths [])"

text \<open>The error and the configuration as the call leaves it; \<open>None\<close> when it does not return.\<close>

definition FinalizeMeshClientConfig :: "int \<Rightarrow> codec \<Rightarrow> pem_library \<Rightarrow> MeshClient \<Rightarrow> (string option \<times> MeshClient) option" where
  "FinalizeMeshClientConfig quicvarint_Max cd pl cfg =
     (let c = MeshClient_ApplyDefaults cfg in
      case MeshClient_Validate quicvarint_Max c of
        Some e \<Rightarrow> Some (Some (''mesh client configuration validation failed: '' @ e), c)
      | None \<Rightarrow>
        (let g = MeshGroup_normalize (mc_Group c); c1 = c\<lparr>mc_Group := g\<rparr> in
         case loadMeshExtraCACertificates cd pl (ot_ExtraCAFiles (mg_OriginTLS g)) of None \<Rightarrow> None
         | Some (Inl e) \<Rightarrow> Some (Some (''mesh client configuration validation failed: '' @ e), c1)
         | Some (Inr certificates) \<Rightarrow>
             (let g' = map_certificates (\<lambda>_. certificates) g in
              case marshalMeshGroupCanonical cd g' of
                None \<Rightarrow> Some (Some ''marshal mesh group canonical declaration'', c1\<lparr>mc_Group := g'\<lparr>mg_canonicalBytes := []\<rparr>\<rparr>)
              | Some bytes \<Rightarrow> Some (None, c1\<lparr>mc_Group := g'\<lparr>mg_canonicalBytes := bytes\<rparr>\<rparr>))))"


declare Count.simps [simp del]

declare pem_loop.simps [code]

section \<open>A finalised client is accepted\<close>

lemma TrimSpace_length: "length (TrimSpace s) \<le> length s"
  by (simp add: TrimSpace_def Let_def)

text \<open>Each PEM block shortens the input, so the loop over a file ends.\<close>

lemma pem_loop_returns:
  assumes "\<And>data b rest. pl_Decode pl data = (Some b, rest) \<Longrightarrow> length rest < length data"
  shows "pem_loop cd pl data certificates found \<noteq> None"
proof (induction "length data" arbitrary: data certificates found rule: less_induct)
  case less
  obtain block rest where b: "pl_Decode pl data = (block, rest)"
    by (cases "pl_Decode pl data")
  show ?case
  proof (cases block)
    case None
    then show ?thesis
      by (simp add: pem_loop.simps [of cd pl data] b)
  next
    case (Some p)
    then have "length (TrimSpace rest) < length data"
      using assms [of data p rest] b TrimSpace_length [of rest] by simp
    then have "pem_loop cd pl (TrimSpace rest) cs True \<noteq> None" for cs
      by (rule less)
    then show ?thesis
      by (simp add: pem_loop.simps [of cd pl data] b Some split: option.split)
  qed
qed

lemma files_loop_returns:
  assumes "\<And>data b rest. pl_Decode pl data = (Some b, rest) \<Longrightarrow> length rest < length data"
  shows "files_loop cd pl paths certificates \<noteq> None"
proof (induction paths arbitrary: certificates)
  case (Cons path paths)
  show ?case
  proof (cases "pl_ReadFile pl path")
    case (Some data)
    have "pem_loop cd pl (TrimSpace data) certificates False \<noteq> None"
      by (rule pem_loop_returns) (rule assms)
    then obtain r where r: "pem_loop cd pl (TrimSpace data) certificates False = Some r"
      by blast
    show ?thesis
    proof (cases r)
      case (Inr p)
      obtain cs found where "p = (cs, found)"
        by (cases p)
      then show ?thesis
        using Cons.IH [of cs] by (simp add: Some r Inr)
    qed (simp add: Some r)
  qed simp
qed simp

definition raw_only :: "codec \<Rightarrow> byte list list \<Rightarrow> bool" where
  "raw_only cd certificates \<longleftrightarrow> (\<forall>raw \<in> set certificates. \<exists>der. cd_ParseCertificate cd der = Some raw)"

lemma pem_loop_raw:
  assumes "pem_loop cd pl data certificates found = Some (Inr (certificates', found'))" and "raw_only cd certificates"
  shows "raw_only cd certificates'"
proof -
  have "raw_only cd certificates \<longrightarrow> (case (Inr (certificates', found') :: string + byte list list \<times> bool) of Inl e \<Rightarrow> True | Inr (cs, f) \<Rightarrow> raw_only cd cs)"
  proof (rule pem_loop.raw_induct [OF _ assms(1),
      where P = "\<lambda>cd pl data certificates found y. raw_only cd certificates \<longrightarrow> (case y of Inl e \<Rightarrow> True | Inr (cs, f) \<Rightarrow> raw_only cd cs)"])
    fix loop and cd :: codec and pl data certificates found and y :: "string + byte list list \<times> bool"
    assume IH: "\<And>cd pl data certificates found y. loop cd pl data certificates found = Some y \<Longrightarrow>
        raw_only cd certificates \<longrightarrow> (case y of Inl e \<Rightarrow> True | Inr (cs, f) \<Rightarrow> raw_only cd cs)"
      and body: "(if data = [] then Some (Inr (certificates, found))
        else if \<not> HasPrefix data pemBegin then Some (Inl ''invalid PEM certificate data'')
        else let (block, rest) = pl_Decode pl data in
          case block of None \<Rightarrow> Some (Inl ''invalid PEM certificate data'')
          | Some b \<Rightarrow>
            if Count (take (length data - length rest) data) pemBegin \<noteq> 1 then Some (Inl ''invalid PEM certificate data'')
            else if pb_Type b \<noteq> ''CERTIFICATE'' \<or> pb_Headers b \<noteq> 0 then Some (Inl ''PEM block must be an unadorned CERTIFICATE'')
            else case cd_ParseCertificate cd (pb_Bytes b) of None \<Rightarrow> Some (Inl ''parse certificate'')
            | Some raw \<Rightarrow> loop cd pl (TrimSpace rest) (certificates @ [raw]) True) = Some y"
    show "raw_only cd certificates \<longrightarrow> (case y of Inl e \<Rightarrow> True | Inr (cs, f) \<Rightarrow> raw_only cd cs)"
    proof
      assume start: "raw_only cd certificates"
      show "case y of Inl e \<Rightarrow> True | Inr (cs, f) \<Rightarrow> raw_only cd cs"
      proof (cases "\<exists>rest raw der. cd_ParseCertificate cd der = Some raw \<and> loop cd pl (TrimSpace rest) (certificates @ [raw]) True = Some y")
        case True
        then obtain rest raw der where raw: "cd_ParseCertificate cd der = Some raw"
          and step: "loop cd pl (TrimSpace rest) (certificates @ [raw]) True = Some y"
          by blast
        have "raw_only cd (certificates @ [raw])"
          using start raw by (auto simp: raw_only_def)
        then show ?thesis
          using IH [OF step] by simp
      next
        case False
        then show ?thesis
          using body start by (auto split: if_splits option.splits prod.splits)
      qed
    qed
  qed
  then show ?thesis
    using assms(2) by simp
qed

lemma files_loop_raw:
  assumes "files_loop cd pl paths certificates = Some (Inr certificates')" and "raw_only cd certificates"
  shows "raw_only cd certificates'"
  using assms
proof (induction paths arbitrary: certificates)
  case (Cons path paths)
  obtain data cs where pem: "pem_loop cd pl (TrimSpace data) certificates False = Some (Inr (cs, True))"
    and rest: "files_loop cd pl paths cs = Some (Inr certificates')"
    using Cons.prems(1) by (auto split: option.splits sum.splits prod.splits if_splits)
  have "raw_only cd cs"
    by (rule pem_loop_raw [OF pem Cons.prems(2)])
  then show ?case
    by (rule Cons.IH [OF rest])
qed simp

lemma load_certificates:
  assumes "loadMeshExtraCACertificates cd pl paths = Some (Inr cs)"
  shows "sorted_wrt (<) cs" and "raw_only cd cs" and "paths = [] \<Longrightarrow> cs = []"
proof -
  obtain raw where raw: "files_loop cd pl paths [] = Some (Inr raw)" and cs: "cs = compactSorted (sort raw)"
  proof -
    obtain r where r: "files_loop cd pl paths [] = Some r" and m: "map_sum id (\<lambda>certificates. compactSorted (sort certificates)) r = Inr cs"
      using assms unfolding loadMeshExtraCACertificates_def by (cases "files_loop cd pl paths []") simp_all
    from m obtain raw where "r = Inr raw" and "cs = compactSorted (sort raw)"
      by (cases r) simp_all
    with r show ?thesis
      by (intro that) simp_all
  qed
  show "sorted_wrt (<) cs"
    by (simp add: cs compact_sorted_strict)
  have "raw_only cd raw"
    by (rule files_loop_raw [OF raw]) (simp add: raw_only_def)
  then show "raw_only cd cs"
    by (simp add: raw_only_def cs)
  show "cs = []" if "paths = []"
    using raw that by (simp add: cs compactSorted_def)
qed

lemma finalize_prepared: "map_certificates (\<lambda>_. cs) (MeshGroup_normalize (mc_Group (MeshClient_ApplyDefaults c))) = prepared (mc_Group c) cs"
  by (simp add: prepared_def MeshClient_ApplyDefaults_def Let_def)

lemma finalize_result:
  assumes "FinalizeMeshClientConfig m cd pl c = Some (None, c')"
  obtains cs b where "group_ok (MeshGroup_ApplyDefaults (mc_Group c))"
    and "loadMeshExtraCACertificates cd pl (ot_ExtraCAFiles (mg_OriginTLS (mc_Group c))) = Some (Inr cs)"
    and "fst (marshalMeshGroupCanonicalMeasured cd (prepared (mc_Group c) cs) None) = Some b"
    and "mc_Group c' = (prepared (mc_Group c) cs)\<lparr>mg_canonicalBytes := b\<rparr>"
proof -
  have files: "ot_ExtraCAFiles (mg_OriginTLS (MeshGroup_normalize (mc_Group (MeshClient_ApplyDefaults c)))) =
      ot_ExtraCAFiles (mg_OriginTLS (mc_Group c))"
    by (simp add: MeshClient_ApplyDefaults_def MeshGroup_normalize_def MeshGroup_ApplyDefaults_def Let_def)
  have group: "mc_Group (MeshClient_ApplyDefaults c) = MeshGroup_ApplyDefaults (mc_Group c)"
    by (simp add: MeshClient_ApplyDefaults_def Let_def)
  note final = assms [unfolded FinalizeMeshClientConfig_def Let_def files finalize_prepared]
  have valid: "MeshClient_Validate m (MeshClient_ApplyDefaults c) = None"
    using final by (cases "MeshClient_Validate m (MeshClient_ApplyDefaults c)") simp_all
  then have "MeshGroup_Validate ''group'' (MeshGroup_ApplyDefaults (mc_Group c)) = None"
    unfolding MeshClient_Validate_def Let_def first_error_None group by simp
  then have ok: "group_ok (MeshGroup_ApplyDefaults (mc_Group c))"
    by (simp add: group_validate_None)
  obtain r where r: "loadMeshExtraCACertificates cd pl (ot_ExtraCAFiles (mg_OriginTLS (mc_Group c))) = Some r"
    using final valid by (cases "loadMeshExtraCACertificates cd pl (ot_ExtraCAFiles (mg_OriginTLS (mc_Group c)))") simp_all
  obtain cs where cs: "r = Inr cs"
    using final valid r by (cases r) simp_all
  obtain b where b: "marshalMeshGroupCanonical cd (prepared (mc_Group c) cs) = Some b"
    using final valid r cs by (cases "marshalMeshGroupCanonical cd (prepared (mc_Group c) cs)") simp_all
  have "mc_Group c' = (prepared (mc_Group c) cs)\<lparr>mg_canonicalBytes := b\<rparr>"
    using final valid r cs b by auto
  then show ?thesis
    using that [OF ok _ _] r cs b by (simp add: marshalMeshGroupCanonical_def)
qed

lemma finalize_returns:
  assumes "\<And>data b rest. pl_Decode pl data = (Some b, rest) \<Longrightarrow> length rest < length data"
  shows "\<exists>err c'. FinalizeMeshClientConfig m cd pl c = Some (err, c')"
proof -
  let ?paths = "ot_ExtraCAFiles (mg_OriginTLS (MeshGroup_normalize (mc_Group (MeshClient_ApplyDefaults c))))"
  have "files_loop cd pl ?paths [] \<noteq> None"
    by (rule files_loop_returns) (rule assms)
  then obtain r where "loadMeshExtraCACertificates cd pl ?paths = Some r"
    by (auto simp: loadMeshExtraCACertificates_def)
  then show ?thesis
    unfolding FinalizeMeshClientConfig_def Let_def by (auto split: option.split sum.split)
qed

text \<open>C7: \<open>FinalizeMeshClientConfig\<close> always returns, and the declaration of a client it accepts is accepted by the
  server's parser, which reads off the client's group, rule version and policy. The JSON decoder inverts the
  encoder, a certificate's raw bytes parse again and decoding a PEM block consumes input.\<close>

theorem canonical_accepted:
  assumes json: "\<And>d b. cd_group cd d = Some b \<Longrightarrow> cd_Unmarshal cd b = (d, True)"
    and x509: "\<And>der raw. cd_ParseCertificate cd der = Some raw \<Longrightarrow> cd_ParseCertificate cd raw \<noteq> None"
    and pem: "\<And>data b rest. pl_Decode pl data = (Some b, rest) \<Longrightarrow> length rest < length data"
  shows "\<exists>err c'. FinalizeMeshClientConfig m cd pl c = Some (err, c') \<and>
    (err = None \<longrightarrow>
       fst (ParseMeshGroupCanonicalPolicyMeasured cd (mg_canonicalBytes (mc_Group c'))) =
         Inr (mg_GroupID (mc_Group c), mg_RuleVersion (mc_Group c), mg_OutdatedClientPolicy (mc_Group c')))"
proof -
  obtain err c' where final: "FinalizeMeshClientConfig m cd pl c = Some (err, c')"
  proof -
    have "\<exists>err c'. FinalizeMeshClientConfig m cd pl c = Some (err, c')"
      by (rule finalize_returns) (rule pem)
    then show thesis
      using that by blast
  qed
  have "fst (ParseMeshGroupCanonicalPolicyMeasured cd (mg_canonicalBytes (mc_Group c'))) =
      Inr (mg_GroupID (mc_Group c), mg_RuleVersion (mc_Group c), mg_OutdatedClientPolicy (mc_Group c'))" if "err = None"
  proof -
    obtain cs b where ok: "group_ok (MeshGroup_ApplyDefaults (mc_Group c))"
      and load: "loadMeshExtraCACertificates cd pl (ot_ExtraCAFiles (mg_OriginTLS (mc_Group c))) = Some (Inr cs)"
      and marshal: "fst (marshalMeshGroupCanonicalMeasured cd (prepared (mc_Group c) cs) None) = Some b"
      and group: "mc_Group c' = (prepared (mc_Group c) cs)\<lparr>mg_canonicalBytes := b\<rparr>"
      using final [unfolded \<open>err = None\<close>] by (rule finalize_result)
    have parsed: "cd_ParseCertificate cd der \<noteq> None" if "der \<in> set cs" for der
      using load_certificates(2) [OF load] that x509 unfolding raw_only_def by blast
    have "MeshOriginTLS_validate [] (mg_OriginTLS (mc_Group c)) = None"
      using ok by (simp add: group_ok_def MeshGroup_ApplyDefaults_def)
    then have flags: "cs = [] \<or> ot_Enabled (mg_OriginTLS (mc_Group c)) \<and> ot_Verify (mg_OriginTLS (mc_Group c))"
      using load_certificates(3) [OF load] unfolding MeshOriginTLS_validate_def first_error_None by auto
    obtain hs where hs: "canonical_group cd (projection (prepared (mc_Group c) cs) hs)"
      "cd_group cd (projection (prepared (mc_Group c) cs) hs) = Some b"
      using marshal_canonical [OF ok marshal load_certificates(1) [OF load] parsed flags] by blast
    show ?thesis
      using parse_canonical [OF hs json [OF hs(2)]] by (simp add: group projection_def prepared_fields)
  qed
  then show ?thesis
    using final by blast
qed

text \<open>A client with one route and one extra certificate, and a codec for its declaration.\<close>

definition sample_client :: MeshClient where
  "sample_client =
     \<lparr>mc_InstanceID = ''pod-1'', mc_AdminAddress = [],
      mc_Tunnel =
        \<lparr>ct_Servers = [\<lparr>se_ServerID = ''edge'', se_Address = ''a:1'', se_ServerName = ''edge''\<rparr>],
         ct_Quic = \<lparr>qc_InitialStreamReceiveWindow = 0, qc_MaxStreamReceiveWindow = 0, qc_InitialConnectionReceiveWindow = 0,
           qc_MaxConnectionReceiveWindow = 0, qc_MaxIncomingStreams = 0, qc_KeepAlivePeriod = 0, qc_HandshakeIdleTimeout = 0,
           qc_MaxIdleTimeout = 0\<rparr>,
         ct_Auth = \<lparr>ca_Method = [], ca_Token = []\<rparr>,
         ct_TLS = \<lparr>ct_CACertFile = ''ca'', ct_ClientCertFile = ''crt'', ct_ClientKeyFile = ''key'', ct_AutoReload = False\<rparr>,
         ct_HeartbeatInterval = 0, ct_HealthTimeout = 0, ct_TCPCopyBufferSize = 0\<rparr>,
      mc_Local = \<lparr>ls_Host = ''localhost'', ls_Port = 80\<rparr>,
      mc_Group =
        \<lparr>mg_GroupID = ''web'', mg_RuleVersion = 3, mg_Metric = 5, mg_OutdatedClientPolicy = [],
         mg_Routes =
           \<lparr>mr_HTTP = [\<lparr>hr_Hostnames = [''b.io'', ''a.io''],
              hr_Matches = [empty_match\<lparr>hm_Method := ''PUT''\<rparr>,
                empty_match\<lparr>hm_Method := ''GET'', hm_Headers := [\<lparr>vm_Type = [], vm_Name = ''X'', vm_Value = ''1''\<rparr>]\<rparr>]\<rparr>],
            mr_TLSPassthrough = None\<rparr>,
         mg_Probe = \<lparr>mp_Type = [], mp_Host = [], mp_Path = []\<rparr>,
         mg_OriginTLS = \<lparr>ot_Enabled = True, ot_Verify = True, ot_ExtraCAFiles = [''extra''], ot_ExtraCACertificates = []\<rparr>,
         mg_canonicalBytes = []\<rparr>\<rparr>"

definition sample_declaration :: meshGroupCanonical where
  "sample_declaration =
     \<lparr>cg_GroupID = ''web'', cg_RuleVersion = 3, cg_Metric = 5, cg_OutdatedClientPolicy = ''apply_latest_rules'',
      cg_Routes =
        \<lparr>crs_HTTP = [\<lparr>cr_Hostnames = [''a.io'', ''b.io''],
           cr_Matches =
             [\<lparr>cm_Path = \<lparr>pm_Type = ''PathPrefix'', pm_Value = ''/''\<rparr>, cm_Method = ''GET'',
               cm_Headers = [\<lparr>vm_Type = ''Exact'', vm_Name = ''x'', vm_Value = ''1''\<rparr>], cm_QueryParams = []\<rparr>,
              \<lparr>cm_Path = \<lparr>pm_Type = ''PathPrefix'', pm_Value = ''/''\<rparr>, cm_Method = ''PUT'', cm_Headers = [], cm_QueryParams = []\<rparr>]\<rparr>],
         crs_TLSPassthrough = None\<rparr>,
      cg_Probe = \<lparr>mp_Type = ''tcp'', mp_Host = [], mp_Path = []\<rparr>,
      cg_OriginTLS = \<lparr>co_Enabled = True, co_Verify = True, co_ExtraCACertificates = [[7]]\<rparr>\<rparr>"

definition sample_codec :: codec where
  "sample_codec =
     \<lparr>cd_match = (\<lambda>m. Some (map (\<lambda>c. of_nat (of_char c)) (cm_Method m))), cd_route = (\<lambda>r. Some []),
      cd_group = (\<lambda>d. if d = sample_declaration then Some [1] else None), cd_Unmarshal = (\<lambda>b. (sample_declaration, True)),
      cd_ParseCertificate = Some, cd_cap = (\<lambda>b. int (length b))\<rparr>"

definition sample_pem :: pem_library where
  "sample_pem =
     \<lparr>pl_ReadFile = (\<lambda>path. Some '' -----BEGIN CERTIFICATE''),
      pl_Decode = (\<lambda>data. if data = [] then (None, []) else (Some \<lparr>pb_Type = ''CERTIFICATE'', pb_Headers = 0, pb_Bytes = [7]\<rparr>, []))\<rparr>"

lemma sample_final:
  "map_option (map_prod id (\<lambda>c. mg_OutdatedClientPolicy (mc_Group c))) (FinalizeMeshClientConfig (2 ^ 62 - 1) sample_codec sample_pem sample_client) =
     Some (None, ''apply_latest_rules'')"
  by code_simp

theorem canonical_accepted_witness:
  "\<exists>c'. FinalizeMeshClientConfig (2 ^ 62 - 1) sample_codec sample_pem sample_client = Some (None, c') \<and>
     fst (ParseMeshGroupCanonicalPolicyMeasured sample_codec (mg_canonicalBytes (mc_Group c'))) = Inr (''web'', 3, ''apply_latest_rules'')"
proof -
  have json: "cd_Unmarshal sample_codec b = (d, True)" if "cd_group sample_codec d = Some b" for d b
    using that by (simp add: sample_codec_def split: if_splits)
  have x509: "cd_ParseCertificate sample_codec raw \<noteq> None" if "cd_ParseCertificate sample_codec der = Some raw" for der raw
    by (simp add: sample_codec_def)
  have pem: "length rest < length data" if "pl_Decode sample_pem data = (Some b, rest)" for data b rest
    using that by (auto simp: sample_pem_def split: if_splits)
  have "\<exists>err c'. FinalizeMeshClientConfig (2 ^ 62 - 1) sample_codec sample_pem sample_client = Some (err, c') \<and>
    (err = None \<longrightarrow> fst (ParseMeshGroupCanonicalPolicyMeasured sample_codec (mg_canonicalBytes (mc_Group c'))) =
      Inr (mg_GroupID (mc_Group sample_client), mg_RuleVersion (mc_Group sample_client), mg_OutdatedClientPolicy (mc_Group c')))"
    by (rule canonical_accepted) (fact json x509 pem)+
  then obtain err c' where final: "FinalizeMeshClientConfig (2 ^ 62 - 1) sample_codec sample_pem sample_client = Some (err, c')"
    and parse: "err = None \<longrightarrow> fst (ParseMeshGroupCanonicalPolicyMeasured sample_codec (mg_canonicalBytes (mc_Group c'))) =
      Inr (mg_GroupID (mc_Group sample_client), mg_RuleVersion (mc_Group sample_client), mg_OutdatedClientPolicy (mc_Group c'))"
    by (elim exE conjE)
  have result: "err = None" "mg_OutdatedClientPolicy (mc_Group c') = ''apply_latest_rules''"
    using sample_final unfolding final by simp_all
  have "mg_GroupID (mc_Group sample_client) = ''web''" "mg_RuleVersion (mc_Group sample_client) = 3"
    by (simp_all add: sample_client_def)
  then show ?thesis
    using parse result by (intro exI [of _ c'] conjI) (simp_all only: final simp_thms)
qed

end
