(* ===== verification/Spec2Isabelle.thy ===== *)
theory Spec2Isabelle
  imports Udp_Reassembly Pool_Runs Wire_Codec Token Outbound Mesh_Ledger Tcp_Source Mesh_Arbitration Mesh_Choice Config_Mesh
begin

text \<open>
  A verification development of QMux, a transport layer tunnel over QUIC. All paths are relative to \<^verbatim>\<open>src/\<close>.

  \<^bold>\<open>The program.\<close> A client behind a NAT dials a server and registers over a control stream: a register message, an
  acknowledgement with the negotiated capabilities, and an authentication by mutual TLS or by a token bound to the TLS
  session. The server keeps the registered connections of a listener in a pool, chooses one for every TCP connection or
  UDP session that arrives, and forwards TCP over QUIC streams and UDP over QUIC datagrams, which are
  split and reassembled where a packet is too large. The mesh variant connects servers to each other as well: sessions of
  clients and of peer servers are generations of a registry, groups of clients declare what they serve in declarations
  that are sent in chunks and shared through a ledger, and a flow is admitted at its source and then leased to a next hop.
  Both variants are configured by files with defaults and checks.

  \<^bold>\<open>How code becomes definitions.\<close> A struct is a record whose fields carry a short prefix, an error is a constructor, a
  function that can fail returns a sum with the error on the left, a map is an association list, a pointer is an index into
  a list of objects of the state with \<open>None\<close> for nil. Machine words are words where they can wrap; Go's \<^verbatim>\<open>int\<close> is an
  integer. An operation that holds a mutex is one function of the state, and concurrency is any sequence of such
  operations; loops that compete with other goroutines take what the others do as an argument (\<open>AllocateUDPEpoch\<close>,
  the health scans of the balancer, \<open>RecordStream\<close>). Ranging over a map takes an arbitrary permutation where the
  order can show. JSON, PEM, X.509, HMAC, SHA-256, the TLS exporter and the transport are arguments; what is assumed of
  them is written in the theorem that needs it.

  \<^bold>\<open>Theories and the code they model.\<close>
  \<^item> \<open>Prelude\<close>: machine integers, slices, association lists, the locale \<open>machine\<close> of invariants along operation sequences.
  \<^item> \<open>Udp_Buffer_Pool\<close> (\<^verbatim>\<open>protocol/udp_buffer_pool.go\<close>): the three tiers behind the locale \<open>buffer_tier\<close>.
  \<^item> \<open>Udp_Datagram\<close>, \<open>Udp_Assembler\<close>, \<open>Udp_Reassembly\<close> (\<^verbatim>\<open>protocol/udp_fragment.go\<close>): headers, \<open>FragmentUDPPooled\<close>,
    \<open>DecodeUDPDatagram\<close>, fragment identities; \<open>AddFragment\<close> with its capacity counters and shards, the cleanup tick and
    \<open>Close\<close>. The locale \<open>fragment_assembler\<close> is the abstract table the assembler refines.
  \<^item> \<open>Balancer\<close> (\<^verbatim>\<open>server/pool/balancer.go\<close>): round robin and least connections, both interpretations of the locale \<open>load_balancer\<close>.
  \<^item> \<open>Pool\<close>, \<open>Pool_Invariant\<close>, \<open>Pool_Runs\<close> (\<^verbatim>\<open>server/pool/pool.go\<close>): reservations, registration, retirement with its drain
    notification, UDP sessions, TCP admission and leases, queries and snapshots; the invariant; runs of all of them.
  \<^item> \<open>Wire_Message\<close> (\<^verbatim>\<open>protocol/message.go\<close>) and \<open>Wire_Codec\<close> (\<^verbatim>\<open>protocol/codec.go\<close>, \<^verbatim>\<open>protocol/mesh_control.go\<close>): messages,
    negotiation, framing with limits, and the mesh control records.
  \<^item> \<open>Token\<close> (\<^verbatim>\<open>auth/token/token.go\<close>, \<^verbatim>\<open>server/auth\<close>): canonical transcripts, proofs, and the two authenticators.
  \<^item> \<open>Outbound\<close> (\<^verbatim>\<open>internal/outbound\<close>): the published connection, reconnect intent and delay.
  \<^item> \<open>Mesh_Ledger\<close> (\<^verbatim>\<open>mesh/declaration.go\<close>) and \<open>Tcp_Source\<close> (\<^verbatim>\<open>mesh/admission.go\<close>).
  \<^item> \<open>Mesh_Registry\<close> (\<^verbatim>\<open>mesh/registry.go\<close>, the readiness part of \<^verbatim>\<open>mesh/selection.go\<close>, \<open>commitClientGroup\<close> of
    \<^verbatim>\<open>mesh/control_state.go\<close>), with its invariant in \<open>Mesh_Slots\<close>, \<open>Mesh_Registry_Inv\<close> and \<open>Mesh_Registry_Steps\<close>, its runs in
    \<open>Mesh_Registry_Runs\<close>, and arbitrations in \<open>Mesh_Contest\<close> and \<open>Mesh_Arbitration\<close>.
  \<^item> \<open>Mesh_Selection\<close>, \<open>Mesh_Leases\<close>, \<open>Mesh_Choice\<close> (\<^verbatim>\<open>mesh/selection.go\<close>): leases, candidate sets, \<open>next\<close> and \<open>open\<close>, on top of the
    registry and the sources.
  \<^item> \<open>Go_Text\<close>: regular expressions, UTF-8 and string functions; \<open>Config_Common\<close> (\<^verbatim>\<open>config/common.go\<close>, \<^verbatim>\<open>defaults.go\<close>,
    \<^verbatim>\<open>server.go\<close>, \<^verbatim>\<open>client.go\<close>); \<open>Mesh_Group\<close>, \<open>Mesh_Canonical\<close>, \<open>Config_Mesh\<close> (\<^verbatim>\<open>config/mesh.go\<close>).

  \<^bold>\<open>What is shown.\<close>
  \<^item> UDP: splitting and decoding are inverse, decoding accepts exactly the valid encodings, a packet that is split, reordered,
    duplicated and mixed with foreign traffic is delivered byte for byte, counters and buffers of the assembler are
    exact along any run, it refines the abstract table, and cleanup and \<open>Close\<close> release exactly what they should.
  \<^item> Pool: in every reachable state counters are the numbers of reservations and leases, limits and high-water marks hold, a
    retired generation never returns, a lease is released once, the drain notification is sent exactly once with the
    right stream; when \<open>Add\<close> and \<open>ReserveUDP\<close> succeed; fairness and minimality of the balancers.
  \<^item> Wire: reading is exact with respect to the limit, messages and records are read back, accepted records satisfy their
    sender's checks, negotiation agrees on both sides.
  \<^item> Tokens: acceptance is characterised down to the bytes under the MAC, against an encoding written out independently, and these
    bytes determine the registration and its connection.
  \<^item> Mesh: exactness of registry, group availability, ledger, sources and leases under any interleaving, arbitrations that
    always settle, \<open>Stop\<close> that leaves nothing, and a selection that obeys its policy and leaks no lease.
  \<^item> Configuration: when a server configuration is valid, and that the declaration a client finalises is the one the
    server's parser accepts.

  \<^bold>\<open>Termination and bounds.\<close> No definition uses fuel. Recursion that is not structural has a measure: \<open>removeLocked\<close> takes an
  arbitration out of the map in each round, \<open>delayLoop\<close> counts its stage down, \<open>open\<close> tries each candidate once. The
  loop over PEM blocks ends only if the library consumes input, so it is a partial function with \<open>None\<close> for not returning; that
  finalising a configuration returns is part of its theorem. Identifiers of generations and arbitrations are
  natural numbers, as 64 bit counters do not wrap in a run; counters where wrap-around matters are words.

  \<^bold>\<open>Not modelled.\<close> The goroutines that move bytes: the client (\<^verbatim>\<open>client\<close>), the server loops (\<^verbatim>\<open>server/server.go\<close>),
  the traffic listeners (\<^verbatim>\<open>server/traffic\<close>), the mesh client, server and sessions and the exchange of declarations and
  paths (\<^verbatim>\<open>mesh/client.go\<close>, \<^verbatim>\<open>server.go\<close>, \<^verbatim>\<open>session.go\<close>, \<^verbatim>\<open>registration.go\<close>, \<^verbatim>\<open>initial.go\<close>, \<^verbatim>\<open>control_apply.go\<close> and the rest of
  \<^verbatim>\<open>control_state.go\<close>): they are input and output, timers and contexts around the operations above. Also dialling and name resolution,
  YAML loading, certificate reloading and ticket keys, statistics and metrics, the commands, logging and error texts with
  their quoted values, and the reuse policy of \<^verbatim>\<open>sync.Pool\<close>, which may drop buffers at any time.
\<close>

end
